(* ===== verification/Prelude.thy ===== *)
theory Prelude
  imports Main "HOL-Library.Word"
begin

text \<open>
  Shared vocabulary of the development: the machine integer types of the Rust sources, the
  big-endian byte conversions of \<open>to_be_bytes\<close> and \<open>from_be_bytes\<close>, checked arithmetic, the UTF-8
  acceptance test of \<open>std::str::from_utf8\<close>, and the generic list, option and word lemmas that the
  component theories use.

  Conventions. A Rust \<open>u8\<close>, \<open>u16\<close>, \<open>u32\<close> or \<open>u64\<close> is a word of that width; a \<open>usize\<close> is a natural
  number, with \<open>usize_max\<close> written out where the source uses checked arithmetic; a byte subslice, a
  vector of bytes and a byte array are lists of bytes; a \<open>Result\<close> is a sum whose left side is the
  error. A \<open>str\<close> or \<open>String\<close> is the list of its UTF-8 bytes. Calls of the logging macro
  \<open>tracing::trace!\<close> have no effect on any value and are not modelled.
\<close>

named_theorems wire_simps \<open>evaluation rules for the wire formats\<close>
named_theorems state_simps \<open>projections of updated component states\<close>

type_synonym byte = "8 word"
type_synonym u16 = "16 word"
type_synonym u32 = "32 word"
type_synonym u64 = "64 word"
type_synonym usize = nat
type_synonym bytes = "byte list"
type_synonym ('e, 'a) result = "'e + 'a"

section \<open>Results\<close>

text \<open>The \<open>?\<close> operator: stop at an error, otherwise continue with the value.\<close>

definition and_then :: "('e, 'a) result \<Rightarrow> ('a \<Rightarrow> ('e, 'b) result) \<Rightarrow> ('e, 'b) result" where
  "and_then r f = (case r of Inl e \<Rightarrow> Inl e | Inr a \<Rightarrow> f a)"

definition map_err :: "('e \<Rightarrow> 'f) \<Rightarrow> ('e, 'a) result \<Rightarrow> ('f, 'a) result" where
  "map_err g r = (case r of Inl e \<Rightarrow> Inl (g e) | Inr a \<Rightarrow> Inr a)"

definition ok_or :: "'e \<Rightarrow> 'a option \<Rightarrow> ('e, 'a) result" where
  "ok_or e x = (case x of None \<Rightarrow> Inl e | Some a \<Rightarrow> Inr a)"

definition is_ok :: "('e, 'a) result \<Rightarrow> bool" where
  "is_ok r = (case r of Inl _ \<Rightarrow> False | Inr _ \<Rightarrow> True)"

lemma and_then_simps [simp]:
  "and_then (Inl e) f = Inl e"
  "and_then (Inr a) f = f a"
  by (simp_all add: and_then_def)

lemma and_then_eq_Inr: "and_then r f = Inr b \<longleftrightarrow> (\<exists>a. r = Inr a \<and> f a = Inr b)"
  by (cases r) auto

lemma and_then_eq_Inl:
  "and_then r f = Inl e \<longleftrightarrow> r = Inl e \<or> (\<exists>a. r = Inr a \<and> f a = Inl e)"
  by (cases r) auto

lemma map_err_simps [simp]:
  "map_err g (Inl e) = Inl (g e)"
  "map_err g (Inr a) = Inr a"
  by (simp_all add: map_err_def)

lemma map_err_eq_Inr [simp]: "map_err g r = Inr a \<longleftrightarrow> r = Inr a"
  by (cases r) auto

lemma map_err_eq_Inl: "map_err g r = Inl f \<longleftrightarrow> (\<exists>e. r = Inl e \<and> f = g e)"
  by (cases r) auto

lemma ok_or_simps [simp]:
  "ok_or e None = Inl e"
  "ok_or e (Some a) = Inr a"
  by (simp_all add: ok_or_def)

lemma ok_or_eq_Inr [simp]: "ok_or e x = Inr a \<longleftrightarrow> x = Some a"
  by (cases x) auto

lemma ok_or_eq_Inl [simp]: "ok_or e x = Inl f \<longleftrightarrow> x = None \<and> f = e"
  by (cases x) auto

lemma is_ok_simps [simp]: "is_ok (Inr a)" "\<not> is_ok (Inl e)"
  by (simp_all add: is_ok_def)

lemma is_ok_iff: "is_ok r \<longleftrightarrow> (\<exists>a. r = Inr a)"
  by (cases r) auto

text \<open>The \<open>?\<close> operator on a call that threads a state.\<close>

definition and_thread ::
    "('e, 'a) result \<times> 'g \<Rightarrow> ('a \<Rightarrow> 'g \<Rightarrow> ('e, 'b) result \<times> 'g) \<Rightarrow> ('e, 'b) result \<times> 'g" where
  "and_thread out f = (case out of (Inl e, g) \<Rightarrow> (Inl e, g) | (Inr a, g) \<Rightarrow> f a g)"

lemma and_thread_simps [simp]:
  "and_thread (Inl e, g) f = (Inl e, g)"
  "and_thread (Inr a, g) f = f a g"
  by (simp_all add: and_thread_def)

lemma and_thread_eq_Inr:
  "and_thread out f = (Inr b, g') \<longleftrightarrow> (\<exists>a g. out = (Inr a, g) \<and> f a g = (Inr b, g'))"
  by (auto simp: and_thread_def split: prod.splits sum.splits)

section \<open>Checked machine arithmetic\<close>

text \<open>The address width of the supported targets.\<close>

definition usize_max :: usize where
  "usize_max = 2 ^ 64 - 1"

definition checked_add_usize :: "usize \<Rightarrow> usize \<Rightarrow> usize option" where
  "checked_add_usize a b = (if a + b \<le> usize_max then Some (a + b) else None)"

definition saturating_add_usize :: "usize \<Rightarrow> usize \<Rightarrow> usize" where
  "saturating_add_usize a b = min (a + b) usize_max"

definition saturating_mul_usize :: "usize \<Rightarrow> usize \<Rightarrow> usize" where
  "saturating_mul_usize a b = min (a * b) usize_max"

definition checked_add :: "'a::len word \<Rightarrow> 'a word \<Rightarrow> 'a word option" where
  "checked_add a b = (if unat a + unat b < 2 ^ LENGTH('a) then Some (a + b) else None)"

lemma checked_add_usize_eq_Some:
  "checked_add_usize a b = Some c \<longleftrightarrow> c = a + b \<and> a + b \<le> usize_max"
  by (auto simp: checked_add_usize_def)

lemma checked_add_eq_Some:
  "checked_add a b = Some c \<longleftrightarrow> unat a + unat b < 2 ^ LENGTH('a) \<and> c = a + b"
  for a b :: "'a::len word"
  by (auto simp: checked_add_def)

lemma checked_add_unat:
  assumes "checked_add a b = Some (c :: 'a::len word)"
  shows "unat c = unat a + unat b"
  using assms by (simp add: checked_add_eq_Some unat_word_ariths)

lemma checked_add_eq_None:
  "checked_add a b = None \<longleftrightarrow> 2 ^ LENGTH('a) \<le> unat a + unat b"
  for a b :: "'a::len word"
  by (auto simp: checked_add_def)

section \<open>Big-endian integers\<close>

text \<open>
  \<open>be_bytes n x\<close> is the \<open>n\<close>-byte big-endian form of \<open>x\<close>, most significant byte first;
  \<open>be_val\<close> reads such a list back.
\<close>

fun be_bytes :: "nat \<Rightarrow> nat \<Rightarrow> bytes" where
  "be_bytes 0 x = []"
| "be_bytes (Suc n) x = be_bytes n (x div 256) @ [of_nat (x mod 256)]"

definition be_val :: "bytes \<Rightarrow> nat" where
  "be_val bs = foldl (\<lambda>a b. a * 256 + unat b) 0 bs"

lemma be_val_Nil [simp]: "be_val [] = 0"
  by (simp add: be_val_def)

lemma be_val_snoc [simp]: "be_val (bs @ [b]) = be_val bs * 256 + unat b"
  by (simp add: be_val_def)

lemma length_be_bytes [simp]: "length (be_bytes n x) = n"
  by (induction n arbitrary: x) auto

lemma unat_byte_mod: "unat (of_nat (x mod 256) :: byte) = x mod 256"
  by (simp add: unat_of_nat)

lemma unat_byte_less: "unat (b :: byte) < 256"
  using unsigned_less [of b] by simp

lemma be_val_be_bytes: "be_val (be_bytes n x) = x mod 256 ^ n"
proof (induction n arbitrary: x)
  case 0
  then show ?case by simp
next
  case (Suc n)
  have "x mod 256 ^ Suc n = 256 * (x div 256 mod 256 ^ n) + x mod 256"
    by (simp add: mod_mult2_eq)
  then show ?case
    by (simp add: Suc.IH unat_byte_mod del: unat_of_nat)
qed

lemma be_val_less: "be_val bs < 256 ^ length bs"
proof (induction bs rule: rev_induct)
  case Nil
  then show ?case by simp
next
  case (snoc b bs)
  have "be_val bs * 256 + unat b < (be_val bs + 1) * 256"
    using unat_byte_less [of b] by simp
  also have "\<dots> \<le> 256 ^ length bs * 256"
    using snoc.IH by (simp del: mult_Suc)
  finally show ?case by (simp add: mult.commute)
qed

lemma be_bytes_be_val: "length bs = n \<Longrightarrow> be_bytes n (be_val bs) = bs"
proof (induction bs arbitrary: n rule: rev_induct)
  case Nil
  then show ?case by simp
next
  case (snoc b bs)
  then obtain m where m: "n = Suc m" "length bs = m" by (cases n) auto
  have "(be_val bs * 256 + unat b) div 256 = be_val bs"
    using unat_byte_less [of b] by simp
  moreover have "(be_val bs * 256 + unat b) mod 256 = unat b"
    using unat_byte_less [of b] by simp
  ultimately show ?case
    using m snoc.IH [of m] by simp
qed

lemma be_bytes_inject:
  assumes "be_bytes n x = be_bytes n y" "x < 256 ^ n" "y < 256 ^ n"
  shows "x = y"
proof -
  have "be_val (be_bytes n x) = be_val (be_bytes n y)" by (simp only: assms(1))
  then show ?thesis using assms(2,3) by (simp only: be_val_be_bytes mod_less)
qed

definition u16_to_be :: "u16 \<Rightarrow> bytes" where
  "u16_to_be w = be_bytes 2 (unat w)"

definition u32_to_be :: "u32 \<Rightarrow> bytes" where
  "u32_to_be w = be_bytes 4 (unat w)"

definition u64_to_be :: "u64 \<Rightarrow> bytes" where
  "u64_to_be w = be_bytes 8 (unat w)"

definition u16_from_be :: "bytes \<Rightarrow> u16" where
  "u16_from_be bs = of_nat (be_val bs)"

definition u32_from_be :: "bytes \<Rightarrow> u32" where
  "u32_from_be bs = of_nat (be_val bs)"

definition u64_from_be :: "bytes \<Rightarrow> u64" where
  "u64_from_be bs = of_nat (be_val bs)"

lemma length_to_be [simp]:
  "length (u16_to_be w) = 2" "length (u32_to_be x) = 4" "length (u64_to_be y) = 8"
  by (simp_all add: u16_to_be_def u32_to_be_def u64_to_be_def)

lemma unat_u16_less: "unat (w :: u16) < 65536"
  using unsigned_less [of w] by simp

lemma unat_u32_less: "unat (w :: u32) < 4294967296"
  using unsigned_less [of w] by simp

lemma unat_u64_less: "unat (w :: u64) < 18446744073709551616"
  using unsigned_less [of w] by simp

lemma u16_from_to_be [simp]: "u16_from_be (u16_to_be w) = w"
  using unat_u16_less [of w]
  by (simp add: u16_from_be_def u16_to_be_def be_val_be_bytes)

lemma u32_from_to_be [simp]: "u32_from_be (u32_to_be w) = w"
  using unat_u32_less [of w]
  by (simp add: u32_from_be_def u32_to_be_def be_val_be_bytes)

lemma u64_from_to_be [simp]: "u64_from_be (u64_to_be w) = w"
  using unat_u64_less [of w] by (simp add: u64_from_be_def u64_to_be_def be_val_be_bytes)

lemma u64_to_from_be: "length bs = 8 \<Longrightarrow> u64_to_be (u64_from_be bs) = bs"
  using be_val_less [of bs] by (simp add: u64_to_be_def u64_from_be_def unat_of_nat be_bytes_be_val)

lemma u16_to_from_be: "length bs = 2 \<Longrightarrow> u16_to_be (u16_from_be bs) = bs"
  using be_val_less [of bs] by (simp add: u16_from_be_def u16_to_be_def unat_of_nat be_bytes_be_val)

lemma u32_to_from_be: "length bs = 4 \<Longrightarrow> u32_to_be (u32_from_be bs) = bs"
  using be_val_less [of bs] by (simp add: u32_from_be_def u32_to_be_def unat_of_nat be_bytes_be_val)

lemma u64_to_be_inject [simp]: "u64_to_be a = u64_to_be b \<longleftrightarrow> a = b"
proof
  assume "u64_to_be a = u64_to_be b"
  then have "unat a = unat b"
    using be_bytes_inject [of 8 "unat a" "unat b"] unat_u64_less [of a] unat_u64_less [of b]
    by (simp add: u64_to_be_def)
  then show "a = b" by (simp add: word_unat_eq_iff)
qed simp

lemma u32_to_be_inject [simp]: "u32_to_be a = u32_to_be b \<longleftrightarrow> a = b"
  by (metis u32_from_to_be)

lemma u16_to_be_inject [simp]: "u16_to_be a = u16_to_be b \<longleftrightarrow> a = b"
  by (metis u16_from_to_be)

lemma u16_of_usize: "n < 65536 \<Longrightarrow> unat (of_nat n :: u16) = n"
  by (simp add: unat_of_nat)

lemma u32_of_usize: "n < 4294967296 \<Longrightarrow> unat (of_nat n :: u32) = n"
  by (simp add: unat_of_nat)

section \<open>Slices\<close>

text \<open>The half-open slice \<open>bytes[i..j]\<close>; callers check \<open>i \<le> j \<le> length\<close> as the source does.\<close>

definition subslice :: "nat \<Rightarrow> nat \<Rightarrow> 'a list \<Rightarrow> 'a list" where
  "subslice i j xs = take (j - i) (drop i xs)"

lemma length_subslice [simp]: "j \<le> length xs \<Longrightarrow> length (subslice i j xs) = j - i"
  by (simp add: subslice_def)

lemma subslice_append_left: "j \<le> length xs \<Longrightarrow> subslice i j (xs @ ys) = subslice i j xs"
  by (simp add: subslice_def)

lemma subslice_append_right:
  "length xs \<le> i \<Longrightarrow> subslice i j (xs @ ys) = subslice (i - length xs) (j - length xs) ys"
  by (simp add: subslice_def)

lemma subslice_all: "j = length xs \<Longrightarrow> subslice 0 j xs = xs"
  by (simp add: subslice_def)

lemma subslice_glue: "i \<le> j \<Longrightarrow> j \<le> k \<Longrightarrow> subslice i j xs @ subslice j k xs = subslice i k xs"
proof -
  assume "i \<le> j" "j \<le> k"
  then have "take (k - i) (drop i xs) = take (j - i) (drop i xs) @ take (k - j) (drop (j - i) (drop i xs))"
    using take_add [of "j - i" "k - j" "drop i xs"] by simp
  with \<open>i \<le> j\<close> show ?thesis by (simp add: subslice_def)
qed

lemma subslice_two: "Suc i < length xs \<Longrightarrow> subslice i (i + 2) xs = [xs ! i, xs ! Suc i]"
  by (simp add: subslice_def numeral_2_eq_2 Cons_nth_drop_Suc [symmetric] take_Suc_conv_app_nth)

section \<open>UTF-8\<close>

text \<open>
  The acceptance condition of \<open>std::str::from_utf8\<close>: the well-formed byte sequences of the Unicode
  standard, table 3-7. Overlong forms, surrogates and values above \<open>U+10FFFF\<close> are refused.
\<close>

definition in_range :: "nat \<Rightarrow> nat \<Rightarrow> byte \<Rightarrow> bool" where
  "in_range lo hi b \<longleftrightarrow> lo \<le> unat b \<and> unat b \<le> hi"

fun utf8_valid :: "bytes \<Rightarrow> bool" where
  "utf8_valid [] = True"
| "utf8_valid (a # rest) =
     (if in_range 0 127 a then utf8_valid rest
      else (case rest of
        [] \<Rightarrow> False
      | b # rest1 \<Rightarrow>
          if in_range 194 223 a then in_range 128 191 b \<and> utf8_valid rest1
          else (case rest1 of
            [] \<Rightarrow> False
          | c # rest2 \<Rightarrow>
              if in_range 224 239 a then
                in_range (if unat a = 224 then 160 else 128) (if unat a = 237 then 159 else 191) b \<and>
                in_range 128 191 c \<and> utf8_valid rest2
              else (case rest2 of
                [] \<Rightarrow> False
              | d # rest3 \<Rightarrow>
                  in_range 240 244 a \<and>
                  in_range (if unat a = 240 then 144 else 128) (if unat a = 244 then 143 else 191) b \<and>
                  in_range 128 191 c \<and> in_range 128 191 d \<and> utf8_valid rest3))))"

definition is_ascii :: "byte \<Rightarrow> bool" where
  "is_ascii b \<longleftrightarrow> unat b < 128"

lemma utf8_valid_ascii: "list_all is_ascii bs \<Longrightarrow> utf8_valid bs"
  by (induction bs) (auto simp: is_ascii_def in_range_def)

end
