(* ===== verification/Wire_Codec.thy ===== *)
theory Wire_Codec
  imports Prelude
begin

text \<open>
  The interface every wire format of the Transport module promises: a set of valid values, an
  encoder and a decoder that accepts exactly the encodings of valid values. The laws are stated
  once; each codec theory interprets the locale on its own encoder and decoder and obtains the
  client lemmas, chiefly that no two byte strings decode to the same value (the format is
  canonical) and no two valid values share an encoding.
\<close>

locale wire_codec =
  fixes valid :: "'a \<Rightarrow> bool"
    and encode :: "'a \<Rightarrow> bytes"
    and decode :: "bytes \<Rightarrow> ('e, 'a) result"
  assumes decode_encode: "valid x \<Longrightarrow> decode (encode x) = Inr x"
    and decode_sound: "decode bs = Inr x \<Longrightarrow> valid x \<and> encode x = bs"
begin

lemma decode_iff: "decode bs = Inr x \<longleftrightarrow> valid x \<and> bs = encode x"
  using decode_encode decode_sound by auto

lemma encode_inject: "valid x \<Longrightarrow> valid y \<Longrightarrow> encode x = encode y \<Longrightarrow> x = y"
  by (metis decode_encode sum.inject(2))

lemma decode_canonical: "decode bs = Inr x \<Longrightarrow> decode cs = Inr x \<Longrightarrow> bs = cs"
  using decode_sound by blast

lemma decode_rejects: "(\<And>x. valid x \<Longrightarrow> encode x \<noteq> bs) \<Longrightarrow> \<exists>e. decode bs = Inl e"
  using decode_sound by (cases "decode bs") auto

end

text \<open>
  A fixed-width format is moreover prefix-free: neither a proper prefix of an encoding nor an
  encoding followed by further bytes is accepted.
\<close>

locale fixed_codec = wire_codec valid encode decode
  for valid :: "'a \<Rightarrow> bool" and encode :: "'a \<Rightarrow> bytes" and decode :: "bytes \<Rightarrow> ('e, 'a) result" +
  fixes width :: nat
  assumes encode_width: "valid x \<Longrightarrow> length (encode x) = width"
begin

lemma decode_width: "decode bs = Inr x \<Longrightarrow> length bs = width"
  using decode_sound encode_width by blast

lemma decode_trailing: "valid x \<Longrightarrow> ys \<noteq> [] \<Longrightarrow> \<exists>e. decode (encode x @ ys) = Inl e"
  using encode_width decode_width [of "encode x @ ys"]
  by (cases "decode (encode x @ ys)") auto

lemma decode_truncated: "valid x \<Longrightarrow> n < width \<Longrightarrow> \<exists>e. decode (take n (encode x)) = Inl e"
  using encode_width decode_width [of "take n (encode x)"]
  by (cases "decode (take n (encode x))") auto

end

end
