(* ===== verification/Frame_Codec.thy ===== *)
theory Frame_Codec
  imports Wire_Codec
begin

text \<open>
  Version 1 frame headers: \<open>codec/mod.rs\<close>, \<open>codec/error.rs\<close>, \<open>codec/frame_type.rs\<close> and
  \<open>codec/header.rs\<close>. A header is twelve bytes: version, type, two flag bytes that must be zero,
  the stream identifier and the payload length, both big-endian. The theory shows that the decoder
  accepts exactly the encodings of valid headers, which error each malformed header is given, and
  that the frame length computation cannot overflow.
\<close>

section \<open>Constants and the frame type registry\<close>

definition VERSION :: byte where
  "VERSION = 1"

definition HEADER_BYTES :: usize where
  "HEADER_BYTES = 12"

definition INTEGRITY_TAG_BYTES :: usize where
  "INTEGRITY_TAG_BYTES = 16"

definition MAX_PAYLOAD_BYTES :: usize where
  "MAX_PAYLOAD_BYTES = 65536"

datatype FrameType =
    Ft_Hello | Ft_Auth | Ft_Ping | Ft_Pong | Ft_GoAway | Ft_Error
  | Ft_Open | Ft_Data | Ft_End | Ft_Cancel

datatype HeaderError =
    He_InvalidLength usize
  | He_UnsupportedVersion byte
  | He_NonzeroFlags u16
  | He_UnknownType byte
  | He_PayloadTooLarge u32
  | He_InvalidStreamId FrameType u32
  | He_SizeOverflow

text \<open>The discriminants of the \<open>repr(u8)\<close> enumeration, and the inverse look-up.\<close>

fun frame_type_code :: "FrameType \<Rightarrow> byte" where
  "frame_type_code Ft_Hello = 0x01"
| "frame_type_code Ft_Auth = 0x02"
| "frame_type_code Ft_Ping = 0x03"
| "frame_type_code Ft_Pong = 0x04"
| "frame_type_code Ft_GoAway = 0x05"
| "frame_type_code Ft_Error = 0x06"
| "frame_type_code Ft_Open = 0x10"
| "frame_type_code Ft_Data = 0x11"
| "frame_type_code Ft_End = 0x12"
| "frame_type_code Ft_Cancel = 0x13"

definition frame_type_try_from :: "byte \<Rightarrow> (HeaderError, FrameType) result" where
  "frame_type_try_from value =
     (if value = 0x01 then Inr Ft_Hello
      else if value = 0x02 then Inr Ft_Auth
      else if value = 0x03 then Inr Ft_Ping
      else if value = 0x04 then Inr Ft_Pong
      else if value = 0x05 then Inr Ft_GoAway
      else if value = 0x06 then Inr Ft_Error
      else if value = 0x10 then Inr Ft_Open
      else if value = 0x11 then Inr Ft_Data
      else if value = 0x12 then Inr Ft_End
      else if value = 0x13 then Inr Ft_Cancel
      else Inl (He_UnknownType value))"

fun stream_id_allowed :: "FrameType \<Rightarrow> u32 \<Rightarrow> bool" where
  "stream_id_allowed Ft_Hello i = (i = 0)"
| "stream_id_allowed Ft_Auth i = (i = 0)"
| "stream_id_allowed Ft_Ping i = (i = 0)"
| "stream_id_allowed Ft_Pong i = (i = 0)"
| "stream_id_allowed Ft_GoAway i = (i = 0)"
| "stream_id_allowed Ft_Open i = (i \<noteq> 0)"
| "stream_id_allowed Ft_Data i = (i \<noteq> 0)"
| "stream_id_allowed Ft_End i = (i \<noteq> 0)"
| "stream_id_allowed Ft_Cancel i = (i \<noteq> 0)"
| "stream_id_allowed Ft_Error i = True"

definition validate_stream_id :: "FrameType \<Rightarrow> u32 \<Rightarrow> (HeaderError, unit) result" where
  "validate_stream_id t i =
     (if stream_id_allowed t i then Inr () else Inl (He_InvalidStreamId t i))"

section \<open>Headers\<close>

datatype FrameProtection = Untagged | Tagged

record FrameHeader =
  fh_frame_type :: FrameType
  fh_stream_id :: u32
  fh_payload_len :: u32

definition validate_payload_len :: "u32 \<Rightarrow> (HeaderError, unit) result" where
  "validate_payload_len len =
     (if unat len > MAX_PAYLOAD_BYTES then Inl (He_PayloadTooLarge len) else Inr ())"

definition header_new :: "FrameType \<Rightarrow> u32 \<Rightarrow> u32 \<Rightarrow> (HeaderError, FrameHeader) result" where
  "header_new frame_type stream_id payload_len =
     and_then (validate_payload_len payload_len) (\<lambda>_.
     and_then (validate_stream_id frame_type stream_id) (\<lambda>_.
     Inr \<lparr>fh_frame_type = frame_type, fh_stream_id = stream_id, fh_payload_len = payload_len\<rparr>))"

definition header_decode :: "bytes \<Rightarrow> (HeaderError, FrameHeader) result" where
  "header_decode bs =
     (if length bs \<noteq> HEADER_BYTES then Inl (He_InvalidLength (length bs))
      else if bs ! 0 \<noteq> VERSION then Inl (He_UnsupportedVersion (bs ! 0))
      else let flags = u16_from_be (subslice 2 4 bs) in
        if flags \<noteq> 0 then Inl (He_NonzeroFlags flags)
        else let payload_len = u32_from_be (subslice 8 12 bs) in
          and_then (validate_payload_len payload_len) (\<lambda>_.
          and_then (frame_type_try_from (bs ! 1)) (\<lambda>frame_type.
          header_new frame_type (u32_from_be (subslice 4 8 bs)) payload_len)))"

definition header_encode :: "FrameHeader \<Rightarrow> bytes" where
  "header_encode h =
     [VERSION, frame_type_code (fh_frame_type h), 0, 0]
     @ u32_to_be (fh_stream_id h) @ u32_to_be (fh_payload_len h)"

fun tag_bytes :: "FrameProtection \<Rightarrow> usize" where
  "tag_bytes Untagged = 0"
| "tag_bytes Tagged = INTEGRITY_TAG_BYTES"

definition frame_len :: "FrameHeader \<Rightarrow> FrameProtection \<Rightarrow> (HeaderError, usize) result" where
  "frame_len h protection =
     (let payload = unat (fh_payload_len h) in
      if payload > usize_max then Inl He_SizeOverflow
      else ok_or He_SizeOverflow
        (Option.bind (checked_add_usize HEADER_BYTES payload)
           (\<lambda>size. checked_add_usize size (tag_bytes protection))))"

section \<open>Correctness of the header codec\<close>

definition header_valid :: "FrameHeader \<Rightarrow> bool" where
  "header_valid h \<longleftrightarrow>
     unat (fh_payload_len h) \<le> MAX_PAYLOAD_BYTES \<and>
     stream_id_allowed (fh_frame_type h) (fh_stream_id h)"

lemma frame_type_round_trip [simp]: "frame_type_try_from (frame_type_code t) = Inr t"
  by (cases t) (simp_all add: frame_type_try_from_def)

lemma frame_type_try_from_sound:
  "frame_type_try_from v = Inr t \<Longrightarrow> frame_type_code t = v"
  by (auto simp: frame_type_try_from_def split: if_splits)

lemma header_new_iff:
  "header_new t i n = Inr h \<longleftrightarrow>
     h = \<lparr>fh_frame_type = t, fh_stream_id = i, fh_payload_len = n\<rparr> \<and> header_valid h"
  by (auto simp: header_new_def validate_payload_len_def validate_stream_id_def header_valid_def)

lemma header_newD:
  assumes "header_new t i n = Inr h"
  shows "fh_frame_type h = t" "fh_stream_id h = i" "fh_payload_len h = n" "header_valid h"
  using assms by (auto simp: header_new_iff)

lemma length_header_encode [simp]: "length (header_encode h) = 12"
  by (simp add: header_encode_def)

lemma header_encode_fields [wire_simps]:
  "header_encode h ! 0 = VERSION"
  "header_encode h ! Suc 0 = frame_type_code (fh_frame_type h)"
  "subslice 2 4 (header_encode h) = [0, 0]"
  "subslice 4 8 (header_encode h) = u32_to_be (fh_stream_id h)"
  "subslice 8 12 (header_encode h) = u32_to_be (fh_payload_len h)"
  by (simp_all add: header_encode_def subslice_def)

lemma zero_flags: "u16_from_be [0, 0] = 0"
  by (simp add: u16_from_be_def be_val_def)

lemma header_decode_encode:
  "header_valid h \<Longrightarrow> header_decode (header_encode h) = Inr h"
  by (cases h)
     (simp add: header_decode_def wire_simps zero_flags HEADER_BYTES_def header_new_iff
        validate_payload_len_def header_valid_def)

lemma twelve_bytes:
  assumes "length bs = 12"
  shows "bs = [bs ! 0, bs ! 1] @ subslice 2 4 bs @ subslice 4 8 bs @ subslice 8 12 bs"
proof -
  have "subslice 2 4 bs @ subslice 4 8 bs @ subslice 8 12 bs = subslice 2 12 bs"
    by (simp add: subslice_glue)
  moreover have "subslice 0 2 bs = [bs ! 0, bs ! 1]"
    using subslice_two [of 0 bs] assms by (simp add: numeral_2_eq_2)
  moreover have "subslice 0 2 bs @ subslice 2 12 bs = bs"
    using subslice_glue [of 0 2 12 bs] assms by (simp add: subslice_all)
  ultimately show ?thesis by simp
qed

lemma header_decode_sound:
  assumes "header_decode bs = Inr h"
  shows "header_valid h \<and> header_encode h = bs"
proof -
  let ?flags = "u16_from_be (subslice 2 4 bs)"
  from assms have len: "length bs = 12" and version: "bs ! 0 = VERSION" and flags: "?flags = 0"
    and kind: "frame_type_try_from (bs ! 1) = Inr (fh_frame_type h)"
    and new: "header_new (fh_frame_type h) (u32_from_be (subslice 4 8 bs))
                (u32_from_be (subslice 8 12 bs)) = Inr h"
    by (auto simp: header_decode_def Let_def and_then_eq_Inr HEADER_BYTES_def
        dest: header_newD split: if_splits)
  have "subslice 2 4 bs = u16_to_be ?flags"
    using len by (simp add: u16_to_from_be)
  also have "\<dots> = [0, 0]"
    unfolding flags by (simp add: u16_to_be_def numeral_2_eq_2)
  finally have zeros: "subslice 2 4 bs = [0, 0]" .
  from new have valid: "header_valid h"
    and sid: "fh_stream_id h = u32_from_be (subslice 4 8 bs)"
    and plen: "fh_payload_len h = u32_from_be (subslice 8 12 bs)"
    by (simp_all add: header_newD)
  have "bs = [bs ! 0, bs ! 1] @ subslice 2 4 bs @ subslice 4 8 bs @ subslice 8 12 bs"
    using len by (rule twelve_bytes)
  also have "\<dots> = header_encode h"
    using len by (simp add: header_encode_def version zeros sid plen u32_to_from_be
        frame_type_try_from_sound [OF kind])
  finally show ?thesis using valid by simp
qed

interpretation header_codec: fixed_codec header_valid header_encode header_decode 12
  by unfold_locales (simp_all add: header_decode_encode header_decode_sound)

text \<open>The length of a valid frame, header and tag included, never overflows.\<close>

lemma frame_len_eq:
  "frame_len h p = Inr (12 + unat (fh_payload_len h) + tag_bytes p)"
  using unat_u32_less [of "fh_payload_len h"]
  by (cases p)
     (simp_all add: frame_len_def checked_add_usize_def usize_max_def HEADER_BYTES_def
        INTEGRITY_TAG_BYTES_def Let_def)

lemma frame_len_bound:
  "header_valid h \<Longrightarrow> frame_len h p = Inr n \<Longrightarrow> 12 \<le> n \<and> n \<le> 65564"
  by (cases p) (auto simp: frame_len_eq header_valid_def MAX_PAYLOAD_BYTES_def INTEGRITY_TAG_BYTES_def)

section \<open>Properties\<close>

text \<open>
  C36: The header decoder accepts exactly the canonical encodings of valid headers: decoding succeeds
  with a header iff that header is valid and the twelve bytes are its encoding. So encoding followed
  by decoding is the identity, and no two byte strings decode to the same header.
\<close>

theorem header_decode_exact:
  "header_decode bs = Inr h \<longleftrightarrow> header_valid h \<and> bs = header_encode h"
  by (rule header_codec.decode_iff)

end
