(* ===== verification/Control_Codec.thy ===== *)
theory Control_Codec
  imports Wire_Codec
begin

text \<open>
  Connection-control payloads: \<open>codec/control/\<close> (\<open>error.rs\<close>, \<open>error_code.rs\<close>, \<open>diagnostic.rs\<close>,
  \<open>goaway.rs\<close>, \<open>ping.rs\<close>). A diagnostic envelope is a two-byte code, a two-byte length and at most
  1,024 bytes of UTF-8 text without a leading byte-order mark. ERROR and CANCEL carry one envelope
  and forbid \<open>NO_ERROR\<close>; GOAWAY prefixes one with a stream identifier and allows it; PING and PONG
  carry eight opaque bytes. Each codec is an instance of the canonical wire format interface.
\<close>

definition MAX_REASON_BYTES :: usize where
  "MAX_REASON_BYTES = 1024"

datatype PayloadError =
    Pe_TooShort usize usize
  | Pe_LengthMismatch usize usize
  | Pe_ReasonTooLong usize
  | Pe_InvalidUtf8
  | Pe_ByteOrderMark
  | Pe_UnknownCode u16
  | Pe_NoErrorForbidden

datatype ErrorCode =
    Ec_NoError | Ec_ProtocolError | Ec_AuthenticationFailed | Ec_FrameSizeError
  | Ec_UnsupportedProtocol | Ec_StreamStateError | Ec_RefusedStream | Ec_InternalError
  | Ec_IdExhausted | Ec_Cancelled | Ec_ResourceLimit

fun error_code_value :: "ErrorCode \<Rightarrow> u16" where
  "error_code_value Ec_NoError = 0x0000"
| "error_code_value Ec_ProtocolError = 0x0001"
| "error_code_value Ec_AuthenticationFailed = 0x0002"
| "error_code_value Ec_FrameSizeError = 0x0003"
| "error_code_value Ec_UnsupportedProtocol = 0x0004"
| "error_code_value Ec_StreamStateError = 0x0005"
| "error_code_value Ec_RefusedStream = 0x0006"
| "error_code_value Ec_InternalError = 0x0007"
| "error_code_value Ec_IdExhausted = 0x0008"
| "error_code_value Ec_Cancelled = 0x0009"
| "error_code_value Ec_ResourceLimit = 0x000a"

definition error_code_try_from :: "u16 \<Rightarrow> (PayloadError, ErrorCode) result" where
  "error_code_try_from value =
     (if value = 0 then Inr Ec_NoError
      else if value = 1 then Inr Ec_ProtocolError
      else if value = 2 then Inr Ec_AuthenticationFailed
      else if value = 3 then Inr Ec_FrameSizeError
      else if value = 4 then Inr Ec_UnsupportedProtocol
      else if value = 5 then Inr Ec_StreamStateError
      else if value = 6 then Inr Ec_RefusedStream
      else if value = 7 then Inr Ec_InternalError
      else if value = 8 then Inr Ec_IdExhausted
      else if value = 9 then Inr Ec_Cancelled
      else if value = 10 then Inr Ec_ResourceLimit
      else Inl (Pe_UnknownCode value))"

lemma error_code_round_trip [simp]: "error_code_try_from (error_code_value c) = Inr c"
  by (cases c) (simp_all add: error_code_try_from_def)

lemma error_code_try_from_sound: "error_code_try_from v = Inr c \<Longrightarrow> error_code_value c = v"
  by (auto simp: error_code_try_from_def split: if_splits)

section \<open>The diagnostic envelope\<close>

record Diagnostic =
  dg_code :: ErrorCode
  dg_reason :: bytes

text \<open>The UTF-8 form of \<open>U+FEFF\<close>, tested by \<open>starts_with\<close>.\<close>

definition starts_with_bom :: "bytes \<Rightarrow> bool" where
  "starts_with_bom bs \<longleftrightarrow> take 3 bs = [0xef, 0xbb, 0xbf]"

definition diagnostic_new :: "ErrorCode \<Rightarrow> bytes \<Rightarrow> bool \<Rightarrow> (PayloadError, Diagnostic) result" where
  "diagnostic_new code reason allow_no_error =
     (if length reason > MAX_REASON_BYTES then Inl (Pe_ReasonTooLong (length reason))
      else if starts_with_bom reason then Inl Pe_ByteOrderMark
      else if code = Ec_NoError \<and> \<not> allow_no_error then Inl Pe_NoErrorForbidden
      else Inr \<lparr>dg_code = code, dg_reason = reason\<rparr>)"

definition diagnostic_decode :: "bytes \<Rightarrow> bool \<Rightarrow> (PayloadError, Diagnostic) result" where
  "diagnostic_decode payload allow_no_error =
     (if length payload < 4 then Inl (Pe_TooShort 4 (length payload))
      else let code = u16_from_be (subslice 0 2 payload);
               reason_len = unat (u16_from_be (subslice 2 4 payload)) in
        if reason_len > MAX_REASON_BYTES then Inl (Pe_ReasonTooLong reason_len)
        else let expected = 4 + reason_len in
          if length payload \<noteq> expected then Inl (Pe_LengthMismatch expected (length payload))
          else let reason = drop 4 payload in
            if \<not> utf8_valid reason then Inl Pe_InvalidUtf8
            else and_then (error_code_try_from code) (\<lambda>code.
              diagnostic_new code reason allow_no_error))"

definition diagnostic_append_to :: "Diagnostic \<Rightarrow> bytes \<Rightarrow> bytes" where
  "diagnostic_append_to d bs =
     bs @ u16_to_be (error_code_value (dg_code d)) @ u16_to_be (of_nat (length (dg_reason d)))
        @ dg_reason d"

definition diagnostic_valid :: "bool \<Rightarrow> Diagnostic \<Rightarrow> bool" where
  "diagnostic_valid allow_no_error d \<longleftrightarrow>
     length (dg_reason d) \<le> MAX_REASON_BYTES \<and> utf8_valid (dg_reason d) \<and>
     \<not> starts_with_bom (dg_reason d) \<and> (dg_code d = Ec_NoError \<longrightarrow> allow_no_error)"

lemma diagnostic_newD:
  assumes "diagnostic_new code reason allow = Inr d" "utf8_valid reason"
  shows "dg_code d = code" "dg_reason d = reason" "diagnostic_valid allow d"
  using assms by (auto simp: diagnostic_new_def diagnostic_valid_def split: if_splits)

lemma diagnostic_new_valid:
  "diagnostic_valid allow d \<Longrightarrow> diagnostic_new (dg_code d) (dg_reason d) allow = Inr d"
  by (simp add: diagnostic_new_def diagnostic_valid_def)

lemma diagnostic_decode_append:
  assumes "diagnostic_valid allow d"
  shows "diagnostic_decode (diagnostic_append_to d []) allow = Inr d"
proof -
  let ?p = "diagnostic_append_to d []"
  have code: "subslice 0 2 ?p = u16_to_be (error_code_value (dg_code d))"
    and len: "subslice 2 4 ?p = u16_to_be (of_nat (length (dg_reason d)))"
    and body: "drop 4 ?p = dg_reason d" and total: "length ?p = 4 + length (dg_reason d)"
    by (simp_all add: diagnostic_append_to_def subslice_def)
  have small: "length (dg_reason d) \<le> MAX_REASON_BYTES" "utf8_valid (dg_reason d)"
    using assms by (simp_all add: diagnostic_valid_def)
  then have "unat (of_nat (length (dg_reason d)) :: u16) = length (dg_reason d)"
    by (intro u16_of_usize) (simp add: MAX_REASON_BYTES_def)
  with small show ?thesis
    by (simp add: diagnostic_decode_def code len body total diagnostic_new_valid [OF assms])
qed

lemma diagnostic_decode_sound:
  assumes "diagnostic_decode bs allow = Inr d"
  shows "diagnostic_valid allow d \<and> diagnostic_append_to d [] = bs"
proof -
  let ?len = "unat (u16_from_be (subslice 2 4 bs))"
  from assms have four: "4 \<le> length bs" and total: "length bs = 4 + ?len"
    and utf8: "utf8_valid (drop 4 bs)"
    and code: "error_code_try_from (u16_from_be (subslice 0 2 bs)) = Inr (dg_code d)"
    and new: "diagnostic_new (dg_code d) (drop 4 bs) allow = Inr d"
    by (auto simp: diagnostic_decode_def Let_def and_then_eq_Inr dest: diagnostic_newD
        split: if_splits)
  note valid = diagnostic_newD(3) [OF new utf8] and reason = diagnostic_newD(2) [OF new utf8]
  have "u16_to_be (error_code_value (dg_code d)) = subslice 0 2 bs"
    using four by (simp add: error_code_try_from_sound [OF code] u16_to_from_be)
  moreover have "u16_to_be (of_nat (length (drop 4 bs))) = subslice 2 4 bs"
    using four total by (simp add: u16_to_from_be)
  moreover have "subslice 0 2 bs @ subslice 2 4 bs @ drop 4 bs = bs"
    using subslice_glue [of 0 2 4 bs] by (simp add: subslice_def flip: append_assoc)
  ultimately show ?thesis
    using valid by (simp add: diagnostic_append_to_def reason)
qed

section \<open>ERROR and CANCEL payloads\<close>

type_synonym ErrorPayload = Diagnostic

definition error_payload_new :: "ErrorCode \<Rightarrow> bytes \<Rightarrow> (PayloadError, ErrorPayload) result" where
  "error_payload_new code reason = diagnostic_new code reason False"

definition error_payload_decode :: "bytes \<Rightarrow> (PayloadError, ErrorPayload) result" where
  "error_payload_decode payload = diagnostic_decode payload False"

definition error_payload_encode :: "ErrorPayload \<Rightarrow> bytes" where
  "error_payload_encode p = diagnostic_append_to p []"

interpretation error_codec:
  wire_codec "diagnostic_valid False" error_payload_encode error_payload_decode
  by unfold_locales
     (simp_all add: error_payload_decode_def error_payload_encode_def diagnostic_decode_append
        diagnostic_decode_sound)

text \<open>The diagnostic-free payloads the implementation itself sends.\<close>

lemma error_payload_new_empty:
  "c \<noteq> Ec_NoError \<Longrightarrow> error_payload_new c [] = Inr \<lparr>dg_code = c, dg_reason = []\<rparr>"
  by (simp add: error_payload_new_def diagnostic_new_def starts_with_bom_def)

lemma error_payload_new_NoError: "error_payload_new Ec_NoError [] = Inl Pe_NoErrorForbidden"
  by (simp add: error_payload_new_def diagnostic_new_def starts_with_bom_def)

lemma length_error_payload_encode [simp]:
  "length (error_payload_encode p) = 4 + length (dg_reason p)"
  by (simp add: error_payload_encode_def diagnostic_append_to_def)

section \<open>GOAWAY\<close>

record GoAway =
  ga_last_accepted_remote_stream_id :: u32
  ga_diagnostic :: Diagnostic

definition goaway_new :: "u32 \<Rightarrow> ErrorCode \<Rightarrow> bytes \<Rightarrow> (PayloadError, GoAway) result" where
  "goaway_new last_id code reason =
     and_then (diagnostic_new code reason True) (\<lambda>d.
       Inr \<lparr>ga_last_accepted_remote_stream_id = last_id, ga_diagnostic = d\<rparr>)"

text \<open>Sizes are reported for the whole GOAWAY payload rather than the nested envelope.\<close>

fun goaway_error :: "PayloadError \<Rightarrow> PayloadError" where
  "goaway_error (Pe_LengthMismatch expected actual) = Pe_LengthMismatch (expected + 4) (actual + 4)"
| "goaway_error e = e"

definition goaway_decode :: "bytes \<Rightarrow> (PayloadError, GoAway) result" where
  "goaway_decode payload =
     (if length payload < 8 then Inl (Pe_TooShort 8 (length payload))
      else let last_id = u32_from_be (subslice 0 4 payload) in
        and_then (map_err goaway_error (diagnostic_decode (drop 4 payload) True)) (\<lambda>d.
          Inr \<lparr>ga_last_accepted_remote_stream_id = last_id, ga_diagnostic = d\<rparr>))"

definition goaway_encode :: "GoAway \<Rightarrow> bytes" where
  "goaway_encode g =
     diagnostic_append_to (ga_diagnostic g) (u32_to_be (ga_last_accepted_remote_stream_id g))"

definition goaway_valid :: "GoAway \<Rightarrow> bool" where
  "goaway_valid g \<longleftrightarrow> diagnostic_valid True (ga_diagnostic g)"

lemma goaway_encode_eq:
  "goaway_encode g =
     u32_to_be (ga_last_accepted_remote_stream_id g) @ diagnostic_append_to (ga_diagnostic g) []"
  by (simp add: goaway_encode_def diagnostic_append_to_def)

lemma goaway_decode_encode: "goaway_valid g \<Longrightarrow> goaway_decode (goaway_encode g) = Inr g"
  by (cases g)
     (simp add: goaway_decode_def goaway_encode_eq goaway_valid_def subslice_def
        diagnostic_decode_append, simp add: diagnostic_append_to_def)

lemma goaway_decode_sound:
  assumes "goaway_decode bs = Inr g"
  shows "goaway_valid g \<and> goaway_encode g = bs"
proof -
  from assms have len: "8 \<le> length bs"
    and last: "ga_last_accepted_remote_stream_id g = u32_from_be (subslice 0 4 bs)"
    and diag: "diagnostic_decode (drop 4 bs) True = Inr (ga_diagnostic g)"
    by (auto simp: goaway_decode_def Let_def and_then_eq_Inr split: if_splits)
  have "subslice 0 4 bs @ drop 4 bs = bs"
    by (simp add: subslice_def)
  with len show ?thesis
    using diagnostic_decode_sound [OF diag]
    by (simp add: goaway_valid_def goaway_encode_eq last u32_to_from_be)
qed

interpretation goaway_codec: wire_codec goaway_valid goaway_encode goaway_decode
  by unfold_locales (simp_all add: goaway_decode_encode goaway_decode_sound)

lemma goaway_new_empty:
  "goaway_new last_id code [] =
     Inr \<lparr>ga_last_accepted_remote_stream_id = last_id, ga_diagnostic = \<lparr>dg_code = code, dg_reason = []\<rparr>\<rparr>"
  by (simp add: goaway_new_def diagnostic_new_def starts_with_bom_def)

section \<open>PING and PONG tokens\<close>

type_synonym PingToken = bytes

definition ping_token_decode :: "bytes \<Rightarrow> (PayloadError, PingToken) result" where
  "ping_token_decode payload =
     (if length payload = 8 then Inr payload else Inl (Pe_LengthMismatch 8 (length payload)))"

definition ping_token_encode :: "PingToken \<Rightarrow> bytes" where
  "ping_token_encode t = t"

definition ping_token_valid :: "PingToken \<Rightarrow> bool" where
  "ping_token_valid t \<longleftrightarrow> length t = 8"

interpretation ping_codec: fixed_codec ping_token_valid ping_token_encode ping_token_decode 8
  by unfold_locales
     (auto simp: ping_token_valid_def ping_token_encode_def ping_token_decode_def split: if_splits)

section \<open>Properties\<close>

text \<open>
  C37: The control payload decoders (ERROR and CANCEL, GOAWAY, PING and PONG) accept exactly the
  canonical encodings of valid payloads; NO_ERROR is valid in GOAWAY only.
\<close>

theorem control_decode_exact:
  "(error_payload_decode bs = Inr p \<longleftrightarrow> diagnostic_valid False p \<and> bs = error_payload_encode p) \<and>
   (goaway_decode bs = Inr g \<longleftrightarrow> goaway_valid g \<and> bs = goaway_encode g) \<and>
   (ping_token_decode bs = Inr t \<longleftrightarrow> ping_token_valid t \<and> bs = ping_token_encode t)"
  by (intro conjI error_codec.decode_iff goaway_codec.decode_iff ping_codec.decode_iff)

end
