(* ===== verification/Transport_Api.thy ===== *)
theory Transport_Api
  imports Frame_Codec Control_Codec
begin

text \<open>
  The vocabulary Transport components exchange: \<open>api.rs\<close> (roles, outcomes, failures, events),
  \<open>handles.rs\<close> (process-local capabilities), \<open>config.rs\<close> (resource policy), \<open>error.rs\<close>, the
  dependency errors of \<open>ports/mod.rs\<close>, and the time arithmetic used for deadlines.

  An \<open>Arc<()>\<close> whose pointer identity is a capability is modelled by a number: two handles are equal
  exactly when the source's \<open>Arc::ptr_eq\<close> holds. A fresh capability is a number passed in by the
  operation that issues it.
\<close>

section \<open>Time\<close>

text \<open>
  \<open>Instant\<close> and \<open>Duration\<close> in nanoseconds. The largest instant is that of a 64-bit signed second
  count, beyond which \<open>checked_add\<close> fails.
\<close>

type_synonym Instant = nat
type_synonym Duration = nat

definition instant_max :: Instant where
  "instant_max = (2 ^ 63 - 1) * 10 ^ 9 + 999999999"

definition instant_checked_add :: "Instant \<Rightarrow> Duration \<Rightarrow> Instant option" where
  "instant_checked_add t d = (if t + d \<le> instant_max then Some (t + d) else None)"

definition checked_duration_since :: "Instant \<Rightarrow> Instant \<Rightarrow> Duration option" where
  "checked_duration_since now started = (if started \<le> now then Some (now - started) else None)"

section \<open>Roles, dependencies and failures\<close>

datatype ConnectionRole = Initiator | Acceptor

datatype IdentityId = IdentityId bytes

datatype ExpectedPeer = Known IdentityId | Unpinned

datatype Dependency = Dep_Socket | Dep_Clock | Dep_Identity | Dep_Cryptography

datatype DependencyError = De_Unavailable | De_Denied | De_InvalidInput | De_VerificationFailed

datatype ErrorKind =
    Ek_Interrupted | Ek_WouldBlock | Ek_TimedOut | Ek_WriteZero | Ek_InvalidData | Ek_NotConnected
  | Ek_Other nat

datatype CancellationReason = Cr_Cancelled | Cr_ResourceLimit | Cr_InternalError

datatype ShutdownReason = Sr_Normal | Sr_IdExhausted | Sr_ResourceLimit | Sr_InternalError

datatype FailureOrigin = Fo_Local | Fo_Peer | Fo_Dependency Dependency

datatype FailureCode =
    Fc_ProtocolViolation | Fc_AuthenticationFailed | Fc_IntegrityFailed | Fc_FrameTooLarge
  | Fc_UnsupportedProtocol | Fc_StreamState | Fc_Refused | Fc_Cancelled | Fc_ResourceLimit
  | Fc_IdExhausted | Fc_SequenceExhausted | Fc_TruncatedFrame | Fc_ConnectionLost
  | Fc_DeadlineExceeded | Fc_DependencyUnavailable | Fc_Internal

record Failure =
  fl_origin :: FailureOrigin
  fl_code :: FailureCode

datatype StreamOutcome =
    So_Completed
  | So_Cancelled FailureOrigin CancellationReason
  | So_Failed Failure

section \<open>Capabilities\<close>

datatype ConnectionId = ConnectionId nat

record ConnectionHandle =
  ch_id :: ConnectionId

definition connection_handle_new :: "nat \<Rightarrow> ConnectionHandle" where
  "connection_handle_new fresh = \<lparr>ch_id = ConnectionId fresh\<rparr>"

datatype ListenerHandle = ListenerHandle nat

datatype StreamOwner = StreamOwner nat

record StreamHandle =
  sh_connection :: ConnectionId
  sh_owner :: StreamOwner
  sh_wire_id :: u32

definition stream_handle_new :: "ConnectionHandle \<Rightarrow> StreamOwner \<Rightarrow> u32 \<Rightarrow> StreamHandle" where
  "stream_handle_new connection owner wire_id =
     \<lparr>sh_connection = ch_id connection, sh_owner = owner, sh_wire_id = wire_id\<rparr>"

section \<open>Configuration\<close>

record ResourceLimits =
  rl_connections :: usize
  rl_streams_per_connection :: usize
  rl_outbound_bytes :: usize
  rl_buffered_bytes_per_stream :: usize

datatype Limit = Lm_Connections | Lm_StreamsPerConnection | Lm_OutboundBytes | Lm_BufferedBytesPerStream

datatype ConfigError = Cf_ZeroHandshakeTimeout | Cf_LimitTooSmall Limit usize

definition MAX_FRAME_BYTES :: usize where
  "MAX_FRAME_BYTES = HEADER_BYTES + MAX_PAYLOAD_BYTES + INTEGRITY_TAG_BYTES"

record TransportConfig =
  tc_limits :: ResourceLimits
  tc_handshake_timeout :: Duration

fun check_limits :: "(Limit \<times> usize \<times> usize) list \<Rightarrow> (ConfigError, unit) result" where
  "check_limits [] = Inr ()"
| "check_limits ((limit, value, minimum) # rest) =
     (if value < minimum then Inl (Cf_LimitTooSmall limit minimum) else check_limits rest)"

definition transport_config_new ::
    "ResourceLimits \<Rightarrow> Duration \<Rightarrow> (ConfigError, TransportConfig) result" where
  "transport_config_new limits handshake_timeout =
     (if handshake_timeout = 0 then Inl Cf_ZeroHandshakeTimeout
      else and_then (check_limits
          [(Lm_Connections, rl_connections limits, 1),
           (Lm_StreamsPerConnection, rl_streams_per_connection limits, 1),
           (Lm_OutboundBytes, rl_outbound_bytes limits, MAX_FRAME_BYTES),
           (Lm_BufferedBytesPerStream, rl_buffered_bytes_per_stream limits, MAX_PAYLOAD_BYTES)])
        (\<lambda>_. Inr \<lparr>tc_limits = limits, tc_handshake_timeout = handshake_timeout\<rparr>))"

definition config_valid :: "TransportConfig \<Rightarrow> bool" where
  "config_valid c \<longleftrightarrow>
     0 < tc_handshake_timeout c \<and> 1 \<le> rl_connections (tc_limits c) \<and>
     1 \<le> rl_streams_per_connection (tc_limits c) \<and>
     65564 \<le> rl_outbound_bytes (tc_limits c) \<and> 65536 \<le> rl_buffered_bytes_per_stream (tc_limits c)"

lemma transport_config_new_iff:
  "transport_config_new l t = Inr c \<longleftrightarrow>
     c = \<lparr>tc_limits = l, tc_handshake_timeout = t\<rparr> \<and> config_valid c"
  by (auto simp: transport_config_new_def config_valid_def MAX_FRAME_BYTES_def HEADER_BYTES_def
      MAX_PAYLOAD_BYTES_def INTEGRITY_TAG_BYTES_def)

section \<open>Local errors, protocols, contexts and events\<close>

datatype TransportError =
    Te_RuntimeUnavailable
  | Te_InvalidConfig ConfigError
  | Te_WrongConnection
  | Te_WrongStreamOwner
  | Te_InvalidEndpoint
  | Te_InvalidRequest
  | Te_Io ErrorKind
  | Te_Startup Failure
  | Te_Dependency Dependency DependencyError
  | Te_Backpressure
  | Te_Closed

definition authorize :: "StreamHandle \<Rightarrow> ConnectionId \<Rightarrow> StreamOwner \<Rightarrow> (TransportError, unit) result" where
  "authorize stream connection owner =
     (if sh_connection stream \<noteq> connection then Inl Te_WrongConnection
      else if sh_owner stream \<noteq> owner then Inl Te_WrongStreamOwner
      else Inr ())"

lemma authorize_ok [simp]:
  "authorize st c ow = Inr u \<longleftrightarrow> sh_connection st = c \<and> sh_owner st = ow"
  by (auto simp: authorize_def)

record Protocol =
  pr_id :: bytes
  pr_version :: u32

record PeerContext =
  pc_connection :: ConnectionId
  pc_role :: ConnectionRole
  pc_local_identity :: IdentityId
  pc_peer_identity :: IdentityId

datatype Event =
    Ev_IncomingConnection ConnectionHandle
  | Ev_Authenticated PeerContext
  | Ev_StreamOpened PeerContext StreamHandle Protocol
  | Ev_Data StreamHandle bytes
  | Ev_RemoteEnd StreamHandle
  | Ev_StreamClosed StreamHandle StreamOutcome
  | Ev_PingFinished ConnectionId bytes "(Failure, Duration) result"
  | Ev_ConnectionClosed ConnectionId "Failure option"
  | Ev_ListenerClosed ListenerHandle "Failure option"

end
