(* ===== verification/Resources.thy ===== *)
theory Resources
  imports Transport_Api
begin

text \<open>
  Shared finite admission budgets: \<open>resources.rs\<close>. A counter holds the amount in use and a limit;
  \<open>reserve\<close> is a checked atomic admission; a reservation is a reference-counted lease whose last
  owner returns the amount. The first part models the counter and the lease store with its
  reference counts; the accounting invariant says that what is in use is exactly the sum of the
  live leases and never exceeds the limit.

  \<open>Integrity::seal\<close> and \<open>FrameWriter::start\<close> clone a reservation with \<open>retain\<close> and drop the original
  before they return. The lemma \<open>retain_drop\<close> shows that this leaves the store unchanged, so the
  later theories move a reservation as a token that records its amount.
\<close>

section \<open>Counters\<close>

record Counter =
  ct_used :: usize
  ct_limit :: usize

definition reserve :: "Counter \<Rightarrow> usize \<Rightarrow> Counter option" where
  "reserve c amount =
     (case checked_add_usize (ct_used c) amount of
        None \<Rightarrow> None
      | Some next \<Rightarrow> if next \<le> ct_limit c then Some (c\<lparr>ct_used := next\<rparr>) else None)"

text \<open>\<open>fetch_sub\<close> wraps around at the word size.\<close>

definition release :: "Counter \<Rightarrow> usize \<Rightarrow> Counter" where
  "release c amount =
     c\<lparr>ct_used := (if amount \<le> ct_used c then ct_used c - amount
                   else (ct_used c + (usize_max + 1) - amount))\<rparr>"

lemma reserve_iff:
  "reserve c n = Some c' \<longleftrightarrow>
     ct_used c + n \<le> usize_max \<and> ct_used c + n \<le> ct_limit c \<and> c' = c\<lparr>ct_used := ct_used c + n\<rparr>"
  by (auto simp: reserve_def checked_add_usize_def)

lemma release_le [simp]: "n \<le> ct_used c \<Longrightarrow> ct_used (release c n) = ct_used c - n"
  by (simp add: release_def)

lemma release_limit [simp]: "ct_limit (release c n) = ct_limit c"
  by (simp add: release_def)

lemma reserve_release: "reserve c n = Some c' \<Longrightarrow> release c' n = c"
  by (auto simp: reserve_iff release_def)

section \<open>Leases\<close>

record Lease =
  le_amount :: usize
  le_strong :: nat

record Pool =
  pl_counter :: Counter
  pl_leases :: "nat \<Rightarrow> Lease option"

text \<open>A successful reservation creates a lease with one owner under a fresh name.\<close>

definition pool_reserve :: "nat \<Rightarrow> usize \<Rightarrow> Pool \<Rightarrow> Pool option" where
  "pool_reserve l amount p =
     (case reserve (pl_counter p) amount of
        None \<Rightarrow> None
      | Some c \<Rightarrow> Some \<lparr>pl_counter = c,
          pl_leases = (pl_leases p)(l \<mapsto> \<lparr>le_amount = amount, le_strong = 1\<rparr>)\<rparr>)"

definition pool_retain :: "nat \<Rightarrow> Pool \<Rightarrow> Pool" where
  "pool_retain l p =
     (case pl_leases p l of
        None \<Rightarrow> p
      | Some le \<Rightarrow> p\<lparr>pl_leases := (pl_leases p)(l \<mapsto> le\<lparr>le_strong := Suc (le_strong le)\<rparr>)\<rparr>)"

definition pool_drop :: "nat \<Rightarrow> Pool \<Rightarrow> Pool" where
  "pool_drop l p =
     (case pl_leases p l of
        None \<Rightarrow> p
      | Some le \<Rightarrow>
          if le_strong le > 1 then
            p\<lparr>pl_leases := (pl_leases p)(l \<mapsto> le\<lparr>le_strong := le_strong le - 1\<rparr>)\<rparr>
          else \<lparr>pl_counter = release (pl_counter p) (le_amount le),
                pl_leases = (pl_leases p)(l := None)\<rparr>)"

lemma retain_drop:
  "pl_leases p l = Some le \<Longrightarrow> 1 \<le> le_strong le \<Longrightarrow> pool_drop l (pool_retain l p) = p"
  by (cases p) (auto simp: pool_retain_def pool_drop_def)

definition lease_total :: "(nat \<Rightarrow> Lease option) \<Rightarrow> usize" where
  "lease_total m = (\<Sum>l \<in> dom m. le_amount (the (m l)))"

definition pool_inv :: "Pool \<Rightarrow> bool" where
  "pool_inv p \<longleftrightarrow>
     finite (dom (pl_leases p)) \<and> ct_used (pl_counter p) = lease_total (pl_leases p) \<and>
     ct_used (pl_counter p) \<le> ct_limit (pl_counter p) \<and>
     (\<forall>l le. pl_leases p l = Some le \<longrightarrow> 1 \<le> le_strong le)"

lemma lease_total_insert:
  "finite (dom m) \<Longrightarrow> m l = None \<Longrightarrow> lease_total (m(l \<mapsto> le)) = le_amount le + lease_total m"
proof -
  assume fin: "finite (dom m)" and fresh: "m l = None"
  then have "l \<notin> dom m" by auto
  moreover from this have "(\<Sum>k \<in> dom m. le_amount (the ((m(l \<mapsto> le)) k)))
      = (\<Sum>k \<in> dom m. le_amount (the (m k)))"
    by (intro sum.cong) auto
  ultimately show ?thesis
    using fin by (simp add: lease_total_def)
qed

lemma lease_total_remove:
  assumes "finite (dom m)" "m l = Some le"
  shows "lease_total m = le_amount le + lease_total (m(l := None))"
proof -
  have "m = (m(l := None))(l \<mapsto> le)" using assms(2) by auto
  then show ?thesis
    using lease_total_insert [of "m(l := None)" l le] assms(1) by simp
qed

lemma lease_total_same_amount:
  assumes "finite (dom m)" "m l = Some le" "le_amount le' = le_amount le"
  shows "lease_total (m(l \<mapsto> le')) = lease_total m"
  using lease_total_remove [OF assms(1,2)] lease_total_insert [of "m(l := None)" l le'] assms by simp

lemma pool_reserve_inv:
  assumes "pool_inv p" "pl_leases p l = None" "pool_reserve l n p = Some p'"
  shows "pool_inv p'"
  using assms
  by (auto simp: pool_inv_def pool_reserve_def reserve_iff lease_total_insert
      split: option.splits if_splits)

lemma pool_retain_inv: "pool_inv p \<Longrightarrow> pool_inv (pool_retain l p)"
  by (auto simp: pool_inv_def pool_retain_def lease_total_same_amount
      split: option.splits if_splits)

lemma pool_drop_inv:
  assumes "pool_inv p"
  shows "pool_inv (pool_drop l p)"
proof (cases "pl_leases p l")
  case None
  with assms show ?thesis by (simp add: pool_drop_def)
next
  case (Some le)
  show ?thesis
  proof (cases "le_strong le > 1")
    case True
    with assms Some show ?thesis
      by (auto simp: pool_inv_def pool_drop_def lease_total_same_amount split: if_splits)
  next
    case False
    with assms Some lease_total_remove [of "pl_leases p" l le] show ?thesis
      by (auto simp: pool_inv_def pool_drop_def split: if_splits)
  qed
qed

section \<open>The instance-wide policy\<close>

record Resources =
  rs_limits :: ResourceLimits
  rs_connections :: Counter
  rs_outbound :: Counter

type_synonym Reservation = usize

definition resources_new :: "ResourceLimits \<Rightarrow> Resources" where
  "resources_new limits =
     \<lparr>rs_limits = limits,
      rs_connections = \<lparr>ct_used = 0, ct_limit = rl_connections limits\<rparr>,
      rs_outbound = \<lparr>ct_used = 0, ct_limit = rl_outbound_bytes limits\<rparr>\<rparr>"

definition resources_connection :: "Resources \<Rightarrow> (Reservation \<times> Resources) option" where
  "resources_connection r =
     map_option (\<lambda>c. (1, r\<lparr>rs_connections := c\<rparr>)) (reserve (rs_connections r) 1)"

definition resources_outbound :: "usize \<Rightarrow> Resources \<Rightarrow> (Reservation \<times> Resources) option" where
  "resources_outbound amount r =
     map_option (\<lambda>c. (amount, r\<lparr>rs_outbound := c\<rparr>)) (reserve (rs_outbound r) amount)"

text \<open>Dropping the last owner of an outbound or a connection reservation.\<close>

definition drop_outbound :: "Reservation option \<Rightarrow> Resources \<Rightarrow> Resources" where
  "drop_outbound v r =
     (case v of None \<Rightarrow> r | Some n \<Rightarrow> r\<lparr>rs_outbound := release (rs_outbound r) n\<rparr>)"

definition drop_connection :: "Reservation option \<Rightarrow> Resources \<Rightarrow> Resources" where
  "drop_connection v r =
     (case v of None \<Rightarrow> r | Some n \<Rightarrow> r\<lparr>rs_connections := release (rs_connections r) n\<rparr>)"

definition reserved :: "Reservation option \<Rightarrow> usize" where
  "reserved v = (case v of None \<Rightarrow> 0 | Some n \<Rightarrow> n)"

lemma reserved_simps [simp]: "reserved None = 0" "reserved (Some n) = n"
  by (simp_all add: reserved_def)

text \<open>
  The outbound budget as the components that queue and write frames see it: the amount in use, and
  the effect of an admission and of a release.
\<close>

definition outbound_used :: "Resources \<Rightarrow> usize" where
  "outbound_used r = ct_used (rs_outbound r)"

definition outbound_ok :: "Resources \<Rightarrow> bool" where
  "outbound_ok r \<longleftrightarrow> outbound_used r \<le> ct_limit (rs_outbound r)"

lemma resources_outbound_Some:
  assumes "resources_outbound n r = Some (v, r')"
  shows "v = n" "outbound_used r' = outbound_used r + n" "rs_limits r' = rs_limits r"
    "rs_connections r' = rs_connections r" "outbound_ok r'"
    "ct_limit (rs_outbound r') = ct_limit (rs_outbound r)"
  using assms by (auto simp: resources_outbound_def reserve_iff outbound_used_def outbound_ok_def)

lemma resources_outbound_None:
  assumes "resources_outbound n r = None" "ct_limit (rs_outbound r) \<le> usize_max"
  shows "ct_limit (rs_outbound r) < outbound_used r + n"
proof -
  have "reserve (rs_outbound r) n = None"
    using assms(1) by (simp add: resources_outbound_def)
  then show ?thesis
    using assms(2)
    by (auto simp: reserve_def checked_add_usize_def outbound_used_def split: if_splits)
qed

lemma drop_outbound_frame [simp]:
  "rs_limits (drop_outbound v r) = rs_limits r"
  "rs_connections (drop_outbound v r) = rs_connections r"
  "ct_limit (rs_outbound (drop_outbound v r)) = ct_limit (rs_outbound r)"
  by (simp_all add: drop_outbound_def split: option.splits)

lemma drop_outbound_None [simp]: "drop_outbound None r = r"
  by (simp add: drop_outbound_def)

lemma drop_outbound_used [simp]:
  "reserved v \<le> outbound_used r \<Longrightarrow> outbound_used (drop_outbound v r) = outbound_used r - reserved v"
  by (auto simp: drop_outbound_def outbound_used_def split: option.splits)

lemma drop_outbound_ok:
  "reserved v \<le> outbound_used r \<Longrightarrow> outbound_ok r \<Longrightarrow> outbound_ok (drop_outbound v r)"
  by (simp add: outbound_ok_def)

section \<open>Properties\<close>

text \<open>Any sequence of admissions, clones and drops on an unused counter.\<close>

inductive pool_run :: "usize \<Rightarrow> Pool \<Rightarrow> bool" for limit :: usize where
  pool_start: "pool_run limit
    \<lparr>pl_counter = \<lparr>ct_used = 0, ct_limit = limit\<rparr>, pl_leases = (\<lambda>_. None)\<rparr>"
| pool_reserved: "pool_run limit p \<Longrightarrow> pl_leases p l = None \<Longrightarrow> pool_reserve l n p = Some p' \<Longrightarrow>
    pool_run limit p'"
| pool_retained: "pool_run limit p \<Longrightarrow> pool_run limit (pool_retain l p)"
| pool_dropped: "pool_run limit p \<Longrightarrow> pool_run limit (pool_drop l p)"

lemma pool_run_inv: "pool_run limit p \<Longrightarrow> pool_inv p \<and> ct_limit (pl_counter p) = limit"
proof (induction rule: pool_run.induct)
  case pool_start
  show ?case by (simp add: pool_inv_def lease_total_def)
next
  case (pool_reserved p l n p')
  then have "ct_limit (pl_counter p') = limit"
    by (auto simp: pool_reserve_def reserve_iff split: option.splits)
  with pool_reserved pool_reserve_inv show ?case by blast
next
  case (pool_retained p l)
  then show ?case using pool_retain_inv by (auto simp: pool_retain_def split: option.split)
next
  case (pool_dropped p l)
  then show ?case using pool_drop_inv by (auto simp: pool_drop_def split: option.split)
qed

text \<open>
  C24: The admission budget is exact: after any admissions, clones and drops, the amount in use is the
  sum of the live leases and at most the limit, every live lease has an owner, and an amount is
  admitted iff it still fits (the limit being representable).
\<close>

theorem pool_accounting:
  assumes "pool_run limit p"
  shows "ct_used (pl_counter p) = lease_total (pl_leases p) \<and> ct_used (pl_counter p) \<le> limit \<and>
    (\<forall>l le. pl_leases p l = Some le \<longrightarrow> 1 \<le> le_strong le) \<and>
    (limit \<le> usize_max \<longrightarrow>
      (pool_reserve l n p \<noteq> None \<longleftrightarrow> lease_total (pl_leases p) + n \<le> limit))"
proof -
  have inv: "pool_inv p" "ct_limit (pl_counter p) = limit" using pool_run_inv [OF assms] by simp_all
  then have "limit \<le> usize_max \<Longrightarrow>
      (pool_reserve l n p \<noteq> None \<longleftrightarrow> lease_total (pl_leases p) + n \<le> limit)"
    by (auto simp: pool_inv_def pool_reserve_def reserve_def checked_add_usize_def split: option.split)
  with inv show ?thesis by (simp add: pool_inv_def)
qed

theorem pool_accounting_witness:
  "\<exists>p. pool_run 10 p \<and> ct_used (pl_counter p) = 4 \<and> pool_reserve 1 7 p = None"
proof -
  let ?p = "\<lparr>pl_counter = \<lparr>ct_used = 0, ct_limit = 10\<rparr>, pl_leases = (\<lambda>_. None)\<rparr>"
  let ?q = "\<lparr>pl_counter = \<lparr>ct_used = 4, ct_limit = 10\<rparr>,
    pl_leases = (\<lambda>_. None)(0 \<mapsto> \<lparr>le_amount = 4, le_strong = 1\<rparr>)\<rparr>"
  have run: "pool_run 10 ?q"
    by (rule pool_reserved [OF pool_start, where l = 0 and n = 4])
       (simp_all add: pool_reserve_def reserve_def checked_add_usize_def usize_max_def)
  have "(10 :: nat) \<le> usize_max" by (simp add: usize_max_def)
  then have "pool_reserve 1 7 ?q = None"
    using pool_accounting [OF run, of 1 7] by (simp add: lease_total_def)
  with run show ?thesis by (intro exI [of _ ?q]) simp
qed

end
