(* ===== verification/Framing.thy ===== *)
theory Framing
  imports Resources
begin

text \<open>
  Complete-frame input and output over a nonblocking socket: \<open>framing/mod.rs\<close>, \<open>framing/reader.rs\<close>
  and \<open>framing/writer.rs\<close>. The socket is an argument: a function from the socket state and the buffer
  to an outcome, the buffer as the adapter left it, and the next state. The reader retains partial
  frames across \<open>Pending\<close> and does at most 64 steps per poll; the writer owns one serialised frame
  until its last byte is accepted.

  The reference semantics is \<open>parse_frame\<close>, which reads one frame off the front of the whole byte
  stream. The reader refines it for every fragmentation of the stream, and returns within a stated
  number of polls when the socket delivers.
\<close>

section \<open>Frames\<close>

datatype FramingError =
    Fe_Header HeaderError
  | Fe_Truncated
  | Fe_Io ErrorKind
  | Fe_Closed
  | Fe_PhaseChanged
  | Fe_Shape
  | Fe_Busy

datatype 'a poll = Pending | Ready 'a

record WireFrame =
  wf_reservation :: "Reservation option"
  wf_header :: FrameHeader
  wf_payload :: bytes
  wf_tag :: "bytes option"

definition wire_frame_new ::
    "FrameHeader \<Rightarrow> bytes \<Rightarrow> bytes option \<Rightarrow> (FramingError, WireFrame) result" where
  "wire_frame_new header payload tag =
     (if length payload \<noteq> unat (fh_payload_len header) then Inl Fe_Shape
      else Inr \<lparr>wf_reservation = None, wf_header = header, wf_payload = payload, wf_tag = tag\<rparr>)"

text \<open>The serialised form, and the shape a complete frame has in a given phase.\<close>

definition tag_suffix :: "bytes option \<Rightarrow> bytes" where
  "tag_suffix t = (case t of None \<Rightarrow> [] | Some bs \<Rightarrow> bs)"

definition wire_bytes :: "WireFrame \<Rightarrow> bytes" where
  "wire_bytes f = header_encode (wf_header f) @ wf_payload f @ tag_suffix (wf_tag f)"

definition frame_shape :: "FrameProtection \<Rightarrow> WireFrame \<Rightarrow> bool" where
  "frame_shape phase f \<longleftrightarrow>
     header_valid (wf_header f) \<and> length (wf_payload f) = unat (fh_payload_len (wf_header f)) \<and>
     (case wf_tag f of None \<Rightarrow> phase = Untagged | Some t \<Rightarrow> phase = Tagged \<and> length t = 16)"

lemma tag_suffix_simps [simp]: "tag_suffix None = []" "tag_suffix (Some t) = t"
  by (simp_all add: tag_suffix_def)

lemma frame_shape_length:
  "frame_shape phase f \<Longrightarrow>
     length (wire_bytes f) = 12 + unat (fh_payload_len (wf_header f)) + tag_bytes phase"
  by (cases phase)
     (auto simp: frame_shape_def wire_bytes_def INTEGRITY_TAG_BYTES_def split: option.splits)

section \<open>The frame reader\<close>

record FrameReader =
  fr_bytes :: bytes
  fr_offset :: usize
  fr_header :: "FrameHeader option"
  fr_phase :: "FrameProtection option"
  fr_failed :: bool
  fr_eof :: bool

definition reader_default :: FrameReader where
  "reader_default =
     \<lparr>fr_bytes = [], fr_offset = 0, fr_header = None, fr_phase = None, fr_failed = False,
      fr_eof = False\<rparr>"

type_synonym 's poll_read = "'s \<Rightarrow> bytes \<Rightarrow> (ErrorKind, usize) result poll \<times> bytes \<times> 's"
type_synonym read_result = "(FramingError, WireFrame option) result poll"

text \<open>The adapter may overwrite the slice it is given, and nothing else.\<close>

definition overwrite :: "bytes \<Rightarrow> bytes \<Rightarrow> bytes" where
  "overwrite buffer written = take (length buffer) written @ drop (length written) buffer"

definition resize :: "usize \<Rightarrow> bytes \<Rightarrow> bytes" where
  "resize n bs = take n bs @ replicate (n - length bs) 0"

definition reader_fail :: "FramingError \<Rightarrow> FrameReader \<Rightarrow> read_result \<times> FrameReader" where
  "reader_fail error r = (Ready (Inl error), r\<lparr>fr_failed := True, fr_bytes := []\<rparr>)"

definition reader_complete ::
    "FrameProtection \<Rightarrow> FrameHeader \<Rightarrow> FrameReader \<Rightarrow> read_result \<times> FrameReader" where
  "reader_complete phase header r =
     (let bs = fr_bytes r;
          tag = (if phase = Tagged then Some (drop (length bs - 16) bs) else None);
          body = (if phase = Tagged then take (length bs - 16) bs else bs)
      in (Ready (Inr (Some \<lparr>wf_reservation = None, wf_header = header, wf_payload = drop 12 body,
                            wf_tag = tag\<rparr>)),
          r\<lparr>fr_header := None, fr_bytes := [], fr_offset := 0, fr_phase := None\<rparr>))"

fun reader_loop ::
    "'s poll_read \<Rightarrow> nat \<Rightarrow> FrameProtection \<Rightarrow> FrameReader \<Rightarrow> 's \<Rightarrow> read_result \<times> FrameReader \<times> 's"
where
  "reader_loop rd 0 phase r s = (Pending, r, s)"
| "reader_loop rd (Suc n) phase r s =
     (if fr_offset r = length (fr_bytes r) then
        (case fr_header r of
           Some header \<Rightarrow>
             (case reader_complete phase header r of (res, r') \<Rightarrow> (res, r', s))
         | None \<Rightarrow>
             (case header_decode (fr_bytes r) of
                Inl error \<Rightarrow> (case reader_fail (Fe_Header error) r of (res, r') \<Rightarrow> (res, r', s))
              | Inr header \<Rightarrow>
                  (case frame_len header phase of
                     Inl error \<Rightarrow> (case reader_fail (Fe_Header error) r of (res, r') \<Rightarrow> (res, r', s))
                   | Inr len \<Rightarrow>
                       reader_loop rd n phase
                         (r\<lparr>fr_header := Some header, fr_bytes := resize len (fr_bytes r)\<rparr>) s)))
      else
        (let remaining = length (fr_bytes r) - fr_offset r;
             buffer = drop (fr_offset r) (fr_bytes r)
         in case rd s buffer of (outcome, written, s') \<Rightarrow>
           let r1 = r\<lparr>fr_bytes := take (fr_offset r) (fr_bytes r) @ overwrite buffer written\<rparr>
           in case outcome of
             Pending \<Rightarrow> (Pending, r1, s')
           | Ready (Inl kind) \<Rightarrow>
               if kind = Ek_Interrupted then reader_loop rd n phase r1 s'
               else (case reader_fail (Fe_Io kind) r1 of (res, r') \<Rightarrow> (res, r', s'))
           | Ready (Inr count) \<Rightarrow>
               if count = 0 \<and> fr_offset r1 = 0 then
                 (Ready (Inr None), r1\<lparr>fr_eof := True, fr_bytes := []\<rparr>, s')
               else if count = 0 then
                 (case reader_fail Fe_Truncated r1 of (res, r') \<Rightarrow> (res, r', s'))
               else if count \<le> remaining then
                 reader_loop rd n phase (r1\<lparr>fr_offset := fr_offset r1 + count\<rparr>) s'
               else (case reader_fail (Fe_Io Ek_InvalidData) r1 of (res, r') \<Rightarrow> (res, r', s'))))"

definition reader_poll_frame ::
    "'s poll_read \<Rightarrow> FrameProtection \<Rightarrow> FrameReader \<Rightarrow> 's \<Rightarrow> read_result \<times> FrameReader \<times> 's" where
  "reader_poll_frame rd phase r s =
     (if fr_failed r then (Ready (Inl Fe_Closed), r, s)
      else if fr_eof r then (Ready (Inr None), r, s)
      else if (case fr_phase r of None \<Rightarrow> False | Some old \<Rightarrow> old \<noteq> phase) then
        (case reader_fail Fe_PhaseChanged r of (res, r') \<Rightarrow> (res, r', s))
      else reader_loop rd 64 phase
        (r\<lparr>fr_phase := Some phase,
           fr_bytes := (if fr_bytes r = [] then resize 12 [] else fr_bytes r)\<rparr>) s)"

section \<open>The frame writer\<close>

record FrameWriter =
  fw_reservation :: "Reservation option"
  fw_bytes :: bytes
  fw_offset :: usize
  fw_failed :: bool

definition writer_default :: FrameWriter where
  "writer_default = \<lparr>fw_reservation = None, fw_bytes = [], fw_offset = 0, fw_failed = False\<rparr>"

type_synonym 's poll_write = "'s \<Rightarrow> bytes \<Rightarrow> (ErrorKind, usize) result poll \<times> 's"

text \<open>
  The frame is consumed: its reservation moves to the writer, or is dropped on an error. The old
  reservation of the writer is dropped by the assignment.
\<close>

definition writer_start ::
    "WireFrame \<Rightarrow> FrameProtection \<Rightarrow> FrameWriter \<Rightarrow> Resources
      \<Rightarrow> (FramingError, unit) result \<times> FrameWriter \<times> Resources" where
  "writer_start frame phase w rs =
     (let rejected = drop_outbound (wf_reservation frame) rs in
      if fw_failed w then (Inl Fe_Closed, w, rejected)
      else if fw_bytes w \<noteq> [] then (Inl Fe_Busy, w, rejected)
      else if (wf_tag frame \<noteq> None) \<noteq> (phase = Tagged) then (Inl Fe_Shape, w, rejected)
      else case frame_len (wf_header frame) phase of
        Inl error \<Rightarrow> (Inl (Fe_Header error), w, rejected)
      | Inr len \<Rightarrow>
          (Inr (),
           w\<lparr>fw_reservation := wf_reservation frame, fw_bytes := wire_bytes frame, fw_offset := 0\<rparr>,
           drop_outbound (fw_reservation w) rs))"

fun writer_loop ::
    "'s poll_write \<Rightarrow> nat \<Rightarrow> FrameWriter \<Rightarrow> 's \<Rightarrow> Resources
      \<Rightarrow> (FramingError, unit) result poll \<times> FrameWriter \<times> 's \<times> Resources" where
  "writer_loop wr 0 w s rs = (Pending, w, s, rs)"
| "writer_loop wr (Suc n) w s rs =
     (if fw_offset w = length (fw_bytes w) then
        (Ready (Inr ()), w\<lparr>fw_reservation := None, fw_bytes := [], fw_offset := 0\<rparr>, s,
         drop_outbound (fw_reservation w) rs)
      else
        (let remaining = length (fw_bytes w) - fw_offset w;
             failed = (\<lambda>kind s'. (Ready (Inl (Fe_Io kind)),
               w\<lparr>fw_reservation := None, fw_failed := True, fw_bytes := []\<rparr>, s',
               drop_outbound (fw_reservation w) rs))
         in case wr s (drop (fw_offset w) (fw_bytes w)) of (outcome, s') \<Rightarrow>
           (case outcome of
              Pending \<Rightarrow> (Pending, w, s', rs)
            | Ready (Inl kind) \<Rightarrow>
                if kind = Ek_Interrupted then writer_loop wr n w s' rs else failed kind s'
            | Ready (Inr count) \<Rightarrow>
                if count = 0 then failed Ek_WriteZero s'
                else if count \<le> remaining then
                  writer_loop wr n (w\<lparr>fw_offset := fw_offset w + count\<rparr>) s' rs
                else failed Ek_InvalidData s')))"

definition writer_poll_flush ::
    "'s poll_write \<Rightarrow> FrameWriter \<Rightarrow> 's \<Rightarrow> Resources
      \<Rightarrow> (FramingError, unit) result poll \<times> FrameWriter \<times> 's \<times> Resources" where
  "writer_poll_flush wr w s rs =
     (if fw_failed w then (Ready (Inl Fe_Closed), w, s, rs) else writer_loop wr 64 w s rs)"

definition writer_is_busy :: "FrameWriter \<Rightarrow> bool" where
  "writer_is_busy w \<longleftrightarrow> fw_bytes w \<noteq> []"

section \<open>Reference semantics\<close>

text \<open>
  One frame off the front of a byte stream: \<open>None\<close> while the stream is too short to tell, an error
  for a malformed header, otherwise the frame and what follows it.
\<close>

definition frame_size :: "FrameHeader \<Rightarrow> FrameProtection \<Rightarrow> usize" where
  "frame_size h phase = 12 + unat (fh_payload_len h) + tag_bytes phase"

definition frame_of_bytes :: "FrameProtection \<Rightarrow> FrameHeader \<Rightarrow> bytes \<Rightarrow> WireFrame" where
  "frame_of_bytes phase h bs =
     (let n = unat (fh_payload_len h) in
      \<lparr>wf_reservation = None, wf_header = h, wf_payload = take n (drop 12 bs),
       wf_tag = (if phase = Tagged then Some (drop (12 + n) bs) else None)\<rparr>)"

definition parse_frame ::
    "FrameProtection \<Rightarrow> bytes \<Rightarrow> (HeaderError, WireFrame \<times> bytes) result option" where
  "parse_frame phase stream =
     (if length stream < 12 then None
      else case header_decode (take 12 stream) of
        Inl e \<Rightarrow> Some (Inl e)
      | Inr h \<Rightarrow>
          (let n = frame_size h phase in
           if length stream < n then None
           else Some (Inr (frame_of_bytes phase h (take n stream), drop n stream))))"

lemma frame_of_bytes_shape:
  assumes "header_valid h" "length bs = frame_size h phase" "take 12 bs = header_encode h"
  shows "frame_shape phase (frame_of_bytes phase h bs)" "wire_bytes (frame_of_bytes phase h bs) = bs"
proof -
  let ?n = "unat (fh_payload_len h)"
  show "frame_shape phase (frame_of_bytes phase h bs)"
    using assms
    by (cases phase)
       (auto simp: frame_shape_def frame_of_bytes_def frame_size_def Let_def INTEGRITY_TAG_BYTES_def)
  have "take 12 bs @ take ?n (drop 12 bs) @ drop (12 + ?n) bs = bs"
    using append_take_drop_id [of ?n "drop 12 bs"] by (simp add: add.commute)
  moreover have "phase = Untagged \<Longrightarrow> drop (12 + ?n) bs = []"
    using assms(2) by (simp add: frame_size_def)
  ultimately show "wire_bytes (frame_of_bytes phase h bs) = bs"
    using assms(3)
    by (cases phase) (auto simp: wire_bytes_def frame_of_bytes_def Let_def)
qed

lemma parse_frame_wire_bytes:
  assumes "frame_shape phase f" "wf_reservation f = None"
  shows "parse_frame phase (wire_bytes f @ rest) = Some (Inr (f, rest))"
proof -
  let ?h = "wf_header f"
  have len: "length (wire_bytes f) = frame_size ?h phase"
    using frame_shape_length [OF assms(1)] by (simp add: frame_size_def)
  have head: "take 12 (wire_bytes f) = header_encode ?h"
    by (simp add: wire_bytes_def)
  have valid: "header_valid ?h" using assms(1) by (simp add: frame_shape_def)
  have "frame_of_bytes phase ?h (wire_bytes f) = f"
    using assms
    by (cases phase; cases f)
       (auto simp: frame_of_bytes_def frame_shape_def wire_bytes_def Let_def split: option.splits)
  then show ?thesis
    using len valid head
    by (simp add: parse_frame_def frame_size_def header_decode_encode Let_def)
qed

lemma parse_frame_sound:
  assumes "parse_frame phase stream = Some (Inr (f, rest))"
  shows "frame_shape phase f" "stream = wire_bytes f @ rest" "wf_reservation f = None"
proof -
  from assms obtain h where h: "header_decode (take 12 stream) = Inr h"
    and len: "12 \<le> length stream" "frame_size h phase \<le> length stream"
    and f: "f = frame_of_bytes phase h (take (frame_size h phase) stream)"
    and rest: "rest = drop (frame_size h phase) stream"
    by (auto simp: parse_frame_def Let_def split: if_splits sum.splits)
  note dec = header_decode_sound [OF h]
  have "take 12 (take (frame_size h phase) stream) = header_encode h"
    using dec len by (simp add: frame_size_def min_def)
  from frame_of_bytes_shape [OF _ _ this, of phase] dec len
  show "frame_shape phase f" "stream = wire_bytes f @ rest"
    by (auto simp: f rest)
  show "wf_reservation f = None" by (simp add: f frame_of_bytes_def Let_def)
qed

section \<open>The reader refines the reference semantics\<close>

text \<open>
  What the \<open>Socket\<close> contract promises about input: \<open>input s\<close> is every byte the peer will still
  deliver; a read of \<open>n > 0\<close> bytes puts the next \<open>n\<close> of them in the buffer; zero means end of input;
  \<open>Pending\<close> and interruption consume nothing.
\<close>

definition reliable_source :: "'s poll_read \<Rightarrow> ('s \<Rightarrow> bytes) \<Rightarrow> bool" where
  "reliable_source rd input \<longleftrightarrow>
     (\<forall>s buffer. buffer \<noteq> [] \<longrightarrow>
       (case rd s buffer of (outcome, written, s') \<Rightarrow>
         case outcome of
           Pending \<Rightarrow> input s' = input s
         | Ready (Inl kind) \<Rightarrow> kind = Ek_Interrupted \<longrightarrow> input s' = input s
         | Ready (Inr n) \<Rightarrow>
             n \<le> length buffer \<and> (n = 0 \<longrightarrow> input s = []) \<and> n \<le> length (input s) \<and>
             take n written = take n (input s) \<and> input s' = drop n (input s)))"

text \<open>A source that moreover delivers whenever input is left.\<close>

definition eager_source :: "'s poll_read \<Rightarrow> ('s \<Rightarrow> bytes) \<Rightarrow> bool" where
  "eager_source rd input \<longleftrightarrow>
     reliable_source rd input \<and>
     (\<forall>s buffer. buffer \<noteq> [] \<longrightarrow> input s \<noteq> [] \<longrightarrow>
       (case rd s buffer of (outcome, written, s') \<Rightarrow> \<exists>n. outcome = Ready (Inr n) \<and> 0 < n))"

lemma eager_sourceD:
  assumes "eager_source rd input" "buffer \<noteq> []" "input s \<noteq> []" "rd s buffer = (outcome, written, s')"
  shows "\<exists>n. outcome = Ready (Inr n) \<and> 0 < n \<and> n \<le> length buffer \<and> n \<le> length (input s) \<and>
    take n written = take n (input s) \<and> input s' = drop n (input s)"
proof -
  from assms(1) have source: "reliable_source rd input"
    and eager: "\<forall>s buffer. buffer \<noteq> [] \<longrightarrow> input s \<noteq> [] \<longrightarrow>
      (case rd s buffer of (outcome, written, s') \<Rightarrow> \<exists>n. outcome = Ready (Inr n) \<and> 0 < n)"
    by (simp_all add: eager_source_def)
  from eager [rule_format, OF assms(2,3)] assms(4)
  obtain n where n: "outcome = Ready (Inr n)" "0 < n" by auto
  from source [unfolded reliable_source_def, rule_format, OF assms(2), of s, unfolded assms(4) prod.case] n
  show ?thesis by simp
qed

definition received :: "FrameReader \<Rightarrow> bytes" where
  "received r = take (fr_offset r) (fr_bytes r)"

text \<open>The reader in the middle of a frame.\<close>

definition reader_wf :: "FrameProtection \<Rightarrow> FrameReader \<Rightarrow> bool" where
  "reader_wf phase r \<longleftrightarrow>
     \<not> fr_failed r \<and> \<not> fr_eof r \<and> fr_phase r = Some phase \<and> fr_offset r \<le> length (fr_bytes r) \<and>
     (case fr_header r of
        None \<Rightarrow> length (fr_bytes r) = 12
      | Some h \<Rightarrow> header_valid h \<and> length (fr_bytes r) = frame_size h phase \<and>
          12 \<le> fr_offset r \<and> take 12 (fr_bytes r) = header_encode h)"

lemma length_overwrite [simp]: "length (overwrite buffer written) = length buffer"
  by (simp add: overwrite_def)

lemma overwrite_Nil [simp]: "overwrite [] w = []"
  by (simp add: overwrite_def)

lemma take_overwrite:
  "n \<le> length buffer \<Longrightarrow> n \<le> length written \<Longrightarrow> take n (overwrite buffer written) = take n written"
  by (simp add: overwrite_def min_def)

lemma length_resize [simp]: "length (resize n bs) = n"
  by (simp add: resize_def)

lemma take_resize: "k \<le> length bs \<Longrightarrow> k \<le> n \<Longrightarrow> take k (resize n bs) = take k bs"
  by (simp add: resize_def min_def)

lemma frame_size_ge: "12 \<le> frame_size h phase"
  by (simp add: frame_size_def)

lemma frame_len_size: "frame_len h phase = Inr (frame_size h phase)"
  by (simp add: frame_len_eq frame_size_def)

text \<open>Completing a frame hands over exactly the bytes received.\<close>

lemma reader_complete_eq:
  assumes "reader_wf phase r" "fr_offset r = length (fr_bytes r)" "fr_header r = Some h"
  shows "reader_complete phase h r =
    (Ready (Inr (Some (frame_of_bytes phase h (received r)))), reader_default)"
proof -
  show ?thesis
    using assms
    by (cases phase; cases r)
       (auto simp: reader_complete_def frame_of_bytes_def received_def reader_wf_def
          reader_default_def frame_size_def Let_def INTEGRITY_TAG_BYTES_def drop_take)
qed

text \<open>What one call of the reader means in terms of the stream it has been reading.\<close>

definition read_refines ::
    "FrameProtection \<Rightarrow> ('s \<Rightarrow> bytes) \<Rightarrow> bytes \<Rightarrow> read_result \<times> FrameReader \<times> 's \<Rightarrow> bool" where
  "read_refines phase input stream out \<longleftrightarrow>
     (case out of (res, r', s') \<Rightarrow>
       case res of
         Pending \<Rightarrow> reader_wf phase r' \<and> received r' @ input s' = stream
       | Ready (Inr (Some f)) \<Rightarrow>
           r' = reader_default \<and> parse_frame phase stream = Some (Inr (f, input s'))
       | Ready (Inr None) \<Rightarrow> fr_eof r' \<and> stream = []
       | Ready (Inl e) \<Rightarrow>
           fr_failed r' \<and> fr_bytes r' = [] \<and>
           (case e of
              Fe_Header he \<Rightarrow> parse_frame phase stream = Some (Inl he)
            | Fe_Truncated \<Rightarrow> stream \<noteq> [] \<and> parse_frame phase stream = None
            | Fe_Io kind \<Rightarrow> kind \<noteq> Ek_Interrupted
            | _ \<Rightarrow> False))"

lemma parse_frame_prefix:
  assumes "header_valid h" "length bs = frame_size h phase" "take 12 bs = header_encode h"
  shows "parse_frame phase (bs @ rest) = Some (Inr (frame_of_bytes phase h bs, rest))"
  using assms frame_size_ge [of h phase]
  by (simp add: parse_frame_def header_decode_encode Let_def)

lemma parse_frame_incomplete:
  assumes "reader_wf phase r" "fr_offset r < length (fr_bytes r)"
  shows "parse_frame phase (received r) = None"
proof (cases "fr_header r")
  case None
  with assms show ?thesis by (simp add: reader_wf_def received_def parse_frame_def)
next
  case (Some h)
  with assms have "take 12 (received r) = header_encode h" "header_valid h"
    "12 \<le> length (received r)" "length (received r) < frame_size h phase"
    by (auto simp: reader_wf_def received_def min_def)
  then show ?thesis by (simp add: parse_frame_def header_decode_encode)
qed

lemma reader_complete_refines:
  assumes "reader_wf phase r" "fr_offset r = length (fr_bytes r)" "fr_header r = Some h"
  shows "read_refines phase input (received r @ input s)
    (case reader_complete phase h r of (res, r') \<Rightarrow> (res, r', s))"
  using assms
  by (simp add: read_refines_def reader_complete_eq parse_frame_prefix reader_wf_def received_def)

lemma reader_header_wf:
  assumes "reader_wf phase r" "fr_offset r = length (fr_bytes r)" "fr_header r = None"
    "header_decode (fr_bytes r) = Inr h"
  defines "r' \<equiv> r\<lparr>fr_header := Some h, fr_bytes := resize (frame_size h phase) (fr_bytes r)\<rparr>"
  shows "reader_wf phase r'" "received r' = received r"
  using assms header_decode_sound [OF assms(4)] frame_size_ge [of h phase]
  by (auto simp: reader_wf_def received_def take_resize)

lemma reader_overwrite_wf:
  assumes "reader_wf phase r"
  defines "r1 w \<equiv> r\<lparr>fr_bytes := take (fr_offset r) (fr_bytes r)
                       @ overwrite (drop (fr_offset r) (fr_bytes r)) w\<rparr>"
  shows "reader_wf phase (r1 w)" "received (r1 w) = received r" "fr_offset (r1 w) = fr_offset r"
    "length (fr_bytes (r1 w)) = length (fr_bytes r)"
  using assms(1) by (auto simp: r1_def reader_wf_def received_def min_def split: option.splits)

lemma reader_advance_wf:
  assumes "reader_wf phase r" "n \<le> length (fr_bytes r) - fr_offset r"
    "n \<le> length inp" "take n w = take n inp"
  defines "r2 \<equiv> r\<lparr>fr_bytes := take (fr_offset r) (fr_bytes r)
                       @ overwrite (drop (fr_offset r) (fr_bytes r)) w,
                     fr_offset := fr_offset r + n\<rparr>"
  shows "reader_wf phase r2" "received r2 = received r @ take n inp"
proof -
  have "length (take n w) = n" using assms(3,4) by simp
  then have "n \<le> length w" by (simp add: min_def split: if_splits)
  then have "take n (overwrite (drop (fr_offset r) (fr_bytes r)) w) = take n inp"
    using assms(2,4) by (simp add: take_overwrite)
  then show "received r2 = received r @ take n inp"
    using assms(1,2) by (simp add: r2_def received_def reader_wf_def min.absorb2)
  show "reader_wf phase r2"
    using assms(1,2) by (auto simp: r2_def reader_wf_def min_def split: option.splits)
qed

lemma reader_fail_refines:
  assumes "case e of Fe_Header he \<Rightarrow> parse_frame phase stream = Some (Inl he)
            | Fe_Truncated \<Rightarrow> stream \<noteq> [] \<and> parse_frame phase stream = None
            | Fe_Io kind \<Rightarrow> kind \<noteq> Ek_Interrupted | _ \<Rightarrow> False"
  shows "read_refines phase input stream (case reader_fail e r of (res, r') \<Rightarrow> (res, r', s))"
  using assms by (simp add: read_refines_def reader_fail_def)

lemma reader_loop_refines:
  assumes "reliable_source rd input" "reader_wf phase r"
  shows "read_refines phase input (received r @ input s) (reader_loop rd n phase r s)"
  using assms(2)
proof (induction n arbitrary: r s)
  case 0
  then show ?case by (simp add: read_refines_def)
next
  case (Suc n)
  show ?case
  proof (cases "fr_offset r = length (fr_bytes r)")
    case True
    show ?thesis
    proof (cases "fr_header r")
      case (Some h)
      with True Suc.prems show ?thesis by (simp add: reader_complete_refines)
    next
      case None
      with True Suc.prems have full: "received r = fr_bytes r" "length (fr_bytes r) = 12"
        by (simp_all add: reader_wf_def received_def)
      show ?thesis
      proof (cases "header_decode (fr_bytes r)")
        case (Inl e)
        then show ?thesis
          using True None full
          by (simp add: reader_fail_refines parse_frame_def)
      next
        case (Inr h)
        note wf = reader_header_wf [OF Suc.prems True None Inr]
        show ?thesis
          using Suc.IH [OF wf(1), of s] True None Inr
          by (simp add: frame_len_size wf(2))
      qed
    qed
  next
    case False
    let ?off = "fr_offset r" and ?buf = "drop (fr_offset r) (fr_bytes r)"
    have short: "?off < length (fr_bytes r)" and nonempty: "?buf \<noteq> []"
      using False Suc.prems by (auto simp: reader_wf_def)
    obtain out w s' where rd: "rd s ?buf = (out, w, s')" by (cases "rd s ?buf")
    note src = assms(1) [unfolded reliable_source_def, rule_format, OF nonempty, of s,
        unfolded rd prod.case]
    note ow = reader_overwrite_wf [OF Suc.prems, of w]
    show ?thesis
    proof (cases out)
      case Pending
      with src False rd ow show ?thesis by (simp add: read_refines_def)
    next
      case (Ready res)
      show ?thesis
      proof (cases res)
        case (Inl kind)
        show ?thesis
        proof (cases "kind = Ek_Interrupted")
          case True
          with src Suc.IH [OF ow(1), of s'] False rd ow Ready Inl show ?thesis by simp
        next
          case other: False
          with False rd Ready Inl show ?thesis by (simp add: reader_fail_refines)
        qed
      next
        case (Inr k)
        show ?thesis
        proof (cases "k = 0")
          case True
          with src Ready Inr have "input s = []" by simp
          with True False rd ow Ready Inr parse_frame_incomplete [OF Suc.prems short] short
          show ?thesis
            by (cases "?off = 0")
               (simp_all add: read_refines_def reader_fail_def received_def Let_def, auto)
        next
          case positive: False
          from src Ready Inr have k: "k \<le> length (fr_bytes r) - ?off" "k \<le> length (input s)"
            "take k w = take k (input s)" "input s' = drop k (input s)"
            by auto
          note adv = reader_advance_wf [OF Suc.prems k(1-3)]
          show ?thesis
            using Suc.IH [OF adv(1), of s'] positive False rd Ready Inr k
            by (simp add: adv(2))
        qed
      qed
    qed
  qed
qed

text \<open>Between frames the reader is the default reader; otherwise it is inside a frame of its phase.\<close>

definition reader_ready :: "FrameProtection \<Rightarrow> FrameReader \<Rightarrow> bool" where
  "reader_ready phase r \<longleftrightarrow> r = reader_default \<or> reader_wf phase r"

definition reader_armed :: "FrameProtection \<Rightarrow> FrameReader \<Rightarrow> FrameReader" where
  "reader_armed phase r =
     r\<lparr>fr_phase := Some phase,
       fr_bytes := (if fr_bytes r = [] then resize 12 [] else fr_bytes r)\<rparr>"

lemma reader_wf_nonempty: "reader_wf phase r \<Longrightarrow> fr_bytes r \<noteq> []"
  by (cases "fr_header r") (auto simp: reader_wf_def frame_size_def)

lemma reader_armed_default:
  "reader_wf phase (reader_armed phase reader_default)"
  "received (reader_armed phase reader_default) = received reader_default"
  by (simp_all add: reader_armed_def reader_default_def reader_wf_def received_def)

lemma reader_armed_mid:
  assumes "reader_wf phase r"
  shows "reader_armed phase r = r"
proof -
  have "fr_bytes r \<noteq> []" "fr_phase r = Some phase"
    using assms reader_wf_nonempty by (auto simp: reader_wf_def)
  then show ?thesis by (simp add: reader_armed_def)
qed

lemma reader_armed_wf:
  assumes "reader_ready phase r"
  shows "reader_wf phase (reader_armed phase r)" "received (reader_armed phase r) = received r"
    "fr_offset (reader_armed phase r) = fr_offset r" "fr_header (reader_armed phase r) = fr_header r"
  using assms reader_armed_default reader_armed_mid
  by (auto simp: reader_ready_def) (simp_all add: reader_armed_def)

lemma reader_poll_armed:
  assumes "reader_ready phase r"
  shows "reader_poll_frame rd phase r s = reader_loop rd 64 phase (reader_armed phase r) s"
proof -
  have "\<not> fr_failed r" "\<not> fr_eof r" "fr_phase r = None \<or> fr_phase r = Some phase"
    using assms by (auto simp: reader_ready_def reader_default_def reader_wf_def)
  then show ?thesis by (auto simp: reader_poll_frame_def reader_armed_def)
qed

lemma reader_poll_refines:
  assumes "reliable_source rd input" "reader_ready phase r"
  shows "read_refines phase input (received r @ input s) (reader_poll_frame rd phase r s)"
  using reader_loop_refines [OF assms(1) reader_armed_wf(1) [OF assms(2)], of s 64] assms(2)
  by (simp add: reader_poll_armed reader_armed_wf(2))

lemma reader_failed_latched:
  "fr_failed r \<Longrightarrow> reader_poll_frame rd phase r s = (Ready (Inl Fe_Closed), r, s)"
  by (simp add: reader_poll_frame_def)

lemma reader_phase_changed:
  assumes "reader_wf phase r" "phase' \<noteq> phase"
  shows "reader_poll_frame rd phase' r s =
    (Ready (Inl Fe_PhaseChanged), r\<lparr>fr_failed := True, fr_bytes := []\<rparr>, s)"
  using assms by (simp add: reader_poll_frame_def reader_wf_def reader_fail_def)

section \<open>The reader returns\<close>

text \<open>
  Loop iterations still needed for a frame of the given size: at most one per byte left, one to
  decode the header if that has not happened, and one to hand the frame over.
\<close>

definition reader_todo :: "usize \<Rightarrow> FrameReader \<Rightarrow> nat" where
  "reader_todo len r = len - fr_offset r + (case fr_header r of None \<Rightarrow> 2 | Some _ \<Rightarrow> 1)"

lemma reader_bytes_bound:
  assumes "reader_wf phase r" "parse_frame phase (received r @ rest) = Some (Inr (f, rest'))"
  shows "length (fr_bytes r) \<le> length (wire_bytes f)"
proof -
  have total: "length (wire_bytes f) = frame_size (wf_header f) phase"
    using frame_shape_length [OF parse_frame_sound(1) [OF assms(2)]] by (simp add: frame_size_def)
  show ?thesis
  proof (cases "fr_header r")
    case None
    with assms(1) total frame_size_ge [of "wf_header f" phase] show ?thesis
      by (simp add: reader_wf_def)
  next
    case (Some h)
    with assms(1) have "take 12 (received r @ rest) = header_encode h" "header_valid h"
      by (auto simp: reader_wf_def received_def min_def)
    then have "wf_header f = h"
      using assms(2)
      by (auto simp: parse_frame_def header_decode_encode Let_def frame_of_bytes_def split: if_splits)
    with Some assms(1) total show ?thesis by (simp add: reader_wf_def)
  qed
qed

definition read_progress :: "nat \<Rightarrow> WireFrame \<Rightarrow> FrameReader \<Rightarrow> read_result \<times> FrameReader \<times> 's \<Rightarrow> bool"
where
  "read_progress n f r out \<longleftrightarrow>
     (case out of (res, r', s') \<Rightarrow>
       res = Ready (Inr (Some f)) \<or>
       res = Pending \<and>
         reader_todo (length (wire_bytes f)) r' + n \<le> reader_todo (length (wire_bytes f)) r)"

lemma read_progress_step:
  assumes "read_progress n f r' out"
    "reader_todo (length (wire_bytes f)) r' + 1 \<le> reader_todo (length (wire_bytes f)) r"
  shows "read_progress (Suc n) f r out"
  using assms by (auto simp: read_progress_def)

lemma reader_loop_progress:
  assumes "eager_source rd input" "reader_wf phase r"
    "parse_frame phase (received r @ input s) = Some (Inr (f, rest))"
  shows "read_progress n f r (reader_loop rd n phase r s)"
  using assms(2,3)
proof (induction n arbitrary: r s)
  case 0
  then show ?case by (simp add: read_progress_def)
next
  case (Suc n)
  note bound = reader_bytes_bound [OF Suc.prems]
  show ?case
  proof (cases "fr_offset r = length (fr_bytes r)")
    case True
    show ?thesis
    proof (cases "fr_header r")
      case (Some h)
      have "read_refines phase input (received r @ input s)
          (case reader_complete phase h r of (res, r') \<Rightarrow> (res, r', s))"
        using Suc.prems(1) True Some by (rule reader_complete_refines)
      with Suc.prems True Some show ?thesis
        by (simp add: reader_complete_eq read_refines_def read_progress_def)
    next
      case None
      with True Suc.prems(1) have full: "received r = fr_bytes r" "length (fr_bytes r) = 12"
        by (simp_all add: reader_wf_def received_def)
      with Suc.prems(2) obtain h where h: "header_decode (fr_bytes r) = Inr h"
        by (auto simp: parse_frame_def split: if_splits sum.splits)
      note wf = reader_header_wf [OF Suc.prems(1) True None h]
      have "read_progress n f (r\<lparr>fr_header := Some h, fr_bytes := resize (frame_size h phase) (fr_bytes r)\<rparr>)
          (reader_loop rd (Suc n) phase r s)"
        using Suc.IH [OF wf(1), of s] Suc.prems(2) True None h
        by (simp add: frame_len_size wf(2))
      then show ?thesis
        by (rule read_progress_step) (simp add: reader_todo_def None)
    qed
  next
    case False
    let ?off = "fr_offset r" and ?buf = "drop (fr_offset r) (fr_bytes r)"
    have short: "?off < length (fr_bytes r)" and nonempty: "?buf \<noteq> []"
      using False Suc.prems(1) by (auto simp: reader_wf_def)
    have input: "input s \<noteq> []"
      using parse_frame_incomplete [OF Suc.prems(1) short] Suc.prems(2) by auto
    obtain out w s' where rd: "rd s ?buf = (out, w, s')" by (cases "rd s ?buf")
    from eager_sourceD [OF assms(1) nonempty input rd] obtain k where
      k: "out = Ready (Inr k)" "0 < k" and src: "k \<le> length (fr_bytes r) - ?off"
      "k \<le> length (input s)" "take k w = take k (input s)" "input s' = drop k (input s)"
      by auto
    let ?r2 = "r\<lparr>fr_bytes := take ?off (fr_bytes r) @ overwrite ?buf w, fr_offset := ?off + k\<rparr>"
    note adv = reader_advance_wf [OF Suc.prems(1) src(1-3)]
    have "read_progress n f ?r2 (reader_loop rd (Suc n) phase r s)"
      using Suc.IH [OF adv(1), of s'] Suc.prems(2) False rd k src by (simp add: adv(2))
    then show ?thesis
      by (rule read_progress_step)
         (use k src bound short in \<open>simp add: reader_todo_def split: option.splits\<close>)
  qed
qed

text \<open>Polling again while the reader reports \<open>Pending\<close>.\<close>

fun reader_polls ::
    "'s poll_read \<Rightarrow> nat \<Rightarrow> FrameProtection \<Rightarrow> FrameReader \<Rightarrow> 's \<Rightarrow> read_result \<times> FrameReader \<times> 's"
where
  "reader_polls rd 0 phase r s = (Pending, r, s)"
| "reader_polls rd (Suc k) phase r s =
     (case reader_poll_frame rd phase r s of (res, r', s') \<Rightarrow>
        if res = Pending then reader_polls rd k phase r' s' else (res, r', s'))"

lemma reader_polls_returns:
  assumes "eager_source rd input" "reader_ready phase r"
    "parse_frame phase (received r @ input s) = Some (Inr (f, rest))"
    "reader_todo (length (wire_bytes f)) r \<le> 64 * k"
  shows "\<exists>s'. reader_polls rd k phase r s = (Ready (Inr (Some f)), reader_default, s') \<and> input s' = rest"
  using assms(2-4)
proof (induction k arbitrary: r s)
  case 0
  then show ?case by (simp add: reader_todo_def split: option.splits)
next
  case (Suc k)
  have reliable: "reliable_source rd input" using assms(1) by (simp add: eager_source_def)
  obtain res r' s' where poll: "reader_poll_frame rd phase r s = (res, r', s')"
    by (cases "reader_poll_frame rd phase r s")
  note armed = reader_armed_wf [OF Suc.prems(1)]
  have refines: "read_refines phase input (received r @ input s) (res, r', s')"
    using reader_poll_refines [OF reliable Suc.prems(1), of s] poll by simp
  have "read_progress 64 f (reader_armed phase r) (res, r', s')"
    using reader_loop_progress [OF assms(1) armed(1), of s f rest 64] Suc.prems(1,2) poll
    by (simp add: armed(2) reader_poll_armed)
  then consider (finished) "res = Ready (Inr (Some f))"
    | (more) "res = Pending"
        "reader_todo (length (wire_bytes f)) r' + 64 \<le> reader_todo (length (wire_bytes f)) r"
    using armed by (auto simp: read_progress_def reader_todo_def)
  then show ?case
  proof cases
    case finished
    with refines poll Suc.prems(2) show ?thesis by (simp add: read_refines_def)
  next
    case more
    with refines have "reader_ready phase r'" "received r' @ input s' = received r @ input s"
      by (simp_all add: read_refines_def reader_ready_def)
    with Suc.IH [of r' s'] Suc.prems(2,3) more poll show ?thesis by simp
  qed
qed

section \<open>The writer sends every byte once\<close>

text \<open>
  What the \<open>Socket\<close> contract promises about output: \<open>output s\<close> is every byte the socket has accepted;
  a write reports how many leading bytes of the slice it took; \<open>Pending\<close> and interruption take none.
\<close>

definition reliable_sink :: "'s poll_write \<Rightarrow> ('s \<Rightarrow> bytes) \<Rightarrow> bool" where
  "reliable_sink wr output \<longleftrightarrow>
     (\<forall>s buffer. buffer \<noteq> [] \<longrightarrow>
       (case wr s buffer of (outcome, s') \<Rightarrow>
         case outcome of
           Pending \<Rightarrow> output s' = output s
         | Ready (Inl kind) \<Rightarrow> output s' = output s
         | Ready (Inr n) \<Rightarrow> n \<le> length buffer \<and> output s' = output s @ take n buffer))"

text \<open>A sink that moreover accepts at least one byte per write.\<close>

definition eager_sink :: "'s poll_write \<Rightarrow> ('s \<Rightarrow> bytes) \<Rightarrow> bool" where
  "eager_sink wr output \<longleftrightarrow>
     reliable_sink wr output \<and>
     (\<forall>s buffer. buffer \<noteq> [] \<longrightarrow>
       (case wr s buffer of (outcome, s') \<Rightarrow> \<exists>n. outcome = Ready (Inr n) \<and> 0 < n))"

definition unsent :: "FrameWriter \<Rightarrow> bytes" where
  "unsent w = drop (fw_offset w) (fw_bytes w)"

definition writer_wf :: "FrameWriter \<Rightarrow> bool" where
  "writer_wf w \<longleftrightarrow> fw_offset w \<le> length (fw_bytes w)"

text \<open>
  The bytes accepted so far followed by the bytes still owned never change; success means that
  nothing is owned any more, and a failure leaves a prefix on the wire and the writer closed.
\<close>

definition write_refines ::
    "('s \<Rightarrow> bytes) \<Rightarrow> bytes \<Rightarrow> (FramingError, unit) result poll \<times> FrameWriter \<times> 's \<times> Resources \<Rightarrow> bool"
where
  "write_refines output stream out \<longleftrightarrow>
     (case out of (res, w', s', rs') \<Rightarrow>
       case res of
         Pending \<Rightarrow> writer_wf w' \<and> \<not> fw_failed w' \<and> output s' @ unsent w' = stream
       | Ready (Inr u) \<Rightarrow> w' = writer_default \<and> output s' = stream
       | Ready (Inl e) \<Rightarrow>
           fw_failed w' \<and> fw_bytes w' = [] \<and> fw_reservation w' = None \<and>
           (\<exists>rest. output s' @ rest = stream))"

lemma writer_loop_refines:
  assumes "reliable_sink wr output" "writer_wf w" "\<not> fw_failed w"
  shows "write_refines output (output s @ unsent w) (writer_loop wr n w s rs)"
  using assms(2,3)
proof (induction n arbitrary: w s)
  case 0
  then show ?case by (simp add: write_refines_def)
next
  case (Suc n)
  show ?case
  proof (cases "fw_offset w = length (fw_bytes w)")
    case True
    with Suc.prems show ?thesis
      by (simp add: write_refines_def unsent_def writer_default_def)
  next
    case False
    let ?buf = "drop (fw_offset w) (fw_bytes w)"
    have nonempty: "?buf \<noteq> []" using False Suc.prems by (auto simp: writer_wf_def)
    obtain out s' where wr: "wr s ?buf = (out, s')" by (cases "wr s ?buf")
    note sink = assms(1) [unfolded reliable_sink_def, rule_format, OF nonempty, of s,
        unfolded wr prod.case]
    show ?thesis
    proof (cases out)
      case Pending
      with sink False wr Suc.prems show ?thesis by (simp add: write_refines_def)
    next
      case (Ready res)
      show ?thesis
      proof (cases res)
        case (Inl kind)
        with sink False wr Suc.prems Suc.IH [OF Suc.prems, of s'] Ready show ?thesis
          by (auto simp: write_refines_def Let_def)
      next
        case (Inr k)
        with sink Ready have k: "k \<le> length (fw_bytes w) - fw_offset w"
          "output s' = output s @ take k ?buf" by simp_all
        let ?w = "w\<lparr>fw_offset := fw_offset w + k\<rparr>"
        have wf: "writer_wf ?w" "\<not> fw_failed ?w" "take k ?buf @ unsent ?w = unsent w"
          using k(1) Suc.prems append_take_drop_id [of k ?buf]
          by (auto simp: writer_wf_def unsent_def add.commute)
        show ?thesis
        proof (cases "k = 0")
          case True
          with False wr Ready Inr k(2) show ?thesis
            by (auto simp: write_refines_def Let_def)
        next
          case positive: False
          have "output s' @ unsent ?w = output s @ unsent w"
            using k(2) wf(3) by simp
          with Suc.IH [OF wf(1,2), of s'] positive False wr Ready Inr k(1) show ?thesis
            by (simp add: Let_def)
        qed
      qed
    qed
  qed
qed

lemma writer_flush_refines:
  assumes "reliable_sink wr output" "writer_wf w" "\<not> fw_failed w"
  shows "write_refines output (output s @ unsent w) (writer_poll_flush wr w s rs)"
  using writer_loop_refines [OF assms] assms(3) by (simp add: writer_poll_flush_def)

lemma writer_start_ok:
  assumes "writer_start frame phase w rs = (Inr (), w', rs')"
  shows "\<not> fw_failed w" "\<not> fw_failed w'" "writer_wf w'" "unsent w' = wire_bytes frame"
    "(wf_tag frame \<noteq> None) = (phase = Tagged)" "fw_bytes w = []"
  using assms by (auto simp: writer_start_def Let_def writer_wf_def unsent_def split: if_splits sum.splits)

lemma writer_start_default:
  assumes "frame_shape phase f"
  shows "writer_start f phase writer_default rs =
    (Inr (), writer_default\<lparr>fw_reservation := wf_reservation f, fw_bytes := wire_bytes f\<rparr>, drop_outbound None rs)"
  using assms
  by (cases phase)
     (auto simp: writer_start_def writer_default_def frame_len_size frame_shape_def Let_def
       split: option.splits)

text \<open>Progress of the writer: each loop iteration that does not finish sends at least one byte.\<close>

definition write_progress ::
    "nat \<Rightarrow> FrameWriter \<Rightarrow> (FramingError, unit) result poll \<times> FrameWriter \<times> 's \<times> Resources \<Rightarrow> bool" where
  "write_progress n w out \<longleftrightarrow>
     (case out of (res, w', _) \<Rightarrow>
       res = Ready (Inr ()) \<or> res = Pending \<and> length (unsent w') + n \<le> length (unsent w))"

lemma eager_sinkD:
  assumes "eager_sink wr output" "buffer \<noteq> []" "wr s buffer = (outcome, s')"
  shows "\<exists>n. outcome = Ready (Inr n) \<and> 0 < n \<and> n \<le> length buffer \<and> output s' = output s @ take n buffer"
proof -
  from assms(1) have sink: "reliable_sink wr output"
    and eager: "\<forall>s buffer. buffer \<noteq> [] \<longrightarrow>
      (case wr s buffer of (outcome, s') \<Rightarrow> \<exists>n. outcome = Ready (Inr n) \<and> 0 < n)"
    by (simp_all add: eager_sink_def)
  from eager [rule_format, OF assms(2), of s] assms(3)
  obtain n where n: "outcome = Ready (Inr n)" "0 < n" by auto
  from sink [unfolded reliable_sink_def, rule_format, OF assms(2), of s, unfolded assms(3) prod.case] n
  show ?thesis by simp
qed

lemma writer_loop_progress:
  assumes "eager_sink wr output" "writer_wf w"
  shows "write_progress n w (writer_loop wr n w s rs)"
  using assms(2)
proof (induction n arbitrary: w s)
  case 0
  then show ?case by (simp add: write_progress_def)
next
  case (Suc n)
  show ?case
  proof (cases "fw_offset w = length (fw_bytes w)")
    case True
    then show ?thesis by (simp add: write_progress_def)
  next
    case False
    let ?buf = "drop (fw_offset w) (fw_bytes w)"
    have nonempty: "?buf \<noteq> []" using False Suc.prems by (auto simp: writer_wf_def)
    obtain out s' where wr: "wr s ?buf = (out, s')" by (cases "wr s ?buf")
    from eager_sinkD [OF assms(1) nonempty wr] obtain k where
      k: "out = Ready (Inr k)" "0 < k" "k \<le> length (fw_bytes w) - fw_offset w" by auto
    let ?w = "w\<lparr>fw_offset := fw_offset w + k\<rparr>"
    have "writer_wf ?w" "length (unsent ?w) + 1 \<le> length (unsent w)"
      using k Suc.prems by (auto simp: writer_wf_def unsent_def)
    then show ?thesis
      using Suc.IH [of ?w s'] False wr k
      by (auto simp: write_progress_def Let_def split: prod.splits)
  qed
qed

fun writer_polls ::
    "'s poll_write \<Rightarrow> nat \<Rightarrow> FrameWriter \<Rightarrow> 's \<Rightarrow> Resources
      \<Rightarrow> (FramingError, unit) result poll \<times> FrameWriter \<times> 's \<times> Resources" where
  "writer_polls wr 0 w s rs = (Pending, w, s, rs)"
| "writer_polls wr (Suc k) w s rs =
     (case writer_poll_flush wr w s rs of (res, w', s', rs') \<Rightarrow>
        if res = Pending then writer_polls wr k w' s' rs' else (res, w', s', rs'))"

lemma writer_polls_returns:
  assumes "eager_sink wr output" "writer_wf w" "\<not> fw_failed w" "length (unsent w) < 64 * k"
  shows "\<exists>s' rs'. writer_polls wr k w s rs = (Ready (Inr ()), writer_default, s', rs') \<and>
    output s' = output s @ unsent w"
  using assms(2-4)
proof (induction k arbitrary: w s rs)
  case (Suc k)
  have sink: "reliable_sink wr output" using assms(1) by (simp add: eager_sink_def)
  obtain res w' s' rs' where flush: "writer_poll_flush wr w s rs = (res, w', s', rs')"
    by (cases "writer_poll_flush wr w s rs")
  have refines: "write_refines output (output s @ unsent w) (res, w', s', rs')"
    using writer_flush_refines [OF sink Suc.prems(1,2), of s rs] flush by simp
  have "write_progress 64 w (res, w', s', rs')"
    using writer_loop_progress [OF assms(1) Suc.prems(1), of 64 s rs] Suc.prems(2) flush
    by (simp add: writer_poll_flush_def)
  then consider (finished) "res = Ready (Inr ())"
    | (more) "res = Pending" "length (unsent w') + 64 \<le> length (unsent w)"
    by (auto simp: write_progress_def)
  then show ?case
  proof cases
    case finished
    with refines flush show ?thesis by (simp add: write_refines_def)
  next
    case more
    with refines have "writer_wf w'" "\<not> fw_failed w'" "output s' @ unsent w' = output s @ unsent w"
      by (simp_all add: write_refines_def)
    with Suc.IH [of w' s' rs'] Suc.prems(3) more flush show ?thesis by auto
  qed
qed simp

lemma frame_wire_bound: "frame_shape phase f \<Longrightarrow> length (wire_bytes f) \<le> 65564"
  using frame_shape_length [of phase f]
  by (cases phase) (auto simp: frame_shape_def header_valid_def MAX_PAYLOAD_BYTES_def INTEGRITY_TAG_BYTES_def)

section \<open>Properties\<close>

text \<open>A socket that delivers, and one that accepts, a single byte per call.\<close>

definition byte_source :: "bytes poll_read" where
  "byte_source s buffer = (Ready (Inr (min 1 (length s))), take 1 s, drop 1 s)"

definition byte_sink :: "bytes poll_write" where
  "byte_sink s buffer = (Ready (Inr 1), s @ take 1 buffer)"

lemma byte_source_eager: "eager_source byte_source id"
  by (auto simp: eager_source_def reliable_source_def byte_source_def Suc_le_eq min_def)

lemma byte_sink_eager: "eager_sink byte_sink id"
  by (auto simp: eager_sink_def reliable_sink_def byte_sink_def Suc_le_eq)

definition sample_resources :: Resources where
  "sample_resources = resources_new
     \<lparr>rl_connections = 4, rl_streams_per_connection = 16, rl_outbound_bytes = 131128,
      rl_buffered_bytes_per_stream = 65536\<rparr>"

definition ping_frame :: WireFrame where
  "ping_frame =
     \<lparr>wf_reservation = None,
      wf_header = \<lparr>fh_frame_type = Ft_Ping, fh_stream_id = 0, fh_payload_len = 8\<rparr>,
      wf_payload = [1, 2, 3, 4, 5, 6, 7, 8], wf_tag = None\<rparr>"

lemma ping_frame_shape: "frame_shape Untagged ping_frame" "wf_reservation ping_frame = None"
  by (simp_all add: frame_shape_def ping_frame_def header_valid_def MAX_PAYLOAD_BYTES_def)

text \<open>
  C2: For every way the socket fragments, delays and interrupts the input, one poll of the frame
  reader agrees with the reference parser on the byte stream: a frame it returns is the frame at the
  front of the stream and exactly its bytes are consumed; a header error is the parser's error; end
  of input is reported only for an empty stream and truncation only inside a frame; and \<open>Pending\<close>
  keeps every byte received so far.
\<close>

theorem reader_refines_parse:
  assumes "reliable_source rd input" "reader_ready phase r"
  shows "read_refines phase input (received r @ input s) (reader_poll_frame rd phase r s)"
  using assms by (rule reader_poll_refines)

theorem reader_refines_parse_witness:
  "reliable_source byte_source id \<and> reader_ready Untagged reader_default \<and>
   read_refines Untagged id (received reader_default @ id (wire_bytes ping_frame))
     (reader_poll_frame byte_source Untagged reader_default (wire_bytes ping_frame))"
proof -
  have source: "reliable_source byte_source id"
    using byte_source_eager by (simp add: eager_source_def)
  have ready: "reader_ready Untagged reader_default" by (simp add: reader_ready_def)
  from source ready reader_refines_parse [OF source ready] show ?thesis by blast
qed

text \<open>
  C16: The frame reader returns: whenever the input starts with a complete frame and the socket
  delivers while input is left, polling from the idle state hands over exactly that frame after at
  most 1025 polls (each bounded to 64 reads), is idle again, and has consumed exactly its bytes.
\<close>

theorem reader_returns:
  assumes "eager_source rd input" "parse_frame phase (input s) = Some (Inr (f, rest))"
  shows "\<exists>s'. reader_polls rd 1025 phase reader_default s = (Ready (Inr (Some f)), reader_default, s') \<and>
    input s' = rest"
proof (rule reader_polls_returns [OF assms(1)])
  show "reader_ready phase reader_default" by (simp add: reader_ready_def)
  show "parse_frame phase (received reader_default @ input s) = Some (Inr (f, rest))"
    using assms(2) by (simp add: received_def reader_default_def)
  show "reader_todo (length (wire_bytes f)) reader_default \<le> 64 * 1025"
    using frame_wire_bound [OF parse_frame_sound(1) [OF assms(2)]]
    by (simp add: reader_todo_def reader_default_def)
qed

theorem reader_returns_witness:
  "\<exists>s'. reader_polls byte_source 1025 Untagged reader_default (wire_bytes ping_frame @ [9])
      = (Ready (Inr (Some ping_frame)), reader_default, s') \<and> id s' = [9]"
  by (rule reader_returns [OF byte_source_eager])
     (simp add: parse_frame_wire_bytes ping_frame_shape)

text \<open>
  C17: A frame given to the idle writer is completely sent within 1025 flushes of a socket that
  accepts at least one byte per write: exactly its bytes are appended to the output, once and in
  order, the writer is idle again, and the reference parser reads the same frame back from them
  whatever follows.
\<close>

theorem writer_round_trip:
  assumes "eager_sink wr output" "frame_shape phase f"
  shows "\<exists>w s' rs'.
    writer_start f phase writer_default rs = (Inr (), w, rs) \<and>
    writer_polls wr 1025 w s rs = (Ready (Inr ()), writer_default, s', rs') \<and>
    output s' = output s @ wire_bytes f \<and>
    parse_frame phase (wire_bytes f @ rest) = Some (Inr (f\<lparr>wf_reservation := None\<rparr>, rest))"
proof -
  define w where "w = writer_default\<lparr>fw_reservation := wf_reservation f, fw_bytes := wire_bytes f\<rparr>"
  have start: "writer_start f phase writer_default rs = (Inr (), w, rs)"
    using writer_start_default [OF assms(2)] by (simp add: w_def)
  have "writer_wf w" "\<not> fw_failed w" "unsent w = wire_bytes f"
    using writer_start_ok [OF start] by simp_all
  moreover have "length (wire_bytes f) < 64 * 1025" using frame_wire_bound [OF assms(2)] by simp
  ultimately obtain s' rs' where
    sent: "writer_polls wr 1025 w s rs = (Ready (Inr ()), writer_default, s', rs')"
      "output s' = output s @ wire_bytes f"
    using writer_polls_returns [OF assms(1), of w 1025 s rs] by auto
  have "frame_shape phase (f\<lparr>wf_reservation := None\<rparr>)"
    "wire_bytes (f\<lparr>wf_reservation := None\<rparr>) = wire_bytes f"
    using assms(2) by (simp_all add: frame_shape_def wire_bytes_def)
  with parse_frame_wire_bytes [of phase "f\<lparr>wf_reservation := None\<rparr>" rest]
  have "parse_frame phase (wire_bytes f @ rest) = Some (Inr (f\<lparr>wf_reservation := None\<rparr>, rest))" by simp
  with start sent show ?thesis by blast
qed

theorem writer_round_trip_witness:
  "\<exists>w s' rs'.
    writer_start ping_frame Untagged writer_default sample_resources = (Inr (), w, sample_resources) \<and>
    writer_polls byte_sink 1025 w [] sample_resources = (Ready (Inr ()), writer_default, s', rs') \<and>
    id s' = id [] @ wire_bytes ping_frame \<and>
    parse_frame Untagged (wire_bytes ping_frame @ []) = Some (Inr (ping_frame\<lparr>wf_reservation := None\<rparr>, []))"
  by (rule writer_round_trip [OF byte_sink_eager ping_frame_shape(1)])

end
