(* ===== verification/Crypto_Ports.thy ===== *)
theory Crypto_Ports
  imports Transport_Api
begin

text \<open>
  The capabilities Transport is given by its composition: \<open>ports/crypto.rs\<close> and \<open>ports/identity.rs\<close>.
  A capability is a record of functions, an argument of every operation that uses it. A method on
  \<open>&mut self\<close> threads the adapter's state (a random generator, a key store); a method on \<open>&self\<close> is a
  function of its arguments. The secret types are type parameters: nothing can look inside them.

  What the ports document is stated as predicates on such records; no theorem assumes more of a
  primitive than its port says.
\<close>

record ('g, 'e, 'h, 'p, 'k) Cryptography =
  cy_random_nonce :: "'g \<Rightarrow> (DependencyError, bytes) result \<times> 'g"
  cy_ephemeral_key :: "'g \<Rightarrow> (DependencyError, bytes \<times> 'e) result \<times> 'g"
  cy_sha256 :: "bytes \<Rightarrow> (DependencyError, bytes) result"
  cy_verify_signature :: "bytes \<Rightarrow> bytes \<Rightarrow> bytes \<Rightarrow> (DependencyError, unit) result"
  cy_agree :: "'e \<Rightarrow> bytes \<Rightarrow> 'g \<Rightarrow> (DependencyError, 'h) result \<times> 'g"
  cy_extract :: "bytes \<Rightarrow> 'h \<Rightarrow> 'g \<Rightarrow> (DependencyError, 'p) result \<times> 'g"
  cy_expand_key :: "'p \<Rightarrow> bytes \<Rightarrow> 'g \<Rightarrow> (DependencyError, 'k) result \<times> 'g"
  cy_expand_nonce_prefix :: "'p \<Rightarrow> bytes \<Rightarrow> (DependencyError, bytes) result"
  cy_tag :: "'k \<Rightarrow> bytes \<Rightarrow> bytes \<Rightarrow> (DependencyError, bytes) result"
  cy_verify_tag :: "'k \<Rightarrow> bytes \<Rightarrow> bytes \<Rightarrow> bytes \<Rightarrow> (DependencyError, unit) result"

record PublicIdentity =
  pi_id :: IdentityId
  pi_signing_public_key :: bytes

record 'i Identity =
  id_public_identity :: "'i \<Rightarrow> (DependencyError, PublicIdentity) result"
  id_identify :: "bytes \<Rightarrow> (DependencyError, IdentityId) result"
  id_sign_authentication :: "bytes \<Rightarrow> 'i \<Rightarrow> (DependencyError, bytes) result \<times> 'i"

text \<open>Verification recomputes the tag: \<open>the same empty-plaintext construction\<close>.\<close>

definition exact_tags :: "('g, 'e, 'h, 'p, 'k) Cryptography \<Rightarrow> bool" where
  "exact_tags cy \<longleftrightarrow>
     (\<forall>k n d t. cy_verify_tag cy k n d t = Inr () \<longleftrightarrow> cy_tag cy k n d = Inr t)"

text \<open>The derivation functions do not depend on the state of the adapter.\<close>

definition deterministic_derivation :: "('g, 'e, 'h, 'p, 'k) Cryptography \<Rightarrow> bool" where
  "deterministic_derivation cy \<longleftrightarrow>
     (\<forall>x y g g'. fst (cy_extract cy x y g) = fst (cy_extract cy x y g')) \<and>
     (\<forall>x y g g'. fst (cy_expand_key cy x y g) = fst (cy_expand_key cy x y g'))"

text \<open>Diffie-Hellman: each side's secret with the other side's public key gives the same result.\<close>

definition agreement :: "('g, 'e, 'h, 'p, 'k) Cryptography \<Rightarrow> 'e \<Rightarrow> bytes \<Rightarrow> 'e \<Rightarrow> bytes \<Rightarrow> bool" where
  "agreement cy a pub_a b pub_b \<longleftrightarrow>
     (\<forall>g g'. fst (cy_agree cy a pub_b g) = fst (cy_agree cy b pub_a g'))"

section \<open>An instance\<close>

text \<open>
  A capability that meets the documented behaviour, for the examples that instantiate the
  predicates: secrets are numbers, a public key is the 32-byte form of its secret, agreement
  multiplies, and a tag is a prefix of its inputs. It has the shape of the primitives and none of
  their strength.
\<close>

definition sample_public :: "nat \<Rightarrow> bytes" where
  "sample_public secret = be_bytes 32 secret"

definition sample_tag :: "nat \<Rightarrow> bytes \<Rightarrow> bytes \<Rightarrow> bytes" where
  "sample_tag k n d = take 16 (drop 16 n @ of_nat k # d @ replicate 16 0)"

definition sample_crypto :: "(nat, nat, nat, nat, nat) Cryptography" where
  "sample_crypto =
     \<lparr>cy_random_nonce = (\<lambda>g. (Inr (be_bytes 32 g), Suc g)),
      cy_ephemeral_key = (\<lambda>g. (Inr (sample_public g, g), Suc g)),
      cy_sha256 = (\<lambda>bs. Inr (take 32 (bs @ replicate 32 0))),
      cy_verify_signature = (\<lambda>key m sig.
        if sig = take 64 (key @ m @ replicate 64 0) then Inr () else Inl De_VerificationFailed),
      cy_agree = (\<lambda>e pub g. (Inr (e * be_val pub), g)),
      cy_extract = (\<lambda>salt h g. (Inr h, g)),
      cy_expand_key = (\<lambda>p info g. (Inr (p + length info), g)),
      cy_expand_nonce_prefix = (\<lambda>p info. Inr (be_bytes 16 p)),
      cy_tag = (\<lambda>k n d. Inr (sample_tag k n d)),
      cy_verify_tag = (\<lambda>k n d t.
        if t = sample_tag k n d then Inr () else Inl De_VerificationFailed)\<rparr>"

lemma sample_exact_tags: "exact_tags sample_crypto"
  by (auto simp: exact_tags_def sample_crypto_def)

lemma sample_deterministic: "deterministic_derivation sample_crypto"
  by (simp add: deterministic_derivation_def sample_crypto_def)

lemma sample_agreement:
  "a < 256 ^ 32 \<Longrightarrow> b < 256 ^ 32 \<Longrightarrow>
     agreement sample_crypto a (sample_public a) b (sample_public b)"
  by (simp add: agreement_def sample_crypto_def sample_public_def be_val_be_bytes mult.commute)

end
