(* ===== verification/Handshake_Codec.thy ===== *)
theory Handshake_Codec
  imports Wire_Codec
begin

text \<open>
  HELLO and AUTH payload shapes: \<open>codec/handshake.rs\<close>. HELLO is exactly 100 bytes with four selector
  bytes equal to one around a 32-byte identity key, a 32-byte ephemeral key and a 32-byte nonce;
  AUTH is a 64-byte signature.
\<close>

datatype HandshakePayloadError =
    Hpe_Length usize usize
  | Hpe_Selector usize byte

record Hello =
  hl_identity_public_key :: bytes
  hl_ephemeral_public_key :: bytes
  hl_nonce :: bytes

definition hello_encode :: "Hello \<Rightarrow> bytes" where
  "hello_encode h =
     [1, 1, 1] @ hl_identity_public_key h @ [1] @ hl_ephemeral_public_key h @ hl_nonce h"

text \<open>The selector loop stops at the first offset whose byte is not one.\<close>

fun check_selectors :: "usize list \<Rightarrow> bytes \<Rightarrow> (HandshakePayloadError, unit) result" where
  "check_selectors [] bs = Inr ()"
| "check_selectors (offset # offsets) bs =
     (if bs ! offset \<noteq> 1 then Inl (Hpe_Selector offset (bs ! offset))
      else check_selectors offsets bs)"

definition hello_decode :: "bytes \<Rightarrow> (HandshakePayloadError, Hello) result" where
  "hello_decode bs =
     (if length bs \<noteq> 100 then Inl (Hpe_Length 100 (length bs))
      else and_then (check_selectors [0, 1, 2, 35] bs) (\<lambda>_.
        Inr \<lparr>hl_identity_public_key = subslice 3 35 bs,
             hl_ephemeral_public_key = subslice 36 68 bs,
             hl_nonce = drop 68 bs\<rparr>))"

definition hello_valid :: "Hello \<Rightarrow> bool" where
  "hello_valid h \<longleftrightarrow>
     length (hl_identity_public_key h) = 32 \<and> length (hl_ephemeral_public_key h) = 32 \<and>
     length (hl_nonce h) = 32"

lemma hello_decode_encode: "hello_valid h \<Longrightarrow> hello_decode (hello_encode h) = Inr h"
  by (cases h)
     (simp add: hello_decode_def hello_encode_def hello_valid_def subslice_def nth_append)

lemma check_selectors_ok: "check_selectors os bs = Inr u \<longleftrightarrow> (\<forall>i \<in> set os. bs ! i = 1)"
  by (induction os) auto

lemma hello_parts:
  assumes "length bs = 100" "\<forall>i \<in> {0, 1, 2, 35}. bs ! i = (1 :: byte)"
  shows "bs = [1, 1, 1] @ subslice 3 35 bs @ [1] @ subslice 36 68 bs @ drop 68 bs"
proof -
  have "subslice 0 3 bs = [1, 1, 1]"
    using assms
    by (simp add: subslice_def numeral_3_eq_3 numeral_2_eq_2 take_Suc_conv_app_nth)
  moreover have "subslice 35 36 bs = [1]"
    using assms by (simp add: subslice_def Cons_nth_drop_Suc [symmetric])
  moreover have "subslice 0 3 bs @ subslice 3 35 bs @ subslice 35 36 bs @ subslice 36 68 bs
      @ subslice 68 100 bs = subslice 0 100 bs"
    by (simp add: subslice_glue)
  moreover have "subslice 68 100 bs = drop 68 bs" "subslice 0 100 bs = bs"
    using assms(1) by (simp_all add: subslice_def)
  ultimately show ?thesis by simp
qed

lemma hello_decode_sound:
  assumes "hello_decode bs = Inr h"
  shows "hello_valid h \<and> hello_encode h = bs"
proof -
  from assms have len: "length bs = 100" and ones: "\<forall>i \<in> {0, 1, 2, 35}. bs ! i = 1"
    and h: "h = \<lparr>hl_identity_public_key = subslice 3 35 bs,
             hl_ephemeral_public_key = subslice 36 68 bs, hl_nonce = drop 68 bs\<rparr>"
    by (auto simp: hello_decode_def and_then_eq_Inr check_selectors_ok
        simp del: check_selectors.simps split: if_splits)
  show ?thesis
    using hello_parts [OF len ones] len by (simp add: h hello_encode_def hello_valid_def)
qed

interpretation hello_codec: fixed_codec hello_valid hello_encode hello_decode 100
  by unfold_locales
     (simp_all add: hello_decode_encode hello_decode_sound, simp add: hello_valid_def hello_encode_def)

type_synonym Auth = bytes

definition auth_decode :: "bytes \<Rightarrow> (HandshakePayloadError, Auth) result" where
  "auth_decode bs = (if length bs = 64 then Inr bs else Inl (Hpe_Length 64 (length bs)))"

definition auth_encode :: "Auth \<Rightarrow> bytes" where
  "auth_encode a = a"

definition auth_valid :: "Auth \<Rightarrow> bool" where
  "auth_valid a \<longleftrightarrow> length a = 64"

interpretation auth_codec: fixed_codec auth_valid auth_encode auth_decode 64
  by unfold_locales (auto simp: auth_valid_def auth_encode_def auth_decode_def split: if_splits)

section \<open>Properties\<close>

text \<open>
  C39: The HELLO and AUTH decoders accept exactly the encodings of well-formed payloads, which have
  100 and 64 bytes.
\<close>

theorem handshake_decode_exact:
  "(hello_decode bs = Inr h \<longleftrightarrow> hello_valid h \<and> bs = hello_encode h) \<and>
   (auth_decode bs = Inr a \<longleftrightarrow> auth_valid a \<and> bs = auth_encode a)"
  by (intro conjI hello_codec.decode_iff auth_codec.decode_iff)

end
