(* ===== verification/Session_Keys.thy ===== *)
theory Session_Keys
  imports Crypto_Ports Handshake_Codec
begin

text \<open>
  The role-ordered transcript of the two HELLO payloads and the directional keys derived from it:
  \<open>handshake/transcript.rs\<close> and \<open>handshake/keys.rs\<close>. The lemmas show that a transcript determines both
  payloads, that an authentication message determines the role and the transcript, that two ends
  which agree on the transcript derive mirrored keys, and that a nonce determines its sequence
  number.
\<close>

text \<open>A byte-string literal.\<close>

definition ascii :: "string \<Rightarrow> bytes" where
  "ascii s = map of_char s"

lemma length_ascii [simp]: "length (ascii s) = length s"
  by (simp add: ascii_def)

section \<open>The transcript\<close>

type_synonym Transcript = bytes

definition transcript_new :: "Hello \<Rightarrow> Hello \<Rightarrow> Transcript" where
  "transcript_new initiator acceptor =
     u32_to_be 100 @ hello_encode initiator @ u32_to_be 100 @ hello_encode acceptor"

definition transcript_authentication :: "ConnectionRole \<Rightarrow> Transcript \<Rightarrow> bytes" where
  "transcript_authentication role t =
     ascii ''CR2SE-NETWORK-AUTH-V1''
       @ [0, (case role of Initiator \<Rightarrow> 1 | Acceptor \<Rightarrow> 2)] @ t"

definition transcript_sign ::
    "ConnectionRole \<Rightarrow> 'i Identity \<Rightarrow> Transcript \<Rightarrow> 'i \<Rightarrow> (DependencyError, Auth) result \<times> 'i" where
  "transcript_sign role idn t i = id_sign_authentication idn (transcript_authentication role t) i"

definition transcript_verify ::
    "ConnectionRole \<Rightarrow> bytes \<Rightarrow> Auth \<Rightarrow> ('g, 'e, 'h, 'p, 'k) Cryptography \<Rightarrow> Transcript
      \<Rightarrow> (DependencyError, unit) result" where
  "transcript_verify role public_key auth cy t =
     cy_verify_signature cy public_key (transcript_authentication role t) auth"

lemma length_hello_encode: "hello_valid h \<Longrightarrow> length (hello_encode h) = 100"
  by (simp add: hello_valid_def hello_encode_def)

lemma transcript_length:
  "hello_valid a \<Longrightarrow> hello_valid b \<Longrightarrow> length (transcript_new a b) = 208"
  by (simp add: transcript_new_def length_hello_encode)

lemma transcript_inject:
  assumes "hello_valid a" "hello_valid b" "hello_valid a'" "hello_valid b'"
    "transcript_new a b = transcript_new a' b'"
  shows "a = a'" "b = b'"
proof -
  have "hello_encode a = hello_encode a'" "hello_encode b = hello_encode b'"
    using assms by (simp_all add: transcript_new_def length_hello_encode)
  then show "a = a'" "b = b'"
    using assms(1-4) hello_decode_encode by (metis sum.inject(2))+
qed

lemma authentication_inject:
  "transcript_authentication r t = transcript_authentication r' t' \<longleftrightarrow> r = r' \<and> t = t'"
  by (cases r; cases r') (auto simp: transcript_authentication_def)

section \<open>Directional keys\<close>

record 'k DirectionKeys =
  dk_key :: 'k
  dk_nonce_prefix :: bytes

record 'k SessionKeys =
  sk_send :: "'k DirectionKeys"
  sk_receive :: "'k DirectionKeys"

definition derive_keys ::
    "ConnectionRole \<Rightarrow> 'e \<Rightarrow> bytes \<Rightarrow> Transcript \<Rightarrow> ('g, 'e, 'h, 'p, 'k) Cryptography \<Rightarrow> 'g
      \<Rightarrow> (DependencyError, 'k SessionKeys) result \<times> 'g" where
  "derive_keys role private remote transcript cy g =
     and_thread (cy_agree cy private remote g) (\<lambda>shared g.
     and_thread (cy_sha256 cy (ascii ''CR2SE-NETWORK-KEYS-V1'' @ [0] @ transcript), g) (\<lambda>salt g.
     and_thread (cy_extract cy salt shared g) (\<lambda>prk g.
     and_thread (cy_expand_key cy prk (ascii ''CR2SE-NETWORK-V1-I2A-KEY'') g) (\<lambda>i2a_key g.
     and_thread (cy_expand_key cy prk (ascii ''CR2SE-NETWORK-V1-A2I-KEY'') g) (\<lambda>a2i_key g.
     and_thread (cy_expand_nonce_prefix cy prk (ascii ''CR2SE-NETWORK-V1-I2A-NONCE''), g) (\<lambda>i2a_prefix g.
     and_thread (cy_expand_nonce_prefix cy prk (ascii ''CR2SE-NETWORK-V1-A2I-NONCE''), g) (\<lambda>a2i_prefix g.
       (let i2a = \<lparr>dk_key = i2a_key, dk_nonce_prefix = i2a_prefix\<rparr>;
            a2i = \<lparr>dk_key = a2i_key, dk_nonce_prefix = a2i_prefix\<rparr>
        in (Inr (case role of
                   Initiator \<Rightarrow> \<lparr>sk_send = i2a, sk_receive = a2i\<rparr>
                 | Acceptor \<Rightarrow> \<lparr>sk_send = a2i, sk_receive = i2a\<rparr>), g)))))))))"

text \<open>The primitives the derivation calls succeed: the agreement with this key, hashing and expansion.\<close>

definition derives :: "('g, 'e, 'h, 'p, 'k) Cryptography \<Rightarrow> 'e \<Rightarrow> bytes \<Rightarrow> bool" where
  "derives cy private remote \<longleftrightarrow>
     (\<forall>g. is_ok (fst (cy_agree cy private remote g))) \<and>
     (\<forall>m. is_ok (cy_sha256 cy m)) \<and>
     (\<forall>salt shared g. is_ok (fst (cy_extract cy salt shared g))) \<and>
     (\<forall>prk info g. is_ok (fst (cy_expand_key cy prk info g))) \<and>
     (\<forall>prk info. is_ok (cy_expand_nonce_prefix cy prk info))"

lemma and_thread_ok: "is_ok (fst out) \<Longrightarrow> (\<And>a g. is_ok (fst (f a g))) \<Longrightarrow> is_ok (fst (and_thread out f))"
  by (cases out; cases "fst out") simp_all

lemma derives_keys: "derives cy private remote \<Longrightarrow> is_ok (fst (derive_keys role private remote transcript cy g))"
  unfolding derives_def derive_keys_def by (intro and_thread_ok) (simp_all add: Let_def)

definition nonce :: "bytes \<Rightarrow> u64 \<Rightarrow> bytes" where
  "nonce prefix sequence = prefix @ u64_to_be sequence"

lemma length_nonce [simp]: "length (nonce p s) = length p + 8"
  by (simp add: nonce_def)

lemma nonce_inject [simp]: "nonce p s = nonce p s' \<longleftrightarrow> s = s'"
  by (simp add: nonce_def u64_to_be_inject)

text \<open>The other end's view of the same keys.\<close>

definition mirror :: "'k SessionKeys \<Rightarrow> 'k SessionKeys" where
  "mirror k = \<lparr>sk_send = sk_receive k, sk_receive = sk_send k\<rparr>"

lemma and_thread_mirror:
  assumes "fst out = fst out'"
    and "\<And>a g g'. fst (f a g) = map_sum id m (fst (f' a g'))"
  shows "fst (and_thread out f) = map_sum id m (fst (and_thread out' f'))"
proof (cases "fst out")
  case (Inl e)
  then have "out = (Inl e, snd out)" "out' = (Inl e, snd out')"
    using assms(1) by (simp_all add: prod_eq_iff)
  then show ?thesis by (metis and_thread_simps(1) fst_conv id_apply map_sum.simps(1))
next
  case (Inr x)
  then have "out = (Inr x, snd out)" "out' = (Inr x, snd out')"
    using assms(1) by (simp_all add: prod_eq_iff)
  then show ?thesis using assms(2) by (metis and_thread_simps(2))
qed

lemma derive_keys_mirror:
  assumes "deterministic_derivation cy" "agreement cy a pub_a b pub_b"
  shows "fst (derive_keys Initiator a pub_b t cy g)
       = map_sum id mirror (fst (derive_keys Acceptor b pub_a t cy g'))"
proof -
  have agree: "fst (cy_agree cy a pub_b x) = fst (cy_agree cy b pub_a y)" for x y
    using assms(2) by (simp add: agreement_def)
  have extr: "fst (cy_extract cy u v x) = fst (cy_extract cy u v y)" for u v x y
    using assms(1) unfolding deterministic_derivation_def by blast
  have expand: "fst (cy_expand_key cy u v x) = fst (cy_expand_key cy u v y)" for u v x y
    using assms(1) unfolding deterministic_derivation_def by blast
  show ?thesis
    unfolding derive_keys_def
    by (intro and_thread_mirror agree extr expand) (simp_all add: mirror_def Let_def)
qed

section \<open>Properties\<close>

end
