(* ===== verification/Handshake.thy ===== *)
theory Handshake
  imports Framing Session_Keys
begin

text \<open>
  HELLO and AUTH sequencing of one connection: \<open>handshake/state.rs\<close>. The owner reports completed writes
  with \<open>sent\<close> and hands over complete frames with \<open>receive\<close>; the identity and cryptography capabilities
  are arguments, each with the state it threads.

  Shown here, for every order of calls and every peer: nothing is established before the local AUTH
  was written and a signature of the identified peer over this very transcript was verified; keys are
  handed over once; every error releases the secrets for good. Two honest ends establish mirrored
  keys, and where signatures cannot be forged both ends of an authenticated connection hold the same
  transcript.
\<close>

section \<open>State\<close>

datatype HandshakeError =
    Hs_Order
  | Hs_Peer ErrorCode
  | Hs_Payload HandshakePayloadError
  | Hs_UnexpectedIdentity
  | Hs_Dependency DependencyError
  | Hs_Framing FramingError

record 'k Established =
  es_role :: ConnectionRole
  es_local_identity :: IdentityId
  es_peer_identity :: IdentityId
  es_keys :: "'k SessionKeys"

record ('e, 'k) Handshake =
  hs_role :: ConnectionRole
  hs_expected :: ExpectedPeer
  hs_local_identity :: IdentityId
  hs_local :: Hello
  hs_remote :: "(Hello \<times> IdentityId) option"
  hs_private :: "'e option"
  hs_keys :: "'k SessionKeys option"
  hs_hello_sent :: bool
  hs_auth_sent :: bool
  hs_peer_verified :: bool
  hs_closed :: bool

definition raw_frame :: "FrameType \<Rightarrow> bytes \<Rightarrow> (HandshakeError, WireFrame) result" where
  "raw_frame kind payload =
     and_then (map_err (\<lambda>e. Hs_Framing (Fe_Header e)) (header_new kind 0 (of_nat (length payload))))
       (\<lambda>header. map_err Hs_Framing (wire_frame_new header payload None))"

definition handshake_begin ::
    "ConnectionRole \<Rightarrow> ExpectedPeer \<Rightarrow> 'i Identity \<Rightarrow> 'i \<Rightarrow> ('g, 'e, 'h, 'p, 'k) Cryptography \<Rightarrow> 'g
      \<Rightarrow> (HandshakeError, ('e, 'k) Handshake \<times> WireFrame) result \<times> 'g" where
  "handshake_begin role expected idn i cy g =
     and_thread (map_err Hs_Dependency (id_public_identity idn i), g) (\<lambda>public g.
     and_thread (map_prod (map_err Hs_Dependency) id (cy_ephemeral_key cy g)) (\<lambda>(public_key, private_key) g.
     and_thread (map_prod (map_err Hs_Dependency) id (cy_random_nonce cy g)) (\<lambda>fresh_nonce g.
       (let own = \<lparr>hl_identity_public_key = pi_signing_public_key public,
                   hl_ephemeral_public_key = public_key, hl_nonce = fresh_nonce\<rparr>
        in and_thread (raw_frame Ft_Hello (hello_encode own), g) (\<lambda>frame g.
          (Inr (\<lparr>hs_role = role, hs_expected = expected, hs_local_identity = pi_id public,
                 hs_local = own, hs_remote = None, hs_private = Some private_key, hs_keys = None,
                 hs_hello_sent = False, hs_auth_sent = False, hs_peer_verified = False,
                 hs_closed = False\<rparr>, frame), g))))))"

definition handshake_close :: "('e, 'k) Handshake \<Rightarrow> ('e, 'k) Handshake" where
  "handshake_close h = h\<lparr>hs_closed := True, hs_private := None, hs_keys := None\<rparr>"

definition handshake_sent ::
    "FrameType \<Rightarrow> ('e, 'k) Handshake \<Rightarrow> (HandshakeError, unit) result \<times> ('e, 'k) Handshake" where
  "handshake_sent kind h =
     (if kind = Ft_Hello \<and> \<not> hs_closed h \<and> \<not> hs_hello_sent h then
        (Inr (), h\<lparr>hs_hello_sent := True\<rparr>)
      else if kind = Ft_Auth \<and> \<not> hs_closed h \<and> hs_hello_sent h \<and> \<not> hs_auth_sent h \<and> hs_remote h \<noteq> None then
        (Inr (), h\<lparr>hs_auth_sent := True\<rparr>)
      else (Inl Hs_Order, handshake_close h))"

definition handshake_transcript :: "('e, 'k) Handshake \<Rightarrow> Hello \<Rightarrow> Transcript" where
  "handshake_transcript h remote =
     (case hs_role h of
        Initiator \<Rightarrow> transcript_new (hs_local h) remote
      | Acceptor \<Rightarrow> transcript_new remote (hs_local h))"

definition peer_role :: "ConnectionRole \<Rightarrow> ConnectionRole" where
  "peer_role role = (case role of Initiator \<Rightarrow> Acceptor | Acceptor \<Rightarrow> Initiator)"

type_synonym ('e, 'k, 'i, 'g) handshake_state = "('e, 'k) Handshake \<times> 'i \<times> 'g"

text \<open>The two accepting arms of \<open>process\<close>.\<close>

definition handshake_hello ::
    "bytes \<Rightarrow> 'i Identity \<Rightarrow> ('e, 'k, 'i, 'g) handshake_state
      \<Rightarrow> (HandshakeError, WireFrame option) result \<times> ('e, 'k, 'i, 'g) handshake_state" where
  "handshake_hello payload idn st =
     and_thread (map_err Hs_Payload (hello_decode payload), st) (\<lambda>remote st.
     and_thread (map_err Hs_Dependency (id_identify idn (hl_identity_public_key remote)), st)
       (\<lambda>peer (h, i, g).
          if (case hs_expected h of Known expected \<Rightarrow> expected \<noteq> peer | Unpinned \<Rightarrow> False)
          then (Inl Hs_UnexpectedIdentity, (h, i, g))
          else case transcript_sign (hs_role h) idn (handshake_transcript h remote) i of
                 (Inl e, i') \<Rightarrow> (Inl (Hs_Dependency e), (h, i', g))
               | (Inr auth, i') \<Rightarrow>
                   and_thread (raw_frame Ft_Auth (auth_encode auth), (h\<lparr>hs_remote := Some (remote, peer)\<rparr>, i', g))
                     (\<lambda>frame st. (Inr (Some frame), st))))"

definition handshake_auth ::
    "bytes \<Rightarrow> ('g, 'e, 'h, 'p, 'k) Cryptography \<Rightarrow> ('e, 'k, 'i, 'g) handshake_state
      \<Rightarrow> (HandshakeError, WireFrame option) result \<times> ('e, 'k, 'i, 'g) handshake_state" where
  "handshake_auth payload cy = (\<lambda>(h, i, g).
     case hs_remote h of
       None \<Rightarrow> (Inl Hs_Order, (h, i, g))
     | Some (remote, _) \<Rightarrow>
         (let transcript = handshake_transcript h remote in
          and_thread (map_err Hs_Payload (auth_decode payload), (h, i, g)) (\<lambda>auth st.
          and_thread (map_err Hs_Dependency
              (transcript_verify (peer_role (hs_role h)) (hl_identity_public_key remote) auth cy transcript), st)
            (\<lambda>_ (h, i, g).
             case hs_private h of
               None \<Rightarrow> (Inl Hs_Order, (h, i, g))
             | Some private_key \<Rightarrow>
                 let h1 = h\<lparr>hs_private := None\<rparr> in
                 (case derive_keys (hs_role h) private_key (hl_ephemeral_public_key remote) transcript cy g of
                    (Inl e, g') \<Rightarrow> (Inl (Hs_Dependency e), (h1, i, g'))
                  | (Inr keys, g') \<Rightarrow>
                      (Inr None, (h1\<lparr>hs_keys := Some keys, hs_peer_verified := True\<rparr>, i, g')))))))"

definition handshake_process ::
    "WireFrame \<Rightarrow> 'i Identity \<Rightarrow> ('g, 'e, 'h, 'p, 'k) Cryptography \<Rightarrow> ('e, 'k, 'i, 'g) handshake_state
      \<Rightarrow> (HandshakeError, WireFrame option) result \<times> ('e, 'k, 'i, 'g) handshake_state" where
  "handshake_process frame idn cy = (\<lambda>(h, i, g).
     let kind = fh_frame_type (wf_header frame) in
     if hs_closed h \<or> hs_peer_verified h \<or> fh_stream_id (wf_header frame) \<noteq> 0 \<or> wf_tag frame \<noteq> None
     then (Inl Hs_Order, (h, i, g))
     else if kind = Ft_Error then
       and_thread (map_err (\<lambda>_. Hs_Order) (error_payload_decode (wf_payload frame)), (h, i, g))
         (\<lambda>error st. (Inl (Hs_Peer (dg_code error)), st))
     else if kind = Ft_Hello \<and> hs_remote h = None then handshake_hello (wf_payload frame) idn (h, i, g)
     else if kind = Ft_Auth \<and> hs_remote h \<noteq> None then handshake_auth (wf_payload frame) cy (h, i, g)
     else (Inl Hs_Order, (h, i, g)))"

definition handshake_receive ::
    "WireFrame \<Rightarrow> 'i Identity \<Rightarrow> ('g, 'e, 'h, 'p, 'k) Cryptography \<Rightarrow> ('e, 'k, 'i, 'g) handshake_state
      \<Rightarrow> (HandshakeError, WireFrame option) result \<times> ('e, 'k, 'i, 'g) handshake_state" where
  "handshake_receive frame idn cy st =
     (case handshake_process frame idn cy st of
        (Inl e, (h, i, g)) \<Rightarrow> (Inl e, (handshake_close h, i, g))
      | (Inr reply, st') \<Rightarrow> (Inr reply, st'))"

definition send_protection :: "('e, 'k) Handshake \<Rightarrow> FrameProtection" where
  "send_protection h = (if hs_auth_sent h then Tagged else Untagged)"

definition receive_protection :: "('e, 'k) Handshake \<Rightarrow> FrameProtection" where
  "receive_protection h = (if hs_peer_verified h then Tagged else Untagged)"

definition is_authenticated :: "('e, 'k) Handshake \<Rightarrow> bool" where
  "is_authenticated h \<longleftrightarrow> \<not> hs_closed h \<and> hs_auth_sent h \<and> hs_peer_verified h"

definition take_established :: "('e, 'k) Handshake \<Rightarrow> 'k Established option \<times> ('e, 'k) Handshake" where
  "take_established h =
     (if \<not> is_authenticated h then (None, h)
      else case hs_remote h of
             None \<Rightarrow> (None, h)
           | Some (_, peer) \<Rightarrow>
               (case hs_keys h of
                  None \<Rightarrow> (None, h)
                | Some keys \<Rightarrow>
                    (Some \<lparr>es_role = hs_role h, es_local_identity = hs_local_identity h,
                           es_peer_identity = peer, es_keys = keys\<rparr>, h\<lparr>hs_keys := None\<rparr>)))"

section \<open>Frames of the handshake\<close>

lemma raw_frame_ok:
  "kind \<in> {Ft_Hello, Ft_Auth} \<Longrightarrow> length payload \<le> 100 \<Longrightarrow>
     raw_frame kind payload = Inr
       \<lparr>wf_reservation = None,
        wf_header = \<lparr>fh_frame_type = kind, fh_stream_id = 0, fh_payload_len = of_nat (length payload)\<rparr>,
        wf_payload = payload, wf_tag = None\<rparr>"
  by (auto simp: raw_frame_def header_new_def validate_stream_id_def validate_payload_len_def
      wire_frame_new_def MAX_PAYLOAD_BYTES_def unat_of_nat)

text \<open>Byte arrays returned by the ports have the length of their type.\<close>

definition sized_crypto :: "('g, 'e, 'h, 'p, 'k) Cryptography \<Rightarrow> bool" where
  "sized_crypto cy \<longleftrightarrow>
     (\<forall>g n. fst (cy_random_nonce cy g) = Inr n \<longrightarrow> length n = 32) \<and>
     (\<forall>g p e. fst (cy_ephemeral_key cy g) = Inr (p, e) \<longrightarrow> length p = 32)"

definition sized_identity :: "'i Identity \<Rightarrow> bool" where
  "sized_identity idn \<longleftrightarrow>
     (\<forall>i p. id_public_identity idn i = Inr p \<longrightarrow> length (pi_signing_public_key p) = 32) \<and>
     (\<forall>m i s. fst (id_sign_authentication idn m i) = Inr s \<longrightarrow> length s = 64)"

section \<open>All executions\<close>

text \<open>
  Every sequence of calls on one handshake. The parameter \<open>secret\<close> is the ephemeral secret generated at
  the start.
\<close>

inductive handshake_run ::
    "'i Identity \<Rightarrow> ('g, 'e, 'h, 'p, 'k) Cryptography \<Rightarrow> ConnectionRole \<Rightarrow> ExpectedPeer \<Rightarrow> 'e
      \<Rightarrow> ('e, 'k) Handshake \<Rightarrow> bool"
  for idn :: "'i Identity" and cy :: "('g, 'e, 'h, 'p, 'k) Cryptography" and role expected secret where
  run_begin: "handshake_begin role expected idn i cy g = (Inr (h, hello), g') \<Longrightarrow>
     hs_private h = Some secret \<Longrightarrow> handshake_run idn cy role expected secret h"
| run_sent: "handshake_run idn cy role expected secret h \<Longrightarrow> handshake_sent kind h = (res, h') \<Longrightarrow>
     handshake_run idn cy role expected secret h'"
| run_receive: "handshake_run idn cy role expected secret h \<Longrightarrow>
     handshake_receive frame idn cy (h, i, g) = (reply, h', i', g') \<Longrightarrow>
     handshake_run idn cy role expected secret h'"
| run_take: "handshake_run idn cy role expected secret h \<Longrightarrow> take_established h = (est, h') \<Longrightarrow>
     handshake_run idn cy role expected secret h'"
| run_close: "handshake_run idn cy role expected secret h \<Longrightarrow>
     handshake_run idn cy role expected secret (handshake_close h)"

text \<open>The message an end signs, and the message it verifies under its peer's key.\<close>

definition own_proof :: "('e, 'k) Handshake \<Rightarrow> Hello \<Rightarrow> bytes" where
  "own_proof h remote = transcript_authentication (hs_role h) (handshake_transcript h remote)"

definition peer_proof :: "('e, 'k) Handshake \<Rightarrow> Hello \<Rightarrow> bytes" where
  "peer_proof h remote =
     transcript_authentication (peer_role (hs_role h)) (handshake_transcript h remote)"

definition accepts :: "ExpectedPeer \<Rightarrow> IdentityId \<Rightarrow> bool" where
  "accepts expected peer = (case expected of Known p \<Rightarrow> p = peer | Unpinned \<Rightarrow> True)"

text \<open>
  What is known of the peer once its HELLO was accepted, and once its signature was verified: the
  second gives the keys.
\<close>

definition identified :: "'i Identity \<Rightarrow> ('e, 'k) Handshake \<Rightarrow> bool" where
  "identified idn h \<longleftrightarrow> (\<forall>r peer. hs_remote h = Some (r, peer) \<longrightarrow>
     hello_valid r \<and> id_identify idn (hl_identity_public_key r) = Inr peer \<and> accepts (hs_expected h) peer)"

definition proved :: "('g, 'e, 'h, 'p, 'k) Cryptography \<Rightarrow> 'e \<Rightarrow> ('e, 'k) Handshake \<Rightarrow> bool" where
  "proved cy secret h \<longleftrightarrow> (hs_peer_verified h \<longrightarrow> (\<exists>r peer s.
     hs_remote h = Some (r, peer) \<and>
     cy_verify_signature cy (hl_identity_public_key r) (peer_proof h r) s = Inr () \<and>
     (\<forall>keys. hs_keys h = Some keys \<longrightarrow> (\<exists>g g'.
        derive_keys (hs_role h) secret (hl_ephemeral_public_key r) (handshake_transcript h r) cy g
          = (Inr keys, g')))))"

definition handshake_inv ::
    "'i Identity \<Rightarrow> ('g, 'e, 'h, 'p, 'k) Cryptography \<Rightarrow> ConnectionRole \<Rightarrow> ExpectedPeer \<Rightarrow> 'e
      \<Rightarrow> ('e, 'k) Handshake \<Rightarrow> bool" where
  "handshake_inv idn cy role expected secret h \<longleftrightarrow>
     hs_role h = role \<and> hs_expected h = expected \<and> identified idn h \<and> proved cy secret h \<and>
     (hs_closed h \<longrightarrow> hs_private h = None \<and> hs_keys h = None) \<and>
     (hs_keys h \<noteq> None \<longrightarrow> hs_peer_verified h) \<and>
     (hs_auth_sent h \<longrightarrow> hs_hello_sent h \<and> hs_remote h \<noteq> None) \<and>
     (hs_private h \<noteq> None \<longrightarrow> hs_private h = Some secret \<and> hs_keys h = None \<and> \<not> hs_peer_verified h)"

lemma transcript_cong [simp]:
  "handshake_transcript (h\<lparr>hs_remote := x\<rparr>) = handshake_transcript h"
  "handshake_transcript (h\<lparr>hs_private := y\<rparr>) = handshake_transcript h"
  "handshake_transcript (h\<lparr>hs_keys := z\<rparr>) = handshake_transcript h"
  "handshake_transcript (h\<lparr>hs_closed := b\<rparr>) = handshake_transcript h"
  "handshake_transcript (h\<lparr>hs_hello_sent := b\<rparr>) = handshake_transcript h"
  "handshake_transcript (h\<lparr>hs_auth_sent := b\<rparr>) = handshake_transcript h"
  "handshake_transcript (h\<lparr>hs_peer_verified := b\<rparr>) = handshake_transcript h"
  by (cases "hs_role h"; simp add: handshake_transcript_def fun_eq_iff)+

lemmas handshake_inv_defs = handshake_inv_def identified_def proved_def peer_proof_def

lemma inv_close: "handshake_inv idn cy role expected secret h \<Longrightarrow>
    handshake_inv idn cy role expected secret (handshake_close h)"
  by (auto simp: handshake_inv_defs handshake_close_def)

lemma inv_sent: "handshake_inv idn cy role expected secret h \<Longrightarrow> handshake_sent kind h = (res, h') \<Longrightarrow>
    handshake_inv idn cy role expected secret h'"
  by (auto simp: handshake_sent_def inv_close split: if_splits)
     (auto simp: handshake_inv_defs)

lemma inv_take: "handshake_inv idn cy role expected secret h \<Longrightarrow> take_established h = (est, h') \<Longrightarrow>
    handshake_inv idn cy role expected secret h'"
  by (auto simp: take_established_def split: if_splits option.splits)
     (auto simp: handshake_inv_defs is_authenticated_def)

lemma inv_begin:
  assumes "handshake_begin role expected idn i cy g = (Inr (h, hello), g')" "hs_private h = Some secret"
  shows "handshake_inv idn cy role expected secret h"
  using assms by (auto simp: handshake_begin_def Let_def and_thread_eq_Inr handshake_inv_defs)

lemma handshake_hello_cases:
  assumes "handshake_hello payload idn (h, i, g) = (reply, h', i', g')"
  obtains (same) "h' = h"
  | (accepted) r peer where "hello_valid r" "id_identify idn (hl_identity_public_key r) = Inr peer"
      "accepts (hs_expected h) peer" "h' = h\<lparr>hs_remote := Some (r, peer)\<rparr>"
proof (cases "hello_decode payload")
  case (Inl e)
  with assms same show ?thesis by (simp add: handshake_hello_def)
next
  case (Inr r)
  then have valid: "hello_valid r" using hello_decode_sound by blast
  show ?thesis
  proof (cases "id_identify idn (hl_identity_public_key r)")
    case (Inl e)
    with assms Inr same show ?thesis by (simp add: handshake_hello_def)
  next
    case peer: (Inr peer)
    show ?thesis
    proof (cases "accepts (hs_expected h) peer")
      case False
      then have "h' = h"
        using assms Inr peer by (cases "hs_expected h") (simp_all add: handshake_hello_def accepts_def)
      then show ?thesis by (rule same)
    next
      case True
      obtain auth i1 where sign: "transcript_sign (hs_role h) idn (handshake_transcript h r) i = (auth, i1)"
        by fastforce
      have run: "handshake_hello payload idn (h, i, g) =
          (case auth of Inl e \<Rightarrow> (Inl (Hs_Dependency e), (h, i1, g))
           | Inr a \<Rightarrow> and_thread (raw_frame Ft_Auth (auth_encode a), (h\<lparr>hs_remote := Some (r, peer)\<rparr>, i1, g))
               (\<lambda>frame st. (Inr (Some frame), st)))"
        using Inr peer True sign
        by (cases "hs_expected h"; cases auth) (simp_all add: handshake_hello_def accepts_def)
      have "h' = h \<or> h' = h\<lparr>hs_remote := Some (r, peer)\<rparr>"
        using assms unfolding run
        by (cases auth) (auto simp: and_thread_def split: sum.splits)
      with same accepted valid peer True show ?thesis by blast
    qed
  qed
qed

lemma inv_hello:
  assumes "handshake_inv idn cy role expected secret h" "hs_remote h = None"
    "handshake_hello payload idn (h, i, g) = (reply, h', i', g')"
  shows "handshake_inv idn cy role expected secret h'"
  using assms(3)
proof (cases rule: handshake_hello_cases)
  case same
  with assms(1) show ?thesis by simp
next
  case (accepted r peer)
  with assms(1,2) show ?thesis by (auto simp: handshake_inv_defs)
qed

lemma inv_auth:
  assumes "handshake_inv idn cy role expected secret h" "\<not> hs_peer_verified h" "\<not> hs_closed h"
    "handshake_auth payload cy (h, i, g) = (Inr reply, h', i', g')"
  shows "handshake_inv idn cy role expected secret h'"
proof -
  from assms(4) obtain r peer s private_key keys where
    remote: "hs_remote h = Some (r, peer)" and priv: "hs_private h = Some private_key"
    and verify: "cy_verify_signature cy (hl_identity_public_key r) (peer_proof h r) s = Inr ()"
    and derive: "derive_keys (hs_role h) private_key (hl_ephemeral_public_key r)
      (handshake_transcript h r) cy g = (Inr keys, g')"
    and h': "h' = h\<lparr>hs_private := None, hs_keys := Some keys, hs_peer_verified := True\<rparr>"
    by (auto simp: handshake_auth_def and_thread_eq_Inr Let_def transcript_verify_def peer_proof_def
        split: option.splits prod.splits sum.splits)
  from assms(1) priv have "private_key = secret" by (simp add: handshake_inv_def)
  with assms(1-3) remote verify derive show ?thesis
    by (auto simp: h' handshake_inv_defs)
qed

lemma handshake_process_cases:
  assumes "handshake_process frame idn cy (h, i, g) = (reply, h', i', g')"
  obtains (same) "h' = h" "\<not> is_ok reply"
  | (hello) "\<not> hs_closed h" "hs_remote h = None"
      "handshake_hello (wf_payload frame) idn (h, i, g) = (reply, h', i', g')"
  | (auth) "\<not> hs_closed h" "\<not> hs_peer_verified h"
      "handshake_auth (wf_payload frame) cy (h, i, g) = (reply, h', i', g')"
proof -
  from assms consider "h' = h" "\<not> is_ok reply"
    | "\<not> hs_closed h" "hs_remote h = None"
        "handshake_hello (wf_payload frame) idn (h, i, g) = (reply, h', i', g')"
    | "\<not> hs_closed h" "\<not> hs_peer_verified h"
        "handshake_auth (wf_payload frame) cy (h, i, g) = (reply, h', i', g')"
    by (auto simp: handshake_process_def Let_def and_thread_def map_err_def split: if_splits sum.splits)
  then show ?thesis using that by cases
qed

lemma auth_keeps:
  assumes "handshake_auth payload cy (h, i, g) = (Inl e, h', i', g')"
  shows "handshake_close h' = handshake_close h"
  using assms
  by (auto simp: handshake_auth_def and_thread_def map_err_def Let_def handshake_close_def
      split: option.splits prod.splits sum.splits)

lemma receive_local:
  assumes "handshake_receive frame idn cy (h, i, g) = (reply, h', i', g')"
  shows "hs_local h' = hs_local h"
proof -
  obtain reply1 h1 i1 g1 where step: "handshake_process frame idn cy (h, i, g) = (reply1, h1, i1, g1)"
    by (metis prod_cases4)
  have "hs_local h' = hs_local h1"
    using assms step by (auto simp: handshake_receive_def handshake_close_def split: sum.splits)
  moreover from step have "hs_local h1 = hs_local h"
  proof (cases rule: handshake_process_cases)
    case hello
    from hello(3) show ?thesis by (cases rule: handshake_hello_cases) auto
  next
    case auth
    then show ?thesis
      by (auto simp: handshake_auth_def and_thread_def map_err_def Let_def
          split: option.splits prod.splits sum.splits)
  qed simp
  ultimately show ?thesis by simp
qed

lemma inv_receive:
  assumes "handshake_inv idn cy role expected secret h"
    "handshake_receive frame idn cy (h, i, g) = (reply, h', i', g')"
  shows "handshake_inv idn cy role expected secret h'"
proof -
  obtain reply1 h1 i1 g1 where step: "handshake_process frame idn cy (h, i, g) = (reply1, h1, i1, g1)"
    by (metis prod_cases4)
  have h': "h' = (if is_ok reply1 then h1 else handshake_close h1)"
    using assms(2) step by (auto simp: handshake_receive_def split: sum.splits)
  from step show ?thesis
  proof (cases rule: handshake_process_cases)
    case same
    with assms(1) show ?thesis by (simp add: h' inv_close)
  next
    case hello
    with assms(1) have "handshake_inv idn cy role expected secret h1" by (blast intro: inv_hello)
    then show ?thesis by (simp add: h' inv_close)
  next
    case auth
    show ?thesis
    proof (cases reply1)
      case (Inl e)
      with auth(3) have "handshake_close h1 = handshake_close h" by (simp add: auth_keeps)
      with Inl assms(1) show ?thesis by (simp add: h' inv_close)
    next
      case (Inr r)
      with auth assms(1) show ?thesis by (auto simp: h' intro: inv_auth)
    qed
  qed
qed

lemma inv_keys:
  assumes "handshake_inv idn cy role expected secret h" "hs_remote h = Some (r, peer)" "hs_keys h = Some keys"
  shows "\<exists>g g'. derive_keys role secret (hl_ephemeral_public_key r) (handshake_transcript h r) cy g = (Inr keys, g')"
  using assms by (auto simp: handshake_inv_def proved_def)

lemma handshake_run_inv:
  "handshake_run idn cy role expected secret h \<Longrightarrow> handshake_inv idn cy role expected secret h"
  by (induction rule: handshake_run.induct)
     (auto intro: inv_begin inv_sent inv_receive inv_take inv_close)

lemma established_facts:
  assumes "handshake_run idn cy role expected secret h" "take_established h = (Some est, h')"
  obtains r s g g' where "hs_remote h = Some (r, es_peer_identity est)" "hs_auth_sent h"
    "id_identify idn (hl_identity_public_key r) = Inr (es_peer_identity est)"
    "accepts expected (es_peer_identity est)"
    "cy_verify_signature cy (hl_identity_public_key r) (peer_proof h r) s = Inr ()"
    "derive_keys role secret (hl_ephemeral_public_key r) (handshake_transcript h r) cy g = (Inr (es_keys est), g')"
proof -
  have inv: "handshake_inv idn cy role expected secret h" using assms(1) by (rule handshake_run_inv)
  from assms(2) obtain r where "hs_auth_sent h" "hs_peer_verified h"
    "hs_remote h = Some (r, es_peer_identity est)" "hs_keys h = Some (es_keys est)"
    by (auto simp: take_established_def is_authenticated_def split: if_splits option.splits)
  with inv that show ?thesis by (auto simp: handshake_inv_def identified_def proved_def)
qed

section \<open>Errors are final\<close>

lemma handshake_close_idem [simp]: "handshake_close (handshake_close h) = handshake_close h"
  by (simp add: handshake_close_def)

lemma closed_absorbing:
  assumes "hs_closed h" "h = handshake_close h0"
  shows "handshake_receive frame idn cy (h, i, g) = (Inl Hs_Order, (h, i, g))"
    "handshake_sent kind h = (Inl Hs_Order, h)"
    "take_established h = (None, h)"
  using assms
  by (simp_all add: handshake_receive_def handshake_process_def handshake_sent_def take_established_def
      is_authenticated_def Let_def)

lemma receive_error_closed:
  assumes "handshake_receive frame idn cy (h, i, g) = (Inl e, h', i', g')"
  obtains h0 where "h' = handshake_close h0" "hs_closed h'"
  using assms
  by (auto simp: handshake_receive_def handshake_close_def split: prod.splits sum.splits)

section \<open>Two honest ends\<close>

text \<open>
  One end driven through a complete exchange: HELLO written, the peer's HELLO received, AUTH written,
  the peer's AUTH received, and the result taken.
\<close>

definition with_sent ::
    "FrameType \<Rightarrow> ('e, 'k, 'i, 'g) handshake_state
      \<Rightarrow> (HandshakeError, unit) result \<times> ('e, 'k, 'i, 'g) handshake_state" where
  "with_sent kind = (\<lambda>(h, i, g). case handshake_sent kind h of (res, h') \<Rightarrow> (res, (h', i, g)))"

definition handshake_drive ::
    "'i Identity \<Rightarrow> ('g, 'e, 'h, 'p, 'k) Cryptography \<Rightarrow> WireFrame \<Rightarrow> WireFrame
      \<Rightarrow> ('e, 'k, 'i, 'g) handshake_state
      \<Rightarrow> (HandshakeError, WireFrame option \<times> 'k Established option) result \<times> ('e, 'k, 'i, 'g) handshake_state" where
  "handshake_drive idn cy hello auth st =
     and_thread (with_sent Ft_Hello st) (\<lambda>_ st.
     and_thread (handshake_receive hello idn cy st) (\<lambda>reply st.
     and_thread (with_sent Ft_Auth st) (\<lambda>_ st.
     and_thread (handshake_receive auth idn cy st) (\<lambda>_ (h, i, g).
       (case take_established h of (est, h') \<Rightarrow> (Inr (reply, est), (h', i, g)))))))"

text \<open>An end as \<open>begin\<close> leaves it.\<close>

definition fresh_end ::
    "ConnectionRole \<Rightarrow> ExpectedPeer \<Rightarrow> IdentityId \<Rightarrow> Hello \<Rightarrow> 'e \<Rightarrow> ('e, 'k) Handshake" where
  "fresh_end role expected ident own secret =
     \<lparr>hs_role = role, hs_expected = expected, hs_local_identity = ident, hs_local = own,
      hs_remote = None, hs_private = Some secret, hs_keys = None, hs_hello_sent = False,
      hs_auth_sent = False, hs_peer_verified = False, hs_closed = False\<rparr>"

definition hello_frame :: "Hello \<Rightarrow> WireFrame" where
  "hello_frame own =
     \<lparr>wf_reservation = None,
      wf_header = \<lparr>fh_frame_type = Ft_Hello, fh_stream_id = 0, fh_payload_len = 100\<rparr>,
      wf_payload = hello_encode own, wf_tag = None\<rparr>"

definition auth_frame :: "Auth \<Rightarrow> WireFrame" where
  "auth_frame auth =
     \<lparr>wf_reservation = None,
      wf_header = \<lparr>fh_frame_type = Ft_Auth, fh_stream_id = 0, fh_payload_len = 64\<rparr>,
      wf_payload = auth_encode auth, wf_tag = None\<rparr>"

lemma raw_hello: "hello_valid own \<Longrightarrow> raw_frame Ft_Hello (hello_encode own) = Inr (hello_frame own)"
  by (simp add: raw_frame_ok length_hello_encode hello_frame_def)

lemma raw_auth: "length auth = 64 \<Longrightarrow> raw_frame Ft_Auth (auth_encode auth) = Inr (auth_frame auth)"
  by (simp add: raw_frame_ok auth_encode_def auth_frame_def)

lemma begin_fresh:
  assumes "sized_crypto cy" "sized_identity idn"
    "handshake_begin role expected idn i cy g = (Inr (h, hello), g')"
  obtains public own secret where "id_public_identity idn i = Inr public" "hello_valid own"
    "hl_identity_public_key own = pi_signing_public_key public"
    "h = fresh_end role expected (pi_id public) own secret" "hello = hello_frame own"
proof -
  from assms(3) obtain public pub secret g1 n g2 where
    public: "id_public_identity idn i = Inr public"
    and key: "cy_ephemeral_key cy g = (Inr (pub, secret), g1)"
    and n: "cy_random_nonce cy g1 = (Inr n, g2)"
    and rest: "raw_frame Ft_Hello (hello_encode \<lparr>hl_identity_public_key = pi_signing_public_key public,
        hl_ephemeral_public_key = pub, hl_nonce = n\<rparr>) = Inr hello"
      "h = fresh_end role expected (pi_id public) \<lparr>hl_identity_public_key = pi_signing_public_key public,
        hl_ephemeral_public_key = pub, hl_nonce = n\<rparr> secret"
    by (auto simp: handshake_begin_def and_thread_eq_Inr Let_def fresh_end_def map_prod_def split: prod.splits)
  let ?own = "\<lparr>hl_identity_public_key = pi_signing_public_key public,
        hl_ephemeral_public_key = pub, hl_nonce = n\<rparr>"
  have "length (pi_signing_public_key public) = 32" "length pub = 32" "length n = 32"
    using assms(1,2) public key n unfolding sized_crypto_def sized_identity_def by (metis fst_conv)+
  then have "hello_valid ?own" by (simp add: hello_valid_def)
  with public rest raw_hello show ?thesis by (intro that [of public ?own secret]) auto
qed

lemma fresh_hello:
  fixes role expected ident own secret
  defines "h \<equiv> fresh_end role expected ident own secret"
  assumes "hello_valid r" "id_identify idn (hl_identity_public_key r) = Inr peer" "accepts expected peer"
    and sign: "id_sign_authentication idn (own_proof h r) i = (Inr a, i')" "length a = 64"
  shows "handshake_sent Ft_Hello h = (Inr (), h\<lparr>hs_hello_sent := True\<rparr>)"
    "handshake_receive (hello_frame r) idn cy (h\<lparr>hs_hello_sent := True\<rparr>, i, g)
      = (Inr (Some (auth_frame a)), h\<lparr>hs_hello_sent := True, hs_remote := Some (r, peer)\<rparr>, i', g)"
proof -
  have h: "hs_role h = role" "hs_expected h = expected" "\<not> hs_closed h" "\<not> hs_hello_sent h"
    "\<not> hs_peer_verified h" "hs_remote h = None"
    by (simp_all add: h_def fresh_end_def)
  have "(case expected of Known e \<Rightarrow> e \<noteq> peer | Unpinned \<Rightarrow> False) = False"
    using assms(4) by (cases expected) (simp_all add: accepts_def)
  then show "handshake_sent Ft_Hello h = (Inr (), h\<lparr>hs_hello_sent := True\<rparr>)"
    "handshake_receive (hello_frame r) idn cy (h\<lparr>hs_hello_sent := True\<rparr>, i, g)
      = (Inr (Some (auth_frame a)), h\<lparr>hs_hello_sent := True, hs_remote := Some (r, peer)\<rparr>, i', g)"
    using h sign raw_auth assms(2,3)
    by (simp_all add: handshake_sent_def handshake_receive_def handshake_process_def handshake_hello_def
        hello_frame_def hello_decode_encode transcript_sign_def own_proof_def)
qed

lemma fresh_auth:
  fixes role expected ident own secret r peer
  defines "h \<equiv> fresh_end role expected ident own secret"
  defines "h' \<equiv> h\<lparr>hs_hello_sent := True, hs_remote := Some (r, peer)\<rparr>"
  assumes "cy_verify_signature cy (hl_identity_public_key r) (peer_proof h r) s = Inr ()" "length s = 64"
    "derive_keys role secret (hl_ephemeral_public_key r) (handshake_transcript h r) cy g = (res, g')"
  shows "handshake_sent Ft_Auth h' = (Inr (), h'\<lparr>hs_auth_sent := True\<rparr>)"
    "handshake_receive (auth_frame s) idn cy (h'\<lparr>hs_auth_sent := True\<rparr>, i, g) =
      (case res of
         Inr keys \<Rightarrow> (Inr None, h'\<lparr>hs_auth_sent := True, hs_private := None, hs_keys := Some keys,
           hs_peer_verified := True\<rparr>, i, g')
       | Inl e \<Rightarrow> (Inl (Hs_Dependency e), handshake_close (h'\<lparr>hs_auth_sent := True, hs_private := None\<rparr>), i, g'))"
proof -
  have h: "hs_role h = role" "hs_private h = Some secret" "\<not> hs_closed h" "\<not> hs_auth_sent h" "\<not> hs_peer_verified h"
    by (simp_all add: h_def fresh_end_def)
  then show "handshake_sent Ft_Auth h' = (Inr (), h'\<lparr>hs_auth_sent := True\<rparr>)"
    by (simp add: h'_def handshake_sent_def)
  show "handshake_receive (auth_frame s) idn cy (h'\<lparr>hs_auth_sent := True\<rparr>, i, g) =
      (case res of
         Inr keys \<Rightarrow> (Inr None, h'\<lparr>hs_auth_sent := True, hs_private := None, hs_keys := Some keys,
           hs_peer_verified := True\<rparr>, i, g')
       | Inl e \<Rightarrow> (Inl (Hs_Dependency e), handshake_close (h'\<lparr>hs_auth_sent := True, hs_private := None\<rparr>), i, g'))"
    using h assms(3-5)
    by (simp add: h'_def handshake_receive_def handshake_process_def handshake_auth_def auth_frame_def
        auth_decode_def auth_encode_def transcript_verify_def peer_proof_def Let_def split: sum.split)
qed

lemma drive_fresh:
  fixes role expected ident own secret
  defines "h \<equiv> fresh_end role expected ident own secret"
  assumes "hello_valid r" "id_identify idn (hl_identity_public_key r) = Inr peer" "accepts expected peer"
    and sign: "id_sign_authentication idn (own_proof h r) i = (Inr a, i')" "length a = 64"
    and verify: "cy_verify_signature cy (hl_identity_public_key r) (peer_proof h r) s = Inr ()" "length s = 64"
    and derive: "derive_keys role secret (hl_ephemeral_public_key r) (handshake_transcript h r) cy g
      = (res, g')"
  shows "fst (handshake_receive (hello_frame r) idn cy (snd (handshake_sent Ft_Hello h), i, g))
      = Inr (Some (auth_frame a))"
    "case res of
       Inr keys \<Rightarrow> fst (handshake_drive idn cy (hello_frame r) (auth_frame s) (h, i, g))
         = Inr (Some (auth_frame a), Some \<lparr>es_role = role, es_local_identity = ident, es_peer_identity = peer,
             es_keys = keys\<rparr>)
     | Inl e \<Rightarrow> \<exists>h'. handshake_drive idn cy (hello_frame r) (auth_frame s) (h, i, g)
         = (Inl (Hs_Dependency e), handshake_close h', i', g')"
proof -
  note hello = fresh_hello [OF assms(2-4) sign [unfolded h_def], folded h_def]
  note auth = fresh_auth [OF verify(1) [unfolded h_def] verify(2) derive [unfolded h_def], folded h_def]
  have h: "hs_role h = role" "\<not> hs_closed h" "hs_local_identity h = ident"
    by (simp_all add: h_def fresh_end_def)
  show "fst (handshake_receive (hello_frame r) idn cy (snd (handshake_sent Ft_Hello h), i, g))
      = Inr (Some (auth_frame a))" by (simp add: hello)
  show "case res of
       Inr keys \<Rightarrow> fst (handshake_drive idn cy (hello_frame r) (auth_frame s) (h, i, g))
         = Inr (Some (auth_frame a), Some \<lparr>es_role = role, es_local_identity = ident, es_peer_identity = peer,
             es_keys = keys\<rparr>)
     | Inl e \<Rightarrow> \<exists>h'. handshake_drive idn cy (hello_frame r) (auth_frame s) (h, i, g)
         = (Inl (Hs_Dependency e), handshake_close h', i', g')"
    using h by (auto simp: handshake_drive_def with_sent_def hello auth take_established_def is_authenticated_def
        split: sum.split)
qed

text \<open>An identity capability that signs authentication messages, of 231 bytes, for a public key.\<close>

definition signs_for :: "'i Identity \<Rightarrow> 'i \<Rightarrow> ('g, 'e, 'h, 'p, 'k) Cryptography \<Rightarrow> bytes \<Rightarrow> bool" where
  "signs_for idn j cy key \<longleftrightarrow> (\<forall>m. length m = 231 \<longrightarrow> (\<exists>s j'.
     id_sign_authentication idn m j = (Inr s, j') \<and> cy_verify_signature cy key m s = Inr ()))"

lemma own_proof_length:
  assumes "hello_valid (hs_local h)" "hello_valid r"
  shows "length (own_proof h r) = 231"
  using assms by (cases "hs_role h")
    (simp_all add: own_proof_def transcript_authentication_def handshake_transcript_def transcript_length)

lemma signs_forD:
  assumes "signs_for idn j cy key" "sized_identity idn" "length m = 231"
  obtains s j' where "id_sign_authentication idn m j = (Inr s, j')" "length s = 64"
    "cy_verify_signature cy key m s = Inr ()"
proof -
  from assms(1,3) obtain s j' where s: "id_sign_authentication idn m j = (Inr s, j')"
    "cy_verify_signature cy key m s = Inr ()" unfolding signs_for_def by blast
  moreover have "length s = 64" using assms(2) s(1) unfolding sized_identity_def by (metis fst_conv)
  ultimately show ?thesis using that by blast
qed

lemma proofs_match:
  assumes "hs_role a = Initiator" "hs_role b = Acceptor"
  shows "own_proof a (hs_local b) = peer_proof b (hs_local a)"
    "own_proof b (hs_local a) = peer_proof a (hs_local b)"
    "handshake_transcript a (hs_local b) = handshake_transcript b (hs_local a)"
  using assms by (simp_all add: own_proof_def peer_proof_def peer_role_def handshake_transcript_def)

lemma mirror_mirror [simp]: "mirror (mirror k) = k"
  by (simp add: mirror_def)

text \<open>
  Both ends answer the other's HELLO with an AUTH that the other accepts; they finish with mirrored
  keys, or both report the error of the same key derivation.
\<close>

lemma exchange_outcome:
  fixes exp_a exp_b id_a id_b own_a own_b secret_a secret_b
  defines "a \<equiv> fresh_end Initiator exp_a id_a own_a secret_a"
    and "b \<equiv> fresh_end Acceptor exp_b id_b own_b secret_b"
  assumes "hello_valid own_a" "hello_valid own_b" "sized_identity idn_a" "sized_identity idn_b"
    and signs: "signs_for idn_a ia cy (hl_identity_public_key own_a)" "signs_for idn_b ib cy (hl_identity_public_key own_b)"
    and known: "id_identify idn_a (hl_identity_public_key own_b) = Inr id_b" "accepts exp_a id_b"
      "id_identify idn_b (hl_identity_public_key own_a) = Inr id_a" "accepts exp_b id_a"
    and derive: "deterministic_derivation cy"
      "agreement cy secret_a (hl_ephemeral_public_key own_a) secret_b (hl_ephemeral_public_key own_b)"
  shows "\<exists>auth_a auth_b.
    fst (handshake_receive (hello_frame own_b) idn_a cy (snd (handshake_sent Ft_Hello a), ia, ga))
      = Inr (Some auth_a) \<and>
    fst (handshake_receive (hello_frame own_a) idn_b cy (snd (handshake_sent Ft_Hello b), ib, gb))
      = Inr (Some auth_b) \<and>
    (case fst (derive_keys Initiator secret_a (hl_ephemeral_public_key own_b) (transcript_new own_a own_b) cy ga) of
       Inr keys \<Rightarrow>
         fst (handshake_drive idn_a cy (hello_frame own_b) auth_b (a, ia, ga)) = Inr (Some auth_a,
           Some \<lparr>es_role = Initiator, es_local_identity = id_a, es_peer_identity = id_b, es_keys = keys\<rparr>) \<and>
         fst (handshake_drive idn_b cy (hello_frame own_a) auth_a (b, ib, gb)) = Inr (Some auth_b,
           Some \<lparr>es_role = Acceptor, es_local_identity = id_b, es_peer_identity = id_a, es_keys = mirror keys\<rparr>)
     | Inl e \<Rightarrow>
         (\<exists>h st. handshake_drive idn_a cy (hello_frame own_b) auth_b (a, ia, ga)
            = (Inl (Hs_Dependency e), handshake_close h, st)) \<and>
         (\<exists>h st. handshake_drive idn_b cy (hello_frame own_a) auth_a (b, ib, gb)
            = (Inl (Hs_Dependency e), handshake_close h, st)))"
proof -
  have roles: "hs_role a = Initiator" "hs_role b = Acceptor" "hs_local a = own_a" "hs_local b = own_b"
    by (simp_all add: a_def b_def fresh_end_def)
  note match = proofs_match [OF roles(1,2), unfolded roles(3,4)]
  have transcript: "handshake_transcript a own_b = transcript_new own_a own_b"
    using roles by (simp add: handshake_transcript_def)
  have lengths: "length (own_proof a own_b) = 231" "length (own_proof b own_a) = 231"
    by (rule own_proof_length; simp add: roles assms(3,4))+
  obtain sa ja where sa: "id_sign_authentication idn_a (own_proof a own_b) ia = (Inr sa, ja)"
      "length sa = 64" "cy_verify_signature cy (hl_identity_public_key own_a) (own_proof a own_b) sa = Inr ()"
    using signs(1) assms(5) lengths(1) by (rule signs_forD)
  obtain sb jb where sb: "id_sign_authentication idn_b (own_proof b own_a) ib = (Inr sb, jb)"
      "length sb = 64" "cy_verify_signature cy (hl_identity_public_key own_b) (own_proof b own_a) sb = Inr ()"
    using signs(2) assms(6) lengths(2) by (rule signs_forD)
  obtain ra ga' where ka: "derive_keys Initiator secret_a (hl_ephemeral_public_key own_b)
      (handshake_transcript a own_b) cy ga = (ra, ga')" by fastforce
  obtain rb gb' where kb: "derive_keys Acceptor secret_b (hl_ephemeral_public_key own_a)
      (handshake_transcript b own_a) cy gb = (rb, gb')" by fastforce
  have mirrored: "ra = map_sum id mirror rb"
    using derive_keys_mirror [OF derive, of "handshake_transcript a own_b" ga gb] ka kb match(3) by simp
  note drive_a = drive_fresh [OF assms(4) known(1,2) sa(1,2) [unfolded a_def]
      sb(3) [unfolded match a_def] sb(2) ka [unfolded a_def], folded a_def]
  note drive_b = drive_fresh [OF assms(3) known(3,4) sb(1,2) [unfolded b_def]
      sa(3) [unfolded match b_def] sa(2) kb [unfolded b_def], folded b_def]
  show ?thesis
  proof (intro exI conjI)
    show "fst (handshake_receive (hello_frame own_b) idn_a cy (snd (handshake_sent Ft_Hello a), ia, ga))
        = Inr (Some (auth_frame sa))" by (rule drive_a(1))
    show "fst (handshake_receive (hello_frame own_a) idn_b cy (snd (handshake_sent Ft_Hello b), ib, gb))
        = Inr (Some (auth_frame sb))" by (rule drive_b(1))
  qed (use drive_a(2) drive_b(2) mirrored ka [unfolded transcript] in
      \<open>cases rb; force simp: mirror_mirror\<close>)
qed

lemma exchange_agrees:
  fixes exp_a exp_b id_a id_b own_a own_b secret_a secret_b
  defines "a \<equiv> fresh_end Initiator exp_a id_a own_a secret_a"
    and "b \<equiv> fresh_end Acceptor exp_b id_b own_b secret_b"
  assumes "hello_valid own_a" "hello_valid own_b" "sized_identity idn_a" "sized_identity idn_b"
    and signs: "signs_for idn_a ia cy (hl_identity_public_key own_a)" "signs_for idn_b ib cy (hl_identity_public_key own_b)"
    and known: "id_identify idn_a (hl_identity_public_key own_b) = Inr id_b" "accepts exp_a id_b"
      "id_identify idn_b (hl_identity_public_key own_a) = Inr id_a" "accepts exp_b id_a"
    and derive: "deterministic_derivation cy"
      "agreement cy secret_a (hl_ephemeral_public_key own_a) secret_b (hl_ephemeral_public_key own_b)"
      "is_ok (fst (derive_keys Initiator secret_a (hl_ephemeral_public_key own_b)
         (transcript_new own_a own_b) cy ga))"
  shows "\<exists>auth_a auth_b est_a est_b.
    fst (handshake_drive idn_a cy (hello_frame own_b) auth_b (a, ia, ga)) = Inr (Some auth_a, Some est_a) \<and>
    fst (handshake_drive idn_b cy (hello_frame own_a) auth_a (b, ib, gb)) = Inr (Some auth_b, Some est_b) \<and>
    es_keys est_a = mirror (es_keys est_b) \<and>
    es_peer_identity est_a = id_b \<and> es_peer_identity est_b = id_a"
proof -
  obtain keys where keys: "fst (derive_keys Initiator secret_a (hl_ephemeral_public_key own_b)
      (transcript_new own_a own_b) cy ga) = Inr keys"
    using derive(3) by (auto simp: is_ok_iff)
  from exchange_outcome [OF assms(3-6) signs known derive(1,2), of ga gb]
  obtain auth_a auth_b where
    "fst (handshake_drive idn_a cy (hello_frame own_b) auth_b (a, ia, ga)) = Inr (Some auth_a,
       Some \<lparr>es_role = Initiator, es_local_identity = id_a, es_peer_identity = id_b, es_keys = keys\<rparr>)"
    "fst (handshake_drive idn_b cy (hello_frame own_a) auth_a (b, ib, gb)) = Inr (Some auth_b,
       Some \<lparr>es_role = Acceptor, es_local_identity = id_b, es_peer_identity = id_a, es_keys = mirror keys\<rparr>)"
    unfolding keys a_def b_def by auto
  then show ?thesis
    by (intro exI [of _ auth_a] exI [of _ auth_b]
        exI [of _ "\<lparr>es_role = Initiator, es_local_identity = id_a, es_peer_identity = id_b, es_keys = keys\<rparr>"]
        exI [of _ "\<lparr>es_role = Acceptor, es_local_identity = id_b, es_peer_identity = id_a,
          es_keys = mirror keys\<rparr>"]) simp
qed

lemma fst_eq_Inr: "fst x = Inr a \<longleftrightarrow> (\<exists>g. x = (Inr a, g))"
  by (cases x) simp

lemma with_sent_Inr:
  "with_sent kind (h, i, g) = (Inr u, st) \<longleftrightarrow> (\<exists>h'. handshake_sent kind h = (Inr u, h') \<and> st = (h', i, g))"
  by (auto simp: with_sent_def split: prod.splits)

lemma drive_run:
  assumes "handshake_run idn cy role expected secret h"
    "fst (handshake_drive idn cy hello auth (h, i, g)) = Inr (reply, Some est)"
  obtains h1 h2 where "handshake_run idn cy role expected secret h1" "take_established h1 = (Some est, h2)"
proof -
  from assms(2) obtain h1 h2 h3 h4 i3 g3 i4 g4 r res3 where
    steps: "handshake_sent Ft_Hello h = (Inr (), h1)"
      "handshake_receive hello idn cy (h1, i, g) = (Inr r, h2, i3, g3)"
      "handshake_sent Ft_Auth h2 = (Inr (), h3)"
      "handshake_receive auth idn cy (h3, i3, g3) = (Inr res3, h4, i4, g4)"
    and taken: "fst (take_established h4) = Some est"
    unfolding handshake_drive_def
    by (auto simp: and_thread_eq_Inr fst_eq_Inr with_sent_Inr case_prod_beta)
  have "handshake_run idn cy role expected secret h4"
    using run_receive [OF run_sent [OF run_receive [OF run_sent [OF assms(1) steps(1)] steps(2)] steps(3)] steps(4)] .
  moreover have "take_established h4 = (Some est, snd (take_established h4))"
    using taken by (simp add: prod_eq_iff)
  ultimately show ?thesis by (rule that)
qed

section \<open>Matching conversations\<close>

lemma run_local_valid:
  assumes "handshake_run idn cy role expected secret h" "sized_crypto cy" "sized_identity idn"
  shows "hello_valid (hs_local h)"
  using assms(1)
proof induction
  case (run_begin i g h hello g')
  obtain public own secret' where "id_public_identity idn i = Inr public" and own: "hello_valid own"
      and "hl_identity_public_key own = pi_signing_public_key public"
      and h: "h = fresh_end role expected (pi_id public) own secret'" and "hello = hello_frame own"
    using assms(2,3) run_begin(1) by (rule begin_fresh)
  from own show ?case by (simp add: h fresh_end_def)
next
  case (run_sent h kind res h')
  then show ?case by (auto simp: handshake_sent_def handshake_close_def split: if_splits)
next
  case (run_receive h frame i g reply h' i' g')
  have "hs_local h' = hs_local h" using run_receive.hyps(2) by (rule receive_local)
  with run_receive show ?case by simp
next
  case (run_take h est h')
  then show ?case by (auto simp: take_established_def split: if_splits option.splits)
qed (simp add: handshake_close_def)

lemma proof_binds:
  assumes "hello_valid (hs_local a)" "hello_valid r" "hello_valid (hs_local b)" "hello_valid q"
    "peer_proof a r = own_proof b q"
  shows "hs_role b = peer_role (hs_role a)" "r = hs_local b" "q = hs_local a"
    "handshake_transcript a r = handshake_transcript b q"
proof -
  from assms(5) show role: "hs_role b = peer_role (hs_role a)"
    and same: "handshake_transcript a r = handshake_transcript b q"
    by (simp_all add: peer_proof_def own_proof_def authentication_inject)
  show "r = hs_local b" "q = hs_local a"
    using same role transcript_inject [OF assms(1,2,4,3)] transcript_inject [OF assms(2,1,3,4)]
    by (cases "hs_role a"; simp add: handshake_transcript_def peer_role_def)+
qed

lemma derive_keys_peer:
  assumes "deterministic_derivation cy" "agreement cy e pub f pub'"
    "derive_keys role e pub' t cy g = (Inr k, g1)" "derive_keys (peer_role role) f pub t cy g' = (Inr k', g2)"
  shows "k = mirror k'"
proof (cases role)
  case Initiator
  with derive_keys_mirror [OF assms(1,2), of t g g'] assms(3,4) show ?thesis by (simp add: peer_role_def)
next
  case Acceptor
  have "agreement cy f pub' e pub" using assms(2) unfolding agreement_def by metis
  from derive_keys_mirror [OF assms(1) this, of t g' g] assms(3,4) Acceptor show ?thesis
    by (simp add: peer_role_def)
qed

section \<open>Properties\<close>

text \<open>
  C5: Authenticity: whatever the peer sends and in whatever order the owner calls, a handshake yields
  established facts only after its own AUTH was written and after a signature under the public key of
  the peer's HELLO over the peer's role and this connection's transcript was verified; the peer
  identity is the one that key identifies and is the pinned one if a contact was expected; the keys
  are those derived from this end's ephemeral secret, the peer's ephemeral key and the transcript;
  and nothing is handed over a second time.
\<close>

theorem handshake_authentic:
  assumes "handshake_run idn cy role expected secret h" "take_established h = (Some est, h')"
  shows "\<exists>r s g g'. hs_remote h = Some (r, es_peer_identity est) \<and> hs_auth_sent h \<and>
    id_identify idn (hl_identity_public_key r) = Inr (es_peer_identity est) \<and>
    accepts expected (es_peer_identity est) \<and>
    cy_verify_signature cy (hl_identity_public_key r) (peer_proof h r) s = Inr () \<and>
    derive_keys role secret (hl_ephemeral_public_key r) (handshake_transcript h r) cy g = (Inr (es_keys est), g') \<and>
    fst (take_established h') = None"
proof -
  have "fst (take_established h') = None"
    using assms(2) by (auto simp: take_established_def split: if_splits option.splits)
  moreover obtain r s g g' where "hs_remote h = Some (r, es_peer_identity est)" "hs_auth_sent h"
      "id_identify idn (hl_identity_public_key r) = Inr (es_peer_identity est)"
      "accepts expected (es_peer_identity est)"
      "cy_verify_signature cy (hl_identity_public_key r) (peer_proof h r) s = Inr ()"
      "derive_keys role secret (hl_ephemeral_public_key r) (handshake_transcript h r) cy g = (Inr (es_keys est), g')"
    using assms by (rule established_facts)
  ultimately show ?thesis by blast
qed

text \<open>
  C14: A failed handshake is final: an error of \<open>receive\<close> or \<open>sent\<close> releases the ephemeral secret and any
  keys, after which every frame and write report is refused, nothing changes and nothing is ever
  established.
\<close>

theorem handshake_error_final:
  assumes "handshake_receive frame idn cy (h, i, g) = (Inl e, h', i', g') \<or> handshake_sent kind h = (Inl e, h')"
  shows "hs_private h' = None \<and> hs_keys h' = None \<and> \<not> is_authenticated h' \<and>
    handshake_receive frame' idn cy (h', j, x) = (Inl Hs_Order, h', j, x) \<and>
    handshake_sent kind' h' = (Inl Hs_Order, h') \<and> take_established h' = (None, h')"
proof -
  obtain h0 where h0: "h' = handshake_close h0"
    using assms by (auto simp: handshake_sent_def split: if_splits elim: receive_error_closed)
  then have "hs_closed h'" by (simp add: handshake_close_def)
  from closed_absorbing [OF this h0] show ?thesis
    by (simp add: h0 handshake_close_def is_authenticated_def)
qed

text \<open>
  C11: Two honest ends establish a connection or fail alike: if each identity signs for its public key
  and is accepted by the other, each answers the other's HELLO with an AUTH the other accepts. Driven
  through the exchange with those AUTHs, both take established facts with each other's identity and
  mirrored keys when the key derivation succeeds; when it fails, both end closed, without secrets,
  with its error. It succeeds whenever the primitives it calls do.
\<close>

theorem handshake_agreement:
  assumes "sized_crypto cy" "sized_identity idn_a" "sized_identity idn_b"
    "handshake_begin Initiator exp_a idn_a ia cy g = (Inr (a, hello_a), ga)"
    "handshake_begin Acceptor exp_b idn_b ib cy g' = (Inr (b, hello_b), gb)"
    "signs_for idn_a ia cy (hl_identity_public_key (hs_local a))"
    "signs_for idn_b ib cy (hl_identity_public_key (hs_local b))"
    "id_identify idn_a (hl_identity_public_key (hs_local b)) = Inr (hs_local_identity b)"
    "id_identify idn_b (hl_identity_public_key (hs_local a)) = Inr (hs_local_identity a)"
    "accepts exp_a (hs_local_identity b)" "accepts exp_b (hs_local_identity a)"
    "deterministic_derivation cy"
    "agreement cy (the (hs_private a)) (hl_ephemeral_public_key (hs_local a))
       (the (hs_private b)) (hl_ephemeral_public_key (hs_local b))"
  shows "\<exists>auth_a auth_b derived.
    fst (handshake_receive hello_b idn_a cy (snd (handshake_sent Ft_Hello a), ia, ga)) = Inr (Some auth_a) \<and>
    fst (handshake_receive hello_a idn_b cy (snd (handshake_sent Ft_Hello b), ib, gb)) = Inr (Some auth_b) \<and>
    derived = fst (derive_keys Initiator (the (hs_private a)) (hl_ephemeral_public_key (hs_local b))
       (handshake_transcript a (hs_local b)) cy ga) \<and>
    (derives cy (the (hs_private a)) (hl_ephemeral_public_key (hs_local b)) \<longrightarrow> is_ok derived) \<and>
    (case derived of
       Inr keys \<Rightarrow> (\<exists>est_a est_b.
         fst (handshake_drive idn_a cy hello_b auth_b (a, ia, ga)) = Inr (Some auth_a, Some est_a) \<and>
         fst (handshake_drive idn_b cy hello_a auth_a (b, ib, gb)) = Inr (Some auth_b, Some est_b) \<and>
         es_keys est_a = keys \<and> es_keys est_a = mirror (es_keys est_b) \<and>
         es_peer_identity est_a = hs_local_identity b \<and> es_peer_identity est_b = hs_local_identity a)
     | Inl e \<Rightarrow> (\<exists>a' b' st_a st_b.
         handshake_drive idn_a cy hello_b auth_b (a, ia, ga) = (Inl (Hs_Dependency e), handshake_close a', st_a) \<and>
         handshake_drive idn_b cy hello_a auth_a (b, ib, gb) = (Inl (Hs_Dependency e), handshake_close b', st_b)))"
proof -
  obtain pa own_a secret_a where "id_public_identity idn_a ia = Inr pa" and a: "hello_valid own_a"
      and "hl_identity_public_key own_a = pi_signing_public_key pa"
      and a': "a = fresh_end Initiator exp_a (pi_id pa) own_a secret_a" "hello_a = hello_frame own_a"
    using assms(1,2,4) by (rule begin_fresh)
  obtain pb own_b secret_b where "id_public_identity idn_b ib = Inr pb" and b: "hello_valid own_b"
      and "hl_identity_public_key own_b = pi_signing_public_key pb"
      and b': "b = fresh_end Acceptor exp_b (pi_id pb) own_b secret_b" "hello_b = hello_frame own_b"
    using assms(1,3,5) by (rule begin_fresh)
  have parts: "hs_local a = own_a" "hs_local_identity a = pi_id pa" "hs_private a = Some secret_a"
      "hs_local b = own_b" "hs_local_identity b = pi_id pb" "hs_private b = Some secret_b"
      "handshake_transcript a own_b = transcript_new own_a own_b"
    by (simp_all add: a' b' fresh_end_def handshake_transcript_def)
  note hyps = assms(6-13) [unfolded parts option.sel]
  define derived where "derived = fst (derive_keys Initiator secret_a (hl_ephemeral_public_key own_b)
      (transcript_new own_a own_b) cy ga)"
  from exchange_outcome [OF a b assms(2,3) hyps(1,2,3,5,4,6-8), of ga gb, folded a'(1) b'(1) a'(2) b'(2)]
  obtain auth_a auth_b where auths:
    "fst (handshake_receive hello_b idn_a cy (snd (handshake_sent Ft_Hello a), ia, ga)) = Inr (Some auth_a)"
    "fst (handshake_receive hello_a idn_b cy (snd (handshake_sent Ft_Hello b), ib, gb)) = Inr (Some auth_b)"
    and drives: "case derived of
       Inr keys \<Rightarrow>
         fst (handshake_drive idn_a cy hello_b auth_b (a, ia, ga)) = Inr (Some auth_a,
           Some \<lparr>es_role = Initiator, es_local_identity = pi_id pa, es_peer_identity = pi_id pb, es_keys = keys\<rparr>) \<and>
         fst (handshake_drive idn_b cy hello_a auth_a (b, ib, gb)) = Inr (Some auth_b,
           Some \<lparr>es_role = Acceptor, es_local_identity = pi_id pb, es_peer_identity = pi_id pa,
             es_keys = mirror keys\<rparr>)
     | Inl e \<Rightarrow>
         (\<exists>h st. handshake_drive idn_a cy hello_b auth_b (a, ia, ga)
            = (Inl (Hs_Dependency e), handshake_close h, st)) \<and>
         (\<exists>h st. handshake_drive idn_b cy hello_a auth_a (b, ib, gb)
            = (Inl (Hs_Dependency e), handshake_close h, st))"
    unfolding derived_def by blast
  have "derives cy secret_a (hl_ephemeral_public_key own_b) \<longrightarrow> is_ok derived"
    unfolding derived_def by (blast intro: derives_keys)
  with auths drives show ?thesis
    unfolding parts option.sel
    by (intro exI [of _ auth_a] exI [of _ auth_b] exI [of _ derived])
       (cases derived; simp add: derived_def [symmetric] del: ex_simps; blast?)
qed

text \<open>
  C12: Matching conversations: the message an end verifies under its peer's key binds both roles and
  both HELLO payloads. If the message one end demands of its peer is the one another end signs, then
  that end plays the opposite role, each holds the other's HELLO, and keys they derive are mirrored,
  so a signature made for another connection, role or peer proves nothing here.
\<close>

theorem handshake_matching:
  assumes "handshake_run idn_a cy role_a exp_a secret_a a" "handshake_run idn_b cy role_b exp_b secret_b b"
    "sized_crypto cy" "sized_identity idn_a" "sized_identity idn_b"
    "hs_remote a = Some (r, peer_a)" "hs_remote b = Some (q, peer_b)" "peer_proof a r = own_proof b q"
  shows "role_b = peer_role role_a \<and> r = hs_local b \<and> q = hs_local a \<and>
    (deterministic_derivation cy \<longrightarrow>
     agreement cy secret_a (hl_ephemeral_public_key (hs_local a)) secret_b (hl_ephemeral_public_key (hs_local b)) \<longrightarrow>
     hs_keys a = Some keys_a \<longrightarrow> hs_keys b = Some keys_b \<longrightarrow> keys_a = mirror keys_b)"
proof -
  have inv: "handshake_inv idn_a cy role_a exp_a secret_a a" "handshake_inv idn_b cy role_b exp_b secret_b b"
    using assms(1,2) by (auto intro: handshake_run_inv)
  then have valid: "hello_valid r" "hello_valid q" and roles: "hs_role a = role_a" "hs_role b = role_b"
    using assms(6,7) by (auto simp: handshake_inv_def identified_def)
  note binds = proof_binds [OF run_local_valid [OF assms(1,3,4)] valid(1) run_local_valid [OF assms(2,3,5)]
      valid(2) assms(8)]
  have "keys_a = mirror keys_b"
    if det: "deterministic_derivation cy" and agree: "agreement cy secret_a (hl_ephemeral_public_key (hs_local a))
      secret_b (hl_ephemeral_public_key (hs_local b))" and keys: "hs_keys a = Some keys_a" "hs_keys b = Some keys_b"
  proof -
    obtain g g1 g' g2 where
      "derive_keys role_a secret_a (hl_ephemeral_public_key r) (handshake_transcript a r) cy g = (Inr keys_a, g1)"
      "derive_keys role_b secret_b (hl_ephemeral_public_key q) (handshake_transcript b q) cy g' = (Inr keys_b, g2)"
      using inv_keys [OF inv(1) assms(6) keys(1)] inv_keys [OF inv(2) assms(7) keys(2)] by blast
    then have "derive_keys role_a secret_a (hl_ephemeral_public_key (hs_local b)) (handshake_transcript a r) cy g
          = (Inr keys_a, g1)"
      "derive_keys (peer_role role_a) secret_b (hl_ephemeral_public_key (hs_local a)) (handshake_transcript a r) cy g'
          = (Inr keys_b, g2)"
      using binds roles by simp_all
    with det agree show ?thesis by (rule derive_keys_peer)
  qed
  with binds roles show ?thesis by simp
qed

section \<open>An example exchange\<close>

definition sample_identity :: "nat Identity" where
  "sample_identity =
     \<lparr>id_public_identity = (\<lambda>i. Inr \<lparr>pi_id = IdentityId (sample_public i), pi_signing_public_key = sample_public i\<rparr>),
      id_identify = (\<lambda>key. Inr (IdentityId key)),
      id_sign_authentication = (\<lambda>m i. (Inr (take 64 (sample_public i @ m @ replicate 64 0)), i))\<rparr>"

definition sample_hello :: "nat \<Rightarrow> nat \<Rightarrow> Hello" where
  "sample_hello i g =
     \<lparr>hl_identity_public_key = sample_public i, hl_ephemeral_public_key = sample_public g,
      hl_nonce = sample_public (Suc g)\<rparr>"

definition sample_end :: "ConnectionRole \<Rightarrow> nat \<Rightarrow> nat \<Rightarrow> (nat, nat) Handshake" where
  "sample_end role i g = fresh_end role Unpinned (IdentityId (sample_public i)) (sample_hello i g) g"

lemma length_sample_public [simp]: "length (sample_public n) = 32"
  by (simp add: sample_public_def)

lemma sample_hello_valid: "hello_valid (sample_hello i g)"
  by (simp add: hello_valid_def sample_hello_def)

lemma sample_sized: "sized_crypto sample_crypto" "sized_identity sample_identity"
  by (auto simp: sized_crypto_def sized_identity_def sample_crypto_def sample_identity_def sample_public_def)

lemma sample_begin:
  "handshake_begin role Unpinned sample_identity i sample_crypto g
     = (Inr (sample_end role i g, hello_frame (sample_hello i g)), Suc (Suc g))"
  using raw_hello [OF sample_hello_valid, of i g]
  by (simp add: handshake_begin_def sample_identity_def sample_crypto_def sample_end_def fresh_end_def
      sample_hello_def sample_public_def Let_def)

lemma sample_end_parts [simp]:
  "hs_local (sample_end role i g) = sample_hello i g"
  "hs_local_identity (sample_end role i g) = IdentityId (sample_public i)"
  "hs_private (sample_end role i g) = Some g"
  by (simp_all add: sample_end_def fresh_end_def)

lemma sample_signs: "signs_for sample_identity i sample_crypto (hl_identity_public_key (sample_hello i g))"
  by (simp add: signs_for_def sample_identity_def sample_crypto_def sample_hello_def)

lemma sample_derives: "is_ok (fst (derive_keys role s pub t sample_crypto g))"
  by (simp add: derive_keys_def sample_crypto_def Let_def)

lemma sample_known: "id_identify sample_identity (hl_identity_public_key (sample_hello i g)) = Inr (IdentityId (sample_public i))"
  by (simp add: sample_identity_def sample_hello_def)

theorem handshake_agreement_witness:
  "\<exists>auth_a auth_b est_a est_b.
    fst (handshake_drive sample_identity sample_crypto (hello_frame (sample_hello 2 7)) auth_b
      (sample_end Initiator 1 5, 1, 7)) = Inr (Some auth_a, Some est_a) \<and>
    fst (handshake_drive sample_identity sample_crypto (hello_frame (sample_hello 1 5)) auth_a
      (sample_end Acceptor 2 7, 2, 9)) = Inr (Some auth_b, Some est_b) \<and>
    es_keys est_a = mirror (es_keys est_b) \<and> es_peer_identity est_a = IdentityId (sample_public 2)"
proof -
  have begins: "handshake_begin Initiator Unpinned sample_identity 1 sample_crypto 5
      = (Inr (sample_end Initiator 1 5, hello_frame (sample_hello 1 5)), 7)"
    "handshake_begin Acceptor Unpinned sample_identity 2 sample_crypto 7
      = (Inr (sample_end Acceptor 2 7, hello_frame (sample_hello 2 7)), 9)"
    using sample_begin [of Initiator 1 5] sample_begin [of Acceptor 2 7] by simp_all
  have "agreement sample_crypto 5 (sample_public 5) 7 (sample_public 7)"
    by (rule sample_agreement) simp_all
  then have agree: "agreement sample_crypto 5 (hl_ephemeral_public_key (sample_hello 1 5)) 7
      (hl_ephemeral_public_key (sample_hello 2 7))" by (simp add: sample_hello_def)
  show ?thesis
    using handshake_agreement [OF sample_sized sample_sized(2) begins, simplified sample_end_parts option.sel,
        OF sample_signs sample_signs sample_known sample_known _ _ sample_deterministic agree]
      sample_derives [of Initiator 5 "hl_ephemeral_public_key (sample_hello 2 7)"
        "handshake_transcript (sample_end Initiator 1 5) (sample_hello 2 7)" 7]
    by (clarsimp simp: accepts_def is_ok_iff) blast
qed

lemma sample_end_run: "handshake_run sample_identity sample_crypto role Unpinned g (sample_end role i g)"
  by (rule run_begin [OF sample_begin]) simp

text \<open>An end that has accepted the other's HELLO.\<close>

definition sample_met :: "ConnectionRole \<Rightarrow> nat \<Rightarrow> nat \<Rightarrow> nat \<Rightarrow> nat \<Rightarrow> (nat, nat) Handshake" where
  "sample_met role i g j g' =
     (sample_end role i g)\<lparr>hs_remote := Some (sample_hello j g', IdentityId (sample_public j))\<rparr>"

lemma sample_met_run:
  "handshake_run sample_identity sample_crypto role Unpinned g (sample_met role i g j g')"
proof -
  obtain s where s: "id_sign_authentication sample_identity m i = (Inr (s m), i)" "length (s m) = 64" for m
    by (simp add: sample_identity_def)
  have "handshake_receive (hello_frame (sample_hello j g')) sample_identity sample_crypto (sample_end role i g, i, x)
      = (Inr (Some (auth_frame (s (own_proof (sample_end role i g) (sample_hello j g'))))),
         sample_met role i g j g', i, x)" for x
    using s raw_auth [OF s(2)] sample_known [of j g']
    by (simp add: handshake_receive_def handshake_process_def handshake_hello_def hello_frame_def
        hello_decode_encode [OF sample_hello_valid] transcript_sign_def own_proof_def sample_met_def
        sample_end_def fresh_end_def)
  then show ?thesis by (rule run_receive [OF sample_end_run])
qed

theorem handshake_matching_witness:
  "peer_proof (sample_met Initiator 1 5 2 7) (sample_hello 2 7)
     = own_proof (sample_met Acceptor 2 7 1 5) (sample_hello 1 5) \<and>
   Acceptor = peer_role Initiator \<and> sample_hello 1 5 = hs_local (sample_met Initiator 1 5 2 7)"
proof -
  have "peer_proof (sample_met Initiator 1 5 2 7) (sample_hello 2 7)
      = own_proof (sample_met Acceptor 2 7 1 5) (sample_hello 1 5)"
    by (simp add: peer_proof_def own_proof_def peer_role_def sample_met_def handshake_transcript_def
        sample_end_def fresh_end_def)
  moreover have "hs_remote (sample_met role i g j g') = Some (sample_hello j g', IdentityId (sample_public j))"
    for role i g j g' by (simp add: sample_met_def)
  ultimately show ?thesis
    using handshake_matching [OF sample_met_run sample_met_run sample_sized sample_sized(2),
        of Initiator 1 5 2 7 _ _ Acceptor 2 7 1 5]
    by simp
qed

theorem handshake_error_final_witness:
  "handshake_sent Ft_Auth (sample_end Initiator 1 5) = (Inl Hs_Order, handshake_close (sample_end Initiator 1 5)) \<and>
   take_established (handshake_close (sample_end Initiator 1 5)) = (None, handshake_close (sample_end Initiator 1 5))"
proof -
  have "handshake_sent Ft_Auth (sample_end Initiator 1 5)
      = (Inl Hs_Order, handshake_close (sample_end Initiator 1 5))"
    by (simp add: handshake_sent_def sample_end_def fresh_end_def)
  with handshake_error_final [OF disjI2, OF this, of "hello_frame (sample_hello 2 7)" sample_identity sample_crypto 0 0 Ft_Hello]
  show ?thesis by (elim conjE) (intro conjI)
qed

theorem handshake_authentic_witness:
  "\<exists>(h :: (nat, nat) Handshake) h' est r s. take_established h = (Some est, h') \<and> hs_auth_sent h \<and>
     hs_remote h = Some (r, IdentityId (sample_public 2)) \<and>
     cy_verify_signature sample_crypto (hl_identity_public_key r) (peer_proof h r) s = Inr ()"
proof -
  have "agreement sample_crypto 5 (sample_public 5) 7 (sample_public 7)"
    by (rule sample_agreement) simp_all
  then have agree: "agreement sample_crypto 5 (hl_ephemeral_public_key (sample_hello 1 5)) 7
      (hl_ephemeral_public_key (sample_hello 2 7))" by (simp add: sample_hello_def)
  obtain auth_a auth_b est where drive: "fst (handshake_drive sample_identity sample_crypto
      (hello_frame (sample_hello 2 7)) auth_b (sample_end Initiator 1 5, 1, 7)) = Inr (Some auth_a, Some est)"
      "es_peer_identity est = IdentityId (sample_public 2)"
    using exchange_agrees [OF sample_hello_valid sample_hello_valid sample_sized(2) sample_sized(2)
        sample_signs sample_signs sample_known _ sample_known _ sample_deterministic agree sample_derives,
        of Unpinned Unpinned 7 9]
    unfolding sample_end_def by (auto simp: accepts_def)
  obtain h h' where run: "handshake_run sample_identity sample_crypto Initiator Unpinned 5 h"
      "take_established h = (Some est, h')"
    using sample_end_run drive(1) by (rule drive_run)
  from handshake_authentic [OF run] obtain r s where "hs_auth_sent h"
      "hs_remote h = Some (r, IdentityId (sample_public 2))"
      "cy_verify_signature sample_crypto (hl_identity_public_key r) (peer_proof h r) s = Inr ()"
    unfolding drive(2) by (elim exE conjE)
  with run(2) show ?thesis by blast
qed

end
