(* ===== verification/Integrity.thy ===== *)
theory Integrity
  imports Framing Session_Keys
begin

text \<open>
  Frame integrity with implicit sequence numbers: \<open>integrity/mod.rs\<close>. Sealing reserves the next
  outbound sequence until the frame is written; verification consumes exactly the next inbound
  sequence; every failure that can follow a peer's bytes releases both keys.

  Shown here: no two sealed frames of a connection are tagged under the same nonce whatever operations
  are interleaved, accepted frames verified under the consecutive nonces, a released session
  stays released, and two ends with mirrored keys stay in step for as many frames as the counter
  allows. Inbound frames come from the reader and hold no reservation, so \<open>verify\<close> does not touch the
  budgets.
\<close>

section \<open>The session\<close>

definition u64_max :: u64 where
  "u64_max = 0xFFFFFFFFFFFFFFFF"

datatype IntegrityError =
    Ie_Closed
  | Ie_Busy
  | Ie_Shape
  | Ie_Exhausted
  | Ie_Dependency DependencyError
  | Ie_Framing FramingError

record 'k Integrity =
  it_send :: "'k DirectionKeys option"
  it_receive :: "'k DirectionKeys option"
  it_send_sequence :: u64
  it_receive_sequence :: u64
  it_pending_send :: bool

definition integrity_new :: "'k SessionKeys \<Rightarrow> 'k Integrity" where
  "integrity_new keys =
     \<lparr>it_send = Some (sk_send keys), it_receive = Some (sk_receive keys), it_send_sequence = 0,
      it_receive_sequence = 0, it_pending_send = False\<rparr>"

definition integrity_close :: "'k Integrity \<Rightarrow> 'k Integrity" where
  "integrity_close it = it\<lparr>it_send := None, it_receive := None, it_pending_send := False\<rparr>"

definition integrity_is_closed :: "'k Integrity \<Rightarrow> bool" where
  "integrity_is_closed it \<longleftrightarrow> it_send it = None"

definition integrity_fail :: "IntegrityError \<Rightarrow> 'k Integrity \<Rightarrow> (IntegrityError, 'a) result \<times> 'k Integrity" where
  "integrity_fail error it = (Inl error, integrity_close it)"

text \<open>The associated data: the canonical header followed by the payload.\<close>

definition frame_aad :: "WireFrame \<Rightarrow> bytes" where
  "frame_aad frame = header_encode (wf_header frame) @ wf_payload frame"

text \<open>
  A frame that is not sealed is dropped with its reservation; a sealed frame keeps the reservation of
  the frame it replaces.
\<close>

definition integrity_seal ::
    "('g, 'e, 'h, 'p, 'k) Cryptography \<Rightarrow> WireFrame \<Rightarrow> 'k Integrity \<Rightarrow> Resources
      \<Rightarrow> (IntegrityError, WireFrame) result \<times> 'k Integrity \<times> Resources" where
  "integrity_seal cy frame it rs =
     (let dropped = drop_outbound (wf_reservation frame) rs;
          failed = (\<lambda>error. case integrity_fail error it of (res, it') \<Rightarrow> (res, it', dropped))
      in case it_send it of
           None \<Rightarrow> (Inl Ie_Closed, it, dropped)
         | Some direction \<Rightarrow>
             if it_pending_send it then (Inl Ie_Busy, it, dropped)
             else if wf_tag frame \<noteq> None then failed Ie_Shape
             else if it_send_sequence it = u64_max then failed Ie_Exhausted
             else (case cy_tag cy (dk_key direction)
                          (nonce (dk_nonce_prefix direction) (it_send_sequence it))
                          (frame_aad frame) of
                     Inl error \<Rightarrow> failed (Ie_Dependency error)
                   | Inr tag \<Rightarrow>
                       (case wire_frame_new (wf_header frame) (wf_payload frame) (Some tag) of
                          Inl error \<Rightarrow> (Inl (Ie_Framing error), it, dropped)
                        | Inr sealed \<Rightarrow>
                            (Inr (sealed\<lparr>wf_reservation := wf_reservation frame\<rparr>),
                             it\<lparr>it_pending_send := True\<rparr>, rs))))"

definition integrity_sent :: "'k Integrity \<Rightarrow> (IntegrityError, unit) result \<times> 'k Integrity" where
  "integrity_sent it =
     (if it_send it = None then (Inl Ie_Closed, it)
      else if \<not> it_pending_send it then integrity_fail Ie_Shape it
      else case checked_add (it_send_sequence it) 1 of
             None \<Rightarrow> (Inl Ie_Exhausted, it)
           | Some next_sequence \<Rightarrow>
               (Inr (), it\<lparr>it_send_sequence := next_sequence, it_pending_send := False\<rparr>))"

text \<open>A \<open>VerifiedFrame\<close> wraps the frame unchanged.\<close>

datatype VerifiedFrame = VerifiedFrame (verified: WireFrame)

definition integrity_verify ::
    "('g, 'e, 'h, 'p, 'k) Cryptography \<Rightarrow> WireFrame \<Rightarrow> 'k Integrity
      \<Rightarrow> (IntegrityError, VerifiedFrame) result \<times> 'k Integrity" where
  "integrity_verify cy frame it =
     (case it_receive it of
        None \<Rightarrow> (Inl Ie_Closed, it)
      | Some direction \<Rightarrow>
          (case wf_tag frame of
             None \<Rightarrow> integrity_fail Ie_Shape it
           | Some tag \<Rightarrow>
               (case cy_verify_tag cy (dk_key direction)
                       (nonce (dk_nonce_prefix direction) (it_receive_sequence it))
                       (frame_aad frame) tag of
                  Inl error \<Rightarrow> integrity_fail (Ie_Dependency error) it
                | Inr _ \<Rightarrow>
                    (case checked_add (it_receive_sequence it) 1 of
                       None \<Rightarrow> integrity_fail Ie_Exhausted it
                     | Some next_sequence \<Rightarrow>
                         (Inr (VerifiedFrame frame), it\<lparr>it_receive_sequence := next_sequence\<rparr>)))))"

section \<open>Released keys stay released\<close>

lemma integrity_closed_absorbing:
  assumes "it_send it = None" "it_receive it = None"
  shows "integrity_seal cy f it rs = (Inl Ie_Closed, it, drop_outbound (wf_reservation f) rs)"
    "integrity_sent it = (Inl Ie_Closed, it)"
    "integrity_verify cy f it = (Inl Ie_Closed, it)"
  using assms by (simp_all add: integrity_seal_def integrity_sent_def integrity_verify_def Let_def)

lemma integrity_verify_error_closes:
  assumes "integrity_verify cy f it = (Inl e, it')" "it_receive it \<noteq> None"
  shows "it' = integrity_close it"
  using assms
  by (auto simp: integrity_verify_def integrity_fail_def split: option.splits sum.splits)

section \<open>Sequence numbers are used once\<close>

text \<open>
  Every operation of a session, in any order, with the frames handed out for writing and the frames
  released to the receiver.
\<close>

inductive integrity_run ::
    "('g, 'e, 'h, 'p, 'k) Cryptography \<Rightarrow> 'k Integrity \<Rightarrow> WireFrame list \<Rightarrow> WireFrame list
      \<Rightarrow> 'k Integrity \<Rightarrow> bool"
  for cy :: "('g, 'e, 'h, 'p, 'k) Cryptography" and it\<^sub>0 :: "'k Integrity" where
  run_start: "integrity_run cy it\<^sub>0 [] [] it\<^sub>0"
| run_seal: "integrity_run cy it\<^sub>0 sealed accepted it \<Longrightarrow>
     integrity_seal cy frame it rs = (Inr frame', it', rs') \<Longrightarrow>
     integrity_run cy it\<^sub>0 (sealed @ [frame']) accepted it'"
| run_seal_error: "integrity_run cy it\<^sub>0 sealed accepted it \<Longrightarrow>
     integrity_seal cy frame it rs = (Inl e, it', rs') \<Longrightarrow> integrity_run cy it\<^sub>0 sealed accepted it'"
| run_sent: "integrity_run cy it\<^sub>0 sealed accepted it \<Longrightarrow>
     integrity_sent it = (res, it') \<Longrightarrow> integrity_run cy it\<^sub>0 sealed accepted it'"
| run_verify: "integrity_run cy it\<^sub>0 sealed accepted it \<Longrightarrow>
     integrity_verify cy frame it = (Inr frame', it') \<Longrightarrow>
     integrity_run cy it\<^sub>0 sealed (accepted @ [verified frame']) it'"
| run_verify_error: "integrity_run cy it\<^sub>0 sealed accepted it \<Longrightarrow>
     integrity_verify cy frame it = (Inl e, it') \<Longrightarrow> integrity_run cy it\<^sub>0 sealed accepted it'"
| run_close: "integrity_run cy it\<^sub>0 sealed accepted it \<Longrightarrow>
     integrity_run cy it\<^sub>0 sealed accepted (integrity_close it)"

text \<open>The nonces of the first \<open>n\<close> sequence numbers of a direction.\<close>

definition nonces :: "'k DirectionKeys \<Rightarrow> nat \<Rightarrow> bytes list" where
  "nonces direction n = map (\<lambda>i. nonce (dk_nonce_prefix direction) (of_nat i)) [0..<n]"

lemma nonces_simps [simp]:
  "nonces d 0 = []" "nonces d (Suc n) = nonces d n @ [nonce (dk_nonce_prefix d) (of_nat n)]"
  "length (nonces d n) = n"
  by (simp_all add: nonces_def)

lemma nonces_distinct:
  assumes "n \<le> 2 ^ 64"
  shows "distinct (nonces d n)"
proof -
  have "inj_on (\<lambda>i. nonce (dk_nonce_prefix d) (of_nat i)) {0..<n}"
  proof (rule inj_onI)
    fix i j
    assume "i \<in> {0..<n}" "j \<in> {0..<n}"
      and eq: "nonce (dk_nonce_prefix d) (of_nat i) = nonce (dk_nonce_prefix d) (of_nat j)"
    then have "i < 2 ^ 64" "j < 2 ^ 64" using assms by auto
    then have "unat (of_nat i :: u64) = i" "unat (of_nat j :: u64) = j"
      by (simp_all add: unat_of_nat)
    then show "i = j" using eq by (metis nonce_inject)
  qed
  then show ?thesis by (simp add: nonces_def distinct_map)
qed

text \<open>
  A frame carries the tag the primitive computes, or accepts, for its header and payload under a
  direction's key and the given nonce.
\<close>

definition tagged_with ::
    "('g, 'e, 'h, 'p, 'k) Cryptography \<Rightarrow> 'k DirectionKeys \<Rightarrow> bytes \<Rightarrow> WireFrame \<Rightarrow> bool" where
  "tagged_with cy direction n frame \<longleftrightarrow>
     (\<exists>t. wf_tag frame = Some t \<and> cy_tag cy (dk_key direction) n (frame_aad frame) = Inr t)"

definition verified_with ::
    "('g, 'e, 'h, 'p, 'k) Cryptography \<Rightarrow> 'k DirectionKeys \<Rightarrow> bytes \<Rightarrow> WireFrame \<Rightarrow> bool" where
  "verified_with cy direction n frame \<longleftrightarrow>
     (\<exists>t. wf_tag frame = Some t \<and> cy_verify_tag cy (dk_key direction) n (frame_aad frame) t = Inr ())"

text \<open>
  The counters count: while a direction holds its key, its sequence number is the number of frames
  that passed, a pending frame not yet counted; and the frames that passed carry the tags of the
  consecutive nonces.
\<close>

definition counts ::
    "('g, 'e, 'h, 'p, 'k) Cryptography \<Rightarrow> 'k SessionKeys \<Rightarrow> WireFrame list \<Rightarrow> WireFrame list
      \<Rightarrow> 'k Integrity \<Rightarrow> bool" where
  "counts cy keys sealed accepted it \<longleftrightarrow>
     length sealed < 2 ^ 64 \<and> length accepted < 2 ^ 64 \<and>
     list_all2 (tagged_with cy (sk_send keys)) (nonces (sk_send keys) (length sealed)) sealed \<and>
     list_all2 (verified_with cy (sk_receive keys)) (nonces (sk_receive keys) (length accepted)) accepted \<and>
     (it_send it \<noteq> None \<longrightarrow>
       it_send it = Some (sk_send keys) \<and>
       length sealed = unat (it_send_sequence it) + (if it_pending_send it then 1 else 0)) \<and>
     (it_receive it \<noteq> None \<longrightarrow>
       it_receive it = Some (sk_receive keys) \<and> length accepted = unat (it_receive_sequence it))"

lemma counts_new: "counts cy keys [] [] (integrity_new keys)"
  by (simp add: counts_def integrity_new_def)

lemma counts_close: "counts cy keys sealed accepted it \<Longrightarrow> counts cy keys sealed accepted (integrity_close it)"
  by (simp add: counts_def integrity_close_def)

lemma unat_below_max: "w \<noteq> u64_max \<Longrightarrow> Suc (unat w) < 2 ^ 64" for w :: u64
proof -
  assume "w \<noteq> u64_max"
  then have "unat w \<noteq> unat u64_max" by (metis word_unat_eq_iff)
  moreover have "unat u64_max = 2 ^ 64 - 1" by (simp add: u64_max_def)
  moreover have "unat w < 2 ^ 64" using unsigned_less [of w] by simp
  ultimately show ?thesis by linarith
qed

lemma integrity_seal_cases:
  assumes "integrity_seal cy f it rs = (res, it', rs')"
  shows "(\<exists>d sealed. it_send it = Some d \<and> \<not> it_pending_send it \<and> it_send_sequence it \<noteq> u64_max \<and>
            res = Inr sealed \<and> it' = it\<lparr>it_pending_send := True\<rparr> \<and>
            tagged_with cy d (nonce (dk_nonce_prefix d) (it_send_sequence it)) sealed)
       \<or> \<not> is_ok res \<and> (it' = it \<or> it' = integrity_close it)"
  using assms
  by (auto simp: integrity_seal_def integrity_fail_def wire_frame_new_def tagged_with_def frame_aad_def Let_def
      split: option.splits if_splits sum.splits)

lemma integrity_sent_cases:
  assumes "integrity_sent it = (res, it')"
  shows "(it_send it \<noteq> None \<and> it_pending_send it \<and> res = Inr () \<and>
            unat (it_send_sequence it') = Suc (unat (it_send_sequence it)) \<and>
            it' = it\<lparr>it_send_sequence := it_send_sequence it', it_pending_send := False\<rparr>)
       \<or> \<not> is_ok res \<and> (it' = it \<or> it' = integrity_close it)"
  using assms
  by (auto simp: integrity_sent_def integrity_fail_def checked_add_unat split: option.splits if_splits)

lemma integrity_verify_cases:
  assumes "integrity_verify cy f it = (res, it')"
  shows "(\<exists>d t. it_receive it = Some d \<and> wf_tag f = Some t \<and> res = Inr (VerifiedFrame f) \<and>
            cy_verify_tag cy (dk_key d) (nonce (dk_nonce_prefix d) (it_receive_sequence it))
              (frame_aad f) t = Inr () \<and>
            unat (it_receive_sequence it') = Suc (unat (it_receive_sequence it)) \<and>
            it' = it\<lparr>it_receive_sequence := it_receive_sequence it'\<rparr>)
       \<or> \<not> is_ok res \<and> (it' = it \<or> it' = integrity_close it)"
  using assms
  by (auto simp: integrity_verify_def integrity_fail_def checked_add_unat split: option.splits sum.splits)

lemma counts_seal:
  assumes "counts cy keys sealed accepted it" "integrity_seal cy f it rs = (Inr f', it', rs')"
  shows "counts cy keys (sealed @ [f']) accepted it'"
proof -
  from integrity_seal_cases [OF assms(2)] obtain d where
    seal: "it_send it = Some d" "\<not> it_pending_send it" "it_send_sequence it \<noteq> u64_max"
      "it' = it\<lparr>it_pending_send := True\<rparr>"
    and tag: "tagged_with cy d (nonce (dk_nonce_prefix d) (it_send_sequence it)) f'"
    by auto
  with assms(1) have "length sealed = unat (it_send_sequence it)" "d = sk_send keys"
    by (auto simp: counts_def)
  with seal tag unat_below_max [OF seal(3)] assms(1) show ?thesis
    by (auto simp: counts_def intro!: list_all2_appendI)
qed

lemma counts_sent:
  assumes "counts cy keys sealed accepted it" "integrity_sent it = (res, it')"
  shows "counts cy keys sealed accepted it'"
  using integrity_sent_cases [OF assms(2)]
proof (elim disjE conjE)
  assume next_seq: "it_send it \<noteq> None" "it_pending_send it"
    "unat (it_send_sequence it') = Suc (unat (it_send_sequence it))"
    and it': "it' = it\<lparr>it_send_sequence := it_send_sequence it', it_pending_send := False\<rparr>"
  show ?thesis
    using assms(1) next_seq by (subst it') (auto simp: counts_def)
qed (use assms(1) counts_close in auto)

lemma counts_verify:
  assumes "counts cy keys sealed accepted it" "integrity_verify cy f it = (Inr f', it')"
  shows "counts cy keys sealed (accepted @ [verified f']) it'"
proof -
  from integrity_verify_cases [OF assms(2)] obtain d where
    d: "it_receive it = Some d" and f': "f' = VerifiedFrame f"
    and tag: "verified_with cy d (nonce (dk_nonce_prefix d) (it_receive_sequence it)) f"
    and step: "unat (it_receive_sequence it') = Suc (unat (it_receive_sequence it))"
    and it': "it' = it\<lparr>it_receive_sequence := it_receive_sequence it'\<rparr>"
    by (auto simp: verified_with_def)
  have "length accepted = unat (it_receive_sequence it)" "d = sk_receive keys"
    using assms(1) d by (auto simp: counts_def)
  moreover have "unat (it_receive_sequence it') < 2 ^ 64"
    using unsigned_less [of "it_receive_sequence it'"] by simp
  moreover from calculation step have "Suc (length accepted) < 2 ^ 64" by simp
  ultimately show ?thesis
    using assms(1) step tag
    by (subst it') (auto simp: counts_def f' intro!: list_all2_appendI)
qed

lemma integrity_run_counts:
  assumes "integrity_run cy (integrity_new keys) sealed accepted it"
  shows "counts cy keys sealed accepted it"
  using assms
proof induction
  case run_start
  show ?case by (rule counts_new)
next
  case (run_seal_error sealed accepted it frame rs e it' rs')
  then show ?case using integrity_seal_cases [OF run_seal_error.hyps(2)] counts_close by auto
next
  case (run_verify_error sealed accepted it frame e it')
  then show ?case using integrity_verify_cases [OF run_verify_error.hyps(2)] counts_close by auto
qed (auto intro: counts_seal counts_sent counts_verify counts_close)

section \<open>Two ends in step\<close>

text \<open>Sealing and writing a sequence of frames, and verifying what arrives, in order.\<close>

fun seal_all ::
    "('g, 'e, 'h, 'p, 'k) Cryptography \<Rightarrow> WireFrame list \<Rightarrow> 'k Integrity \<Rightarrow> Resources
      \<Rightarrow> (IntegrityError, WireFrame list) result \<times> 'k Integrity \<times> Resources" where
  "seal_all cy [] it rs = (Inr [], it, rs)"
| "seal_all cy (frame # frames) it rs =
     (case integrity_seal cy frame it rs of
        (Inl e, it1, rs1) \<Rightarrow> (Inl e, it1, rs1)
      | (Inr sealed, it1, rs1) \<Rightarrow>
          (case integrity_sent it1 of
             (Inl e, it2) \<Rightarrow> (Inl e, it2, rs1)
           | (Inr _, it2) \<Rightarrow>
               (case seal_all cy frames it2 rs1 of
                  (Inl e, it3, rs3) \<Rightarrow> (Inl e, it3, rs3)
                | (Inr rest, it3, rs3) \<Rightarrow> (Inr (sealed # rest), it3, rs3))))"

fun verify_all ::
    "('g, 'e, 'h, 'p, 'k) Cryptography \<Rightarrow> WireFrame list \<Rightarrow> 'k Integrity
      \<Rightarrow> (IntegrityError, WireFrame list) result \<times> 'k Integrity" where
  "verify_all cy [] it = (Inr [], it)"
| "verify_all cy (frame # frames) it =
     (case integrity_verify cy frame it of
        (Inl e, it1) \<Rightarrow> (Inl e, it1)
      | (Inr f, it1) \<Rightarrow>
          (case verify_all cy frames it1 of
             (Inl e, it2) \<Rightarrow> (Inl e, it2)
           | (Inr rest, it2) \<Rightarrow> (Inr (verified f # rest), it2)))"

definition plain_frame :: "WireFrame \<Rightarrow> bool" where
  "plain_frame f \<longleftrightarrow> wf_tag f = None \<and> frame_shape Untagged f"

text \<open>The primitive produces a tag for every nonce of the direction and every input of the size of a frame.\<close>

definition tags_available :: "('g, 'e, 'h, 'p, 'k) Cryptography \<Rightarrow> 'k DirectionKeys \<Rightarrow> bool" where
  "tags_available cy d \<longleftrightarrow> (\<forall>s a. length a \<le> HEADER_BYTES + MAX_PAYLOAD_BYTES \<longrightarrow>
     is_ok (cy_tag cy (dk_key d) (nonce (dk_nonce_prefix d) s) a))"

lemma plain_frame_aad: "plain_frame f \<Longrightarrow> length (frame_aad f) \<le> HEADER_BYTES + MAX_PAYLOAD_BYTES"
  by (simp add: plain_frame_def frame_shape_def frame_aad_def header_valid_def HEADER_BYTES_def)

text \<open>The sender is idle and the receiver expects its next sequence number.\<close>

definition in_step :: "'k DirectionKeys \<Rightarrow> 'k Integrity \<Rightarrow> 'k Integrity \<Rightarrow> bool" where
  "in_step d sender receiver \<longleftrightarrow>
     it_send sender = Some d \<and> \<not> it_pending_send sender \<and> it_receive receiver = Some d \<and>
     it_send_sequence sender = it_receive_sequence receiver"

lemma integrity_step_delivers:
  assumes "exact_tags cy" "tags_available cy d" "in_step d tx rx" "plain_frame f"
    "it_send_sequence tx \<noteq> u64_max"
  obtains t tx' rx' where
    "integrity_seal cy f tx rs = (Inr (f\<lparr>wf_tag := Some t\<rparr>), tx\<lparr>it_pending_send := True\<rparr>, rs)"
    "integrity_sent (tx\<lparr>it_pending_send := True\<rparr>) = (Inr (), tx')"
    "integrity_verify cy (f\<lparr>wf_tag := Some t\<rparr>) rx = (Inr (VerifiedFrame (f\<lparr>wf_tag := Some t\<rparr>)), rx')"
    "in_step d tx' rx'"
    "unat (it_send_sequence tx') = Suc (unat (it_send_sequence tx))"
proof -
  let ?s = "it_send_sequence tx"
  from assms(3) have ends: "it_send tx = Some d" "\<not> it_pending_send tx"
    "it_receive rx = Some d" "it_receive_sequence rx = ?s" by (auto simp: in_step_def)
  from assms(2) obtain t where t: "cy_tag cy (dk_key d) (nonce (dk_nonce_prefix d) ?s) (frame_aad f) = Inr t"
    unfolding tags_available_def is_ok_iff using plain_frame_aad [OF assms(4)] by blast
  have aad: "frame_aad (f\<lparr>wf_tag := Some t\<rparr>) = frame_aad f" by (simp add: frame_aad_def)
  have accepted: "cy_verify_tag cy (dk_key d) (nonce (dk_nonce_prefix d) ?s) (frame_aad f) t = Inr ()"
    using assms(1) t by (simp add: exact_tags_def)
  from unat_below_max [OF assms(5)] obtain n where n: "checked_add ?s 1 = Some n"
    by (auto simp: checked_add_def)
  have seal: "integrity_seal cy f tx rs
      = (Inr (f\<lparr>wf_tag := Some t\<rparr>), tx\<lparr>it_pending_send := True\<rparr>, rs)"
    using ends assms(4,5) t
    by (simp add: integrity_seal_def wire_frame_new_def plain_frame_def frame_shape_def Let_def)
  have sent: "integrity_sent (tx\<lparr>it_pending_send := True\<rparr>) = (Inr (), tx\<lparr>it_send_sequence := n\<rparr>)"
    using ends n by (simp add: integrity_sent_def)
  have verify: "integrity_verify cy (f\<lparr>wf_tag := Some t\<rparr>) rx
      = (Inr (VerifiedFrame (f\<lparr>wf_tag := Some t\<rparr>)), rx\<lparr>it_receive_sequence := n\<rparr>)"
    using ends accepted n by (simp add: integrity_verify_def aad)
  show thesis
    using that [OF seal sent verify] ends checked_add_unat [OF n] by (simp add: in_step_def)
qed

lemma seal_verify_all:
  assumes "exact_tags cy" "tags_available cy d" "in_step d tx rx" "\<forall>f \<in> set fs. plain_frame f"
    "unat (it_send_sequence tx) + length fs < 2 ^ 64"
  shows "\<exists>sealed tx' rx'.
    seal_all cy fs tx rs = (Inr sealed, tx', rs) \<and>
    verify_all cy sealed rx = (Inr sealed, rx') \<and> in_step d tx' rx' \<and>
    map (\<lambda>f. f\<lparr>wf_tag := None\<rparr>) sealed = fs"
  using assms(3-5)
proof (induction fs arbitrary: tx rx)
  case Nil
  then show ?case by auto
next
  case (Cons f fs)
  have "unat u64_max = 2 ^ 64 - 1" by (simp add: u64_max_def)
  then have "it_send_sequence tx \<noteq> u64_max" using Cons.prems(3) by auto
  from integrity_step_delivers [OF assms(1,2) Cons.prems(1) _ this, of f rs] Cons.prems(2)
  obtain t tx' rx' where step:
    "integrity_seal cy f tx rs = (Inr (f\<lparr>wf_tag := Some t\<rparr>), tx\<lparr>it_pending_send := True\<rparr>, rs)"
    "integrity_sent (tx\<lparr>it_pending_send := True\<rparr>) = (Inr (), tx')"
    "integrity_verify cy (f\<lparr>wf_tag := Some t\<rparr>) rx = (Inr (VerifiedFrame (f\<lparr>wf_tag := Some t\<rparr>)), rx')"
    "in_step d tx' rx'"
    "unat (it_send_sequence tx') = Suc (unat (it_send_sequence tx))"
    by auto
  have "f\<lparr>wf_tag := None\<rparr> = f" using Cons.prems(2) by (simp add: plain_frame_def)
  with Cons.IH [OF step(4)] Cons.prems(2,3) step show ?case by auto
qed

section \<open>Properties\<close>

definition sample_keys :: "nat SessionKeys" where
  "sample_keys =
     \<lparr>sk_send = \<lparr>dk_key = 11, dk_nonce_prefix = be_bytes 16 1\<rparr>,
      sk_receive = \<lparr>dk_key = 12, dk_nonce_prefix = be_bytes 16 2\<rparr>\<rparr>"

lemma sample_tags_available: "tags_available sample_crypto d"
  by (simp add: tags_available_def sample_crypto_def)

lemma ping_frame_plain: "plain_frame ping_frame"
  by (simp add: plain_frame_def ping_frame_shape) (simp add: ping_frame_def)

lemma below_max: "unat (it_send_sequence it) \<le> 1 \<Longrightarrow> it_send_sequence it \<noteq> u64_max"
  by (auto simp: u64_max_def)

lemma integrity_new_sequence: "it_send_sequence (integrity_new keys) = 0"
  by (simp add: integrity_new_def)

text \<open>
  C3: Nonces are never reused: however sealing, write completion, verification, failures and closing
  are interleaved, the frames handed out for writing carry the tags of the send key under the nonces
  of the sequence numbers 0, 1, 2 and so on, one each and all different, and the frames released to
  the receiver were verified under the receive key and its nonces in the same way; neither counter
  wraps.
\<close>

theorem integrity_nonces_unique:
  assumes "integrity_run cy (integrity_new keys) sealed accepted it"
  shows "length sealed < 2 ^ 64 \<and> length accepted < 2 ^ 64 \<and>
    distinct (nonces (sk_send keys) (length sealed)) \<and>
    distinct (nonces (sk_receive keys) (length accepted)) \<and>
    list_all2 (\<lambda>n f. \<exists>t. wf_tag f = Some t \<and> cy_tag cy (dk_key (sk_send keys)) n (frame_aad f) = Inr t)
      (nonces (sk_send keys) (length sealed)) sealed \<and>
    list_all2 (\<lambda>n f. \<exists>t. wf_tag f = Some t \<and>
        cy_verify_tag cy (dk_key (sk_receive keys)) n (frame_aad f) t = Inr ())
      (nonces (sk_receive keys) (length accepted)) accepted"
  using integrity_run_counts [OF assms]
  by (auto simp: counts_def tagged_with_def verified_with_def nonces_distinct elim!: list_all2_mono)

theorem integrity_nonces_unique_witness:
  "\<exists>f f' it t. integrity_run sample_crypto (integrity_new sample_keys) [f, f'] [] it \<and>
    distinct [nonce (be_bytes 16 1) 0, nonce (be_bytes 16 1) 1] \<and>
    wf_tag f' = Some t \<and> cy_tag sample_crypto 11 (nonce (be_bytes 16 1) 1) (frame_aad f') = Inr t"
proof -
  let ?it = "integrity_new sample_keys" and ?d = "sk_send sample_keys"
  have step: "in_step ?d ?it (integrity_new (mirror sample_keys))"
    by (simp add: in_step_def integrity_new_def mirror_def)
  have fresh: "unat (it_send_sequence ?it) = 0" by (simp add: integrity_new_def)
  note deliver = integrity_step_delivers [OF sample_exact_tags sample_tags_available _ ping_frame_plain,
      where rs = sample_resources]
  obtain t tx rx where one: "integrity_seal sample_crypto ping_frame ?it sample_resources
      = (Inr (ping_frame\<lparr>wf_tag := Some t\<rparr>), ?it\<lparr>it_pending_send := True\<rparr>, sample_resources)"
    "integrity_sent (?it\<lparr>it_pending_send := True\<rparr>) = (Inr (), tx)" "in_step ?d tx rx"
    "unat (it_send_sequence tx) = Suc (unat (it_send_sequence ?it))"
    using deliver [OF step below_max] fresh by (metis zero_le)
  obtain t' where two: "integrity_seal sample_crypto ping_frame tx sample_resources
      = (Inr (ping_frame\<lparr>wf_tag := Some t'\<rparr>), tx\<lparr>it_pending_send := True\<rparr>, sample_resources)"
    using deliver [OF one(3) below_max] one(4) fresh by (metis One_nat_def order_refl)
  have run: "integrity_run sample_crypto ?it (([] @ [ping_frame\<lparr>wf_tag := Some t\<rparr>])
      @ [ping_frame\<lparr>wf_tag := Some t'\<rparr>]) [] (tx\<lparr>it_pending_send := True\<rparr>)"
    by (rule run_seal [OF run_sent [OF run_seal [OF run_start one(1)] one(2)] two])
  from integrity_nonces_unique [OF run]
  have "distinct [nonce (be_bytes 16 1) 0, nonce (be_bytes 16 1) 1] \<and>
      cy_tag sample_crypto 11 (nonce (be_bytes 16 1) 1) (frame_aad (ping_frame\<lparr>wf_tag := Some t'\<rparr>)) = Inr t'"
    by (simp add: sample_keys_def numeral_2_eq_2)
  with run show ?thesis
    by (intro exI [of _ "ping_frame\<lparr>wf_tag := Some t\<rparr>"] exI [of _ "ping_frame\<lparr>wf_tag := Some t'\<rparr>"] exI
        [of _ "tx\<lparr>it_pending_send := True\<rparr>"] exI [of _ t']) simp
qed

text \<open>
  C4: Two ends with mirrored keys stay in step: any fewer than \<open>2 ^ 64\<close> untagged frames sealed and
  written in order by one end are all accepted, in that order and unchanged but for the tag, by the
  other.
\<close>

theorem integrity_in_step:
  assumes "exact_tags cy" "tags_available cy (sk_send keys)" "\<forall>f \<in> set fs. plain_frame f"
    "length fs < 2 ^ 64"
  shows "\<exists>sealed tx rx.
    seal_all cy fs (integrity_new keys) rs = (Inr sealed, tx, rs) \<and>
    verify_all cy sealed (integrity_new (mirror keys)) = (Inr sealed, rx) \<and>
    map (\<lambda>f. f\<lparr>wf_tag := None\<rparr>) sealed = fs"
proof -
  have "in_step (sk_send keys) (integrity_new keys) (integrity_new (mirror keys))"
    by (simp add: in_step_def integrity_new_def mirror_def)
  from seal_verify_all [OF assms(1,2) this assms(3), of rs] assms(4)
    integrity_new_sequence [of keys] show ?thesis by auto
qed

theorem integrity_in_step_witness:
  "\<exists>sealed tx rx.
    seal_all sample_crypto [ping_frame, ping_frame] (integrity_new sample_keys) sample_resources
      = (Inr sealed, tx, sample_resources) \<and>
    verify_all sample_crypto sealed (integrity_new (mirror sample_keys)) = (Inr sealed, rx) \<and>
    map (\<lambda>f. f\<lparr>wf_tag := None\<rparr>) sealed = [ping_frame, ping_frame]"
  by (rule integrity_in_step [OF sample_exact_tags sample_tags_available])
     (simp_all add: ping_frame_plain)

text \<open>
  C19: Only authentic frames are released, and a failed verification is final: a released frame
  carries the tag of its own header and payload under the receive key and the next sequence number;
  any failure on an open session releases both keys, after which sealing, completion and verification
  all report a closed session.
\<close>

theorem integrity_verify_safe:
  assumes "exact_tags cy" "it_receive it = Some d" "integrity_verify cy f it = (res, it')"
  shows "(case res of
      Inr v \<Rightarrow> v = VerifiedFrame f \<and> (\<exists>t. wf_tag f = Some t \<and>
        cy_tag cy (dk_key d) (nonce (dk_nonce_prefix d) (it_receive_sequence it)) (frame_aad f) = Inr t)
    | Inl e \<Rightarrow> integrity_is_closed it' \<and>
        integrity_seal cy g it' rs = (Inl Ie_Closed, it', drop_outbound (wf_reservation g) rs) \<and>
        integrity_sent it' = (Inl Ie_Closed, it') \<and> integrity_verify cy g it' = (Inl Ie_Closed, it'))"
proof (cases res)
  case (Inl e)
  have it': "it' = integrity_close it"
    by (rule integrity_verify_error_closes) (use assms Inl in auto)
  have "it_send it' = None" "it_receive it' = None" by (simp_all add: it' integrity_close_def)
  with Inl show ?thesis by (simp add: integrity_is_closed_def integrity_closed_absorbing)
next
  case (Inr v)
  with integrity_verify_cases [OF assms(3)] assms(1,2) show ?thesis by (auto simp: exact_tags_def)
qed

theorem integrity_verify_safe_witness:
  "exact_tags sample_crypto \<and> it_receive (integrity_new sample_keys) = Some (sk_receive sample_keys) \<and>
   integrity_is_closed (snd (integrity_verify sample_crypto ping_frame (integrity_new sample_keys)))"
proof -
  have rx: "it_receive (integrity_new sample_keys) = Some (sk_receive sample_keys)"
    by (simp add: integrity_new_def)
  have out: "integrity_verify sample_crypto ping_frame (integrity_new sample_keys)
      = (Inl Ie_Shape, integrity_close (integrity_new sample_keys))"
    by (simp add: integrity_verify_def rx ping_frame_def integrity_fail_def)
  from integrity_verify_safe [OF sample_exact_tags rx out] show ?thesis
    by (simp add: sample_exact_tags rx out)
qed

end
