(* ===== verification/Stream_Ids.thy ===== *)
theory Stream_Ids
  imports Transport_Api
begin

text \<open>
  Stream numbering of one connection: \<open>stream/ids.rs\<close>. Each side allocates every other 32-bit number
  from its own first one, the peer's numbers are accepted only in exactly that order, and two
  high-water marks stand for the whole history. The refinement lemma shows that the marks answer
  \<open>was_created\<close> exactly as the set of all numbers ever allocated or accepted would.
\<close>

datatype IdError = Id_Exhausted | Id_Unexpected

record StreamIds =
  si_local_odd :: bool
  si_next_local :: "u32 option"
  si_next_remote :: "u32 option"
  si_greatest_local :: u32
  si_greatest_remote :: u32

definition stream_ids_new :: "ConnectionRole \<Rightarrow> StreamIds" where
  "stream_ids_new role =
     (let local_odd = (role = Initiator) in
      \<lparr>si_local_odd = local_odd,
       si_next_local = Some (if local_odd then 1 else 2),
       si_next_remote = Some (if local_odd then 2 else 1),
       si_greatest_local = 0,
       si_greatest_remote = 0\<rparr>)"

definition ids_allocate :: "StreamIds \<Rightarrow> (IdError, u32) result \<times> StreamIds" where
  "ids_allocate s =
     (case si_next_local s of
        None \<Rightarrow> (Inl Id_Exhausted, s)
      | Some i \<Rightarrow> (Inr i, s\<lparr>si_next_local := checked_add i 2, si_greatest_local := i\<rparr>))"

definition ids_accept :: "u32 \<Rightarrow> StreamIds \<Rightarrow> (IdError, unit) result \<times> StreamIds" where
  "ids_accept i s =
     (if si_next_remote s \<noteq> Some i then (Inl Id_Unexpected, s)
      else (Inr (), s\<lparr>si_next_remote := checked_add i 2, si_greatest_remote := i\<rparr>))"

definition ids_is_local :: "u32 \<Rightarrow> StreamIds \<Rightarrow> bool" where
  "ids_is_local i s \<longleftrightarrow> i \<noteq> 0 \<and> (i mod 2 = 1) = si_local_odd s"

definition ids_was_created :: "u32 \<Rightarrow> StreamIds \<Rightarrow> bool" where
  "ids_was_created i s \<longleftrightarrow>
     i \<noteq> 0 \<and> i \<le> (if ids_is_local i s then si_greatest_local s else si_greatest_remote s)"

section \<open>One direction\<close>

text \<open>
  A direction that has handed out \<open>used\<close>, from its first number: they are the consecutive numbers of
  that parity, the mark is the last of them, and the next one is offered while it fits in 32 bits.
\<close>

definition direction_ok :: "nat \<Rightarrow> u32 list \<Rightarrow> u32 option \<Rightarrow> u32 \<Rightarrow> bool" where
  "direction_ok first used nxt mark \<longleftrightarrow>
     map unat used = map (\<lambda>k. first + 2 * k) [0..<length used] \<and>
     unat mark = (if used = [] then 0 else first + 2 * (length used - 1)) \<and>
     (case nxt of
        None \<Rightarrow> 2 ^ 32 \<le> first + 2 * length used
      | Some i \<Rightarrow> unat i = first + 2 * length used)"

lemma direction_start: "unat i = first \<Longrightarrow> direction_ok first [] (Some i) 0"
  by (simp add: direction_ok_def)

lemma direction_next:
  assumes "direction_ok first used (Some i) mark"
  shows "direction_ok first (used @ [i]) (checked_add i 2) i"
proof (cases "checked_add i 2")
  case None
  then have "2 ^ 32 \<le> unat i + 2" by (simp add: checked_add_eq_None)
  with assms None show ?thesis by (simp add: direction_ok_def)
next
  case (Some j)
  from checked_add_unat [OF this] assms Some show ?thesis by (simp add: direction_ok_def)
qed

lemma direction_set:
  assumes "direction_ok first used nxt mark"
  shows "unat ` set used = (\<lambda>k. first + 2 * k) ` {0..<length used}"
proof -
  have "set (map unat used) = set (map (\<lambda>k. first + 2 * k) [0..<length used])"
    using assms unfolding direction_ok_def by argo
  then show ?thesis by (simp only: set_map set_upt)
qed

lemma direction_member:
  assumes "direction_ok first used nxt mark" "0 < first" "first \<le> 2"
  shows "i \<in> set used \<longleftrightarrow> i \<noteq> 0 \<and> unat i mod 2 = first mod 2 \<and> i \<le> mark"
proof -
  have "i \<in> set used \<longleftrightarrow> unat i \<in> unat ` set used"
    by (auto simp: image_iff dest!: word_unat_eq_iff [THEN iffD2])
  also have "unat ` set used = (\<lambda>k. first + 2 * k) ` {0..<length used}"
    using direction_set [OF assms(1)] .
  also have "unat i \<in> \<dots> \<longleftrightarrow> (\<exists>k < length used. unat i = first + 2 * k)" by auto
  also have "\<dots> \<longleftrightarrow> 0 < unat i \<and> unat i mod 2 = first mod 2 \<and> unat i \<le> unat mark"
  proof
    assume "\<exists>k < length used. unat i = first + 2 * k"
    then show "0 < unat i \<and> unat i mod 2 = first mod 2 \<and> unat i \<le> unat mark"
      using assms by (auto simp: direction_ok_def)
  next
    assume i: "0 < unat i \<and> unat i mod 2 = first mod 2 \<and> unat i \<le> unat mark"
    then have "used \<noteq> []" and bound: "unat i \<le> first + 2 * (length used - 1)"
      using assms(1) by (auto simp: direction_ok_def split: if_splits)
    have "first \<le> unat i" "2 dvd unat i - first"
      using i assms(2,3) by (presburger, presburger)
    then obtain k where "unat i = first + 2 * k" by (metis dvdE le_add_diff_inverse)
    with bound \<open>used \<noteq> []\<close> show "\<exists>k < length used. unat i = first + 2 * k"
      by (intro exI [of _ k]) (cases used; simp)
  qed
  finally show ?thesis by (simp add: word_le_nat_alt unat_gt_0)
qed

lemma direction_bound:
  assumes "direction_ok first used nxt mark" "i \<in> set used"
  shows "unat i < first + 2 * length used"
proof -
  have "unat i \<in> (\<lambda>k. first + 2 * k) ` {0..<length used}"
    using direction_set [OF assms(1)] assms(2) by blast
  then show ?thesis by auto
qed

lemma direction_distinct:
  assumes "direction_ok first used nxt mark"
  shows "distinct used"
proof -
  have "distinct (map unat used)"
    using assms by (simp add: direction_ok_def distinct_map inj_on_def)
  then show ?thesis by (simp add: distinct_map)
qed

section \<open>The history of a connection\<close>

definition first_local :: "StreamIds \<Rightarrow> nat" where
  "first_local s = (if si_local_odd s then 1 else 2)"

definition ids_history :: "u32 list \<Rightarrow> u32 list \<Rightarrow> StreamIds \<Rightarrow> bool" where
  "ids_history locals remotes s \<longleftrightarrow>
     direction_ok (first_local s) locals (si_next_local s) (si_greatest_local s) \<and>
     direction_ok (3 - first_local s) remotes (si_next_remote s) (si_greatest_remote s)"

lemma ids_history_new: "ids_history [] [] (stream_ids_new role)"
  by (cases role) (simp_all add: ids_history_def stream_ids_new_def first_local_def direction_ok_def)

lemma ids_history_allocate:
  assumes "ids_history ls rs s" "ids_allocate s = (Inr i, s')"
  shows "ids_history (ls @ [i]) rs s'" "si_local_odd s' = si_local_odd s"
  using assms by (auto simp: ids_allocate_def ids_history_def first_local_def direction_next split: option.splits)

lemma ids_history_accept:
  assumes "ids_history ls rs s" "ids_accept i s = (Inr (), s')"
  shows "ids_history ls (rs @ [i]) s'" "si_local_odd s' = si_local_odd s"
  using assms by (auto simp: ids_accept_def ids_history_def first_local_def direction_next split: if_splits)

lemma word_mod_2_eq_1: "i mod 2 = 1 \<longleftrightarrow> unat i mod 2 = 1" for i :: u32
  by (simp add: word_unat_eq_iff unat_mod)

lemma first_local_parity: "i \<noteq> 0 \<Longrightarrow> ids_is_local i s \<longleftrightarrow> unat i mod 2 = first_local s mod 2"
  unfolding ids_is_local_def first_local_def word_mod_2_eq_1 by auto

lemma ids_history_members:
  assumes "ids_history ls rs s"
  shows "i \<in> set ls \<longleftrightarrow> ids_is_local i s \<and> ids_was_created i s"
    "i \<in> set rs \<longleftrightarrow> \<not> ids_is_local i s \<and> ids_was_created i s"
proof -
  have first: "0 < first_local s" "first_local s \<le> 2" "0 < 3 - first_local s" "3 - first_local s \<le> 2"
    by (simp_all add: first_local_def)
  note dir = assms [unfolded ids_history_def]
  have parity: "(unat i mod 2 = (3 - first_local s) mod 2) \<longleftrightarrow> unat i mod 2 \<noteq> first_local s mod 2"
    by (auto simp: first_local_def)
  show "i \<in> set ls \<longleftrightarrow> ids_is_local i s \<and> ids_was_created i s"
    using direction_member [OF conjunct1 [OF dir] first(1,2)] first_local_parity [of i s]
    by (auto simp: ids_was_created_def)
  show "i \<in> set rs \<longleftrightarrow> \<not> ids_is_local i s \<and> ids_was_created i s"
    using direction_member [OF conjunct2 [OF dir] first(3,4)] first_local_parity [of i s] parity
    by (auto simp: ids_was_created_def)
qed

lemma is_local_cong: "si_local_odd s' = si_local_odd s \<Longrightarrow> ids_is_local i s' = ids_is_local i s"
  by (simp add: ids_is_local_def)

lemma ids_allocate_fresh:
  assumes "ids_history ls rs s" "ids_allocate s = (Inr i, s')"
  shows "i \<noteq> 0" "ids_is_local i s" "\<not> ids_was_created i s"
    "ids_is_local j s' = ids_is_local j s" "ids_was_created j s' \<longleftrightarrow> ids_was_created j s \<or> j = i"
proof -
  note hist = ids_history_allocate [OF assms]
  show same: "ids_is_local j s' = ids_is_local j s" for j using hist(2) by (rule is_local_cong)
  have "distinct (ls @ [i])" using hist(1) unfolding ids_history_def by (blast intro: direction_distinct)
  moreover have "i \<in> set (ls @ [i])" by simp
  ultimately show "i \<noteq> 0" "ids_is_local i s" "\<not> ids_was_created i s"
    using ids_history_members(1) [OF hist(1), of i] ids_history_members(1) [OF assms(1), of i] same
    by (auto simp: ids_was_created_def)
  show "ids_was_created j s' \<longleftrightarrow> ids_was_created j s \<or> j = i"
    using ids_history_members [OF hist(1), of j] ids_history_members [OF assms(1), of j] same by auto
qed

lemma ids_accept_fresh:
  assumes "ids_history ls rs s" "ids_accept i s = (Inr (), s')"
  shows "i \<noteq> 0" "\<not> ids_is_local i s" "\<not> ids_was_created i s"
    "ids_is_local j s' = ids_is_local j s" "ids_was_created j s' \<longleftrightarrow> ids_was_created j s \<or> j = i"
proof -
  note hist = ids_history_accept [OF assms]
  show same: "ids_is_local j s' = ids_is_local j s" for j using hist(2) by (rule is_local_cong)
  have "distinct (rs @ [i])" using hist(1) unfolding ids_history_def by (blast intro: direction_distinct)
  moreover have "i \<in> set (rs @ [i])" by simp
  ultimately show "i \<noteq> 0" "\<not> ids_is_local i s" "\<not> ids_was_created i s"
    using ids_history_members(2) [OF hist(1), of i] ids_history_members(2) [OF assms(1), of i] same
    by (auto simp: ids_was_created_def)
  show "ids_was_created j s' \<longleftrightarrow> ids_was_created j s \<or> j = i"
    using ids_history_members [OF hist(1), of j] ids_history_members [OF assms(1), of j] same by auto
qed

section \<open>Properties\<close>

text \<open>The calls of one connection, with every number allocated and accepted so far.\<close>

inductive ids_run :: "ConnectionRole \<Rightarrow> u32 list \<Rightarrow> u32 list \<Rightarrow> StreamIds \<Rightarrow> bool"
  for role :: ConnectionRole where
  ids_start: "ids_run role [] [] (stream_ids_new role)"
| ids_allocated: "ids_run role ls rs s \<Longrightarrow> ids_allocate s = (Inr i, s') \<Longrightarrow> ids_run role (ls @ [i]) rs s'"
| ids_exhausted: "ids_run role ls rs s \<Longrightarrow> ids_allocate s = (Inl e, s') \<Longrightarrow> ids_run role ls rs s'"
| ids_accepted: "ids_run role ls rs s \<Longrightarrow> ids_accept i s = (Inr u, s') \<Longrightarrow> ids_run role ls (rs @ [i]) s'"
| ids_rejected: "ids_run role ls rs s \<Longrightarrow> ids_accept i s = (Inl e, s') \<Longrightarrow> ids_run role ls rs s'"

lemma ids_run_history:
  assumes "ids_run role ls rs s"
  shows "ids_history ls rs s" "si_local_odd s = (role = Initiator)"
  using assms
proof (induction rule: ids_run.induct)
  case ids_start
  show "ids_history [] [] (stream_ids_new role)" by (rule ids_history_new)
  show "si_local_odd (stream_ids_new role) = (role = Initiator)"
    by (simp add: stream_ids_new_def Let_def)
next
  case (ids_exhausted ls rs s e s')
  then have "s' = s" by (auto simp: ids_allocate_def split: option.splits)
  with ids_exhausted.IH show "ids_history ls rs s'" "si_local_odd s' = (role = Initiator)" by simp_all
next
  case (ids_rejected ls rs s i e s')
  then have "s' = s" by (auto simp: ids_accept_def split: if_splits)
  with ids_rejected.IH show "ids_history ls rs s'" "si_local_odd s' = (role = Initiator)" by simp_all
qed (auto dest: ids_history_allocate ids_history_accept)

text \<open>
  C23: The high-water marks represent the whole history: after any calls, a stream number counts as
  created iff it was allocated locally or accepted from the peer; no number is ever used twice; and
  the two sides use disjoint parities, the initiator the odd numbers.
\<close>

theorem ids_history_exact:
  assumes "ids_run role ls rs s"
  shows "(ids_was_created i s \<longleftrightarrow> i \<in> set (ls @ rs)) \<and> distinct (ls @ rs) \<and>
    (i \<in> set ls \<longrightarrow> (unat i mod 2 = 1) = (role = Initiator)) \<and>
    (i \<in> set rs \<longrightarrow> (unat i mod 2 = 1) = (role = Acceptor))"
proof -
  note hist = ids_run_history [OF assms]
  note mem = ids_history_members [OF hist(1)]
  have "distinct ls" "distinct rs"
    using hist(1) unfolding ids_history_def by (blast intro: direction_distinct)+
  moreover have "set ls \<inter> set rs = {}" using mem by blast
  ultimately have "distinct (ls @ rs)" by simp
  moreover have "ids_was_created i s \<longleftrightarrow> i \<in> set (ls @ rs)" using mem [of i] by auto
  moreover have "i \<noteq> 0 \<Longrightarrow> ids_is_local i s \<longleftrightarrow> (unat i mod 2 = 1) = (role = Initiator)"
    by (simp add: ids_is_local_def word_mod_2_eq_1 hist(2))
  ultimately show ?thesis
    using mem [of i] by (cases role) (auto simp: ids_was_created_def)
qed

theorem ids_history_exact_witness:
  "ids_run Initiator [1] [] (snd (ids_allocate (stream_ids_new Initiator))) \<and>
   ids_was_created 1 (snd (ids_allocate (stream_ids_new Initiator))) \<and>
   \<not> ids_was_created 3 (snd (ids_allocate (stream_ids_new Initiator)))"
proof -
  have alloc: "ids_allocate (stream_ids_new Initiator) = (Inr 1, snd (ids_allocate (stream_ids_new Initiator)))"
    by (simp add: ids_allocate_def stream_ids_new_def)
  have run: "ids_run Initiator ([] @ [1]) [] (snd (ids_allocate (stream_ids_new Initiator)))"
    by (rule ids_allocated [OF ids_start alloc])
  from run ids_history_exact [OF run, of 1] ids_history_exact [OF run, of 3] show ?thesis by simp
qed

text \<open>
  Allocation never wraps: a number is handed out exactly while the next number of the side's
  parity fits in 32 bits, and each one is the previous one plus two.
\<close>

lemma ids_allocate_bounds:
  assumes "ids_run role ls rs s"
  shows "(case fst (ids_allocate s) of
      Inr i \<Rightarrow> unat i = (if role = Initiator then 1 else 2) + 2 * length ls
    | Inl e \<Rightarrow> e = Id_Exhausted \<and> 2 ^ 32 \<le> (if role = Initiator then 1 else 2) + 2 * length ls)"
proof -
  note hist = ids_run_history [OF assms]
  have "direction_ok (first_local s) ls (si_next_local s) (si_greatest_local s)"
    using hist(1) by (simp add: ids_history_def)
  then show ?thesis
    using hist(2) by (auto simp: ids_allocate_def direction_ok_def first_local_def split: option.splits)
qed

end
