(* ===== verification/Open_Codec.thy ===== *)
theory Open_Codec
  imports Wire_Codec
begin

text \<open>
  OPEN protocol selection: \<open>codec/open.rs\<close>. A payload is a two-byte identifier length, the
  identifier and a four-byte version. Identifiers are 1 to 255 bytes of lower-case letters, digits,
  dots and hyphens, begin and end with a letter or digit and never contain two dots in a row;
  version zero is reserved.
\<close>

datatype OpenError = Oe_Length | Oe_Identifier | Oe_Version

record Open =
  op_id :: bytes
  op_version :: u32

definition is_ascii_lowercase :: "byte \<Rightarrow> bool" where
  "is_ascii_lowercase b \<longleftrightarrow> 97 \<le> unat b \<and> unat b \<le> 122"

definition is_ascii_digit :: "byte \<Rightarrow> bool" where
  "is_ascii_digit b \<longleftrightarrow> 48 \<le> unat b \<and> unat b \<le> 57"

definition alphanumeric :: "byte \<Rightarrow> bool" where
  "alphanumeric b \<longleftrightarrow> is_ascii_lowercase b \<or> is_ascii_digit b"

definition dot :: byte where
  "dot = 46"

definition hyphen :: byte where
  "hyphen = 45"

text \<open>\<open>bytes.windows(2)\<close> is the list of adjacent pairs.\<close>

definition windows2 :: "'a list \<Rightarrow> ('a \<times> 'a) list" where
  "windows2 xs = zip xs (tl xs)"

definition open_new :: "bytes \<Rightarrow> u32 \<Rightarrow> (OpenError, Open) result" where
  "open_new bs version =
     (if \<not> (1 \<le> length bs \<and> length bs \<le> 255) then Inl Oe_Length
      else if \<not> alphanumeric (bs ! 0) \<or> \<not> alphanumeric (bs ! (length bs - 1))
           \<or> \<not> list_all (\<lambda>b. alphanumeric b \<or> b = dot \<or> b = hyphen) bs
           \<or> list_ex (\<lambda>pair. pair = (dot, dot)) (windows2 bs)
        then Inl Oe_Identifier
      else if version = 0 then Inl Oe_Version
      else Inr \<lparr>op_id = bs, op_version = version\<rparr>)"

definition open_decode :: "bytes \<Rightarrow> (OpenError, Open) result" where
  "open_decode bs =
     (if length bs < 7 then Inl Oe_Length
      else let len = unat (u16_from_be (subslice 0 2 bs)) in
        if \<not> (1 \<le> len \<and> len \<le> 255) \<or> length bs \<noteq> len + 6 then Inl Oe_Length
        else let ident = subslice 2 (2 + len) bs in
          if \<not> utf8_valid ident then Inl Oe_Identifier
          else let offset = 2 + len in
            open_new ident (u32_from_be (subslice offset (offset + 4) bs)))"

definition open_encode :: "Open \<Rightarrow> bytes" where
  "open_encode sel = u16_to_be (of_nat (length (op_id sel))) @ op_id sel @ u32_to_be (op_version sel)"

text \<open>
  The documented rule, stated on the identifier as a whole and not by the decoder's tests on indices
  and windows.
\<close>

definition open_valid :: "Open \<Rightarrow> bool" where
  "open_valid sel \<longleftrightarrow>
     op_id sel \<noteq> [] \<and> length (op_id sel) \<le> 255 \<and>
     alphanumeric (hd (op_id sel)) \<and> alphanumeric (last (op_id sel)) \<and>
     set (op_id sel) \<subseteq> {b. alphanumeric b} \<union> {dot, hyphen} \<and>
     (\<nexists>before after. op_id sel = before @ [dot, dot] @ after) \<and>
     op_version sel \<noteq> 0"

lemma windows2_adjacent: "(a, b) \<in> set (windows2 xs) \<longleftrightarrow> (\<exists>before after. xs = before @ [a, b] @ after)"
proof
  assume "(a, b) \<in> set (windows2 xs)"
  then obtain i where i: "Suc i < length xs" "xs ! i = a" "xs ! Suc i = b"
    by (auto simp: windows2_def in_set_zip nth_tl less_diff_conv)
  then have "xs = take i xs @ a # b # drop (Suc (Suc i)) xs"
    by (metis Cons_nth_drop_Suc Suc_lessD append_take_drop_id)
  then show "\<exists>before after. xs = before @ [a, b] @ after" by auto
next
  assume "\<exists>before after. xs = before @ [a, b] @ after"
  then obtain before after where xs: "xs = before @ a # b # after" by auto
  then have "Suc (length before) < length xs" "xs ! length before = a" "xs ! Suc (length before) = b"
    by (simp_all add: nth_append)
  then show "(a, b) \<in> set (windows2 xs)"
    by (auto simp: windows2_def in_set_zip nth_tl less_diff_conv)
qed

lemma open_new_valid:
  "open_new bs v = Inr sel \<longleftrightarrow> sel = \<lparr>op_id = bs, op_version = v\<rparr> \<and> open_valid sel"
proof -
  have pair: "list_ex (\<lambda>pair. pair = (dot, dot)) (windows2 bs) \<longleftrightarrow>
      (\<exists>before after. bs = before @ [dot, dot] @ after)"
    unfolding windows2_adjacent [symmetric] by (auto simp: list_ex_iff)
  have bytes: "list_all (\<lambda>b. alphanumeric b \<or> b = dot \<or> b = hyphen) bs \<longleftrightarrow>
      set bs \<subseteq> {b. alphanumeric b} \<union> {dot, hyphen}"
    by (auto simp: list_all_iff)
  have ends: "bs \<noteq> [] \<Longrightarrow> bs ! 0 = hd bs \<and> bs ! (length bs - 1) = last bs"
    by (simp add: hd_conv_nth last_conv_nth)
  show ?thesis
  proof (cases "bs = []")
    case True
    then show ?thesis by (auto simp: open_new_def open_valid_def)
  next
    case False
    define adjacent where "adjacent = (\<exists>before after. bs = before @ [dot, dot] @ after)"
    have "open_valid sel \<longleftrightarrow>
        length bs \<le> 255 \<and> alphanumeric (hd bs) \<and> alphanumeric (last bs) \<and>
        set bs \<subseteq> {b. alphanumeric b} \<union> {dot, hyphen} \<and> \<not> adjacent \<and> v \<noteq> 0"
      if "sel = \<lparr>op_id = bs, op_version = v\<rparr>"
      using False that by (simp add: open_valid_def adjacent_def)
    with False ends show ?thesis
      unfolding open_new_def pair bytes adjacent_def [symmetric]
      by (auto simp: Suc_le_eq)
  qed
qed

lemma open_newD:
  assumes "open_new bs v = Inr sel"
  shows "op_id sel = bs" "op_version sel = v" "open_valid sel" "1 \<le> length bs" "length bs \<le> 255"
    "list_all (\<lambda>b. alphanumeric b \<or> b = dot \<or> b = hyphen) bs" "v \<noteq> 0"
proof -
  show "open_valid sel" using assms open_new_valid by blast
qed (use assms in \<open>auto simp: open_new_def split: if_splits\<close>)

lemma open_validD: "open_valid sel \<Longrightarrow> open_new (op_id sel) (op_version sel) = Inr sel"
  by (simp add: open_new_valid)

lemma open_valid_length: "open_valid sel \<Longrightarrow> 1 \<le> length (op_id sel) \<and> length (op_id sel) \<le> 255"
  by (auto dest!: open_validD dest: open_newD)

lemma identifier_byte_ascii: "alphanumeric b \<or> b = dot \<or> b = hyphen \<Longrightarrow> is_ascii b"
  by (auto simp: alphanumeric_def is_ascii_lowercase_def is_ascii_digit_def dot_def hyphen_def
      is_ascii_def)

lemma open_new_utf8: "open_new bs v = Inr sel \<Longrightarrow> utf8_valid bs"
  using open_newD(6) [of bs v sel] identifier_byte_ascii
  by (blast intro: utf8_valid_ascii list.pred_mono_strong)

lemma length_open_encode [simp]: "length (open_encode sel) = length (op_id sel) + 6"
  by (simp add: open_encode_def)

lemma open_decode_encode:
  assumes "open_valid sel"
  shows "open_decode (open_encode sel) = Inr sel"
proof -
  let ?bs = "open_encode sel" and ?n = "length (op_id sel)"
  have n: "1 \<le> ?n" "?n \<le> 255" using open_valid_length [OF assms] by auto
  have "subslice 0 2 ?bs = u16_to_be (of_nat ?n)" "subslice 2 (2 + ?n) ?bs = op_id sel"
    "subslice (2 + ?n) (2 + ?n + 4) ?bs = u32_to_be (op_version sel)"
    by (simp_all add: open_encode_def subslice_def)
  moreover have "unat (of_nat ?n :: u16) = ?n"
    using n by (simp add: u16_of_usize)
  moreover have "utf8_valid (op_id sel)"
    using open_new_utf8 [OF open_validD [OF assms]] .
  ultimately show ?thesis
    using open_validD [OF assms] n by (auto simp: open_decode_def Let_def)
qed

lemma open_decode_sound:
  assumes "open_decode bs = Inr sel"
  shows "open_valid sel \<and> open_encode sel = bs"
proof -
  define n where "n = unat (u16_from_be (subslice 0 2 bs))"
  define i where "i = subslice 2 (2 + n) bs"
  define v where "v = subslice (2 + n) (2 + n + 4) bs"
  from assms have len: "length bs = n + 6" and new: "open_new i (u32_from_be v) = Inr sel"
    by (auto simp: open_decode_def Let_def n_def i_def v_def split: if_splits)
  have "subslice 0 2 bs @ i @ v = subslice 0 (2 + n + 4) bs"
    unfolding i_def v_def by (simp add: subslice_glue)
  then have parts: "subslice 0 2 bs @ i @ v = bs"
    using len by (simp add: subslice_all)
  have "u16_to_be (of_nat n) = subslice 0 2 bs"
    using len unfolding n_def by (simp add: u16_to_from_be)
  moreover have "length i = n" "u32_to_be (u32_from_be v) = v"
    using len by (simp_all add: i_def v_def u32_to_from_be)
  ultimately show ?thesis
    using open_newD [OF new] parts by (simp add: open_encode_def)
qed

interpretation open_codec: wire_codec open_valid open_encode open_decode
  by unfold_locales (simp_all add: open_decode_encode open_decode_sound)

section \<open>Properties\<close>

text \<open>
  C38: The OPEN decoder accepts exactly the canonical encodings of the documented selections: an
  identifier of 1 to 255 bytes that begins and ends with a lower-case letter or digit, holds only
  lower-case letters, digits, dots and hyphens and nowhere two dots in a row, with a nonzero version.
\<close>

theorem open_decode_exact:
  "open_decode bs = Inr sel \<longleftrightarrow>
     bs = open_encode sel \<and> op_id sel \<noteq> [] \<and> length (op_id sel) \<le> 255 \<and>
     alphanumeric (hd (op_id sel)) \<and> alphanumeric (last (op_id sel)) \<and>
     set (op_id sel) \<subseteq> {b. alphanumeric b} \<union> {dot, hyphen} \<and>
     (\<nexists>before after. op_id sel = before @ [dot, dot] @ after) \<and>
     op_version sel \<noteq> 0"
  using open_codec.decode_iff [of bs sel] by (auto simp: open_valid_def)

theorem open_decode_exact_witness:
  "open_decode [0, 1, 0x61, 0, 0, 0, 7] = Inr \<lparr>op_id = [0x61], op_version = 7\<rparr>"
proof -
  have "[0, 1, 0x61, 0, 0, 0, 7] = open_encode \<lparr>op_id = [0x61], op_version = 7\<rparr>" by code_simp
  moreover have "alphanumeric 0x61" by code_simp
  ultimately show ?thesis
    by (subst open_decode_exact) (auto simp: Cons_eq_append_conv)
qed

end
