(* ===== verification/Registry.thy ===== *)
theory Registry
  imports Transport_Api Open_Codec
begin

text \<open>
  Protocol registrations: \<open>stream/registry.rs\<close>. An entry binds one protocol selection to one owner
  capability. \<open>StreamOwner::new\<close> issues a capability distinct from every earlier one; the fresh number
  is an argument. Looking up by selection and looking up by owner are inverse to each other, and
  registering is a map update of the abstract selection map.
\<close>

datatype RegistrationError = Re_Invalid OpenError | Re_Duplicate

type_synonym Registry = "(Protocol \<times> StreamOwner) list"

definition registry_resolve :: "Open \<Rightarrow> Registry \<Rightarrow> StreamOwner option" where
  "registry_resolve selection r =
     map_option snd
       (find (\<lambda>(p, _). pr_id p = op_id selection \<and> pr_version p = op_version selection) r)"

definition registry_protocol :: "StreamOwner \<Rightarrow> Registry \<Rightarrow> Protocol option" where
  "registry_protocol owner r = map_option fst (find (\<lambda>(_, candidate). candidate = owner) r)"

definition registry_register ::
    "Protocol \<Rightarrow> nat \<Rightarrow> Registry \<Rightarrow> (RegistrationError, StreamOwner) result \<times> Registry" where
  "registry_register protocol fresh r =
     (case open_new (pr_id protocol) (pr_version protocol) of
        Inl e \<Rightarrow> (Inl (Re_Invalid e), r)
      | Inr selection \<Rightarrow>
          if registry_resolve selection r \<noteq> None then (Inl Re_Duplicate, r)
          else (let owner = StreamOwner fresh in (Inr owner, r @ [(protocol, owner)])))"

section \<open>The registry as a map\<close>

text \<open>The abstract content: which owner handles a selection.\<close>

definition registry_abs :: "Registry \<Rightarrow> Protocol \<Rightarrow> StreamOwner option" where
  "registry_abs r = map_of r"

definition registry_inv :: "Registry \<Rightarrow> bool" where
  "registry_inv r \<longleftrightarrow> distinct (map fst r) \<and> distinct (map snd r) \<and>
     (\<forall>(p, _) \<in> set r. is_ok (open_new (pr_id p) (pr_version p)))"

definition selected :: "Open \<Rightarrow> Protocol" where
  "selected selection = \<lparr>pr_id = op_id selection, pr_version = op_version selection\<rparr>"

lemma find_map_of: "map_option snd (find (\<lambda>(p, _). p = k) r) = map_of r k"
  by (induction r) auto

lemma registry_resolve_abs: "registry_resolve sel r = registry_abs r (selected sel)"
proof -
  have "(\<lambda>(p :: Protocol, _ :: StreamOwner). pr_id p = op_id sel \<and> pr_version p = op_version sel)
      = (\<lambda>(p, _). p = selected sel)"
    by (auto simp: selected_def fun_eq_iff)
  then show ?thesis by (simp only: registry_resolve_def registry_abs_def find_map_of)
qed

lemma open_new_selected: "open_new (pr_id p) (pr_version p) = Inr sel \<Longrightarrow> selected sel = p"
  using open_newD [of "pr_id p" "pr_version p" sel] by (simp add: selected_def)

lemma registry_register_ok:
  assumes "registry_register p fresh r = (Inr owner, r')"
  shows "owner = StreamOwner fresh" "r' = r @ [(p, owner)]" "registry_abs r p = None"
    "is_ok (open_new (pr_id p) (pr_version p))"
  using assms
  by (auto simp: registry_register_def registry_resolve_abs Let_def open_new_selected
      split: sum.splits if_splits)

lemma registry_register_abs:
  assumes "registry_register p fresh r = (Inr owner, r')"
  shows "registry_abs r' = (registry_abs r)(p \<mapsto> owner)"
  using registry_register_ok [OF assms]
  by (auto simp: registry_abs_def fun_eq_iff map_add_def split: option.splits)

lemma registry_register_error:
  "registry_register p fresh r = (Inl e, r') \<Longrightarrow> r' = r"
  by (auto simp: registry_register_def Let_def split: sum.splits if_splits)

lemma registry_register_inv:
  assumes "registry_inv r" "StreamOwner fresh \<notin> snd ` set r" "registry_register p fresh r = (res, r')"
  shows "registry_inv r'"
proof (cases res)
  case (Inl e)
  with assms registry_register_error show ?thesis by blast
next
  case (Inr owner)
  note ok = registry_register_ok [OF assms(3) [unfolded Inr]]
  have "p \<notin> fst ` set r"
    using ok(3) by (auto simp: registry_abs_def map_of_eq_None_iff)
  with assms(1,2) ok show ?thesis by (auto simp: registry_inv_def)
qed

lemma registry_protocol_iff:
  "distinct (map snd r) \<Longrightarrow> registry_protocol ow r = Some p \<longleftrightarrow> (p, ow) \<in> set r"
  by (induction r) (force simp: registry_protocol_def split: if_splits)+

lemma registry_inverse:
  assumes "registry_inv r"
  shows "registry_protocol owner r = Some p \<longleftrightarrow> registry_abs r p = Some owner"
  using assms
  by (simp add: registry_inv_def registry_abs_def registry_protocol_iff map_of_eq_Some_iff)

section \<open>Properties\<close>

text \<open>
  Registering a protocol is an update of the selection map: afterwards that selection, and no
  other, resolves to the new owner, the owner's protocol is the registered one, and the registry
  still has distinct selections and distinct owners. A failed registration changes nothing.
\<close>

lemma registry_register_lookup:
  assumes "registry_inv r" "StreamOwner fresh \<notin> snd ` set r" "registry_register p fresh r = (res, r')"
  shows "registry_inv r' \<and>
    (case res of
       Inl e \<Rightarrow> r' = r
     | Inr owner \<Rightarrow> registry_protocol owner r' = Some p \<and>
         (\<forall>sel. registry_resolve sel r' = (if selected sel = p then Some owner else registry_resolve sel r)))"
proof (cases res)
  case (Inl e)
  with assms registry_register_error [of p fresh r e r'] show ?thesis by auto
next
  case (Inr owner)
  have inv: "registry_inv r'" using assms by (rule registry_register_inv)
  have abs: "registry_abs r' = (registry_abs r)(p \<mapsto> owner)"
    using assms(3) Inr by (auto intro: registry_register_abs)
  then have "registry_protocol owner r' = Some p" using registry_inverse [OF inv] by simp
  with Inr inv abs show ?thesis by (simp add: registry_resolve_abs)
qed

end
