(* ===== verification/Btree_Map.thy ===== *)
theory Btree_Map
  imports Main
begin

text \<open>
  The part of \<open>std::collections::BTreeMap\<close> the stream session uses: lookup, insertion, removal and
  iteration in key order. A map is an association list in strictly increasing key order. The locale
  \<open>ordered_map\<close> is the interface its clients rely on; it is interpreted on the lists.
\<close>

type_synonym ('k, 'v) btree_map = "('k \<times> 'v) list"

definition bt_sorted :: "('k::linorder, 'v) btree_map \<Rightarrow> bool" where
  "bt_sorted m \<longleftrightarrow> sorted_wrt (<) (map fst m)"

definition bt_get :: "'k \<Rightarrow> ('k, 'v) btree_map \<Rightarrow> 'v option" where
  "bt_get k m = map_of m k"

fun bt_insert :: "'k::linorder \<Rightarrow> 'v \<Rightarrow> ('k, 'v) btree_map \<Rightarrow> ('k, 'v) btree_map" where
  "bt_insert k v [] = [(k, v)]"
| "bt_insert k v ((k', v') # m) =
     (if k < k' then (k, v) # (k', v') # m
      else if k = k' then (k, v) # m
      else (k', v') # bt_insert k v m)"

definition bt_remove :: "'k \<Rightarrow> ('k, 'v) btree_map \<Rightarrow> ('k, 'v) btree_map" where
  "bt_remove k m = filter (\<lambda>(k', _). k' \<noteq> k) m"

definition bt_keys :: "('k, 'v) btree_map \<Rightarrow> 'k list" where
  "bt_keys m = map fst m"

section \<open>The interface\<close>

locale ordered_map =
  fixes inv :: "'m \<Rightarrow> bool"
    and get :: "'k \<Rightarrow> 'm \<Rightarrow> 'v option"
    and insert :: "'k \<Rightarrow> 'v \<Rightarrow> 'm \<Rightarrow> 'm"
    and remove :: "'k \<Rightarrow> 'm \<Rightarrow> 'm"
    and keys :: "'m \<Rightarrow> 'k list"
  assumes get_insert: "inv m \<Longrightarrow> get k' (insert k v m) = (if k' = k then Some v else get k' m)"
    and get_remove: "inv m \<Longrightarrow> get k' (remove k m) = (if k' = k then None else get k' m)"
    and inv_insert: "inv m \<Longrightarrow> inv (insert k v m)"
    and inv_remove: "inv m \<Longrightarrow> inv (remove k m)"
    and set_keys: "inv m \<Longrightarrow> set (keys m) = {k. get k m \<noteq> None}"
    and distinct_keys: "inv m \<Longrightarrow> distinct (keys m)"
begin

lemma keys_insert: "inv m \<Longrightarrow> set (keys (insert k v m)) = Set.insert k (set (keys m))"
  by (auto simp: set_keys inv_insert get_insert split: if_splits)

lemma keys_remove: "inv m \<Longrightarrow> set (keys (remove k m)) = set (keys m) - {k}"
  by (auto simp: set_keys inv_remove get_remove split: if_splits)

lemma size_insert_new:
  assumes "inv m" "get k m = None"
  shows "length (keys (insert k v m)) = Suc (length (keys m))"
proof -
  have "k \<notin> set (keys m)" using assms by (simp add: set_keys)
  then have "card (set (keys (insert k v m))) = Suc (card (set (keys m)))"
    using assms(1) by (simp add: keys_insert)
  then show ?thesis
    using assms(1) by (simp add: distinct_card distinct_keys inv_insert)
qed

lemma size_insert_old:
  assumes "inv m" "get k m \<noteq> None"
  shows "length (keys (insert k v m)) = length (keys m)"
proof -
  have "k \<in> set (keys m)" using assms by (simp add: set_keys)
  then have "set (keys (insert k v m)) = set (keys m)"
    using assms(1) by (auto simp: keys_insert)
  then show ?thesis
    using assms(1) by (metis distinct_card distinct_keys inv_insert)
qed

lemma size_remove: "inv m \<Longrightarrow> length (keys (remove k m)) \<le> length (keys m)"
  by (metis Diff_subset List.finite_set card_mono distinct_card distinct_keys inv_remove keys_remove)

end

section \<open>The lists implement it\<close>

lemma bt_sorted_Nil [simp]: "bt_sorted []"
  by (simp add: bt_sorted_def)

lemma bt_get_Nil [simp]: "bt_get k [] = None"
  by (simp add: bt_get_def)

lemma bt_remove_Nil [simp]: "bt_remove k [] = []"
  by (simp add: bt_remove_def)

lemma bt_get_insert: "bt_get k' (bt_insert k v m) = (if k' = k then Some v else bt_get k' m)"
  by (induction m) (auto simp: bt_get_def)

lemma bt_get_remove: "bt_get k' (bt_remove k m) = (if k' = k then None else bt_get k' m)"
  by (induction m) (auto simp: bt_get_def bt_remove_def)

lemma fst_set_bt_insert: "fst ` set (bt_insert k v m) = insert k (fst ` set m)"
proof (induction m)
  case (Cons e m)
  then show ?case by (cases e) (simp add: insert_commute)
qed simp

lemma bt_sorted_insert: "bt_sorted m \<Longrightarrow> bt_sorted (bt_insert k v m)"
proof (induction m)
  case Nil
  then show ?case by (simp add: bt_sorted_def)
next
  case (Cons e m)
  have less: "k' \<in> fst ` set m \<Longrightarrow> fst e < k'" for k'
    using Cons.prems by (auto simp: bt_sorted_def)
  show ?case
    using Cons less fst_set_bt_insert [of k v m]
    by (cases e) (force simp: bt_sorted_def)
qed

lemma bt_sorted_remove: "bt_sorted m \<Longrightarrow> bt_sorted (bt_remove k m)"
  by (simp add: bt_sorted_def bt_remove_def sorted_wrt_map sorted_wrt_filter)

lemma bt_sorted_distinct: "bt_sorted m \<Longrightarrow> distinct (map fst m)"
  by (simp add: bt_sorted_def strict_sorted_iff)

interpretation btree: ordered_map bt_sorted bt_get bt_insert bt_remove bt_keys
proof unfold_locales
  fix m :: "('a, 'b) btree_map"
  show "set (bt_keys m) = {k. bt_get k m \<noteq> None}"
    by (auto simp: bt_keys_def bt_get_def map_of_eq_None_iff)
qed (simp_all add: bt_get_insert bt_get_remove bt_sorted_insert bt_sorted_remove bt_keys_def
       bt_sorted_distinct)

lemma length_bt_keys [simp]: "length (bt_keys m) = length m"
  by (simp add: bt_keys_def)

lemmas bt_size = btree.size_insert_new [simplified] btree.size_insert_old [simplified]
  btree.size_remove [simplified]

lemma bt_remove_absent: "bt_get k m = None \<Longrightarrow> bt_remove k m = m"
  by (induction m) (auto simp: bt_get_def bt_remove_def split: if_splits)

lemma bt_get_iff: "bt_sorted m \<Longrightarrow> bt_get k m = Some v \<longleftrightarrow> (k, v) \<in> set m"
  by (simp add: bt_get_def bt_sorted_distinct map_of_eq_Some_iff)

lemma bt_insert_same: "bt_sorted m \<Longrightarrow> bt_get k m = Some v \<Longrightarrow> bt_insert k v m = m"
proof (induction m)
  case (Cons e m)
  then have "k \<noteq> fst e \<Longrightarrow> (k, v) \<in> set m" by (auto simp: bt_get_def dest: map_of_SomeD split: if_splits)
  with Cons show ?case
    by (cases e) (fastforce simp: bt_sorted_def bt_get_def)
qed simp

end
