(* ===== verification/Session.thy ===== *)
theory Session
  imports Integrity Stream_Ids Registry Btree_Map "HOL-Library.List_Lexorder"
begin

text \<open>
  The authenticated connection's stream state machine: \<open>stream/session.rs\<close> and its parts
  \<open>session/drain.rs\<close>, \<open>session/lifecycle.rs\<close>, \<open>session/ping.rs\<close>, \<open>session/receive.rs\<close> and
  \<open>session/scheduler.rs\<close>. This theory holds the state and one definition per operation; the
  invariants are in \<open>Session_Invariant\<close> and the scheduling results in \<open>Scheduler\<close>.

  The instance-wide budgets are shared by all sessions of an instance; a session carries the value
  it sees, which its owner stores before a call and reads back after it. A frame that leaves a queue
  without being handed on is dropped together with its reservation.
\<close>

section \<open>State\<close>

datatype SessionError =
    Se_Id IdError
  | Se_Owner
  | Se_Closed
  | Se_Draining
  | Se_Authority TransportError
  | Se_InvalidData
  | Se_Capacity
  | Se_Protocol
  | Se_Framing FramingError

record StreamState =
  st_handle :: StreamHandle
  st_local_open :: bool
  st_remote_open :: bool
  st_local_end_written :: bool

record Session =
  ss_last_output :: "u32 option"
  ss_resources :: Resources
  ss_accepted_remote :: u32
  ss_peer_goaway :: "u32 option"
  ss_drain_failure :: "Failure option"
  ss_goaway_sent :: bool
  ss_goaway_written :: bool
  ss_pings :: "(bytes, Instant \<times> Instant) btree_map"
  ss_now :: "Instant option"
  ss_closed :: bool
  ss_handle :: ConnectionHandle
  ss_context :: PeerContext
  ss_ids :: StreamIds
  ss_streams :: "(u32, StreamState) btree_map"
  ss_events :: "Event list"
  ss_outbound :: "WireFrame list"

type_synonym 'a session_result = "(SessionError, 'a) result \<times> Session"

definition session_with_handle ::
    "ConnectionHandle \<Rightarrow> ConnectionRole \<Rightarrow> IdentityId \<Rightarrow> IdentityId \<Rightarrow> Session" where
  "session_with_handle handle role local_identity peer_identity =
     (let context = \<lparr>pc_connection = ch_id handle, pc_role = role,
                     pc_local_identity = local_identity, pc_peer_identity = peer_identity\<rparr>
      in \<lparr>ss_last_output = None,
          ss_resources = resources_new
            \<lparr>rl_connections = 1, rl_streams_per_connection = 256,
             rl_outbound_bytes = 4 * (MAX_PAYLOAD_BYTES + 28),
             rl_buffered_bytes_per_stream = MAX_PAYLOAD_BYTES\<rparr>,
          ss_accepted_remote = 0,
          ss_peer_goaway = None,
          ss_drain_failure = None,
          ss_goaway_sent = False,
          ss_goaway_written = False,
          ss_pings = [],
          ss_now = None,
          ss_closed = False,
          ss_handle = handle,
          ss_context = context,
          ss_ids = stream_ids_new role,
          ss_streams = [],
          ss_events = [Ev_Authenticated context],
          ss_outbound = []\<rparr>)"

definition session_new :: "nat \<Rightarrow> ConnectionRole \<Rightarrow> IdentityId \<Rightarrow> IdentityId \<Rightarrow> Session" where
  "session_new fresh = session_with_handle (connection_handle_new fresh)"

definition session_event_limit :: "Session \<Rightarrow> usize" where
  "session_event_limit s =
     saturating_add_usize
       (saturating_mul_usize (rl_streams_per_connection (rs_limits (ss_resources s))) 4) 130"

definition session_set_resources :: "Resources \<Rightarrow> Session \<Rightarrow> Session" where
  "session_set_resources rs s = s\<lparr>ss_resources := rs\<rparr>"

section \<open>Output\<close>

definition session_frame :: "FrameType \<Rightarrow> u32 \<Rightarrow> bytes \<Rightarrow> (SessionError, WireFrame) result" where
  "session_frame kind i payload =
     and_then (map_err (\<lambda>e. Se_Framing (Fe_Header e)) (header_new kind i (of_nat (length payload))))
       (\<lambda>header. map_err Se_Framing (wire_frame_new header payload None))"

definition session_queue :: "WireFrame \<Rightarrow> Session \<Rightarrow> unit session_result" where
  "session_queue output s =
     (case resources_outbound (length (wf_payload output) + 28) (ss_resources s) of
        None \<Rightarrow> (Inl Se_Capacity, s)
      | Some (reservation, rs) \<Rightarrow>
          (Inr (), s\<lparr>ss_resources := rs,
                     ss_outbound := ss_outbound s @ [output\<lparr>wf_reservation := Some reservation\<rparr>]\<rparr>))"

text \<open>Frames dropped from a queue release what they reserved.\<close>

definition drop_frames :: "WireFrame list \<Rightarrow> Resources \<Rightarrow> Resources" where
  "drop_frames fs rs = fold (\<lambda>f. drop_outbound (wf_reservation f)) fs rs"

definition session_refuse :: "u32 \<Rightarrow> ErrorCode \<Rightarrow> Session \<Rightarrow> unit session_result" where
  "session_refuse i code s =
     and_thread (map_err (\<lambda>_. Se_Protocol) (error_payload_new code []), s) (\<lambda>payload s.
     and_thread (session_frame Ft_Error i (error_payload_encode payload), s) (\<lambda>output s.
     session_queue output s))"

definition failure_code :: "ErrorCode \<Rightarrow> FailureCode" where
  "failure_code code =
     (case code of
        Ec_AuthenticationFailed \<Rightarrow> Fc_AuthenticationFailed
      | Ec_FrameSizeError \<Rightarrow> Fc_FrameTooLarge
      | Ec_UnsupportedProtocol \<Rightarrow> Fc_UnsupportedProtocol
      | Ec_StreamStateError \<Rightarrow> Fc_StreamState
      | Ec_RefusedStream \<Rightarrow> Fc_Refused
      | Ec_InternalError \<Rightarrow> Fc_Internal
      | Ec_IdExhausted \<Rightarrow> Fc_IdExhausted
      | Ec_ResourceLimit \<Rightarrow> Fc_ResourceLimit
      | Ec_Cancelled \<Rightarrow> Fc_Cancelled
      | Ec_ProtocolError \<Rightarrow> Fc_ProtocolViolation
      | Ec_NoError \<Rightarrow> Fc_ProtocolViolation)"

section \<open>Stream lifecycle\<close>

definition session_add :: "u32 \<Rightarrow> StreamOwner \<Rightarrow> Protocol \<Rightarrow> Session \<Rightarrow> StreamHandle session_result" where
  "session_add i owner protocol s =
     (let s1 = (if ids_is_local i (ss_ids s) then s else s\<lparr>ss_accepted_remote := i\<rparr>) in
      if i = 0 then (Inl Se_Protocol, s1)
      else let stream = stream_handle_new (ss_handle s1) owner i in
        (Inr stream,
         s1\<lparr>ss_streams := bt_insert i
              \<lparr>st_handle = stream, st_local_open = True, st_remote_open = True,
               st_local_end_written = False\<rparr> (ss_streams s1),
            ss_events := ss_events s1 @ [Ev_StreamOpened (ss_context s1) stream protocol]\<rparr>))"

definition session_terminate :: "u32 \<Rightarrow> StreamOutcome \<Rightarrow> Session \<Rightarrow> Session" where
  "session_terminate i outcome s =
     (let retained = (\<lambda>f. fh_stream_id (wf_header f) \<noteq> i \<or> fh_frame_type (wf_header f) = Ft_Open);
          s1 = s\<lparr>ss_outbound := filter retained (ss_outbound s),
                 ss_resources := drop_frames (filter (\<lambda>f. \<not> retained f) (ss_outbound s)) (ss_resources s)\<rparr>
      in case bt_get i (ss_streams s1) of
           None \<Rightarrow> s1
         | Some state \<Rightarrow>
             s1\<lparr>ss_streams := bt_remove i (ss_streams s1),
                ss_events := ss_events s1 @ [Ev_StreamClosed (st_handle state) outcome]\<rparr>)"

definition session_complete :: "u32 \<Rightarrow> Session \<Rightarrow> Session" where
  "session_complete i s =
     (case bt_get i (ss_streams s) of
        None \<Rightarrow> s
      | Some state \<Rightarrow>
          if \<not> st_remote_open state \<and> st_local_end_written state then
            s\<lparr>ss_streams := bt_remove i (ss_streams s),
              ss_events := ss_events s @ [Ev_StreamClosed (st_handle state) So_Completed]\<rparr>
          else s)"

definition session_fail_stream ::
    "u32 \<Rightarrow> ErrorCode \<Rightarrow> FailureCode \<Rightarrow> Session \<Rightarrow> unit session_result" where
  "session_fail_stream i wire code s =
     session_refuse i wire
       (session_terminate i (So_Failed \<lparr>fl_origin = Fo_Local, fl_code = code\<rparr>) s)"

definition session_close :: "Failure option \<Rightarrow> ErrorCode option \<Rightarrow> Session \<Rightarrow> Session" where
  "session_close failure0 response s =
     (if ss_closed s then s
      else
        let failure = (case failure0 of Some f \<Rightarrow> Some f | None \<Rightarrow> ss_drain_failure s);
            unfinished = (case failure of
                Some f \<Rightarrow> f
              | None \<Rightarrow> \<lparr>fl_origin = Fo_Local, fl_code = Fc_ConnectionLost\<rparr>);
            connection = ch_id (ss_handle s);
            s1 = s\<lparr>ss_closed := True,
                   ss_outbound := [],
                   ss_resources := drop_frames (ss_outbound s) (ss_resources s),
                   ss_pings := [],
                   ss_streams := [],
                   ss_events := ss_events s
                     @ map (\<lambda>(token, _). Ev_PingFinished connection token (Inl unfinished)) (ss_pings s)
                     @ map (\<lambda>(_, state). Ev_StreamClosed (st_handle state) (So_Failed unfinished)) (ss_streams s)
                     @ [Ev_ConnectionClosed connection failure]\<rparr>
        in case response of
             None \<Rightarrow> s1
           | Some code \<Rightarrow>
               (case error_payload_new code [] of
                  Inl _ \<Rightarrow> s1
                | Inr payload \<Rightarrow>
                    (case session_frame Ft_Error 0 (error_payload_encode payload) of
                       Inl _ \<Rightarrow> s1
                     | Inr output \<Rightarrow> snd (session_queue output s1))))"

definition session_end :: "StreamOwner \<Rightarrow> StreamHandle \<Rightarrow> Session \<Rightarrow> unit session_result" where
  "session_end owner stream s =
     (if ss_closed s then (Inl Se_Closed, s)
      else and_thread (map_err Se_Authority (authorize stream (ch_id (ss_handle s)) owner), s) (\<lambda>_ s.
        case bt_get (sh_wire_id stream) (ss_streams s) of
          None \<Rightarrow> (Inl Se_Protocol, s)
        | Some state \<Rightarrow>
            if \<not> st_local_open state then (Inl Se_Protocol, s)
            else and_thread (session_frame Ft_End (sh_wire_id stream) [], s) (\<lambda>output s.
              case resources_outbound 28 (ss_resources s) of
                None \<Rightarrow> (Inl Se_Capacity, s)
              | Some (reservation, rs) \<Rightarrow>
                  (Inr (),
                   s\<lparr>ss_resources := rs,
                     ss_streams := bt_insert (sh_wire_id stream) (state\<lparr>st_local_open := False\<rparr>) (ss_streams s),
                     ss_outbound := ss_outbound s @ [output\<lparr>wf_reservation := Some reservation\<rparr>]\<rparr>))))"

definition session_cancel ::
    "StreamOwner \<Rightarrow> StreamHandle \<Rightarrow> CancellationReason \<Rightarrow> Session \<Rightarrow> unit session_result" where
  "session_cancel owner stream reason s =
     (if ss_closed s then (Inl Se_Closed, s)
      else and_thread (map_err Se_Authority (authorize stream (ch_id (ss_handle s)) owner), s) (\<lambda>_ s.
        let i = sh_wire_id stream in
        if bt_get i (ss_streams s) = None then (Inl Se_Protocol, s)
        else
          let code = (case reason of
                  Cr_Cancelled \<Rightarrow> Ec_Cancelled
                | Cr_ResourceLimit \<Rightarrow> Ec_ResourceLimit
                | Cr_InternalError \<Rightarrow> Ec_InternalError);
              s1 = session_terminate i (So_Cancelled Fo_Local reason) s
          in and_thread (map_err (\<lambda>_. Se_Protocol) (error_payload_new code []), s1) (\<lambda>payload s.
             and_thread (session_frame Ft_Cancel i (error_payload_encode payload), s) (\<lambda>output s.
               case session_queue output s of
                 (Inl _, s2) \<Rightarrow>
                   (Inr (), session_close (Some \<lparr>fl_origin = Fo_Local, fl_code = Fc_ResourceLimit\<rparr>) None s2)
               | (Inr _, s2) \<Rightarrow> (Inr (), s2)))))"

definition session_sent :: "FrameType \<Rightarrow> u32 \<Rightarrow> Session \<Rightarrow> Session" where
  "session_sent kind i s =
     (let s1 = (if kind = Ft_GoAway then s\<lparr>ss_goaway_written := True\<rparr> else s) in
      if kind = Ft_End then
        session_complete i
          (case bt_get i (ss_streams s1) of
             None \<Rightarrow> s1
           | Some state \<Rightarrow>
               s1\<lparr>ss_streams := bt_insert i
                    (state\<lparr>st_local_end_written := \<not> st_local_open state\<rparr>) (ss_streams s1)\<rparr>)
      else s1)"

section \<open>Draining\<close>

definition session_drain :: "ShutdownReason \<Rightarrow> Session \<Rightarrow> unit session_result" where
  "session_drain reason s =
     (if ss_closed s then (Inl Se_Closed, s)
      else if ss_goaway_sent s then (Inr (), s)
      else
        let code = (case reason of
                Sr_Normal \<Rightarrow> Ec_NoError
              | Sr_IdExhausted \<Rightarrow> Ec_IdExhausted
              | Sr_ResourceLimit \<Rightarrow> Ec_ResourceLimit
              | Sr_InternalError \<Rightarrow> Ec_InternalError)
        in and_thread (map_err (\<lambda>_. Se_Protocol) (goaway_new (ss_accepted_remote s) code []), s) (\<lambda>payload s.
           and_thread (session_frame Ft_GoAway 0 (goaway_encode payload), s) (\<lambda>output s.
           and_thread (session_queue output s) (\<lambda>_ s.
           (Inr (), s\<lparr>ss_goaway_sent := True\<rparr>)))))"

definition session_ready_to_close :: "Session \<Rightarrow> bool" where
  "session_ready_to_close s \<longleftrightarrow>
     \<not> ss_closed s \<and> ss_goaway_written s \<and> ss_streams s = [] \<and> ss_outbound s = []"

definition session_receive_goaway :: "bytes \<Rightarrow> Session \<Rightarrow> unit session_result" where
  "session_receive_goaway payload s =
     and_thread (map_err (\<lambda>_. Se_Protocol) (goaway_decode payload), s) (\<lambda>goaway s.
       let last_id = ga_last_accepted_remote_stream_id goaway;
           code = dg_code (ga_diagnostic goaway)
       in
       if (last_id \<noteq> 0 \<and> \<not> ids_is_local last_id (ss_ids s))
          \<or> last_id > si_greatest_local (ss_ids s)
          \<or> (case ss_peer_goaway s of None \<Rightarrow> False | Some previous \<Rightarrow> last_id > previous)
       then (Inl Se_Protocol, s)
       else
         let s1 = s\<lparr>ss_peer_goaway := Some last_id\<rparr>;
             s2 = (if code \<noteq> Ec_NoError
                   then s1\<lparr>ss_drain_failure := Some \<lparr>fl_origin = Fo_Peer, fl_code = failure_code code\<rparr>\<rparr>
                   else s1);
             refused = filter (\<lambda>i. ids_is_local i (ss_ids s2) \<and> i > last_id) (bt_keys (ss_streams s2))
         in session_drain Sr_Normal
              (fold (\<lambda>i. session_terminate i (So_Failed \<lparr>fl_origin = Fo_Peer, fl_code = Fc_Refused\<rparr>))
                 refused s2))"

section \<open>Local operations\<close>

text \<open>The part of \<open>open\<close> after admission, holding the reservation of the OPEN frame.\<close>

definition session_open_reserved ::
    "Reservation \<Rightarrow> bytes \<Rightarrow> StreamOwner \<Rightarrow> Protocol \<Rightarrow> Session \<Rightarrow> StreamHandle session_result" where
  "session_open_reserved reservation payload owner protocol s =
     (let released = (\<lambda>s. s\<lparr>ss_resources := drop_outbound (Some reservation) (ss_resources s)\<rparr>) in
      case ids_allocate (ss_ids s) of
        (Inl error, ids) \<Rightarrow>
          (case session_drain Sr_IdExhausted (s\<lparr>ss_ids := ids\<rparr>) of
             (Inl e, s1) \<Rightarrow> (Inl e, released s1)
           | (Inr _, s1) \<Rightarrow> (Inl (Se_Id error), released s1))
      | (Inr i, ids) \<Rightarrow>
          (case session_add i owner protocol (s\<lparr>ss_ids := ids\<rparr>) of
             (Inl e, s1) \<Rightarrow> (Inl e, released s1)
           | (Inr handle, s1) \<Rightarrow>
               (case session_frame Ft_Open i payload of
                  Inl e \<Rightarrow> (Inl e, released s1)
                | Inr output \<Rightarrow>
                    (Inr handle,
                     s1\<lparr>ss_outbound := ss_outbound s1
                          @ [output\<lparr>wf_reservation := Some reservation\<rparr>]\<rparr>))))"

definition session_open :: "Registry \<Rightarrow> StreamOwner \<Rightarrow> Session \<Rightarrow> StreamHandle session_result" where
  "session_open registry owner s =
     (if ss_closed s then (Inl Se_Closed, s)
      else if ss_goaway_sent s \<or> ss_peer_goaway s \<noteq> None then (Inl Se_Draining, s)
      else and_thread (ok_or Se_Owner (registry_protocol owner registry), s) (\<lambda>protocol s.
        and_thread (map_err (\<lambda>_. Se_Protocol) (open_new (pr_id protocol) (pr_version protocol)), s) (\<lambda>selection s.
        if length (ss_events s) \<ge> session_event_limit s
           \<or> length (ss_streams s) \<ge> rl_streams_per_connection (rs_limits (ss_resources s))
        then (Inl Se_Capacity, s)
        else
          case resources_outbound (length (open_encode selection) + 28) (ss_resources s) of
            None \<Rightarrow> (Inl Se_Capacity, s)
          | Some (reservation, rs) \<Rightarrow>
              session_open_reserved reservation (open_encode selection) owner protocol
                (s\<lparr>ss_resources := rs\<rparr>))))"

definition session_send :: "StreamOwner \<Rightarrow> StreamHandle \<Rightarrow> bytes \<Rightarrow> Session \<Rightarrow> unit session_result" where
  "session_send owner stream bs s =
     (if ss_closed s then (Inl Se_Closed, s)
      else and_thread (map_err Se_Authority (authorize stream (ch_id (ss_handle s)) owner), s) (\<lambda>_ s.
        if \<not> (case bt_get (sh_wire_id stream) (ss_streams s) of
                None \<Rightarrow> False | Some state \<Rightarrow> st_local_open state)
        then (Inl Se_Protocol, s)
        else if bs = [] \<or> length bs > MAX_PAYLOAD_BYTES then (Inl Se_InvalidData, s)
        else and_thread (session_frame Ft_Data (sh_wire_id stream) bs, s) (\<lambda>output s.
          session_queue output s)))"

definition session_ping :: "bytes \<Rightarrow> Duration \<Rightarrow> Instant \<Rightarrow> Session \<Rightarrow> unit session_result" where
  "session_ping token timeout now s =
     (if ss_closed s then (Inl Se_Closed, s)
      else if timeout = 0 \<or> bt_get token (ss_pings s) \<noteq> None then (Inl Se_Protocol, s)
      else if length (ss_pings s) \<ge> 64 then (Inl Se_Capacity, s)
      else and_thread (ok_or Se_Protocol (instant_checked_add now timeout), s) (\<lambda>deadline s.
        and_thread (session_frame Ft_Ping 0 token, s) (\<lambda>output s.
        and_thread (session_queue output s) (\<lambda>_ s.
        (Inr (), s\<lparr>ss_pings := bt_insert token (now, deadline) (ss_pings s)\<rparr>)))))"

definition session_tick :: "Instant \<Rightarrow> Session \<Rightarrow> Session" where
  "session_tick now s =
     (let expired = map fst (filter (\<lambda>(_, (_, deadline)). deadline \<le> now) (ss_pings s)) in
      fold (\<lambda>token s.
          s\<lparr>ss_pings := bt_remove token (ss_pings s),
            ss_events := ss_events s @ [Ev_PingFinished (ch_id (ss_handle s)) token
              (Inl \<lparr>fl_origin = Fo_Local, fl_code = Fc_DeadlineExceeded\<rparr>)]\<rparr>)
        expired (s\<lparr>ss_now := Some now\<rparr>))"

definition session_next_deadline :: "Session \<Rightarrow> Instant option" where
  "session_next_deadline s =
     (case map (\<lambda>(_, (_, deadline)). deadline) (ss_pings s) of
        [] \<Rightarrow> None
      | d # ds \<Rightarrow> Some (fold min ds d))"

section \<open>Receiving\<close>

definition session_receive_ping :: "FrameType \<Rightarrow> bytes \<Rightarrow> Session \<Rightarrow> unit session_result" where
  "session_receive_ping kind payload s =
     and_thread (map_err (\<lambda>_. Se_Protocol) (ping_token_decode payload), s) (\<lambda>decoded s.
       let token = ping_token_encode decoded in
       if kind = Ft_Ping then
         and_thread (session_frame Ft_Pong 0 token, s) (\<lambda>output s. session_queue output s)
       else
         case bt_get token (ss_pings s) of
           None \<Rightarrow> (Inr (), s)
         | Some (started, _) \<Rightarrow>
             let s1 = s\<lparr>ss_pings := bt_remove token (ss_pings s)\<rparr> in
             (case Option.bind (ss_now s1) (\<lambda>now. checked_duration_since now started) of
                None \<Rightarrow> (Inl Se_Protocol, s1)
              | Some elapsed \<Rightarrow>
                  (Inr (), s1\<lparr>ss_events := ss_events s1
                     @ [Ev_PingFinished (ch_id (ss_handle s1)) token (Inr elapsed)]\<rparr>)))"

definition data_bytes :: "u32 \<Rightarrow> Event list \<Rightarrow> usize" where
  "data_bytes i events =
     sum_list (map (\<lambda>event. case event of
         Ev_Data stream bs \<Rightarrow> if sh_wire_id stream = i then length bs else 0
       | _ \<Rightarrow> 0) events)"

definition session_receive_terminal :: "FrameType \<Rightarrow> u32 \<Rightarrow> bytes \<Rightarrow> Session \<Rightarrow> unit session_result" where
  "session_receive_terminal kind i payload s =
     and_thread (map_err (\<lambda>_. Se_Protocol) (error_payload_decode payload), s) (\<lambda>diagnostic s.
       let code = dg_code diagnostic;
           outcome =
             (if kind = Ft_Cancel \<and> code \<in> {Ec_Cancelled, Ec_ResourceLimit, Ec_InternalError}
              then So_Cancelled Fo_Peer
                (case code of
                   Ec_ResourceLimit \<Rightarrow> Cr_ResourceLimit
                 | Ec_InternalError \<Rightarrow> Cr_InternalError
                 | _ \<Rightarrow> Cr_Cancelled)
              else So_Failed \<lparr>fl_origin = Fo_Peer, fl_code = failure_code code\<rparr>)
       in (Inr (), session_terminate i outcome s))"

definition session_receive_end :: "u32 \<Rightarrow> bytes \<Rightarrow> Session \<Rightarrow> unit session_result" where
  "session_receive_end i payload s =
     (case bt_get i (ss_streams s) of
        None \<Rightarrow> (Inl Se_Protocol, s)
      | Some state \<Rightarrow>
          if payload \<noteq> [] \<or> \<not> st_remote_open state
          then session_fail_stream i Ec_StreamStateError Fc_StreamState s
          else (Inr (), session_complete i
            (s\<lparr>ss_streams := bt_insert i (state\<lparr>st_remote_open := False\<rparr>) (ss_streams s),
               ss_events := ss_events s @ [Ev_RemoteEnd (st_handle state)]\<rparr>)))"

definition session_receive_data :: "u32 \<Rightarrow> bytes \<Rightarrow> Session \<Rightarrow> unit session_result" where
  "session_receive_data i payload s =
     (case bt_get i (ss_streams s) of
        None \<Rightarrow> (Inl Se_Protocol, s)
      | Some state \<Rightarrow>
          if \<not> st_remote_open state then session_fail_stream i Ec_StreamStateError Fc_StreamState s
          else if payload = [] \<or> length payload > MAX_PAYLOAD_BYTES
          then session_fail_stream i Ec_StreamStateError Fc_StreamState s
          else if data_bytes i (ss_events s) + length payload
                    > rl_buffered_bytes_per_stream (rs_limits (ss_resources s))
          then session_fail_stream i Ec_ResourceLimit Fc_ResourceLimit s
          else (Inr (), s\<lparr>ss_events := ss_events s @ [Ev_Data (st_handle state) payload]\<rparr>))"

definition session_receive_open :: "u32 \<Rightarrow> bytes \<Rightarrow> Registry \<Rightarrow> Session \<Rightarrow> unit session_result" where
  "session_receive_open i payload registry s =
     (case ids_accept i (ss_ids s) of
        (Inl e, ids) \<Rightarrow> (Inl (Se_Id e), s\<lparr>ss_ids := ids\<rparr>)
      | (Inr _, ids) \<Rightarrow>
          let s1 = s\<lparr>ss_ids := ids\<rparr> in
          if ss_goaway_sent s1 \<or> ss_peer_goaway s1 \<noteq> None then session_refuse i Ec_RefusedStream s1
          else if length (ss_streams s1) \<ge> rl_streams_per_connection (rs_limits (ss_resources s1))
          then session_refuse i Ec_ResourceLimit s1
          else case open_decode payload of
                 Inl _ \<Rightarrow> session_refuse i Ec_ProtocolError s1
               | Inr selection \<Rightarrow>
                   (case registry_resolve selection registry of
                      None \<Rightarrow> session_refuse i Ec_UnsupportedProtocol s1
                    | Some owner \<Rightarrow>
                        and_thread (session_add i owner
                            \<lparr>pr_id = op_id selection, pr_version = op_version selection\<rparr> s1)
                          (\<lambda>_ s. (Inr (), s))))"

definition session_receive_parts ::
    "FrameType \<Rightarrow> u32 \<Rightarrow> bytes \<Rightarrow> Registry \<Rightarrow> Session \<Rightarrow> unit session_result" where
  "session_receive_parts kind i payload registry s =
     (if kind = Ft_GoAway \<and> i = 0 then session_receive_goaway payload s
      else if kind \<in> {Ft_Ping, Ft_Pong} \<and> i = 0 then session_receive_ping kind payload s
      else if kind = Ft_Error \<and> i = 0 then
        and_thread (map_err (\<lambda>_. Se_Protocol) (error_payload_decode payload), s) (\<lambda>error s.
          (Inr (), session_close
             (Some \<lparr>fl_origin = Fo_Peer, fl_code = failure_code (dg_code error)\<rparr>) None s))
      else if kind \<noteq> Ft_Open \<and> i \<noteq> 0 \<and> \<not> ids_was_created i (ss_ids s) then (Inl Se_Protocol, s)
      else if kind \<noteq> Ft_Open \<and> i \<noteq> 0 \<and> bt_get i (ss_streams s) = None then (Inr (), s)
      else if kind \<in> {Ft_Cancel, Ft_Error} \<and> i \<noteq> 0 then session_receive_terminal kind i payload s
      else if kind = Ft_End then session_receive_end i payload s
      else if kind = Ft_Data then session_receive_data i payload s
      else if kind \<noteq> Ft_Open then (Inl Se_Protocol, s)
      else session_receive_open i payload registry s)"

definition session_receive :: "VerifiedFrame \<Rightarrow> Registry \<Rightarrow> Instant \<Rightarrow> Session \<Rightarrow> unit session_result" where
  "session_receive frame registry now s =
     (if ss_closed s then (Inl Se_Closed, s)
      else
        let s1 = session_tick now s in
        if length (ss_events s1) \<ge> session_event_limit s1 then
          (Inl Se_Capacity,
           session_close (Some \<lparr>fl_origin = Fo_Local, fl_code = Fc_ResourceLimit\<rparr>) None s1)
        else
          let header = wf_header (verified frame) in
          case session_receive_parts (fh_frame_type header) (fh_stream_id header)
                 (wf_payload (verified frame)) registry s1 of
            (Inr u, s2) \<Rightarrow> (Inr u, s2)
          | (Inl e, s2) \<Rightarrow>
              (Inl e,
               session_close
                 (Some \<lparr>fl_origin = Fo_Local,
                        fl_code = (if e = Se_Capacity then Fc_ResourceLimit else Fc_ProtocolViolation)\<rparr>)
                 (Some (if e = Se_Capacity then Ec_ResourceLimit else Ec_ProtocolError)) s2))"

section \<open>Scheduling and delivery\<close>

definition position :: "('a \<Rightarrow> bool) \<Rightarrow> 'a list \<Rightarrow> nat option" where
  "position p xs = (case dropWhile (\<lambda>x. \<not> p x) xs of
     [] \<Rightarrow> None | _ # _ \<Rightarrow> Some (length (takeWhile (\<lambda>x. \<not> p x) xs)))"

definition remove_at :: "nat \<Rightarrow> 'a list \<Rightarrow> 'a list" where
  "remove_at i xs = take i xs @ drop (Suc i) xs"

definition frame_id :: "WireFrame \<Rightarrow> u32" where
  "frame_id f = fh_stream_id (wf_header f)"

definition frame_kind :: "WireFrame \<Rightarrow> FrameType" where
  "frame_kind f = fh_frame_type (wf_header f)"

text \<open>The loop over the queue: one head per stream, with the stream numbers already seen.\<close>

fun eligible_from :: "nat option \<Rightarrow> nat \<Rightarrow> u32 set \<Rightarrow> WireFrame list \<Rightarrow> (u32 \<times> nat) list" where
  "eligible_from first_open index seen [] = []"
| "eligible_from first_open index seen (f # fs) =
     (let i = frame_id f; rest = eligible_from first_open (Suc index) (insert i seen) fs in
      if i \<in> seen then rest
      else if frame_kind f = Ft_Open \<and> first_open \<noteq> Some index then rest
      else if frame_kind f = Ft_GoAway \<and> (case first_open of None \<Rightarrow> False | Some o' \<Rightarrow> o' < index)
      then rest
      else (i, index) # rest)"

fun min_by_key :: "(u32 \<times> nat) list \<Rightarrow> (u32 \<times> nat) option" where
  "min_by_key [] = None"
| "min_by_key (x # xs) =
     (case min_by_key xs of
        None \<Rightarrow> Some x
      | Some y \<Rightarrow> if fst x \<le> fst y then Some x else Some y)"

definition session_next_output :: "Session \<Rightarrow> WireFrame option \<times> Session" where
  "session_next_output s =
     (let first_open = position (\<lambda>f. frame_kind f = Ft_Open) (ss_outbound s);
          eligible = eligible_from first_open 0 {} (ss_outbound s);
          above = filter (\<lambda>(i, _). case ss_last_output s of None \<Rightarrow> True | Some l \<Rightarrow> i > l) eligible
      in case (case min_by_key above of None \<Rightarrow> min_by_key eligible | Some n \<Rightarrow> Some n) of
           None \<Rightarrow> (None, s)
         | Some (i, index) \<Rightarrow>
             (if index < length (ss_outbound s) then Some (ss_outbound s ! index) else None,
              s\<lparr>ss_last_output := Some i, ss_outbound := remove_at index (ss_outbound s)\<rparr>))"

definition session_pop_outbound :: "Session \<Rightarrow> WireFrame option \<times> Session" where
  "session_pop_outbound s = session_next_output s"

definition session_pop_event :: "Session \<Rightarrow> Event option \<times> Session" where
  "session_pop_event s =
     (case ss_events s of [] \<Rightarrow> (None, s) | e # es \<Rightarrow> (Some e, s\<lparr>ss_events := es\<rparr>))"

fun event_stream :: "Event \<Rightarrow> StreamHandle option" where
  "event_stream (Ev_StreamOpened _ stream _) = Some stream"
| "event_stream (Ev_Data stream _) = Some stream"
| "event_stream (Ev_RemoteEnd stream) = Some stream"
| "event_stream (Ev_StreamClosed stream _) = Some stream"
| "event_stream _ = None"

definition session_pop_stream_event :: "StreamOwner \<Rightarrow> Session \<Rightarrow> Event option \<times> Session" where
  "session_pop_stream_event owner s =
     (case position (\<lambda>event. case event_stream event of
              None \<Rightarrow> False
            | Some stream \<Rightarrow> is_ok (authorize stream (ch_id (ss_handle s)) owner)) (ss_events s) of
        None \<Rightarrow> (None, s)
      | Some index \<Rightarrow> (Some (ss_events s ! index), s\<lparr>ss_events := remove_at index (ss_events s)\<rparr>))"

end
