(* ===== verification/Disposition.thy ===== *)
theory Disposition
  imports Handshake Session
begin

text \<open>
  Classification of connection failures: \<open>failure.rs\<close>. A disposition is the outcome every unfinished
  consumer receives and the ERROR code the peer may be told, if any.
\<close>

record Disposition =
  ds_failure :: Failure
  ds_response :: "ErrorCode option"

fun disposition_framing :: "FramingError \<Rightarrow> Disposition" where
  "disposition_framing (Fe_Header (He_UnsupportedVersion v)) =
     \<lparr>ds_failure = \<lparr>fl_origin = Fo_Local, fl_code = Fc_ProtocolViolation\<rparr>, ds_response = None\<rparr>"
| "disposition_framing (Fe_Header (He_PayloadTooLarge n)) =
     \<lparr>ds_failure = \<lparr>fl_origin = Fo_Local, fl_code = Fc_FrameTooLarge\<rparr>,
      ds_response = Some Ec_FrameSizeError\<rparr>"
| "disposition_framing (Fe_Header _) =
     \<lparr>ds_failure = \<lparr>fl_origin = Fo_Local, fl_code = Fc_ProtocolViolation\<rparr>,
      ds_response = Some Ec_ProtocolError\<rparr>"
| "disposition_framing Fe_Truncated =
     \<lparr>ds_failure = \<lparr>fl_origin = Fo_Local, fl_code = Fc_TruncatedFrame\<rparr>, ds_response = None\<rparr>"
| "disposition_framing (Fe_Io _) =
     \<lparr>ds_failure = \<lparr>fl_origin = Fo_Local, fl_code = Fc_ConnectionLost\<rparr>, ds_response = None\<rparr>"
| "disposition_framing Fe_Closed =
     \<lparr>ds_failure = \<lparr>fl_origin = Fo_Local, fl_code = Fc_ConnectionLost\<rparr>, ds_response = None\<rparr>"
| "disposition_framing Fe_PhaseChanged =
     \<lparr>ds_failure = \<lparr>fl_origin = Fo_Local, fl_code = Fc_Internal\<rparr>, ds_response = None\<rparr>"
| "disposition_framing Fe_Shape =
     \<lparr>ds_failure = \<lparr>fl_origin = Fo_Local, fl_code = Fc_Internal\<rparr>, ds_response = None\<rparr>"
| "disposition_framing Fe_Busy =
     \<lparr>ds_failure = \<lparr>fl_origin = Fo_Local, fl_code = Fc_Internal\<rparr>, ds_response = None\<rparr>"

fun disposition_handshake :: "HandshakeError \<Rightarrow> Disposition" where
  "disposition_handshake (Hs_Peer code) =
     \<lparr>ds_failure = \<lparr>fl_origin = Fo_Peer, fl_code = failure_code code\<rparr>, ds_response = None\<rparr>"
| "disposition_handshake (Hs_Framing error) = disposition_framing error"
| "disposition_handshake error =
     (let code = (case error of
          Hs_Order \<Rightarrow> Fc_ProtocolViolation
        | Hs_Payload _ \<Rightarrow> Fc_ProtocolViolation
        | _ \<Rightarrow> Fc_AuthenticationFailed)
      in \<lparr>ds_failure = \<lparr>fl_origin = Fo_Local, fl_code = code\<rparr>,
          ds_response = Some (if code = Fc_AuthenticationFailed then Ec_AuthenticationFailed
                              else Ec_ProtocolError)\<rparr>)"

definition disposition_integrity :: "IntegrityError \<Rightarrow> Disposition" where
  "disposition_integrity error =
     \<lparr>ds_failure = \<lparr>fl_origin = Fo_Local,
        fl_code = (if error = Ie_Exhausted then Fc_SequenceExhausted else Fc_IntegrityFailed)\<rparr>,
      ds_response = None\<rparr>"

definition with_safe_output :: "bool \<Rightarrow> Disposition \<Rightarrow> Disposition" where
  "with_safe_output safe d = (if \<not> safe then d\<lparr>ds_response := None\<rparr> else d)"

text \<open>
  A peer that reported an error itself, or that uses another protocol version, is never answered; no
  reply ever carries NO_ERROR.
\<close>

lemma disposition_response:
  "ds_response (disposition_integrity ie) = None"
  "ds_response (disposition_handshake (Hs_Peer code)) = None"
  "ds_response (disposition_framing (Fe_Header (He_UnsupportedVersion v))) = None"
  "ds_response (disposition_framing fe) \<noteq> Some Ec_NoError"
  "ds_response (disposition_handshake he) \<noteq> Some Ec_NoError"
proof -
  show framing: "ds_response (disposition_framing fe) \<noteq> Some Ec_NoError" for fe
    by (cases fe rule: disposition_framing.cases) simp_all
  show "ds_response (disposition_handshake he) \<noteq> Some Ec_NoError"
    using framing by (cases he rule: disposition_handshake.cases) (simp_all add: Let_def)
qed (simp_all add: disposition_integrity_def)

end
