(* ===== verification/Session_Invariant.thy ===== *)
theory Session_Invariant
  imports Session
begin

text \<open>
  The invariant of a stream session and its preservation by every operation. The ghost argument
  \<open>history\<close> is the list of all events the session has ever queued, delivered or not; \<open>others\<close> is the
  part of the shared outbound budget that is not held by frames in this session's queue.

  Per stream the history follows the automaton \<open>advance\<close>: opened, data, at most one remote end, closed
  exactly once, completed only after the remote end. An operation \<open>evolves\<close> the session when it appends
  events and keeps the invariant over the extended history; operations compose by transitivity.
\<close>

section \<open>The life of one stream, as its consumer sees it\<close>

datatype StreamPhase = Ph_Idle | Ph_Open | Ph_Half | Ph_Done | Ph_Bad

fun advance :: "StreamPhase \<Rightarrow> Event \<Rightarrow> StreamPhase" where
  "advance Ph_Idle (Ev_StreamOpened _ _ _) = Ph_Open"
| "advance Ph_Open (Ev_Data _ _) = Ph_Open"
| "advance Ph_Open (Ev_RemoteEnd _) = Ph_Half"
| "advance Ph_Open (Ev_StreamClosed _ outcome) = (if outcome = So_Completed then Ph_Bad else Ph_Done)"
| "advance Ph_Half (Ev_StreamClosed _ outcome) = Ph_Done"
| "advance _ _ = Ph_Bad"

definition concerns :: "u32 \<Rightarrow> Event \<Rightarrow> bool" where
  "concerns i e \<longleftrightarrow> (case event_stream e of None \<Rightarrow> False | Some stream \<Rightarrow> sh_wire_id stream = i)"

definition stream_phase :: "u32 \<Rightarrow> Event list \<Rightarrow> StreamPhase" where
  "stream_phase i history = foldl advance Ph_Idle (filter (concerns i) history)"

lemma stream_phase_Nil [simp]: "stream_phase i [] = Ph_Idle"
  by (simp add: stream_phase_def)

lemma stream_phase_snoc [simp]:
  "stream_phase i (h @ [e]) = (if concerns i e then advance (stream_phase i h) e else stream_phase i h)"
  by (simp add: stream_phase_def)

lemma concerns_simps [simp]:
  "concerns i (Ev_StreamOpened c stream p) \<longleftrightarrow> sh_wire_id stream = i"
  "concerns i (Ev_Data stream bs) \<longleftrightarrow> sh_wire_id stream = i"
  "concerns i (Ev_RemoteEnd stream) \<longleftrightarrow> sh_wire_id stream = i"
  "concerns i (Ev_StreamClosed stream out) \<longleftrightarrow> sh_wire_id stream = i"
  "\<not> concerns i (Ev_PingFinished n t r)"
  "\<not> concerns i (Ev_ConnectionClosed n f)"
  "\<not> concerns i (Ev_Authenticated ctx)"
  by (simp_all add: concerns_def)

lemma stream_phase_unconcerned:
  "\<forall>e \<in> set es. \<not> concerns i e \<Longrightarrow> stream_phase i (h @ es) = stream_phase i h"
  by (simp add: stream_phase_def filter_empty_conv [symmetric])

section \<open>The parts of the invariant\<close>

definition stream_ok :: "Event list \<Rightarrow> ConnectionHandle \<Rightarrow> StreamIds \<Rightarrow> u32 \<Rightarrow> StreamState \<Rightarrow> bool" where
  "stream_ok history handle ids i st \<longleftrightarrow>
     sh_wire_id (st_handle st) = i \<and> sh_connection (st_handle st) = ch_id handle \<and>
     ids_was_created i ids \<and>
     stream_phase i history = (if st_remote_open st then Ph_Open else Ph_Half) \<and>
     (st_local_end_written st \<longrightarrow> \<not> st_local_open st)"

definition streams_ok ::
    "Event list \<Rightarrow> ConnectionHandle \<Rightarrow> StreamIds \<Rightarrow> (u32, StreamState) btree_map \<Rightarrow> bool" where
  "streams_ok history handle ids streams \<longleftrightarrow>
     bt_sorted streams \<and>
     (\<forall>i. case bt_get i streams of
        Some st \<Rightarrow> stream_ok history handle ids i st
      | None \<Rightarrow> stream_phase i history \<in> {Ph_Idle, Ph_Done} \<and>
          (\<not> ids_was_created i ids \<longrightarrow> stream_phase i history = Ph_Idle))"

text \<open>A queued frame: untagged, well formed, and holding its reservation.\<close>

definition queued_ok :: "WireFrame \<Rightarrow> bool" where
  "queued_ok f \<longleftrightarrow>
     plain_frame f \<and> header_valid (wf_header f) \<and> wf_reservation f = Some (length (wf_payload f) + 28)"

definition queued_bytes :: "WireFrame list \<Rightarrow> usize" where
  "queued_bytes fs = sum_list (map (\<lambda>f. reserved (wf_reservation f)) fs)"

definition queue_ok :: "usize \<Rightarrow> Resources \<Rightarrow> WireFrame list \<Rightarrow> bool" where
  "queue_ok others rs fs \<longleftrightarrow>
     (\<forall>f \<in> set fs. queued_ok f) \<and> outbound_used rs = others + queued_bytes fs \<and> outbound_ok rs"

definition ids_ok :: "StreamIds \<Rightarrow> u32 \<Rightarrow> bool" where
  "ids_ok ids accepted \<longleftrightarrow>
     (\<exists>ls rs. ids_history ls rs ids) \<and>
     (accepted = 0 \<or> \<not> ids_is_local accepted ids \<and> ids_was_created accepted ids)"

text \<open>
  The two drain bounds: the peer's covers every active local stream, and the number this side would
  announce covers every active stream of the peer.
\<close>

definition goaway_ok :: "u32 option \<Rightarrow> u32 \<Rightarrow> StreamIds \<Rightarrow> (u32, StreamState) btree_map \<Rightarrow> bool" where
  "goaway_ok peer accepted ids streams \<longleftrightarrow>
     (case peer of
        None \<Rightarrow> True
      | Some bound \<Rightarrow> \<forall>i. bt_get i streams \<noteq> None \<longrightarrow> ids_is_local i ids \<longrightarrow> i \<le> bound) \<and>
     (\<forall>i. bt_get i streams \<noteq> None \<longrightarrow> \<not> ids_is_local i ids \<longrightarrow> i \<le> accepted)"

definition buffers_ok :: "ResourceLimits \<Rightarrow> Event list \<Rightarrow> bool" where
  "buffers_ok limits events \<longleftrightarrow> (\<forall>i. data_bytes i events \<le> rl_buffered_bytes_per_stream limits)"

text \<open>How often the end of the connection is announced.\<close>

fun is_closing :: "Event \<Rightarrow> bool" where
  "is_closing (Ev_ConnectionClosed _ _) = True"
| "is_closing _ = False"

definition closings :: "Event list \<Rightarrow> nat" where
  "closings history = length (filter is_closing history)"

lemma closings_simps [simp]:
  "closings [] = 0" "closings (es @ fs) = closings es + closings fs"
  "closings (e # es) = (if is_closing e then Suc (closings es) else closings es)"
  by (simp_all add: closings_def)

lemma closings_none: "(\<And>e. e \<in> set es \<Longrightarrow> \<not> is_closing e) \<Longrightarrow> closings es = 0"
  by (simp add: closings_def filter_empty_conv)

text \<open>The connection an event is about.\<close>

fun event_connection :: "Event \<Rightarrow> ConnectionId option" where
  "event_connection (Ev_IncomingConnection handle) = Some (ch_id handle)"
| "event_connection (Ev_Authenticated context) = Some (pc_connection context)"
| "event_connection (Ev_StreamOpened _ stream _) = Some (sh_connection stream)"
| "event_connection (Ev_Data stream _) = Some (sh_connection stream)"
| "event_connection (Ev_RemoteEnd stream) = Some (sh_connection stream)"
| "event_connection (Ev_StreamClosed stream _) = Some (sh_connection stream)"
| "event_connection (Ev_PingFinished n _ _) = Some n"
| "event_connection (Ev_ConnectionClosed n _) = Some n"
| "event_connection (Ev_ListenerClosed _ _) = None"

definition own_events :: "ConnectionHandle \<Rightarrow> Event list \<Rightarrow> bool" where
  "own_events handle history \<longleftrightarrow> (\<forall>e \<in> set history. event_connection e = Some (ch_id handle))"

lemma own_events_simps [simp]:
  "own_events handle []" "own_events handle (es @ fs) \<longleftrightarrow> own_events handle es \<and> own_events handle fs"
  "own_events handle (e # es) \<longleftrightarrow> event_connection e = Some (ch_id handle) \<and> own_events handle es"
  by (auto simp: own_events_def)

text \<open>Nothing follows the announcement of the end.\<close>

definition closes_last :: "Event list \<Rightarrow> bool" where
  "closes_last history \<longleftrightarrow> (\<forall>e \<in> set (butlast history). \<not> is_closing e)"

lemma closes_last_append: "closings h = 0 \<Longrightarrow> closes_last new \<Longrightarrow> closes_last (h @ new)"
  by (auto simp: closes_last_def closings_def butlast_append filter_empty_conv dest: in_set_butlastD)

lemma closes_last_none: "closings h = 0 \<Longrightarrow> closes_last h"
  by (auto simp: closes_last_def closings_def filter_empty_conv dest: in_set_butlastD)

lemma closes_last_snoc: "closings h = 0 \<Longrightarrow> closes_last (h @ [e])"
  by (rule closes_last_append) (simp_all add: closes_last_def)

definition session_inv :: "usize \<Rightarrow> Event list \<Rightarrow> Session \<Rightarrow> bool" where
  "session_inv others history s \<longleftrightarrow>
     streams_ok history (ss_handle s) (ss_ids s) (ss_streams s) \<and>
     queue_ok others (ss_resources s) (ss_outbound s) \<and>
     ids_ok (ss_ids s) (ss_accepted_remote s) \<and>
     goaway_ok (ss_peer_goaway s) (ss_accepted_remote s) (ss_ids s) (ss_streams s) \<and>
     buffers_ok (rs_limits (ss_resources s)) (ss_events s) \<and>
     length (ss_streams s) \<le> rl_streams_per_connection (rs_limits (ss_resources s)) \<and>
     bt_sorted (ss_pings s) \<and> length (ss_pings s) \<le> 64 \<and>
     (ss_closed s \<longrightarrow> ss_streams s = [] \<and> ss_pings s = []) \<and>
     closings history = (if ss_closed s then 1 else 0) \<and> own_events (ss_handle s) history \<and>
     closes_last history"

section \<open>Streams\<close>

lemma streams_okD:
  assumes "streams_ok h c ids m"
  shows "bt_sorted m" "bt_get i m = Some st \<Longrightarrow> stream_ok h c ids i st"
    "bt_get i m = None \<Longrightarrow> stream_phase i h \<in> {Ph_Idle, Ph_Done}"
    "\<not> ids_was_created i ids \<Longrightarrow> bt_get i m = None \<and> stream_phase i h = Ph_Idle"
proof -
  have entry: "case bt_get i m of
        Some st \<Rightarrow> stream_ok h c ids i st
      | None \<Rightarrow> stream_phase i h \<in> {Ph_Idle, Ph_Done} \<and>
          (\<not> ids_was_created i ids \<longrightarrow> stream_phase i h = Ph_Idle)" for i
    using assms unfolding streams_ok_def by blast
  show "bt_sorted m" using assms by (simp add: streams_ok_def)
  show "bt_get i m = Some st \<Longrightarrow> stream_ok h c ids i st"
    "bt_get i m = None \<Longrightarrow> stream_phase i h \<in> {Ph_Idle, Ph_Done}"
    using entry [of i] by (auto split: option.splits)
  show "\<not> ids_was_created i ids \<Longrightarrow> bt_get i m = None \<and> stream_phase i h = Ph_Idle"
    using entry [of i] by (cases "bt_get i m") (auto simp: stream_ok_def)
qed

lemma streams_okI:
  assumes "bt_sorted m"
    "\<And>i st. bt_get i m = Some st \<Longrightarrow> stream_ok h c ids i st"
    "\<And>i. bt_get i m = None \<Longrightarrow> stream_phase i h \<in> {Ph_Idle, Ph_Done} \<and>
       (\<not> ids_was_created i ids \<longrightarrow> stream_phase i h = Ph_Idle)"
  shows "streams_ok h c ids m"
  using assms unfolding streams_ok_def by (auto split: option.splits)

text \<open>
  Replacing, adding or removing the entry of one stream together with events that concern only it.
\<close>

lemma streams_ok_unconcerned:
  assumes "\<And>i e. e \<in> set es \<Longrightarrow> \<not> concerns i e" "streams_ok h c ids m"
  shows "streams_ok (h @ es) c ids m"
proof -
  have same: "stream_phase i (h @ es) = stream_phase i h" for i
    using assms(1) by (intro stream_phase_unconcerned) blast
  note ok = streams_okD [OF assms(2)]
  show ?thesis
    by (rule streams_okI) (use ok same in \<open>auto simp: stream_ok_def\<close>)
qed

lemma streams_ok_insert:
  assumes "streams_ok h c ids m" "stream_ok h' c ids i st"
    "\<And>j. j \<noteq> i \<Longrightarrow> stream_phase j h' = stream_phase j h"
  shows "streams_ok h' c ids (bt_insert i st m)"
proof (rule streams_okI)
  note ok = streams_okD [OF assms(1)]
  show "bt_sorted (bt_insert i st m)" using ok(1) by (rule bt_sorted_insert)
  show "stream_ok h' c ids j st'" if "bt_get j (bt_insert i st m) = Some st'" for j st'
    using that ok(2) [of j st'] assms(2,3) by (auto simp: bt_get_insert stream_ok_def split: if_splits)
  show "stream_phase j h' \<in> {Ph_Idle, Ph_Done} \<and> (\<not> ids_was_created j ids \<longrightarrow> stream_phase j h' = Ph_Idle)"
    if "bt_get j (bt_insert i st m) = None" for j
    using that ok(3,4) [of j] assms(3) by (auto simp: bt_get_insert split: if_splits)
qed

lemma streams_ok_remove:
  assumes "streams_ok h c ids m" "bt_get i m = Some st" "outcome = So_Completed \<longrightarrow> \<not> st_remote_open st"
  shows "streams_ok (h @ [Ev_StreamClosed (st_handle st) outcome]) c ids (bt_remove i m)"
proof (rule streams_okI)
  note ok = streams_okD [OF assms(1)]
  let ?h = "h @ [Ev_StreamClosed (st_handle st) outcome]"
  have st: "sh_wire_id (st_handle st) = i" "ids_was_created i ids"
    "stream_phase i h = (if st_remote_open st then Ph_Open else Ph_Half)"
    using ok(2) [OF assms(2)] by (simp_all add: stream_ok_def)
  then have this_done: "stream_phase i ?h = Ph_Done" using assms(3) by simp
  have same: "j \<noteq> i \<Longrightarrow> stream_phase j ?h = stream_phase j h" for j using st(1) by simp
  show "bt_sorted (bt_remove i m)" using ok(1) by (rule bt_sorted_remove)
  show "stream_ok ?h c ids j st'" if "bt_get j (bt_remove i m) = Some st'" for j st'
    using that ok(2) [of j st'] same [of j] by (auto simp: bt_get_remove stream_ok_def split: if_splits)
  show "stream_phase j ?h \<in> {Ph_Idle, Ph_Done} \<and> (\<not> ids_was_created j ids \<longrightarrow> stream_phase j ?h = Ph_Idle)"
    if "bt_get j (bt_remove i m) = None" for j
    using that ok(3,4) [of j] same [of j] st(2) this_done
    by (cases "j = i") (auto simp: bt_get_remove)
qed

lemma streams_ok_ids:
  assumes "streams_ok h c ids m" "\<And>j. ids_was_created j ids \<Longrightarrow> ids_was_created j ids'"
  shows "streams_ok h c ids' m"
proof (rule streams_okI)
  note ok = streams_okD [OF assms(1)]
  show "bt_sorted m" by (rule ok(1))
  show "stream_ok h c ids' i st" if "bt_get i m = Some st" for i st
    using ok(2) [OF that] assms(2) by (auto simp: stream_ok_def)
  show "stream_phase i h \<in> {Ph_Idle, Ph_Done} \<and> (\<not> ids_was_created i ids' \<longrightarrow> stream_phase i h = Ph_Idle)"
    if "bt_get i m = None" for i
    using ok(3) [OF that] ok(4) [of i] assms(2) [of i] by auto
qed

lemma bt_remove_head: "bt_sorted ((k, v) # m) \<Longrightarrow> bt_remove k ((k, v) # m) = m"
  by (auto simp: bt_sorted_def bt_remove_def filter_id_conv)

lemma streams_ok_close:
  assumes "streams_ok h c ids m"
  shows "streams_ok (h @ map (\<lambda>(_, st). Ev_StreamClosed (st_handle st) (So_Failed f)) m) c ids []"
  using assms
proof (induction m arbitrary: h)
  case Nil
  then show ?case by simp
next
  case (Cons e m)
  obtain i st where e: "e = (i, st)" by (cases e)
  have "bt_sorted ((i, st) # m)" using streams_okD(1) [OF Cons.prems] by (simp add: e)
  then have "streams_ok (h @ [Ev_StreamClosed (st_handle st) (So_Failed f)]) c ids m"
    using streams_ok_remove [OF Cons.prems, of i st "So_Failed f"]
    by (simp add: e bt_get_def bt_remove_head)
  from Cons.IH [OF this] show ?case by (simp add: e)
qed

section \<open>The queue and the budget\<close>

lemma queued_bytes_simps [simp]:
  "queued_bytes [] = 0"
  "queued_bytes (f # fs) = reserved (wf_reservation f) + queued_bytes fs"
  "queued_bytes (fs @ gs) = queued_bytes fs + queued_bytes gs"
  by (simp_all add: queued_bytes_def)

lemma queued_bytes_partition:
  "queued_bytes fs = queued_bytes (filter p fs) + queued_bytes (filter (\<lambda>f. \<not> p f) fs)"
  by (induction fs) auto

lemma drop_frames_frame [simp]:
  "rs_limits (drop_frames fs rs) = rs_limits rs"
  "rs_connections (drop_frames fs rs) = rs_connections rs"
  "ct_limit (rs_outbound (drop_frames fs rs)) = ct_limit (rs_outbound rs)"
  by (induction fs arbitrary: rs) (simp_all add: drop_frames_def)

lemma drop_frames_used:
  "queued_bytes fs \<le> outbound_used rs \<Longrightarrow>
     outbound_used (drop_frames fs rs) = outbound_used rs - queued_bytes fs"
  by (induction fs arbitrary: rs) (simp_all add: drop_frames_def)

lemma queue_ok_drop:
  assumes "queue_ok others rs fs"
  shows "queue_ok others (drop_frames (filter (\<lambda>f. \<not> p f) fs) rs) (filter p fs)"
  using assms queued_bytes_partition [of fs p]
  by (auto simp: queue_ok_def drop_frames_used outbound_ok_def)

lemma queue_ok_push:
  assumes "queue_ok (others + n) rs fs" "queued_ok f" "reserved (wf_reservation f) = n"
  shows "queue_ok others rs (fs @ [f])"
  using assms by (auto simp: queue_ok_def)

lemma queue_ok_reserve:
  assumes "queue_ok others rs fs" "resources_outbound n rs = Some (v, rs')"
  shows "queue_ok (others + n) rs' fs" "v = n" "rs_limits rs' = rs_limits rs"
  using assms resources_outbound_Some [OF assms(2)] by (auto simp: queue_ok_def)

lemma queue_ok_release:
  "queue_ok (others + n) rs fs \<Longrightarrow> queue_ok others (drop_outbound (Some n) rs) fs"
  by (auto simp: queue_ok_def outbound_ok_def)

lemma session_frame_ok:
  assumes "session_frame kind i payload = Inr f"
  shows "queued_ok (f\<lparr>wf_reservation := Some (length payload + 28)\<rparr>)"
    "wf_payload f = payload" "frame_id f = i" "frame_kind f = kind"
proof -
  from assms obtain h where h: "header_new kind i (of_nat (length payload)) = Inr h"
    and f: "wire_frame_new h payload None = Inr f"
    by (auto simp: session_frame_def and_then_eq_Inr)
  have f': "f = \<lparr>wf_reservation = None, wf_header = h, wf_payload = payload, wf_tag = None\<rparr>"
    "length payload = unat (fh_payload_len h)"
    using f by (auto simp: wire_frame_new_def split: if_splits)
  then show "queued_ok (f\<lparr>wf_reservation := Some (length payload + 28)\<rparr>)"
    "wf_payload f = payload" "frame_id f = i" "frame_kind f = kind"
    using header_newD [OF h] by (simp_all add: queued_ok_def plain_frame_def frame_shape_def frame_id_def frame_kind_def)
qed

section \<open>Buffered data\<close>

lemma data_bytes_simps [simp]:
  "data_bytes i [] = 0"
  "data_bytes i (es @ fs) = data_bytes i es + data_bytes i fs"
  "data_bytes i (e # es) =
     (case e of Ev_Data stream bs \<Rightarrow> if sh_wire_id stream = i then length bs else 0 | _ \<Rightarrow> 0)
     + data_bytes i es"
  by (simp_all add: data_bytes_def)

lemma data_bytes_none:
  "(\<And>e. e \<in> set es \<Longrightarrow> \<forall>stream bs. e \<noteq> Ev_Data stream bs) \<Longrightarrow> data_bytes i es = 0"
  by (induction es) (auto split: Event.splits)

lemma buffers_ok_append:
  "buffers_ok l es \<Longrightarrow> (\<And>i. data_bytes i fs = 0) \<Longrightarrow> buffers_ok l (es @ fs)"
  by (simp add: buffers_ok_def)

section \<open>Evolution\<close>

definition evolves :: "Session \<Rightarrow> Session \<Rightarrow> bool" where
  "evolves s s' \<longleftrightarrow>
     (\<exists>new. ss_events s' = ss_events s @ new \<and>
        (\<forall>others h. session_inv others h s \<longrightarrow> session_inv others (h @ new) s')) \<and>
     ss_handle s' = ss_handle s \<and> ss_context s' = ss_context s \<and>
     rs_limits (ss_resources s') = rs_limits (ss_resources s) \<and>
     rs_connections (ss_resources s') = rs_connections (ss_resources s) \<and>
     ct_limit (rs_outbound (ss_resources s')) = ct_limit (rs_outbound (ss_resources s)) \<and>
     (ss_closed s \<longrightarrow> ss_closed s')"

lemma evolves_refl [simp]: "evolves s s"
  by (auto simp: evolves_def intro!: exI [of _ "[]"])

lemma evolves_trans [trans]:
  assumes "evolves s t" "evolves t u"
  shows "evolves s u"
proof -
  from assms(1) obtain a where a: "ss_events t = ss_events s @ a"
    "\<forall>others h. session_inv others h s \<longrightarrow> session_inv others (h @ a) t"
    by (auto simp: evolves_def)
  from assms(2) obtain b where b: "ss_events u = ss_events t @ b"
    "\<forall>others h. session_inv others h t \<longrightarrow> session_inv others (h @ b) u"
    by (auto simp: evolves_def)
  have "ss_events u = ss_events s @ (a @ b)" using a(1) b(1) by simp
  moreover have "\<forall>others h. session_inv others h s \<longrightarrow> session_inv others (h @ (a @ b)) u"
    using a(2) b(2) by (metis append_assoc)
  ultimately show ?thesis using assms by (auto simp: evolves_def)
qed

lemma evolvesI:
  assumes "ss_events s' = ss_events s @ new" "ss_handle s' = ss_handle s \<and> ss_context s' = ss_context s"
    "rs_limits (ss_resources s') = rs_limits (ss_resources s) \<and>
     rs_connections (ss_resources s') = rs_connections (ss_resources s) \<and>
     ct_limit (rs_outbound (ss_resources s')) = ct_limit (rs_outbound (ss_resources s))" "ss_closed s \<Longrightarrow> ss_closed s'"
    "\<And>others h. session_inv others h s \<Longrightarrow> session_inv others (h @ new) s'"
  shows "evolves s s'"
  using assms by (auto simp: evolves_def)

text \<open>A step that queues no event.\<close>

lemma evolves_quiet:
  assumes "ss_events s' = ss_events s" "ss_handle s' = ss_handle s \<and> ss_context s' = ss_context s"
    "rs_limits (ss_resources s') = rs_limits (ss_resources s) \<and>
     rs_connections (ss_resources s') = rs_connections (ss_resources s) \<and>
     ct_limit (rs_outbound (ss_resources s')) = ct_limit (rs_outbound (ss_resources s))" "ss_closed s \<Longrightarrow> ss_closed s'"
    "\<And>others h. session_inv others h s \<Longrightarrow> session_inv others h s'"
  shows "evolves s s'"
  by (rule evolvesI [where new = "[]"]) (use assms in auto)

lemma evolves_and_thread:
  assumes "evolves s (snd out)" "\<And>a t. out = (Inr a, t) \<Longrightarrow> evolves t (snd (f a t))"
  shows "evolves s (snd (and_thread out f))"
proof -
  obtain r t where out: "out = (r, t)" by (cases out)
  show ?thesis
  proof (cases r)
    case (Inl e)
    with out assms(1) show ?thesis by simp
  next
    case (Inr a)
    with out assms(1) assms(2) [of a t] show ?thesis by (auto intro: evolves_trans)
  qed
qed

lemma evolves_fold:
  assumes "\<And>x s. evolves s (f x s)"
  shows "evolves s (fold f xs s)"
proof (induction xs arbitrary: s)
  case (Cons x xs)
  show ?case using evolves_trans [OF assms Cons.IH] by simp
qed simp

section \<open>Every operation evolves the session\<close>

lemma evolves_queue:
  assumes "session_frame kind i payload = Inr f"
  shows "evolves s (snd (session_queue f s))"
proof (cases "resources_outbound (length (wf_payload f) + 28) (ss_resources s)")
  case None
  then show ?thesis by (simp add: session_queue_def)
next
  case (Some out)
  obtain v rs where out: "out = (v, rs)" by (cases out)
  note reserve = Some [unfolded out]
  have v: "v = length payload + 28" and f: "wf_payload f = payload"
    using resources_outbound_Some(1) [OF reserve] session_frame_ok(2) [OF assms] by simp_all
  show ?thesis
  proof (rule evolves_quiet)
    fix others h
    assume inv: "session_inv others h s"
    then have "queue_ok others (ss_resources s) (ss_outbound s)" by (simp add: session_inv_def)
    then have "queue_ok others rs (ss_outbound s @ [f\<lparr>wf_reservation := Some v\<rparr>])"
      using queue_ok_reserve [OF _ reserve] session_frame_ok(1) [OF assms] v
      by (intro queue_ok_push [where n = v]) (auto simp: f)
    with inv show "session_inv others h (snd (session_queue f s))"
      using resources_outbound_Some(3) [OF reserve] reserve
      by (simp add: session_queue_def session_inv_def)
  qed (use reserve resources_outbound_Some(3,4,6) [OF reserve] in \<open>simp_all add: session_queue_def\<close>)
qed

lemma evolves_refuse: "evolves s (snd (session_refuse i code s))"
  unfolding session_refuse_def by (intro evolves_and_thread) (auto intro: evolves_queue)

lemma session_inv_terminate_queue:
  assumes "session_inv others h s"
  shows "session_inv others h (s\<lparr>ss_outbound := filter p (ss_outbound s),
    ss_resources := drop_frames (filter (\<lambda>f. \<not> p f) (ss_outbound s)) (ss_resources s)\<rparr>)"
  using assms queue_ok_drop [of others "ss_resources s" "ss_outbound s" p] by (simp add: session_inv_def)

lemma goaway_ok_remove:
  "goaway_ok peer accepted ids m \<Longrightarrow> goaway_ok peer accepted ids (bt_remove i m)"
  by (auto simp: goaway_ok_def bt_get_remove split: option.splits)

lemma session_inv_remove:
  assumes "session_inv others h s" "bt_get i (ss_streams s) = Some st"
    "outcome = So_Completed \<longrightarrow> \<not> st_remote_open st"
  shows "session_inv others (h @ [Ev_StreamClosed (st_handle st) outcome])
    (s\<lparr>ss_streams := bt_remove i (ss_streams s),
       ss_events := ss_events s @ [Ev_StreamClosed (st_handle st) outcome]\<rparr>)"
proof -
  have streams: "streams_ok h (ss_handle s) (ss_ids s) (ss_streams s)"
    using assms(1) by (simp add: session_inv_def)
  have "length (bt_remove i (ss_streams s)) \<le> length (ss_streams s)"
    using streams_okD(1) [OF streams] by (rule bt_size(3))
  moreover have "sh_connection (st_handle st) = ch_id (ss_handle s)"
    using streams_okD(2) [OF streams assms(2)] by (simp add: stream_ok_def)
  ultimately show ?thesis
    using assms(1,2) streams_ok_remove [OF streams assms(2,3)]
    by (auto simp: session_inv_def goaway_ok_remove closes_last_snoc intro!: buffers_ok_append split: if_splits)
qed

lemma evolves_terminate:
  assumes "outcome \<noteq> So_Completed"
  shows "evolves s (session_terminate i outcome s)"
proof -
  let ?p = "\<lambda>f. fh_stream_id (wf_header f) \<noteq> i \<or> fh_frame_type (wf_header f) = Ft_Open"
  define t where "t = s\<lparr>ss_outbound := filter ?p (ss_outbound s),
    ss_resources := drop_frames (filter (\<lambda>f. \<not> ?p f) (ss_outbound s)) (ss_resources s)\<rparr>"
  have "evolves s t"
  proof (rule evolves_quiet)
    show "session_inv others h t" if "session_inv others h s" for others h
      unfolding t_def using that by (rule session_inv_terminate_queue)
  qed (simp_all add: t_def)
  moreover have "evolves t (case bt_get i (ss_streams t) of None \<Rightarrow> t
      | Some st \<Rightarrow> t\<lparr>ss_streams := bt_remove i (ss_streams t),
          ss_events := ss_events t @ [Ev_StreamClosed (st_handle st) outcome]\<rparr>)"
  proof (cases "bt_get i (ss_streams t)")
    case (Some st)
    show ?thesis
      by (rule evolvesI [where new = "[Ev_StreamClosed (st_handle st) outcome]"])
         (use Some session_inv_remove [OF _ Some] assms in auto)
  qed simp
  ultimately show ?thesis
    unfolding session_terminate_def Let_def t_def by (rule evolves_trans)
qed

lemma evolves_complete: "evolves s (session_complete i s)"
proof (cases "bt_get i (ss_streams s)")
  case (Some st)
  show ?thesis
  proof (cases "\<not> st_remote_open st \<and> st_local_end_written st")
    case True
    show ?thesis
      by (rule evolvesI [where new = "[Ev_StreamClosed (st_handle st) So_Completed]"])
         (use Some True session_inv_remove [OF _ Some] in \<open>auto simp: session_complete_def\<close>)
  next
    case False
    with Some show ?thesis by (auto simp: session_complete_def)
  qed
qed (simp add: session_complete_def)

lemma evolves_fail_stream: "evolves s (snd (session_fail_stream i wire code s))"
  unfolding session_fail_stream_def
  by (rule evolves_trans [OF evolves_terminate evolves_refuse]) simp

lemma streams_own:
  assumes "streams_ok h handle ids m"
  shows "own_events handle (map (\<lambda>(_, st). Ev_StreamClosed (st_handle st) out) m)"
  using streams_okD(2) [OF assms] bt_get_iff [OF streams_okD(1) [OF assms]]
  by (auto simp: own_events_def stream_ok_def)

lemma session_inv_close:
  assumes "session_inv others h s" "\<not> ss_closed s" "n = ch_id (ss_handle s)"
    "new = map (\<lambda>(token, _). Ev_PingFinished n token (Inl f)) (ss_pings s)
       @ map (\<lambda>(_, st). Ev_StreamClosed (st_handle st) (So_Failed f)) (ss_streams s)
       @ [Ev_ConnectionClosed n failure]"
  shows "session_inv others (h @ new)
    (s\<lparr>ss_closed := True, ss_outbound := [],
       ss_resources := drop_frames (ss_outbound s) (ss_resources s), ss_pings := [], ss_streams := [],
       ss_events := ss_events s @ new\<rparr>)"
proof -
  have streams: "streams_ok h (ss_handle s) (ss_ids s) (ss_streams s)"
    using assms(1) by (simp add: session_inv_def)
  then have own: "own_events (ss_handle s) (map (\<lambda>(_, st). Ev_StreamClosed (st_handle st) (So_Failed f)) (ss_streams s))"
    by (rule streams_own)
  from streams have "streams_ok (h @ map (\<lambda>(token, _). Ev_PingFinished n token (Inl f)) (ss_pings s))
      (ss_handle s) (ss_ids s) (ss_streams s)"
    by (rule streams_ok_unconcerned [rotated]) auto
  from streams_ok_unconcerned [OF _ streams_ok_close [OF this, of f], of "[Ev_ConnectionClosed n failure]"]
  have "streams_ok (h @ new) (ss_handle s) (ss_ids s) []"
    by (simp add: assms(4))
  moreover have "queue_ok others (drop_frames (ss_outbound s) (ss_resources s)) []"
    using queue_ok_drop [of others "ss_resources s" "ss_outbound s" "\<lambda>_. False"] assms(1)
    by (simp add: session_inv_def)
  moreover have "data_bytes i new = 0" for i
    by (rule data_bytes_none) (auto simp: assms(4))
  moreover have "closings new = 1" by (auto simp: assms(4) intro!: closings_none)
  moreover have "own_events (ss_handle s) new"
    using own by (auto simp: assms(3,4) own_events_def)
  moreover have "closes_last (h @ new)"
    using assms(1,2) by (intro closes_last_append) (auto simp: assms(4) closes_last_def session_inv_def butlast_append)
  ultimately show ?thesis
    using assms(1,2) by (auto simp: session_inv_def goaway_ok_def split: option.splits intro!: buffers_ok_append)
qed

lemma evolves_close: "evolves s (session_close failure response s)"
proof (cases "ss_closed s")
  case True
  then show ?thesis by (simp add: session_close_def)
next
  case False
  let ?fail = "case failure of Some f \<Rightarrow> Some f | None \<Rightarrow> ss_drain_failure s"
  let ?unf = "case ?fail of Some f \<Rightarrow> f | None \<Rightarrow> \<lparr>fl_origin = Fo_Local, fl_code = Fc_ConnectionLost\<rparr>"
  let ?n = "ch_id (ss_handle s)"
  define new where "new = map (\<lambda>(token, _). Ev_PingFinished ?n token (Inl ?unf)) (ss_pings s)
       @ map (\<lambda>(_, st). Ev_StreamClosed (st_handle st) (So_Failed ?unf)) (ss_streams s)
       @ [Ev_ConnectionClosed ?n ?fail]"
  define t where "t = s\<lparr>ss_closed := True, ss_outbound := [],
       ss_resources := drop_frames (ss_outbound s) (ss_resources s), ss_pings := [], ss_streams := [],
       ss_events := ss_events s @ new\<rparr>"
  have "evolves s t"
    by (rule evolvesI [where new = new])
       (simp_all add: t_def session_inv_close [OF _ False refl new_def])
  moreover have "evolves t (session_close failure response s)"
    using False evolves_queue [of Ft_Error 0 _ _ t]
    by (auto simp: session_close_def Let_def t_def new_def split: option.split sum.split)
  ultimately show ?thesis by (rule evolves_trans)
qed

lemma goaway_ok_insert:
  "goaway_ok peer accepted ids m \<Longrightarrow> bt_get i m \<noteq> None \<Longrightarrow>
     goaway_ok peer accepted ids (bt_insert i st m)"
  by (auto simp: goaway_ok_def bt_get_insert split: option.splits)

lemma session_inv_update:
  assumes "session_inv others h s" "bt_get i (ss_streams s) = Some st"
    "stream_ok (h @ new) (ss_handle s) (ss_ids s) i st'"
    "\<And>j. j \<noteq> i \<Longrightarrow> stream_phase j (h @ new) = stream_phase j h"
    "buffers_ok (rs_limits (ss_resources s)) (ss_events s @ new)" "closings new = 0"
    "own_events (ss_handle s) new"
  shows "session_inv others (h @ new)
    (s\<lparr>ss_streams := bt_insert i st' (ss_streams s), ss_events := ss_events s @ new\<rparr>)"
proof -
  have streams: "streams_ok h (ss_handle s) (ss_ids s) (ss_streams s)"
    using assms(1) by (simp add: session_inv_def)
  have "length (bt_insert i st' (ss_streams s)) = length (ss_streams s)"
    using bt_size(2) [OF streams_okD(1) [OF streams]] assms(2) by simp
  moreover have "ss_streams s \<noteq> []" using assms(2) by auto
  ultimately show ?thesis
    using assms(1,2,5-7) streams_ok_insert [OF streams assms(3,4)]
    by (auto simp: session_inv_def goaway_ok_insert closes_last_none)
qed

lemma session_inv_stream:
  assumes "session_inv others h s" "bt_get i (ss_streams s) = Some st"
  shows "stream_ok h (ss_handle s) (ss_ids s) i st"
  using assms streams_okD(2) by (auto simp: session_inv_def)

text \<open>Changing the local half of a stream queues no event.\<close>

lemma evolves_local_update:
  assumes "bt_get i (ss_streams s) = Some st"
    "st_handle st' = st_handle st" "st_remote_open st' = st_remote_open st"
    "(st_local_end_written st \<longrightarrow> \<not> st_local_open st) \<Longrightarrow> st_local_end_written st' \<longrightarrow> \<not> st_local_open st'"
  shows "evolves s (s\<lparr>ss_streams := bt_insert i st' (ss_streams s)\<rparr>)"
proof (rule evolves_quiet)
  fix others h
  assume inv: "session_inv others h s"
  have "stream_ok (h @ []) (ss_handle s) (ss_ids s) i st'"
    using session_inv_stream [OF inv assms(1)] assms(2-4) by (simp add: stream_ok_def)
  moreover have "buffers_ok (rs_limits (ss_resources s)) (ss_events s @ [])"
    using inv by (simp add: session_inv_def)
  ultimately show "session_inv others h (s\<lparr>ss_streams := bt_insert i st' (ss_streams s)\<rparr>)"
    using session_inv_update [OF inv assms(1), of "[]" st'] by simp
qed simp_all

lemma evolves_end: "evolves s (snd (session_end owner stream s))"
proof -
  let ?i = "sh_wire_id stream"
  have body: "evolves t
      (t\<lparr>ss_resources := rs, ss_streams := bt_insert ?i (st\<lparr>st_local_open := False\<rparr>) (ss_streams t),
         ss_outbound := ss_outbound t @ [f\<lparr>wf_reservation := Some v\<rparr>]\<rparr>)"
    if st: "bt_get ?i (ss_streams t) = Some st" and f: "session_frame Ft_End ?i [] = Inr f"
      and res: "resources_outbound 28 (ss_resources t) = Some (v, rs)" for t st f v rs
  proof -
    define u where "u = snd (session_queue f t)"
    have u: "u = t\<lparr>ss_resources := rs, ss_outbound := ss_outbound t @ [f\<lparr>wf_reservation := Some v\<rparr>]\<rparr>"
      using res session_frame_ok(2) [OF f] by (simp add: u_def session_queue_def)
    have "evolves t u" unfolding u_def using f by (rule evolves_queue)
    moreover have "evolves u (u\<lparr>ss_streams := bt_insert ?i (st\<lparr>st_local_open := False\<rparr>) (ss_streams u)\<rparr>)"
      by (rule evolves_local_update) (use st in \<open>auto simp: u\<close>)
    ultimately have "evolves t (u\<lparr>ss_streams := bt_insert ?i (st\<lparr>st_local_open := False\<rparr>) (ss_streams u)\<rparr>)"
      by (rule evolves_trans)
    moreover have "u\<lparr>ss_streams := bt_insert ?i (st\<lparr>st_local_open := False\<rparr>) (ss_streams u)\<rparr>
      = t\<lparr>ss_resources := rs, ss_streams := bt_insert ?i (st\<lparr>st_local_open := False\<rparr>) (ss_streams t),
         ss_outbound := ss_outbound t @ [f\<lparr>wf_reservation := Some v\<rparr>]\<rparr>"
      by (simp add: u)
    ultimately show ?thesis by simp
  qed
  show ?thesis
    unfolding session_end_def
    by (auto split: option.split intro!: evolves_and_thread body)
qed

lemma evolves_cancel: "evolves s (snd (session_cancel owner stream reason s))"
proof -
  have body: "evolves t (snd (case session_queue out_frame t of
        (Inl _, u) \<Rightarrow> (Inr (), session_close f None u) | (Inr _, u) \<Rightarrow> (Inr (), u)))"
    if "session_frame Ft_Cancel i payload = Inr out_frame" for t i payload out_frame f
  proof -
    obtain r u where queue: "session_queue out_frame t = (r, u)" by (cases "session_queue out_frame t")
    have "evolves t u" using evolves_queue [OF that, of t] queue by simp
    with evolves_trans [OF this evolves_close] show ?thesis by (cases r) (simp_all add: queue)
  qed
  show ?thesis
    unfolding session_cancel_def Let_def
    by (auto intro!: evolves_and_thread evolves_terminate body)
qed

lemma evolves_field_quiet:
  "evolves s (s\<lparr>ss_goaway_written := b\<rparr>)"
  "evolves s (s\<lparr>ss_goaway_sent := b\<rparr>)"
  "evolves s (s\<lparr>ss_now := now\<rparr>)"
  "evolves s (s\<lparr>ss_drain_failure := f\<rparr>)"
  by (rule evolves_quiet; simp add: session_inv_def)+

lemma evolves_sent: "evolves s (session_sent kind i s)"
proof -
  define t where "t = (if kind = Ft_GoAway then s\<lparr>ss_goaway_written := True\<rparr> else s)"
  have "evolves s t" by (simp add: t_def evolves_field_quiet)
  moreover have "evolves t (case bt_get i (ss_streams t) of None \<Rightarrow> t
      | Some st \<Rightarrow> t\<lparr>ss_streams := bt_insert i (st\<lparr>st_local_end_written := \<not> st_local_open st\<rparr>) (ss_streams t)\<rparr>)"
    by (auto split: option.split intro: evolves_local_update)
  ultimately show ?thesis
    unfolding session_sent_def Let_def t_def [symmetric]
    by (auto intro: evolves_trans evolves_complete)
qed

lemma evolves_drain: "evolves s (snd (session_drain reason s))"
  unfolding session_drain_def Let_def
  by (auto intro!: evolves_and_thread evolves_queue evolves_field_quiet)

lemma evolves_send: "evolves s (snd (session_send owner stream bs s))"
  unfolding session_send_def
  by (auto intro!: evolves_and_thread evolves_queue split: option.split)

lemma evolves_insert_ping:
  assumes "bt_get token (ss_pings s) = None" "length (ss_pings s) < 64" "\<not> ss_closed s"
  shows "evolves s (s\<lparr>ss_pings := bt_insert token d (ss_pings s)\<rparr>)"
proof (rule evolves_quiet)
  fix others h
  assume inv: "session_inv others h s"
  then have "bt_sorted (ss_pings s)" by (simp add: session_inv_def)
  with assms bt_size(1) [OF this assms(1)] inv
  show "session_inv others h (s\<lparr>ss_pings := bt_insert token d (ss_pings s)\<rparr>)"
    by (simp add: session_inv_def bt_sorted_insert)
qed simp_all

lemma session_queue_frame:
  "ss_pings (snd (session_queue f s)) = ss_pings s" "ss_closed (snd (session_queue f s)) = ss_closed s"
  "ss_streams (snd (session_queue f s)) = ss_streams s" "ss_events (snd (session_queue f s)) = ss_events s"
  "ss_ids (snd (session_queue f s)) = ss_ids s"
  by (simp_all add: session_queue_def split: option.split)

lemma evolves_ping: "evolves s (snd (session_ping token timeout now s))"
proof -
  have body: "evolves t (snd (and_thread (session_queue f t) (\<lambda>_ u. (Inr (), u\<lparr>ss_pings := bt_insert token d (ss_pings u)\<rparr>))))"
    if "session_frame Ft_Ping 0 token = Inr f" "bt_get token (ss_pings t) = None"
      "length (ss_pings t) < 64" "\<not> ss_closed t" for t f d
  proof (rule evolves_and_thread)
    show "evolves t (snd (session_queue f t))" using that(1) by (rule evolves_queue)
    fix a u
    assume "session_queue f t = (Inr a, u)"
    then have "ss_pings u = ss_pings t" "ss_closed u = ss_closed t"
      using session_queue_frame [of f t] by simp_all
    with that evolves_insert_ping [of token u d]
    show "evolves u (snd (Inr (), u\<lparr>ss_pings := bt_insert token d (ss_pings u)\<rparr>))" by simp
  qed
  show ?thesis
  proof (cases "ss_closed s \<or> timeout = 0 \<or> bt_get token (ss_pings s) \<noteq> None \<or> 64 \<le> length (ss_pings s)")
    case True
    then show ?thesis by (simp add: session_ping_def) auto
  next
    case False
    then have none: "bt_get token (ss_pings s) = None" by blast
    with False body [of _ s] show ?thesis
      by (cases "instant_checked_add now timeout"; cases "session_frame Ft_Ping 0 token")
         (simp_all add: session_ping_def none)
  qed
qed

text \<open>Finishing one probe.\<close>

lemma evolves_ping_finished:
  assumes "n = ch_id (ss_handle s)" "\<not> ss_closed s"
  shows "evolves s (s\<lparr>ss_pings := bt_remove token (ss_pings s),
     ss_events := ss_events s @ [Ev_PingFinished n token r]\<rparr>)"
proof (rule evolvesI [where new = "[Ev_PingFinished n token r]"])
  fix others h
  assume inv: "session_inv others h s"
  then have "bt_sorted (ss_pings s)" by (simp add: session_inv_def)
  then have "length (bt_remove token (ss_pings s)) \<le> length (ss_pings s)" by (rule bt_size(3))
  moreover have "streams_ok (h @ [Ev_PingFinished n token r]) (ss_handle s) (ss_ids s) (ss_streams s)"
    by (rule streams_ok_unconcerned) (use inv in \<open>auto simp: session_inv_def\<close>)
  ultimately show "session_inv others (h @ [Ev_PingFinished n token r])
      (s\<lparr>ss_pings := bt_remove token (ss_pings s), ss_events := ss_events s @ [Ev_PingFinished n token r]\<rparr>)"
    using inv assms by (auto simp: session_inv_def bt_sorted_remove closes_last_snoc intro!: buffers_ok_append)
qed simp_all

lemma evolves_ping_dropped: "evolves s (s\<lparr>ss_pings := bt_remove token (ss_pings s)\<rparr>)"
proof (rule evolves_quiet)
  fix others h
  assume inv: "session_inv others h s"
  then have "bt_sorted (ss_pings s)" by (simp add: session_inv_def)
  then have "length (bt_remove token (ss_pings s)) \<le> length (ss_pings s)" by (rule bt_size(3))
  with inv show "session_inv others h (s\<lparr>ss_pings := bt_remove token (ss_pings s)\<rparr>)"
    by (auto simp: session_inv_def bt_sorted_remove)
qed simp_all

text \<open>A closed session has no probes left, so its clock finishes none.\<close>

definition finish_ping :: "bytes \<Rightarrow> Session \<Rightarrow> Session" where
  "finish_ping token s = s\<lparr>ss_pings := bt_remove token (ss_pings s),
     ss_events := ss_events s @ [Ev_PingFinished (ch_id (ss_handle s)) token
       (Inl \<lparr>fl_origin = Fo_Local, fl_code = Fc_DeadlineExceeded\<rparr>)]\<rparr>"

lemma finish_ping_frame [simp]:
  "ss_handle (finish_ping token s) = ss_handle s" "ss_context (finish_ping token s) = ss_context s"
  "ss_resources (finish_ping token s) = ss_resources s" "ss_closed (finish_ping token s) = ss_closed s"
  by (simp_all add: finish_ping_def)

lemma finish_pings_frame:
  "ss_handle (fold finish_ping xs s) = ss_handle s" "ss_context (fold finish_ping xs s) = ss_context s"
  "ss_resources (fold finish_ping xs s) = ss_resources s" "ss_closed (fold finish_ping xs s) = ss_closed s"
  by (induction xs arbitrary: s) simp_all

lemma finish_pings_events: "\<exists>new. ss_events (fold finish_ping xs s) = ss_events s @ new"
proof (induction xs arbitrary: s)
  case (Cons token xs)
  from Cons.IH [of "finish_ping token s"] show ?case by (auto simp: finish_ping_def)
qed simp

lemma evolves_finish_pings: "\<not> ss_closed s \<Longrightarrow> evolves s (fold finish_ping xs s)"
proof (induction xs arbitrary: s)
  case (Cons token xs)
  have "evolves s (finish_ping token s)"
    unfolding finish_ping_def using refl Cons.prems by (rule evolves_ping_finished)
  also have "evolves (finish_ping token s) (fold finish_ping xs (finish_ping token s))"
    using Cons.prems by (intro Cons.IH) simp
  finally show ?case by simp
qed simp

lemma evolves_tick: "evolves s (session_tick now s)"
proof -
  define t where "t = s\<lparr>ss_now := Some now\<rparr>"
  define expired where "expired = map fst (filter (\<lambda>(_, (_, deadline)). deadline \<le> now) (ss_pings s))"
  have tick: "session_tick now s = fold finish_ping expired t"
    by (simp add: session_tick_def expired_def t_def finish_ping_def [abs_def])
  have start: "evolves s t" unfolding t_def by (rule evolves_field_quiet)
  show ?thesis
  proof (cases "ss_closed s")
    case False
    then have "evolves t (fold finish_ping expired t)" by (intro evolves_finish_pings) (simp add: t_def)
    with start show ?thesis unfolding tick by (rule evolves_trans)
  next
    case True
    obtain new where new: "ss_events (fold finish_ping expired t) = ss_events s @ new"
      using finish_pings_events [of expired t] by (auto simp: t_def)
    show ?thesis
      unfolding tick
    proof (rule evolvesI [OF new])
      fix others h
      assume inv: "session_inv others h s"
      then have "expired = []" using True by (simp add: expired_def session_inv_def)
      moreover from this have "new = []" using new by (simp add: t_def)
      ultimately show "session_inv others (h @ new) (fold finish_ping expired t)"
        using inv by (simp add: t_def session_inv_def)
    qed (simp_all add: finish_pings_frame t_def)
  qed
qed

lemma evolves_receive_ping:
  assumes "\<not> ss_closed s"
  shows "evolves s (snd (session_receive_ping kind payload s))"
proof -
  have "evolves s (snd (case bt_get token (ss_pings s) of
           None \<Rightarrow> (Inr (), s)
         | Some (started, _) \<Rightarrow>
             let s1 = s\<lparr>ss_pings := bt_remove token (ss_pings s)\<rparr> in
             (case Option.bind (ss_now s1) (\<lambda>now. checked_duration_since now started) of
                None \<Rightarrow> (Inl Se_Protocol, s1)
              | Some elapsed \<Rightarrow>
                  (Inr (), s1\<lparr>ss_events := ss_events s1
                     @ [Ev_PingFinished (ch_id (ss_handle s1)) token (Inr elapsed)]\<rparr>))))" for token
    using evolves_ping_finished [OF refl assms, of token] evolves_ping_dropped [of s token]
    by (auto simp: Let_def split: option.split)
  then show ?thesis
    unfolding session_receive_ping_def Let_def
    by (auto intro!: evolves_and_thread evolves_queue)
qed

lemma evolves_receive_terminal: "evolves s (snd (session_receive_terminal kind i payload s))"
  unfolding session_receive_terminal_def Let_def
  by (auto intro!: evolves_and_thread evolves_terminate)

text \<open>An event of an active stream that stays active.\<close>

lemma session_inv_data:
  assumes "session_inv others h s" "bt_get i (ss_streams s) = Some st" "st_remote_open st"
    "data_bytes i (ss_events s) + length bs \<le> rl_buffered_bytes_per_stream (rs_limits (ss_resources s))"
  shows "session_inv others (h @ [Ev_Data (st_handle st) bs])
    (s\<lparr>ss_events := ss_events s @ [Ev_Data (st_handle st) bs]\<rparr>)"
proof -
  have ok: "stream_ok h (ss_handle s) (ss_ids s) i st" using assms(1,2) by (rule session_inv_stream)
  then have wire: "sh_wire_id (st_handle st) = i" and own: "sh_connection (st_handle st) = ch_id (ss_handle s)"
    by (simp_all add: stream_ok_def)
  have "buffers_ok (rs_limits (ss_resources s)) (ss_events s @ [Ev_Data (st_handle st) bs])"
    using assms(1,4) wire by (auto simp: session_inv_def buffers_ok_def)
  moreover have "stream_ok (h @ [Ev_Data (st_handle st) bs]) (ss_handle s) (ss_ids s) i st"
    using ok assms(3) by (simp add: stream_ok_def)
  moreover have "bt_insert i st (ss_streams s) = ss_streams s"
    using assms(1,2) streams_okD(1) by (auto simp: session_inv_def intro!: bt_insert_same)
  ultimately show ?thesis
    using session_inv_update [OF assms(1,2), of "[Ev_Data (st_handle st) bs]" st] wire own by simp
qed

lemma evolves_receive_data: "evolves s (snd (session_receive_data i payload s))"
proof (cases "bt_get i (ss_streams s)")
  case (Some st)
  have "evolves s (s\<lparr>ss_events := ss_events s @ [Ev_Data (st_handle st) payload]\<rparr>)"
    if "st_remote_open st" "data_bytes i (ss_events s) + length payload
      \<le> rl_buffered_bytes_per_stream (rs_limits (ss_resources s))"
    by (rule evolvesI [where new = "[Ev_Data (st_handle st) payload]"])
       (use Some that session_inv_data in auto)
  with Some show ?thesis
    by (auto simp: session_receive_data_def evolves_fail_stream)
qed (simp add: session_receive_data_def)

lemma evolves_receive_end: "evolves s (snd (session_receive_end i payload s))"
proof (cases "bt_get i (ss_streams s)")
  case (Some st)
  let ?t = "s\<lparr>ss_streams := bt_insert i (st\<lparr>st_remote_open := False\<rparr>) (ss_streams s),
      ss_events := ss_events s @ [Ev_RemoteEnd (st_handle st)]\<rparr>"
  have "evolves s ?t" if rem_open: "st_remote_open st"
  proof (rule evolvesI [where new = "[Ev_RemoteEnd (st_handle st)]"])
    fix others h
    assume inv: "session_inv others h s"
    have ok: "stream_ok h (ss_handle s) (ss_ids s) i st" using inv Some by (rule session_inv_stream)
    show "session_inv others (h @ [Ev_RemoteEnd (st_handle st)]) ?t"
      by (rule session_inv_update [OF inv Some])
         (use ok rem_open inv in \<open>auto simp: stream_ok_def session_inv_def buffers_ok_def\<close>)
  qed simp_all
  with Some show ?thesis
    by (auto simp: session_receive_end_def evolves_fail_stream intro: evolves_trans evolves_complete)
qed (simp add: session_receive_end_def)

section \<open>Going away\<close>

lemma session_terminate_frame [simp]:
  "ss_ids (session_terminate i out s) = ss_ids s"
  "ss_closed (session_terminate i out s) = ss_closed s"
  "ss_goaway_sent (session_terminate i out s) = ss_goaway_sent s"
  "ss_peer_goaway (session_terminate i out s) = ss_peer_goaway s"
  "bt_get j (ss_streams (session_terminate i out s)) = (if j = i then None else bt_get j (ss_streams s))"
  by (auto simp: session_terminate_def Let_def bt_get_remove split: option.split)

lemma session_terminate_goaway:
  "session_terminate i out (s\<lparr>ss_peer_goaway := p\<rparr>) = (session_terminate i out s)\<lparr>ss_peer_goaway := p\<rparr>"
  by (simp add: session_terminate_def Let_def split: option.split)

lemma fold_terminate_goaway:
  "fold (\<lambda>i. session_terminate i out) xs (s\<lparr>ss_peer_goaway := p\<rparr>)
     = (fold (\<lambda>i. session_terminate i out) xs s)\<lparr>ss_peer_goaway := p\<rparr>"
  by (induction xs arbitrary: s) (simp_all add: session_terminate_goaway)

lemma fold_terminate_frame:
  "ss_ids (fold (\<lambda>i. session_terminate i out) xs s) = ss_ids s"
  "bt_get j (ss_streams (fold (\<lambda>i. session_terminate i out) xs s))
     = (if j \<in> set xs then None else bt_get j (ss_streams s))"
  by (induction xs arbitrary: s) simp_all

lemma evolves_peer_goaway:
  assumes "\<And>i. bt_get i (ss_streams s) \<noteq> None \<Longrightarrow> ids_is_local i (ss_ids s) \<Longrightarrow> i \<le> bound"
  shows "evolves s (s\<lparr>ss_peer_goaway := Some bound\<rparr>)"
  by (rule evolves_quiet) (use assms in \<open>simp_all add: session_inv_def goaway_ok_def\<close>)

text \<open>
  Recording the peer's bound and then refusing the streams above it keeps the invariant as a whole;
  in between, the bound does not hold yet.
\<close>

lemma evolves_refused:
  fixes s :: Session and bound :: u32
  defines "refused \<equiv> filter (\<lambda>i. ids_is_local i (ss_ids s) \<and> i > bound) (bt_keys (ss_streams s))"
  shows "evolves s (fold (\<lambda>i. session_terminate i (So_Failed f)) refused (s\<lparr>ss_peer_goaway := Some bound\<rparr>))"
proof -
  let ?t = "fold (\<lambda>i. session_terminate i (So_Failed f)) refused s"
  have "evolves s ?t" by (intro evolves_fold evolves_terminate) simp
  moreover have "evolves ?t (?t\<lparr>ss_peer_goaway := Some bound\<rparr>)"
  proof (rule evolves_peer_goaway)
    fix i
    assume "bt_get i (ss_streams ?t) \<noteq> None" "ids_is_local i (ss_ids ?t)"
    then have "i \<notin> set refused" "bt_get i (ss_streams s) \<noteq> None" "ids_is_local i (ss_ids s)"
      by (auto simp: fold_terminate_frame split: if_splits)
    moreover from this have "i \<in> set (bt_keys (ss_streams s))"
      by (force simp: bt_keys_def bt_get_def dest: map_of_SomeD)
    ultimately show "i \<le> bound" by (auto simp: refused_def)
  qed
  ultimately show ?thesis by (simp only: fold_terminate_goaway) (rule evolves_trans)
qed

lemma evolves_receive_goaway: "evolves s (snd (session_receive_goaway payload s))"
proof -
  have body: "evolves t (snd (session_drain Sr_Normal
      (fold (\<lambda>i. session_terminate i (So_Failed f))
        (filter (\<lambda>i. ids_is_local i (ss_ids t) \<and> i > bound) (bt_keys (ss_streams t)))
        (t\<lparr>ss_peer_goaway := Some bound\<rparr>))))" for t f bound
    by (rule evolves_trans [OF evolves_refused evolves_drain])
  have failed: "evolves t (snd (session_drain Sr_Normal
      (fold (\<lambda>i. session_terminate i (So_Failed f))
        (filter (\<lambda>i. ids_is_local i (ss_ids t) \<and> i > bound) (bt_keys (ss_streams t)))
        (t\<lparr>ss_peer_goaway := Some bound, ss_drain_failure := d\<rparr>))))" for t f bound d
  proof -
    have swap: "t\<lparr>ss_peer_goaway := Some bound, ss_drain_failure := d\<rparr>
        = t\<lparr>ss_drain_failure := d, ss_peer_goaway := Some bound\<rparr>" by simp
    show ?thesis
      unfolding swap
      using evolves_trans [OF evolves_field_quiet(4) [of t d] body [of "t\<lparr>ss_drain_failure := d\<rparr>" f bound]]
      by simp
  qed
  show ?thesis
    unfolding session_receive_goaway_def
    by (auto simp: Let_def intro!: evolves_and_thread body failed)
qed

section \<open>Opening\<close>

lemma session_inv_ids:
  assumes "session_inv others h s" "ids_history ls rs ids'"
    "\<And>j. ids_was_created j (ss_ids s) \<Longrightarrow> ids_was_created j ids'"
    "\<And>j. ids_is_local j ids' = ids_is_local j (ss_ids s)"
  shows "session_inv others h (s\<lparr>ss_ids := ids'\<rparr>)"
proof -
  have "streams_ok h (ss_handle s) ids' (ss_streams s)"
    using assms(1,3) streams_ok_ids by (auto simp: session_inv_def)
  moreover have "ids_ok ids' (ss_accepted_remote s)"
    using assms by (auto simp: session_inv_def ids_ok_def)
  moreover have "goaway_ok (ss_peer_goaway s) (ss_accepted_remote s) ids' (ss_streams s)"
    using assms(1,4) by (auto simp: session_inv_def goaway_ok_def split: option.splits)
  ultimately show ?thesis using assms(1) by (simp add: session_inv_def)
qed

text \<open>
  A stream of the peer gets the greatest number the peer has used, so the bound to announce, which
  becomes that number, covers the streams accepted before.
\<close>

lemma goaway_ok_add:
  assumes "streams_ok h c ids m" "goaway_ok None accepted ids m"
    "\<not> ids_is_local i ids \<Longrightarrow> i = si_greatest_remote ids"
  shows "goaway_ok None (if ids_is_local i ids then accepted else i) ids (bt_insert i st m)"
proof -
  have "j \<le> si_greatest_remote ids" if "bt_get j m \<noteq> None" "\<not> ids_is_local j ids" for j
    using that streams_okD(2) [OF assms(1), of j] by (auto simp: stream_ok_def ids_was_created_def)
  then show ?thesis
    using assms(2,3) by (auto simp: goaway_ok_def bt_get_insert)
qed

lemma session_inv_add:
  assumes "session_inv others h s" "i \<noteq> 0" "bt_get i (ss_streams s) = None" "stream_phase i h = Ph_Idle"
    "ids_was_created i (ss_ids s)" "\<not> ss_closed s" "ss_peer_goaway s = None"
    "length (ss_streams s) < rl_streams_per_connection (rs_limits (ss_resources s))"
    and newest: "\<not> ids_is_local i (ss_ids s) \<Longrightarrow> i = si_greatest_remote (ss_ids s)"
    and stream_def: "stream = stream_handle_new (ss_handle s) owner i"
  shows "\<exists>s'. session_add i owner p s = (Inr stream, s') \<and>
    ss_events s' = ss_events s @ [Ev_StreamOpened (ss_context s) stream p] \<and>
    session_inv others (h @ [Ev_StreamOpened (ss_context s) stream p]) s' \<and>
    ss_handle s' = ss_handle s \<and> ss_resources s' = ss_resources s \<and> ss_outbound s' = ss_outbound s \<and>
    ss_closed s' = ss_closed s"
proof -
  let ?st = "\<lparr>st_handle = stream, st_local_open = True, st_remote_open = True, st_local_end_written = False\<rparr>"
  let ?h = "h @ [Ev_StreamOpened (ss_context s) stream p]"
  have streams: "streams_ok h (ss_handle s) (ss_ids s) (ss_streams s)"
    using assms(1) by (simp add: session_inv_def)
  have "streams_ok ?h (ss_handle s) (ss_ids s) (bt_insert i ?st (ss_streams s))"
    by (rule streams_ok_insert [OF streams])
       (use assms(4,5) in \<open>auto simp: stream_ok_def stream_def stream_handle_new_def\<close>)
  moreover have "length (bt_insert i ?st (ss_streams s)) = Suc (length (ss_streams s))"
    using streams_okD(1) [OF streams] assms(3) by (rule bt_size(1))
  moreover have "goaway_ok None (if ids_is_local i (ss_ids s) then ss_accepted_remote s else i) (ss_ids s)
      (bt_insert i ?st (ss_streams s))"
    using goaway_ok_add [OF streams _ newest] assms(1,7) by (simp add: session_inv_def)
  ultimately show ?thesis
    using assms(1-2,5-8)
    by (auto simp: session_add_def Let_def stream_def stream_handle_new_def session_inv_def ids_ok_def
        closes_last_snoc split: if_splits
        intro!: buffers_ok_append)
qed

text \<open>A reservation taken before the frame exists, handed to the frame or released.\<close>

lemma session_inv_reserve:
  assumes "session_inv others h s" "resources_outbound n (ss_resources s) = Some (v, rs)"
  shows "session_inv (others + n) h (s\<lparr>ss_resources := rs\<rparr>)"
  using assms(1) queue_ok_reserve(1) [OF _ assms(2)] resources_outbound_Some(3) [OF assms(2)]
  by (simp add: session_inv_def)

lemma session_inv_release:
  assumes "session_inv (others + n) h s"
  shows "session_inv others h (s\<lparr>ss_resources := drop_outbound (Some n) (ss_resources s)\<rparr>)"
  using assms queue_ok_release by (simp add: session_inv_def)

lemma session_inv_push:
  assumes "session_inv (others + n) h s" "queued_ok f" "wf_reservation f = Some n"
  shows "session_inv others h (s\<lparr>ss_outbound := ss_outbound s @ [f]\<rparr>)"
  using assms queue_ok_push [of others n "ss_resources s" "ss_outbound s" f] by (simp add: session_inv_def)

text \<open>
  The reserved part keeps the invariant with the reservation counted among the other holders before,
  and released or moved into the queue after.
\<close>

lemma session_add_events:
  assumes "session_add i owner p s = (r, s')"
  shows "ss_handle s' = ss_handle s \<and> ss_context s' = ss_context s" "ss_resources s' = ss_resources s" "ss_closed s' = ss_closed s"
    "\<exists>new. ss_events s' = ss_events s @ new"
  using assms by (auto simp: session_add_def Let_def split: if_splits)

lemma session_open_reserved_inv:
  assumes "session_inv (others + n) h s" "n = length payload + 28" "\<not> ss_closed s" "ss_peer_goaway s = None"
    "length (ss_streams s) < rl_streams_per_connection (rs_limits (ss_resources s))"
    "session_open_reserved n payload owner protocol s = (r, s')"
  shows "\<exists>new. ss_events s' = ss_events s @ new \<and> session_inv others (h @ new) s'"
proof -
  obtain ls rs where hist: "ids_history ls rs (ss_ids s)"
    using assms(1) by (auto simp: session_inv_def ids_ok_def)
  obtain a ids where alloc: "ids_allocate (ss_ids s) = (a, ids)" by (cases "ids_allocate (ss_ids s)")
  show ?thesis
  proof (cases a)
    case (Inl e)
    then have "ids = ss_ids s" using alloc by (auto simp: ids_allocate_def split: option.splits)
    then obtain d t where drain: "session_drain Sr_IdExhausted s = (d, t)"
      and s': "s' = t\<lparr>ss_resources := drop_outbound (Some n) (ss_resources t)\<rparr>"
      using assms(6) alloc Inl
      by (auto simp: session_open_reserved_def split: prod.splits sum.splits)
    obtain new where "ss_events t = ss_events s @ new" "session_inv (others + n) (h @ new) t"
      using evolves_drain [of s Sr_IdExhausted] assms(1) drain by (auto simp: evolves_def)
    then show ?thesis using session_inv_release s' by auto
  next
    case (Inr i)
    note fresh = ids_allocate_fresh [OF hist alloc [unfolded Inr]]
    let ?t = "s\<lparr>ss_ids := ids\<rparr>"
    have inv: "session_inv (others + n) h ?t"
      using session_inv_ids [OF assms(1) ids_history_allocate(1) [OF hist alloc [unfolded Inr]]] fresh by simp
    have idle: "bt_get i (ss_streams s) = None" "stream_phase i h = Ph_Idle"
      using assms(1) streams_okD(4) fresh(3) by (auto simp: session_inv_def)
    obtain stream t where add: "session_add i owner protocol ?t = (Inr stream, t)"
      and t: "ss_events t = ss_events s @ [Ev_StreamOpened (ss_context s) stream protocol]"
        "session_inv (others + n) (h @ [Ev_StreamOpened (ss_context s) stream protocol]) t"
      using session_inv_add [OF inv fresh(1), of _ owner protocol] idle fresh(2,4,5) assms(3-5) by auto
    show ?thesis
    proof (cases "session_frame Ft_Open i payload")
      case (Inl e)
      then show ?thesis
        using assms(6) alloc Inr add t session_inv_release
        by (auto simp: session_open_reserved_def)
    next
      case frame: (Inr f)
      have "queued_ok (f\<lparr>wf_reservation := Some n\<rparr>)"
        using session_frame_ok(1) [OF frame] assms(2) by simp
      then show ?thesis
        using assms(6) alloc Inr add t session_inv_push [OF t(2), of "f\<lparr>wf_reservation := Some n\<rparr>"] frame
        by (auto simp: session_open_reserved_def)
    qed
  qed
qed

lemma session_open_reserved_frame:
  assumes "session_open_reserved n payload owner protocol s = (r, s')"
  shows "ss_handle s' = ss_handle s \<and> ss_context s' = ss_context s \<and>
     rs_limits (ss_resources s') = rs_limits (ss_resources s) \<and>
     rs_connections (ss_resources s') = rs_connections (ss_resources s) \<and>
     ct_limit (rs_outbound (ss_resources s')) = ct_limit (rs_outbound (ss_resources s)) \<and>
    (ss_closed s \<longrightarrow> ss_closed s') \<and> (\<exists>new. ss_events s' = ss_events s @ new)"
proof -
  obtain a ids where alloc: "ids_allocate (ss_ids s) = (a, ids)" by (cases "ids_allocate (ss_ids s)")
  show ?thesis
  proof (cases a)
    case (Inl e)
    obtain d t where drain: "session_drain Sr_IdExhausted (s\<lparr>ss_ids := ids\<rparr>) = (d, t)"
      by (cases "session_drain Sr_IdExhausted (s\<lparr>ss_ids := ids\<rparr>)")
    then have "s' = t\<lparr>ss_resources := drop_outbound (Some n) (ss_resources t)\<rparr>"
      using assms alloc Inl by (auto simp: session_open_reserved_def split: sum.splits)
    then show ?thesis
      using evolves_drain [of "s\<lparr>ss_ids := ids\<rparr>" Sr_IdExhausted] drain by (auto simp: evolves_def)
  next
    case (Inr i)
    obtain d t where add: "session_add i owner protocol (s\<lparr>ss_ids := ids\<rparr>) = (d, t)"
      by (cases "session_add i owner protocol (s\<lparr>ss_ids := ids\<rparr>)")
    from session_add_events [OF add]
    have "ss_handle t = ss_handle s" "ss_context t = ss_context s" "ss_resources t = ss_resources s"
      "ss_closed t = ss_closed s" "\<exists>new. ss_events t = ss_events s @ new" by simp_all
    then show ?thesis
      using assms alloc Inr add
      by (auto simp: session_open_reserved_def split: sum.splits)
  qed
qed

lemma evolves_open: "evolves s (snd (session_open registry owner s))"
proof -
  have body: "evolves t (snd (session_open_reserved v payload owner protocol (t\<lparr>ss_resources := rs\<rparr>)))"
    if t: "\<not> ss_closed t" "ss_peer_goaway t = None"
      "length (ss_streams t) < rl_streams_per_connection (rs_limits (ss_resources t))"
      and res: "resources_outbound (length payload + 28) (ss_resources t) = Some (v, rs)"
    for t v rs protocol payload
  proof -
    let ?t = "t\<lparr>ss_resources := rs\<rparr>"
    note reserved = resources_outbound_Some [OF res]
    obtain r u where out: "session_open_reserved v payload owner protocol ?t = (r, u)"
      by (cases "session_open_reserved v payload owner protocol ?t")
    have inv: "\<exists>new. ss_events u = ss_events t @ new \<and> session_inv others (h @ new) u"
      if "session_inv others h t" for others h
      using session_open_reserved_inv [OF session_inv_reserve [OF that res] refl _ _ _ out [unfolded reserved(1)]]
        t reserved by simp
    from session_open_reserved_frame [OF out] obtain new where new: "ss_events u = ss_events t @ new"
      by auto
    have "evolves t u"
    proof (rule evolvesI [OF new])
      show "session_inv others (h @ new) u" if "session_inv others h t" for others h
        using inv [OF that] new by auto
    qed (use session_open_reserved_frame [OF out] reserved(3,4,6) in simp_all)
    then show ?thesis by (simp add: out)
  qed
  show ?thesis
    unfolding session_open_def
    by (auto intro!: evolves_and_thread body split: option.split)
qed

lemma evolves_accepted_ids:
  assumes "ids_accept i (ss_ids s) = (r, ids)"
  shows "evolves s (s\<lparr>ss_ids := ids\<rparr>)"
proof (rule evolves_quiet)
  fix others h
  assume inv: "session_inv others h s"
  then obtain ls rs where hist: "ids_history ls rs (ss_ids s)"
    by (auto simp: session_inv_def ids_ok_def)
  show "session_inv others h (s\<lparr>ss_ids := ids\<rparr>)"
  proof (cases r)
    case (Inl e)
    with assms inv show ?thesis by (auto simp: ids_accept_def split: if_splits)
  next
    case (Inr u)
    then have accept: "ids_accept i (ss_ids s) = (Inr (), ids)" using assms by simp
    show ?thesis
      using session_inv_ids [OF inv ids_history_accept(1) [OF hist accept]] ids_accept_fresh [OF hist accept]
      by simp
  qed
qed simp_all

lemma evolves_receive_open:
  assumes "\<not> ss_closed s"
  shows "evolves s (snd (session_receive_open i payload registry s))"
proof -
  obtain r ids where accept: "ids_accept i (ss_ids s) = (r, ids)" by (cases "ids_accept i (ss_ids s)")
  let ?t = "s\<lparr>ss_ids := ids\<rparr>"
  note moved = evolves_accepted_ids [OF accept]
  have refuse: "evolves s (snd (session_refuse i code ?t))" for code
    using moved evolves_refuse by (rule evolves_trans)
  have add: "evolves s (snd (session_add i owner p ?t))"
    if r: "r = Inr ()" and guard: "ss_peer_goaway s = None"
      "length (ss_streams s) < rl_streams_per_connection (rs_limits (ss_resources s))" for owner p
  proof -
    obtain d u where out: "session_add i owner p ?t = (d, u)" by (cases "session_add i owner p ?t")
    note frame = session_add_events [OF out]
    then obtain new where new: "ss_events u = ss_events s @ new" by auto
    have "evolves s u"
    proof (rule evolvesI [OF new])
      fix others h
      assume inv: "session_inv others h s"
      then obtain ls rs where hist: "ids_history ls rs (ss_ids s)"
        by (auto simp: session_inv_def ids_ok_def)
      note fresh = ids_accept_fresh [OF hist accept [unfolded r]]
      have idle: "bt_get i (ss_streams s) = None" "stream_phase i h = Ph_Idle"
        using inv streams_okD(4) fresh(3) by (auto simp: session_inv_def)
      have "session_inv others h ?t"
        using session_inv_ids [OF inv ids_history_accept(1) [OF hist accept [unfolded r]]] fresh by simp
      moreover have "i = si_greatest_remote ids"
        using accept r by (auto simp: ids_accept_def split: if_splits)
      ultimately show "session_inv others (h @ new) u"
        using session_inv_add [of others h ?t i _ owner p] fresh(1,5) idle guard assms out new by auto
    qed (use frame in simp_all)
    then show ?thesis by (simp add: out)
  qed
  show ?thesis
    unfolding session_receive_open_def accept
    using moved add refuse
    by (cases r) (auto simp: Let_def split: sum.split option.split intro!: evolves_and_thread)
qed

lemma evolves_receive_parts:
  assumes "\<not> ss_closed s"
  shows "evolves s (snd (session_receive_parts kind i payload registry s))"
proof -
  have "evolves s (snd (and_thread (map_err (\<lambda>_. Se_Protocol) (error_payload_decode payload), s)
      (\<lambda>error s. (Inr (), session_close (f error) None s))))" for f
    by (intro evolves_and_thread) (auto intro: evolves_close)
  then show ?thesis
    unfolding session_receive_parts_def
    using assms
    by (simp add: evolves_receive_goaway evolves_receive_ping evolves_receive_terminal
        evolves_receive_end evolves_receive_data evolves_receive_open)
qed

lemma session_tick_closed: "ss_closed (session_tick now s) = ss_closed s"
proof -
  have "ss_closed (fold (\<lambda>token s. s\<lparr>ss_pings := bt_remove token (ss_pings s),
      ss_events := ss_events s @ [g token s]\<rparr>) xs t) = ss_closed t" for xs t and g :: "bytes \<Rightarrow> Session \<Rightarrow> Event"
    by (induction xs arbitrary: t) simp_all
  then show ?thesis by (simp add: session_tick_def)
qed

lemma evolves_receive: "evolves s (snd (session_receive frame registry now s))"
proof (cases "ss_closed s")
  case False
  let ?t = "session_tick now s" and ?h = "wf_header (verified frame)"
  have tick: "evolves s ?t" "\<not> ss_closed ?t" using False by (simp_all add: evolves_tick session_tick_closed)
  obtain r u where parts: "session_receive_parts (fh_frame_type ?h) (fh_stream_id ?h)
      (wf_payload (verified frame)) registry ?t = (r, u)"
    by (cases "session_receive_parts (fh_frame_type ?h) (fh_stream_id ?h)
      (wf_payload (verified frame)) registry ?t")
  have "evolves ?t u"
    using evolves_receive_parts [OF tick(2), of "fh_frame_type ?h" "fh_stream_id ?h"
        "wf_payload (verified frame)" registry] parts by simp
  with tick(1) have u: "evolves s u" by (rule evolves_trans)
  show ?thesis
    using False evolves_trans [OF tick(1) evolves_close] evolves_trans [OF u evolves_close] u parts
    by (cases r) (auto simp: session_receive_def Let_def)
qed (simp add: session_receive_def)

lemmas session_evolves = evolves_open evolves_send evolves_end evolves_cancel evolves_sent
  evolves_drain evolves_ping evolves_tick evolves_receive evolves_close

section \<open>Delivery keeps the invariant\<close>

lemma position_Some:
  assumes "position p xs = Some k"
  shows "k < length xs" "p (xs ! k)" "\<forall>j < k. \<not> p (xs ! j)"
proof -
  from assms obtain y ys where split: "dropWhile (\<lambda>x. \<not> p x) xs = y # ys"
    and k: "k = length (takeWhile (\<lambda>x. \<not> p x) xs)"
    by (auto simp: position_def split: list.splits)
  have xs: "xs = takeWhile (\<lambda>x. \<not> p x) xs @ y # ys" by (metis split takeWhile_dropWhile_id)
  then show "k < length xs" by (metis k length_append less_add_same_cancel1 list.size(4) zero_less_Suc add_Suc_right)
  have "xs ! k = y" using xs k by (metis nth_append_length)
  moreover have "p y" using split by (metis dropWhile_eq_Cons_conv)
  ultimately show "p (xs ! k)" by simp
  show "\<forall>j < k. \<not> p (xs ! j)"
    using k by (metis nth_mem set_takeWhileD takeWhile_nth)
qed

lemma data_bytes_remove_at: "data_bytes i (remove_at k es) \<le> data_bytes i es"
proof -
  have "data_bytes i es = data_bytes i (take k es) + data_bytes i (drop k es)"
    by (metis append_take_drop_id data_bytes_simps(2))
  moreover have "data_bytes i (drop (Suc k) es) \<le> data_bytes i (drop k es)"
    by (cases "k < length es") (simp_all add: Cons_nth_drop_Suc [symmetric])
  ultimately show ?thesis by (simp add: remove_at_def)
qed

lemma session_inv_events:
  assumes "session_inv others h s" "\<And>i. data_bytes i es \<le> data_bytes i (ss_events s)"
  shows "session_inv others h (s\<lparr>ss_events := es\<rparr>)"
  using assms by (auto simp: session_inv_def buffers_ok_def intro: order_trans)

lemma session_pop_event_inv:
  assumes "session_inv others h s"
  shows "session_inv others h (snd (session_pop_event s))"
  using assms session_inv_events [OF assms]
  by (auto simp: session_pop_event_def split: list.split)

lemma session_pop_stream_event_inv:
  assumes "session_inv others h s"
  shows "session_inv others h (snd (session_pop_stream_event owner s))"
  using assms session_inv_events [OF assms data_bytes_remove_at]
  by (auto simp: session_pop_stream_event_def split: option.split)

end
