(* ===== verification/Scheduler.thy ===== *)
theory Scheduler
  imports Session_Invariant "HOL-Library.Multiset"
begin

text \<open>
  Output scheduling of a session (\<open>session/scheduler.rs\<close>). A frame is \<open>sendable\<close> when no frame of its
  stream is queued before it and, for OPEN and GOAWAY, no OPEN is queued before it. The scheduler
  always takes a sendable frame, so every stream keeps its order, OPEN frames leave in the order of
  their numbers and GOAWAY overtakes no OPEN; it takes one whenever anything is queued; and it takes
  the sendable frame of a given stream before it serves any other stream twice.
\<close>

section \<open>Which frames the loop considers\<close>

abbreviation is_open_frame :: "WireFrame \<Rightarrow> bool" where
  "is_open_frame f \<equiv> frame_kind f = Ft_Open"

definition sendable_after :: "WireFrame list \<Rightarrow> WireFrame \<Rightarrow> bool" where
  "sendable_after earlier f \<longleftrightarrow>
     frame_id f \<notin> frame_id ` set earlier \<and>
     (frame_kind f \<in> {Ft_Open, Ft_GoAway} \<longrightarrow> (\<forall>g \<in> set earlier. \<not> is_open_frame g))"

definition sendable :: "WireFrame list \<Rightarrow> WireFrame \<Rightarrow> bool" where
  "sendable fs f \<longleftrightarrow> (\<exists>earlier later. fs = earlier @ f # later \<and> sendable_after earlier f)"

lemma position_None: "position p xs = None \<longleftrightarrow> (\<forall>x \<in> set xs. \<not> p x)"
proof (cases "dropWhile (\<lambda>x. \<not> p x) xs")
  case Nil
  then have "\<forall>x \<in> set xs. \<not> p x" by (simp only: dropWhile_eq_Nil_conv)
  then show ?thesis unfolding position_def Nil by simp
next
  case (Cons y ys)
  then have "\<not> (\<forall>x \<in> set xs. \<not> p x)"
    by (metis dropWhile_eq_Nil_conv list.discI)
  then show ?thesis unfolding position_def Cons by simp
qed

lemma eligible_from_mem:
  "(i, k) \<in> set (eligible_from fo b seen fs) \<longleftrightarrow>
     (\<exists>j < length fs. k = b + j \<and> frame_id (fs ! j) = i \<and> i \<notin> seen \<and>
        i \<notin> frame_id ` set (take j fs) \<and>
        (is_open_frame (fs ! j) \<longrightarrow> fo = Some k) \<and>
        (frame_kind (fs ! j) = Ft_GoAway \<longrightarrow> \<not> (\<exists>m. fo = Some m \<and> m < k)))"
proof (induction fs arbitrary: b seen)
  case Nil
  then show ?case by simp
next
  case (Cons f fs)
  let ?P = "\<lambda>j. k = b + j \<and> frame_id ((f # fs) ! j) = i \<and> i \<notin> seen \<and>
        i \<notin> frame_id ` set (take j (f # fs)) \<and>
        (is_open_frame ((f # fs) ! j) \<longrightarrow> fo = Some k) \<and>
        (frame_kind ((f # fs) ! j) = Ft_GoAway \<longrightarrow> \<not> (\<exists>m. fo = Some m \<and> m < k))"
  have split: "(\<exists>j < length (f # fs). ?P j) \<longleftrightarrow> ?P 0 \<or> (\<exists>j < length fs. ?P (Suc j))"
    by (auto simp: less_Suc_eq_0_disj)
  have rest: "(\<exists>j < length fs. ?P (Suc j)) \<longleftrightarrow>
      (i, k) \<in> set (eligible_from fo (Suc b) (insert (frame_id f) seen) fs)"
    unfolding Cons.IH by auto
  have here: "?P 0 \<longleftrightarrow> k = b \<and> frame_id f = i \<and> i \<notin> seen \<and> (is_open_frame f \<longrightarrow> fo = Some k) \<and>
      (frame_kind f = Ft_GoAway \<longrightarrow> \<not> (\<exists>m. fo = Some m \<and> m < k))" by auto
  show ?case
    unfolding split rest here
    by (auto simp: Let_def split: option.split)
qed

lemma first_open_at:
  assumes "k < length fs" "is_open_frame (fs ! k)"
  shows "position is_open_frame fs = Some k \<longleftrightarrow> (\<forall>g \<in> set (take k fs). \<not> is_open_frame g)"
proof
  assume "position is_open_frame fs = Some k"
  from position_Some(3) [OF this] show "\<forall>g \<in> set (take k fs). \<not> is_open_frame g"
    by (auto simp: in_set_conv_nth)
next
  assume none: "\<forall>g \<in> set (take k fs). \<not> is_open_frame g"
  have "position is_open_frame fs \<noteq> None" using assms by (auto simp: position_None)
  then obtain m where m: "position is_open_frame fs = Some m" by blast
  have "\<not> m < k"
  proof
    assume "m < k"
    then have "fs ! m \<in> set (take k fs)"
      using position_Some(1) [OF m] by (auto simp: in_set_conv_nth intro!: exI [of _ m])
    with none position_Some(2) [OF m] show False by blast
  qed
  moreover have "\<not> k < m" using position_Some(3) [OF m] assms(2) by blast
  ultimately show "position is_open_frame fs = Some k" using m by simp
qed

lemma no_open_before:
  assumes "k < length fs"
  shows "\<not> (\<exists>m. position is_open_frame fs = Some m \<and> m < k)
    \<longleftrightarrow> (\<forall>g \<in> set (take k fs). \<not> is_open_frame g)"
proof -
  have "(\<exists>m. position is_open_frame fs = Some m \<and> m < k) \<longleftrightarrow> (\<exists>g \<in> set (take k fs). is_open_frame g)"
  proof
    assume "\<exists>m. position is_open_frame fs = Some m \<and> m < k"
    then obtain m where "position is_open_frame fs = Some m" "m < k" by blast
    moreover from this have "fs ! m \<in> set (take k fs)"
      using position_Some(1) by (auto simp: in_set_conv_nth intro!: exI [of _ m])
    ultimately show "\<exists>g \<in> set (take k fs). is_open_frame g" using position_Some(2) by blast
  next
    assume "\<exists>g \<in> set (take k fs). is_open_frame g"
    then obtain n where n: "n < k" "n < length fs" "is_open_frame (fs ! n)"
      by (auto simp: in_set_conv_nth)
    then have "position is_open_frame fs \<noteq> None" by (auto simp: position_None)
    then obtain m where m: "position is_open_frame fs = Some m" by blast
    then have "m \<le> n" using position_Some(3) [OF m] n(3) by (meson not_le)
    with m n(1) show "\<exists>m. position is_open_frame fs = Some m \<and> m < k" by auto
  qed
  then show ?thesis by blast
qed

definition eligible :: "WireFrame list \<Rightarrow> (u32 \<times> nat) list" where
  "eligible fs = eligible_from (position is_open_frame fs) 0 {} fs"

lemma eligible_mem:
  "(i, k) \<in> set (eligible fs) \<longleftrightarrow>
     k < length fs \<and> frame_id (fs ! k) = i \<and> sendable_after (take k fs) (fs ! k)"
proof (cases "k < length fs")
  case True
  let ?none = "\<forall>g \<in> set (take k fs). \<not> is_open_frame g"
  have "(i, k) \<in> set (eligible fs) \<longleftrightarrow>
      frame_id (fs ! k) = i \<and> i \<notin> frame_id ` set (take k fs) \<and>
      (is_open_frame (fs ! k) \<longrightarrow> position is_open_frame fs = Some k) \<and>
      (frame_kind (fs ! k) = Ft_GoAway \<longrightarrow> \<not> (\<exists>m. position is_open_frame fs = Some m \<and> m < k))"
    unfolding eligible_def eligible_from_mem using True by simp
  also have "\<dots> \<longleftrightarrow> frame_id (fs ! k) = i \<and> i \<notin> frame_id ` set (take k fs) \<and>
      (is_open_frame (fs ! k) \<longrightarrow> ?none) \<and> (frame_kind (fs ! k) = Ft_GoAway \<longrightarrow> ?none)"
    using first_open_at [OF True] no_open_before [OF True] by argo
  finally show ?thesis
    using True by (auto simp: sendable_after_def)
next
  case False
  then show ?thesis by (auto simp: eligible_def eligible_from_mem)
qed

lemma sendable_eligible:
  assumes "sendable fs f"
  shows "\<exists>k. (frame_id f, k) \<in> set (eligible fs)"
proof -
  from assms obtain earlier later where fs: "fs = earlier @ f # later" and ok: "sendable_after earlier f"
    by (auto simp: sendable_def)
  then have "(frame_id f, length earlier) \<in> set (eligible fs)"
    by (simp add: eligible_mem nth_append)
  then show ?thesis by blast
qed

lemma min_by_key_None: "min_by_key xs = None \<longleftrightarrow> xs = []"
  by (cases xs) (auto split: option.split)

lemma min_by_key_Some:
  "min_by_key xs = Some x \<Longrightarrow> x \<in> set xs \<and> (\<forall>y \<in> set xs. fst x \<le> fst y)"
proof (induction xs arbitrary: x)
  case (Cons a xs)
  show ?case
  proof (cases "min_by_key xs")
    case None
    with Cons.prems show ?thesis by (simp add: min_by_key_None)
  next
    case (Some y)
    with Cons.IH [OF Some] Cons.prems show ?thesis
      by (auto split: if_splits)
  qed
qed simp

section \<open>What the scheduler takes\<close>

text \<open>The cyclic order: numbers above the last one served first, then from the start.\<close>

definition turn :: "u32 option \<Rightarrow> u32 \<Rightarrow> nat" where
  "turn served i =
     (case served of None \<Rightarrow> unat i | Some l \<Rightarrow> if i > l then unat i else unat i + 2 ^ 32)"

definition choice :: "u32 option \<Rightarrow> WireFrame list \<Rightarrow> (u32 \<times> nat) option" where
  "choice served fs =
     (let above = filter (\<lambda>(i, _). case served of None \<Rightarrow> True | Some l \<Rightarrow> i > l) (eligible fs)
      in case min_by_key above of None \<Rightarrow> min_by_key (eligible fs) | Some n \<Rightarrow> Some n)"

lemma turn_bound: "unat i < 2 ^ 32" for i :: u32
  using unsigned_less [of i] by simp

lemma choice_min:
  assumes "choice served fs = Some (i, k)"
  shows "(i, k) \<in> set (eligible fs)" "(j, m) \<in> set (eligible fs) \<Longrightarrow> turn served i \<le> turn served j"
proof -
  let ?above = "filter (\<lambda>(i, _). case served of None \<Rightarrow> True | Some l \<Rightarrow> i > l) (eligible fs)"
  show "(i, k) \<in> set (eligible fs)"
    using assms min_by_key_Some [of ?above "(i, k)"] min_by_key_Some [of "eligible fs" "(i, k)"]
    by (auto simp: choice_def Let_def split: option.splits)
  assume j: "(j, m) \<in> set (eligible fs)"
  show "turn served i \<le> turn served j"
  proof (cases "?above = []")
    case True
    then have "min_by_key (eligible fs) = Some (i, k)"
      using assms by (simp add: choice_def Let_def min_by_key_None)
    then have "i \<le> j" using min_by_key_Some j by fastforce
    moreover have "\<not> (case served of None \<Rightarrow> True | Some l \<Rightarrow> j > l)"
      using True j by (auto simp: filter_empty_conv)
    ultimately show ?thesis
      using turn_bound [of i] by (auto simp: turn_def word_le_nat_alt split: option.splits)
  next
    case False
    then obtain x where x: "min_by_key ?above = Some x" using min_by_key_None by fastforce
    then have "x = (i, k)" using assms by (simp add: choice_def Let_def)
    with min_by_key_Some [OF x] have "case served of None \<Rightarrow> True | Some l \<Rightarrow> i > l"
      and least: "\<forall>(j, m) \<in> set ?above. i \<le> j" by auto
    then show ?thesis
      using j turn_bound [of i] by (fastforce simp: turn_def word_le_nat_alt split: option.splits)
  qed
qed

lemma choice_exists:
  assumes "fs \<noteq> []"
  shows "\<exists>i k. choice served fs = Some (i, k)"
proof -
  have "(frame_id (hd fs), 0) \<in> set (eligible fs)"
    using assms by (simp add: eligible_mem sendable_after_def hd_conv_nth)
  then have "eligible fs \<noteq> []" by auto
  then show ?thesis
    by (auto simp: choice_def Let_def min_by_key_None split: option.split)
       (metis min_by_key_None not_None_eq surj_pair)
qed

lemma next_output_choice:
  "session_next_output s =
     (case choice (ss_last_output s) (ss_outbound s) of
        None \<Rightarrow> (None, s)
      | Some (i, k) \<Rightarrow>
          (Some (ss_outbound s ! k),
           s\<lparr>ss_last_output := Some i, ss_outbound := remove_at k (ss_outbound s)\<rparr>))"
proof -
  have "k < length (ss_outbound s)" if "choice (ss_last_output s) (ss_outbound s) = Some (i, k)" for i k
    using choice_min(1) [OF that] by (simp add: eligible_mem)
  then show ?thesis
    by (auto simp: session_next_output_def choice_def eligible_def Let_def split: option.splits)
qed

text \<open>One turn of the scheduler, over the frames before and after the one it takes.\<close>

lemma next_output_split:
  assumes "session_next_output s = (Some f, s')"
  obtains earlier later where
    "ss_outbound s = earlier @ f # later" "sendable_after earlier f"
    "s' = s\<lparr>ss_last_output := Some (frame_id f), ss_outbound := earlier @ later\<rparr>"
    "\<And>g. sendable (ss_outbound s) g \<Longrightarrow> turn (ss_last_output s) (frame_id f) \<le> turn (ss_last_output s) (frame_id g)"
proof -
  let ?fs = "ss_outbound s"
  from assms obtain i k where c: "choice (ss_last_output s) ?fs = Some (i, k)"
    and f: "f = ?fs ! k" and s': "s' = s\<lparr>ss_last_output := Some i, ss_outbound := remove_at k ?fs\<rparr>"
    by (auto simp: next_output_choice split: option.splits)
  have k: "k < length ?fs" "frame_id f = i" "sendable_after (take k ?fs) f"
    using choice_min(1) [OF c] f by (auto simp: eligible_mem)
  show thesis
  proof (rule that)
    show "?fs = take k ?fs @ f # drop (Suc k) ?fs" using k(1) f by (simp add: id_take_nth_drop [symmetric])
    show "sendable_after (take k ?fs) f" by (rule k(3))
    show "s' = s\<lparr>ss_last_output := Some (frame_id f), ss_outbound := take k ?fs @ drop (Suc k) ?fs\<rparr>"
      using s' k(2) by (simp add: remove_at_def)
    show "turn (ss_last_output s) (frame_id f) \<le> turn (ss_last_output s) (frame_id g)"
      if "sendable ?fs g" for g
      using sendable_eligible [OF that] choice_min(2) [OF c] k(2) by auto
  qed
qed

lemma next_output_total:
  "fst (session_next_output s) = None \<longleftrightarrow> ss_outbound s = []"
proof
  assume "fst (session_next_output s) = None"
  then show "ss_outbound s = []"
    using choice_exists [of "ss_outbound s" "ss_last_output s"]
    by (fastforce simp: next_output_choice split: option.splits)
next
  assume "ss_outbound s = []"
  then show "fst (session_next_output s) = None"
    by (simp add: next_output_choice choice_def eligible_def Let_def)
qed

section \<open>Order\<close>

lemma next_output_order:
  assumes "session_next_output s = (Some f, s')"
  shows "filter (\<lambda>g. frame_id g = frame_id f) (ss_outbound s)
      = f # filter (\<lambda>g. frame_id g = frame_id f) (ss_outbound s')"
    "i \<noteq> frame_id f \<Longrightarrow>
      filter (\<lambda>g. frame_id g = i) (ss_outbound s) = filter (\<lambda>g. frame_id g = i) (ss_outbound s')"
    "filter is_open_frame (ss_outbound s)
      = (if is_open_frame f then [f] else []) @ filter is_open_frame (ss_outbound s')"
    "mset (ss_outbound s) = add_mset f (mset (ss_outbound s'))"
proof -
  from assms obtain earlier later where
    fs: "ss_outbound s = earlier @ f # later" "ss_outbound s' = earlier @ later"
    and first: "sendable_after earlier f"
    by (rule next_output_split) simp
  have none: "filter (\<lambda>g. frame_id g = frame_id f) earlier = []"
    using first unfolding sendable_after_def filter_empty_conv image_iff by metis
  then show "filter (\<lambda>g. frame_id g = frame_id f) (ss_outbound s)
      = f # filter (\<lambda>g. frame_id g = frame_id f) (ss_outbound s')"
    by (simp add: fs)
  show "filter (\<lambda>g. frame_id g = i) (ss_outbound s) = filter (\<lambda>g. frame_id g = i) (ss_outbound s')"
    if "i \<noteq> frame_id f"
    using that by (simp add: fs)
  have "is_open_frame f \<Longrightarrow> filter is_open_frame earlier = []"
    using first by (auto simp: sendable_after_def filter_empty_conv)
  then show "filter is_open_frame (ss_outbound s)
      = (if is_open_frame f then [f] else []) @ filter is_open_frame (ss_outbound s')"
    by (simp add: fs)
  show "mset (ss_outbound s) = add_mset f (mset (ss_outbound s'))" by (simp add: fs)
qed

lemma session_pop_outbound_inv:
  assumes "session_inv others h s" "session_pop_outbound s = (Some f, s')"
  shows "session_inv (others + reserved (wf_reservation f)) h s'" "queued_ok f"
proof -
  from assms(2) obtain earlier later where
    fs: "ss_outbound s = earlier @ f # later"
    and s': "s' = s\<lparr>ss_last_output := Some (frame_id f), ss_outbound := earlier @ later\<rparr>"
    unfolding session_pop_outbound_def by (rule next_output_split) simp
  show "session_inv (others + reserved (wf_reservation f)) h s'" "queued_ok f"
    using assms(1) by (auto simp: session_inv_def s' fs queue_ok_def)
qed

lemma session_pop_outbound_None: "session_pop_outbound s = (None, s') \<Longrightarrow> s' = s"
  by (auto simp: session_pop_outbound_def next_output_choice split: option.splits)

section \<open>No stream waits for another to be served twice\<close>

fun session_pops :: "nat \<Rightarrow> Session \<Rightarrow> WireFrame list \<times> Session" where
  "session_pops 0 s = ([], s)"
| "session_pops (Suc n) s =
     (case session_pop_outbound s of
        (None, s') \<Rightarrow> ([], s')
      | (Some f, s') \<Rightarrow> (case session_pops n s' of (fs, s'') \<Rightarrow> (f # fs, s'')))"

text \<open>The queued streams whose turn comes before stream \<open>i\<close>.\<close>

definition ahead :: "u32 \<Rightarrow> Session \<Rightarrow> u32 set" where
  "ahead i s =
     {j \<in> frame_id ` set (ss_outbound s). turn (ss_last_output s) j < turn (ss_last_output s) i}"

lemma turn_step:
  assumes "turn served j < turn served i" "turn (Some j) k < turn (Some j) i"
  shows "turn served k < turn served i" "k \<noteq> j"
  using assms turn_bound [of i] turn_bound [of j] turn_bound [of k]
  by (auto simp: turn_def word_less_nat_alt split: option.splits if_splits)

lemma sendable_stays:
  assumes "sendable fs g" "fs = earlier @ f # later" "sendable_after earlier f" "frame_id g \<noteq> frame_id f"
  shows "sendable (earlier @ later) g"
proof -
  from assms(1) obtain e l where g: "fs = e @ g # l" "sendable_after e g"
    by (auto simp: sendable_def)
  from g(1) assms(2) have "e @ g # l = earlier @ f # later" by simp
  then consider (before) us where "earlier = e @ g # us" "l = us @ f # later"
    | (after) us where "e = earlier @ f # us" "later = us @ g # l"
    using assms(4) by (auto simp: append_eq_append_conv2 append_eq_Cons_conv Cons_eq_append_conv)
  then show ?thesis
  proof cases
    case before
    then show ?thesis using g(2) by (auto simp: sendable_def)
  next
    case after
    then have "sendable_after (earlier @ us) g"
      using g(2) by (auto simp: sendable_after_def)
    with after show ?thesis unfolding sendable_def by (metis append_assoc)
  qed
qed

lemma session_pops_serves:
  assumes "sendable (ss_outbound s) g" "card (ahead (frame_id g) s) < n"
  shows "frame_id g \<in> frame_id ` set (fst (session_pops n s))"
  using assms
proof (induction n arbitrary: s)
  case (Suc n)
  have "ss_outbound s \<noteq> []" using Suc.prems(1) by (auto simp: sendable_def)
  then obtain f s' where pop: "session_pop_outbound s = (Some f, s')"
    using next_output_total [of s] by (cases "session_next_output s") (auto simp: session_pop_outbound_def)
  then have out: "session_next_output s = (Some f, s')" by (simp add: session_pop_outbound_def)
  from out obtain earlier later where fs: "ss_outbound s = earlier @ f # later"
    and first: "sendable_after earlier f"
    and s': "s' = s\<lparr>ss_last_output := Some (frame_id f), ss_outbound := earlier @ later\<rparr>"
    and least: "turn (ss_last_output s) (frame_id f) \<le> turn (ss_last_output s) (frame_id g)"
    using Suc.prems(1) by (metis next_output_split)
  show ?case
  proof (cases "frame_id f = frame_id g")
    case True
    with pop show ?thesis by (auto split: prod.split)
  next
    case False
    let ?t = "turn (ss_last_output s)"
    have "?t (frame_id f) \<noteq> ?t (frame_id g)"
      using False turn_bound [of "frame_id f"] turn_bound [of "frame_id g"]
      by (auto simp: turn_def word_unat_eq_iff split: option.splits if_splits)
    with least have less: "?t (frame_id f) < ?t (frame_id g)" by simp
    have "ahead (frame_id g) s' \<subseteq> ahead (frame_id g) s - {frame_id f}"
      using turn_step [OF less] by (auto simp: ahead_def s' fs)
    moreover have "frame_id f \<in> ahead (frame_id g) s" using less by (simp add: ahead_def fs)
    moreover have "finite (ahead (frame_id g) s)" by (simp add: ahead_def)
    ultimately have "card (ahead (frame_id g) s') < card (ahead (frame_id g) s)"
      by (metis Diff_subset card_Diff1_less card_mono finite_Diff le_less_trans)
    moreover have "sendable (ss_outbound s') g"
      using sendable_stays [OF Suc.prems(1) fs first] False by (simp add: s')
    ultimately show ?thesis
      using Suc.IH [of s'] Suc.prems(2) pop by (auto split: prod.split)
  qed
qed simp

lemma card_ahead: "ss_outbound s \<noteq> [] \<Longrightarrow> i \<in> frame_id ` set (ss_outbound s) \<Longrightarrow>
  card (ahead i s) < card (frame_id ` set (ss_outbound s))"
  by (rule psubset_card_mono) (auto simp: ahead_def)

end
