(* ===== verification/Connection.thy ===== *)
theory Connection
  imports Disposition Scheduler
begin

text \<open>
  One connection: \<open>connection/mod.rs\<close> and \<open>connection/io.rs\<close>, the composition of framing, handshake,
  integrity and stream session over one owned socket. The socket is a state with the functions
  \<open>rd\<close> and \<open>wr\<close> (\<open>poll_read\<close>, \<open>poll_write\<close>); closing it ends its use, so a closed socket is the absent
  one. Wakeups of the task context are not modelled.

  The budgets are shared: the connection and its session hold clones of one handle. The connection
  keeps the current value; \<open>with_session\<close> lends it to the session for the length of a call.
\<close>

section \<open>State\<close>

record Options =
  co_role :: ConnectionRole
  co_expected_peer :: ExpectedPeer

record ('s, 'e, 'k) Connection =
  cn_resources :: Resources
  cn_admission :: "Reservation option"
  cn_handle :: ConnectionHandle
  cn_socket :: "'s option"
  cn_reader :: FrameReader
  cn_writer :: FrameWriter
  cn_handshake :: "('e, 'k) Handshake option"
  cn_integrity :: "'k Integrity option"
  cn_session :: "Session option"
  cn_handshake_output :: "WireFrame list"
  cn_writing :: "(FrameType \<times> u32 \<times> FrameProtection) option"
  cn_events :: "Event list"
  cn_deadline :: Instant
  cn_timeout :: Duration
  cn_closing :: bool

definition local_failure :: "FailureCode \<Rightarrow> Disposition" where
  "local_failure code =
     \<lparr>ds_failure = \<lparr>fl_origin = Fo_Local, fl_code = code\<rparr>, ds_response = None\<rparr>"

definition error_frame :: "ErrorCode \<Rightarrow> WireFrame option" where
  "error_frame code =
     (case error_payload_new code [] of
        Inl _ \<Rightarrow> None
      | Inr payload \<Rightarrow>
          (case header_new Ft_Error 0 (of_nat (length (error_payload_encode payload))) of
             Inl _ \<Rightarrow> None
           | Inr header \<Rightarrow>
               (case wire_frame_new header (error_payload_encode payload) None of
                  Inl _ \<Rightarrow> None
                | Inr frame \<Rightarrow> Some frame)))"

text \<open>
  Admission of a socket. The result carries the budgets after the call; on a failure every
  reservation made so far is dropped again. The handle is a fresh capability.
\<close>

definition connection_begin_shared ::
    "'s \<Rightarrow> nat \<Rightarrow> Options \<Rightarrow> TransportConfig \<Rightarrow> Instant \<Rightarrow> 'i Identity \<Rightarrow> 'i
      \<Rightarrow> ('g, 'e, 'h, 'p, 'k) Cryptography \<Rightarrow> 'g \<Rightarrow> Resources
      \<Rightarrow> (Disposition, ('s, 'e, 'k) Connection) result \<times> 'g \<times> Resources" where
  "connection_begin_shared socket fresh options config now idn i cy g rs =
     (case resources_connection rs of
        None \<Rightarrow> (Inl (local_failure Fc_ResourceLimit), g, rs)
      | Some (admission, rs1) \<Rightarrow>
          (case resources_outbound 112 rs1 of
             None \<Rightarrow> (Inl (local_failure Fc_ResourceLimit), g, drop_connection (Some admission) rs1)
           | Some (hello_reservation, rs2) \<Rightarrow>
               (let rejected = drop_outbound (Some hello_reservation) (drop_connection (Some admission) rs2) in
                case instant_checked_add now (tc_handshake_timeout config) of
                  None \<Rightarrow> (Inl (local_failure Fc_Internal), g, rejected)
                | Some deadline \<Rightarrow>
                    (case handshake_begin (co_role options) (co_expected_peer options) idn i cy g of
                       (Inl error, g') \<Rightarrow> (Inl (disposition_handshake error), g', rejected)
                     | (Inr (handshake, hello), g') \<Rightarrow>
                         (Inr \<lparr>cn_resources = rs2,
                               cn_admission = Some admission,
                               cn_handle = connection_handle_new fresh,
                               cn_socket = Some socket,
                               cn_reader = reader_default,
                               cn_writer = writer_default,
                               cn_handshake = Some handshake,
                               cn_integrity = None,
                               cn_session = None,
                               cn_handshake_output = [hello\<lparr>wf_reservation := Some hello_reservation\<rparr>],
                               cn_writing = None,
                               cn_events = [],
                               cn_deadline = deadline,
                               cn_timeout = tc_handshake_timeout config,
                               cn_closing = False\<rparr>, g', rs2)))))"

definition connection_begin ::
    "'s \<Rightarrow> nat \<Rightarrow> Options \<Rightarrow> TransportConfig \<Rightarrow> Instant \<Rightarrow> 'i Identity \<Rightarrow> 'i
      \<Rightarrow> ('g, 'e, 'h, 'p, 'k) Cryptography \<Rightarrow> 'g
      \<Rightarrow> (Disposition, ('s, 'e, 'k) Connection) result \<times> 'g \<times> Resources" where
  "connection_begin socket fresh options config now idn i cy g =
     connection_begin_shared socket fresh options config now idn i cy g (resources_new (tc_limits config))"

definition connection_set_handle ::
    "ConnectionHandle \<Rightarrow> ('s, 'e, 'k) Connection \<Rightarrow> ('s, 'e, 'k) Connection" where
  "connection_set_handle handle c = c\<lparr>cn_handle := handle\<rparr>"

text \<open>The session borrowed for one call, if there is one.\<close>

definition with_session ::
    "(Session \<Rightarrow> 'r \<times> Session) \<Rightarrow> ('s, 'e, 'k) Connection \<Rightarrow> 'r option \<times> ('s, 'e, 'k) Connection" where
  "with_session f c =
     (case cn_session c of
        None \<Rightarrow> (None, c)
      | Some s \<Rightarrow>
          (case f (session_set_resources (cn_resources c) s) of (r, s') \<Rightarrow>
             (Some r, c\<lparr>cn_session := Some s', cn_resources := ss_resources s'\<rparr>)))"

definition update_session ::
    "(Session \<Rightarrow> Session) \<Rightarrow> ('s, 'e, 'k) Connection \<Rightarrow> ('s, 'e, 'k) Connection" where
  "update_session f c = snd (with_session (\<lambda>s. ((), f s)) c)"

definition connection_pop_event :: "('s, 'e, 'k) Connection \<Rightarrow> Event option \<times> ('s, 'e, 'k) Connection" where
  "connection_pop_event c =
     (case cn_events c of
        e # es \<Rightarrow> (Some e, c\<lparr>cn_events := es\<rparr>)
      | [] \<Rightarrow>
          (case with_session session_pop_event c of
             (None, c') \<Rightarrow> (None, c')
           | (Some e, c') \<Rightarrow> (e, c')))"

definition connection_next_deadline :: "('s, 'e, 'k) Connection \<Rightarrow> Instant option" where
  "connection_next_deadline c =
     (if cn_socket c = None then None
      else if cn_handshake c \<noteq> None \<or> cn_closing c then Some (cn_deadline c)
      else Option.bind (cn_session c) session_next_deadline)"

section \<open>Closing\<close>

text \<open>\<open>while session.pop_outbound().is_some() {}\<close>\<close>

function session_discard :: "Session \<Rightarrow> Session" where
  "session_discard s =
     (case session_pop_outbound s of
        (None, s') \<Rightarrow> s'
      | (Some f, s') \<Rightarrow>
          session_discard (s'\<lparr>ss_resources := drop_outbound (wf_reservation f) (ss_resources s')\<rparr>))"
  by auto
termination
proof (relation "measure (\<lambda>s. length (ss_outbound s))")
  fix s out s' f
  assume "(out, s') = session_pop_outbound s" "out = Some f"
  then have "session_next_output s = (Some f, s')" by (simp add: session_pop_outbound_def)
  then obtain earlier later where "ss_outbound s = earlier @ f # later"
      "s' = s\<lparr>ss_last_output := Some (frame_id f), ss_outbound := earlier @ later\<rparr>"
    by (rule next_output_split)
  then show "(s'\<lparr>ss_resources := drop_outbound (wf_reservation f) (ss_resources s')\<rparr>, s)
      \<in> measure (\<lambda>s. length (ss_outbound s))" by simp
qed simp

declare session_discard.simps [simp del]

text \<open>The writer's frame and the queued handshake frames are dropped with their reservations.\<close>

definition connection_release :: "('s, 'e, 'k) Connection \<Rightarrow> ('s, 'e, 'k) Connection" where
  "connection_release c =
     (let rs = drop_frames (cn_handshake_output c) (drop_connection (cn_admission c) (cn_resources c));
          c1 = update_session session_discard
            (c\<lparr>cn_socket := None, cn_admission := None, cn_handshake := None, cn_integrity := None,
               cn_handshake_output := [], cn_resources := rs\<rparr>)
      in c1\<lparr>cn_reader := reader_default,
            cn_resources := drop_outbound (fw_reservation (cn_writer c1)) (cn_resources c1),
            cn_writer := writer_default, cn_writing := None\<rparr>)"

definition connection_abort :: "Disposition \<Rightarrow> ('s, 'e, 'k) Connection \<Rightarrow> ('s, 'e, 'k) Connection" where
  "connection_abort d c =
     (if cn_socket c = None then c
      else connection_release
        (if cn_session c \<noteq> None then update_session (session_close (Some (ds_failure d)) None) c
         else if \<not> cn_closing c then
           c\<lparr>cn_events := cn_events c @ [Ev_ConnectionClosed (ch_id (cn_handle c)) (Some (ds_failure d))]\<rparr>
         else c))"

definition connection_close :: "('s, 'e, 'k) Connection \<Rightarrow> ('s, 'e, 'k) Connection" where
  "connection_close c = connection_abort (local_failure Fc_ConnectionLost) c"

text \<open>Dropping a connection releases it; its own values go with it.\<close>

definition connection_drop :: "('s, 'e, 'k) Connection \<Rightarrow> Resources" where
  "connection_drop c = cn_resources (connection_release c)"

definition safe_output :: "('s, 'e, 'k) Connection \<Rightarrow> bool" where
  "safe_output c \<longleftrightarrow>
     \<not> writer_is_busy (cn_writer c) \<and>
     (cn_integrity c \<noteq> None \<or>
      (case cn_handshake c of None \<Rightarrow> False | Some h \<Rightarrow> send_protection h = Untagged))"

definition connection_fail ::
    "Disposition \<Rightarrow> Instant \<Rightarrow> ('s, 'e, 'k) Connection \<Rightarrow> ('s, 'e, 'k) Connection" where
  "connection_fail d0 now c =
     (let d = with_safe_output (safe_output c) d0 in
      case ds_response d of
        None \<Rightarrow> connection_abort d c
      | Some code \<Rightarrow>
          (case instant_checked_add now (cn_timeout c) of
             None \<Rightarrow> connection_abort d c
           | Some deadline \<Rightarrow>
               let c1 = c\<lparr>cn_deadline := deadline, cn_closing := True,
                          cn_resources := drop_frames (cn_handshake_output c) (cn_resources c),
                          cn_handshake_output := []\<rparr>
               in if cn_session c1 \<noteq> None then
                    update_session (session_close (Some (ds_failure d)) (Some code)) c1
                  else
                    let c2 = c1\<lparr>cn_events := cn_events c1
                          @ [Ev_ConnectionClosed (ch_id (cn_handle c1)) (Some (ds_failure d))]\<rparr>
                    in case error_frame code of
                         None \<Rightarrow> c2
                       | Some frame \<Rightarrow>
                           (case resources_outbound (length (wf_payload frame) + 12) (cn_resources c2) of
                              None \<Rightarrow> c2
                            | Some (reservation, rs) \<Rightarrow>
                                c2\<lparr>cn_resources := rs,
                                   cn_handshake_output := cn_handshake_output c2
                                     @ [frame\<lparr>wf_reservation := Some reservation\<rparr>]\<rparr>)))"

definition connection_establish :: "('s, 'e, 'k) Connection \<Rightarrow> ('s, 'e, 'k) Connection" where
  "connection_establish c =
     (case cn_handshake c of
        None \<Rightarrow> c
      | Some h \<Rightarrow>
          (case take_established h of
             (None, h') \<Rightarrow> c\<lparr>cn_handshake := Some h'\<rparr>
           | (Some est, h') \<Rightarrow>
               c\<lparr>cn_session := Some (session_set_resources (cn_resources c)
                    (session_with_handle (cn_handle c) (es_role est) (es_local_identity est)
                       (es_peer_identity est))),
                 cn_integrity := Some (integrity_new (es_keys est)),
                 cn_handshake := None\<rparr>))"

section \<open>Output\<close>

definition connection_next_frame :: "('s, 'e, 'k) Connection \<Rightarrow> WireFrame option \<times> ('s, 'e, 'k) Connection" where
  "connection_next_frame c =
     (case with_session session_pop_outbound c of
        (Some next_frame, c') \<Rightarrow> (next_frame, c')
      | (None, c') \<Rightarrow>
          (case cn_handshake_output c' of
             [] \<Rightarrow> (None, c')
           | f # fs \<Rightarrow> (Some f, c'\<lparr>cn_handshake_output := fs\<rparr>)))"

text \<open>The last part of admitting a frame to the writer; \<open>False\<close> stops the call.\<close>

definition connection_start_frame ::
    "WireFrame \<Rightarrow> FrameProtection \<Rightarrow> FrameType \<Rightarrow> u32 \<Rightarrow> ('s, 'e, 'k) Connection
      \<Rightarrow> bool \<times> ('s, 'e, 'k) Connection" where
  "connection_start_frame frame phase kind i c =
     (case writer_start frame phase (cn_writer c) (cn_resources c) of
        (Inl error, w, rs) \<Rightarrow>
          (False, connection_abort (disposition_framing error) (c\<lparr>cn_writer := w, cn_resources := rs\<rparr>))
      | (Inr _, w, rs) \<Rightarrow>
          (True, c\<lparr>cn_writer := w, cn_resources := rs, cn_writing := Some (kind, i, phase)\<rparr>))"

definition connection_start ::
    "('g, 'e, 'h, 'p, 'k) Cryptography \<Rightarrow> ('s, 'e, 'k) Connection \<Rightarrow> bool \<times> ('s, 'e, 'k) Connection" where
  "connection_start cy c =
     (if writer_is_busy (cn_writer c) then (True, c)
      else case connection_next_frame c of
        (None, c1) \<Rightarrow> (False, if cn_closing c1 then connection_release c1 else c1)
      | (Some frame, c1) \<Rightarrow>
          (let kind = fh_frame_type (wf_header frame); i = fh_stream_id (wf_header frame) in
           case cn_integrity c1 of
             None \<Rightarrow> connection_start_frame frame Untagged kind i c1
           | Some it \<Rightarrow>
               (case integrity_seal cy frame it (cn_resources c1) of
                  (Inl error, it', rs) \<Rightarrow>
                    (False, connection_abort (disposition_integrity error)
                       (c1\<lparr>cn_integrity := Some it', cn_resources := rs\<rparr>))
                | (Inr sealed, it', rs) \<Rightarrow>
                    connection_start_frame sealed Tagged kind i
                      (c1\<lparr>cn_integrity := Some it', cn_resources := rs\<rparr>))))"

text \<open>A frame has been written completely.\<close>

definition connection_written ::
    "FrameType \<Rightarrow> u32 \<Rightarrow> FrameProtection \<Rightarrow> Instant \<Rightarrow> ('s, 'e, 'k) Connection
      \<Rightarrow> bool \<times> ('s, 'e, 'k) Connection" where
  "connection_written kind i phase now c =
     (let reported = (\<lambda>c. (True, update_session (session_sent kind i) c)) in
      if phase = Tagged then
        (case cn_integrity c of
           None \<Rightarrow> reported c
         | Some it \<Rightarrow>
             (case integrity_sent it of
                (Inl error, it') \<Rightarrow>
                  (False, connection_abort (disposition_integrity error) (c\<lparr>cn_integrity := Some it'\<rparr>))
              | (Inr _, it') \<Rightarrow> reported (c\<lparr>cn_integrity := Some it'\<rparr>)))
      else if \<not> cn_closing c then
        (case cn_handshake c of
           None \<Rightarrow> reported c
         | Some h \<Rightarrow>
             (case handshake_sent kind h of
                (Inl error, h') \<Rightarrow>
                  (False, connection_fail (disposition_handshake error) now (c\<lparr>cn_handshake := Some h'\<rparr>))
              | (Inr _, h') \<Rightarrow> reported (c\<lparr>cn_handshake := Some h'\<rparr>)))
      else reported c)"

definition connection_write ::
    "'s poll_write \<Rightarrow> ('g, 'e, 'h, 'p, 'k) Cryptography \<Rightarrow> Instant \<Rightarrow> ('s, 'e, 'k) Connection
      \<Rightarrow> bool \<times> ('s, 'e, 'k) Connection" where
  "connection_write wr cy now c =
     (if cn_socket c = None then (False, c)
      else case connection_start cy c of
        (False, c1) \<Rightarrow> (False, c1)
      | (True, c1) \<Rightarrow>
          (case cn_socket c1 of
             None \<Rightarrow> (False, c1)
           | Some s \<Rightarrow>
               (case writer_poll_flush wr (cn_writer c1) s (cn_resources c1) of (outcome, w, s', rs) \<Rightarrow>
                  let c2 = c1\<lparr>cn_writer := w, cn_socket := Some s', cn_resources := rs\<rparr> in
                  case outcome of
                    Pending \<Rightarrow> (False, c2)
                  | Ready (Inl error) \<Rightarrow> (False, connection_abort (disposition_framing error) c2)
                  | Ready (Inr _) \<Rightarrow>
                      (case cn_writing c2 of
                         None \<Rightarrow> (True, c2)
                       | Some (kind, i, phase) \<Rightarrow>
                           connection_written kind i phase now (c2\<lparr>cn_writing := None\<rparr>)))))"

section \<open>Input\<close>

definition session_holds :: "(Session \<Rightarrow> bool) \<Rightarrow> ('s, 'e, 'k) Connection \<Rightarrow> bool" where
  "session_holds p c = (case cn_session c of None \<Rightarrow> False | Some s \<Rightarrow> p s)"

type_synonym ('s, 'e, 'k, 'i, 'g) connection_state = "('s, 'e, 'k) Connection \<times> 'i \<times> 'g"

definition connection_receive_handshake ::
    "WireFrame \<Rightarrow> ('e, 'k) Handshake \<Rightarrow> Instant \<Rightarrow> 'i Identity \<Rightarrow> ('g, 'e, 'h, 'p, 'k) Cryptography
      \<Rightarrow> ('s, 'e, 'k, 'i, 'g) connection_state \<Rightarrow> ('s, 'e, 'k, 'i, 'g) connection_state" where
  "connection_receive_handshake frame h now idn cy = (\<lambda>(c, i, g).
     case handshake_receive frame idn cy (h, i, g) of (reply, h', i', g') \<Rightarrow>
       let c1 = c\<lparr>cn_handshake := Some h'\<rparr> in
       (case reply of
          Inl error \<Rightarrow> connection_fail (disposition_handshake error) now c1
        | Inr None \<Rightarrow> c1
        | Inr (Some auth) \<Rightarrow>
            (case resources_outbound (length (wf_payload auth) + 12) (cn_resources c1) of
               None \<Rightarrow> connection_abort (local_failure Fc_ResourceLimit) c1
             | Some (reservation, rs) \<Rightarrow>
                 c1\<lparr>cn_resources := rs,
                    cn_handshake_output := cn_handshake_output c1
                      @ [auth\<lparr>wf_reservation := Some reservation\<rparr>]\<rparr>),
        i', g'))"

definition connection_receive_verified ::
    "WireFrame \<Rightarrow> 'k Integrity \<Rightarrow> Instant \<Rightarrow> Registry \<Rightarrow> ('g, 'e, 'h, 'p, 'k) Cryptography
      \<Rightarrow> ('s, 'e, 'k) Connection \<Rightarrow> ('s, 'e, 'k) Connection" where
  "connection_receive_verified frame it now registry cy c =
     (case integrity_verify cy frame it of
        (Inl error, it') \<Rightarrow> connection_abort (disposition_integrity error) (c\<lparr>cn_integrity := Some it'\<rparr>)
      | (Inr verified_frame, it') \<Rightarrow>
          let c1 = update_session (\<lambda>s. snd (session_receive verified_frame registry now s))
                     (c\<lparr>cn_integrity := Some it'\<rparr>)
          in if session_holds ss_closed c1 then
               if writer_is_busy (cn_writer c1) then connection_release c1
               else c1\<lparr>cn_closing := True,
                       cn_deadline := (case instant_checked_add now (cn_timeout c1) of
                          None \<Rightarrow> now | Some deadline \<Rightarrow> deadline)\<rparr>
             else c1)"

definition connection_read ::
    "'s poll_read \<Rightarrow> Instant \<Rightarrow> Registry \<Rightarrow> 'i Identity \<Rightarrow> ('g, 'e, 'h, 'p, 'k) Cryptography
      \<Rightarrow> ('s, 'e, 'k, 'i, 'g) connection_state \<Rightarrow> bool \<times> ('s, 'e, 'k, 'i, 'g) connection_state" where
  "connection_read rd now registry idn cy = (\<lambda>(c, i, g).
     let phase = (case cn_handshake c of None \<Rightarrow> Tagged | Some h \<Rightarrow> receive_protection h) in
     if phase = Tagged \<and> cn_integrity c = None then (False, (c, i, g))
     else case cn_socket c of
       None \<Rightarrow> (False, (c, i, g))
     | Some s \<Rightarrow>
         (case reader_poll_frame rd phase (cn_reader c) s of (outcome, r, s') \<Rightarrow>
            let c1 = c\<lparr>cn_reader := r, cn_socket := Some s'\<rparr> in
            case outcome of
              Pending \<Rightarrow> (False, (c1, i, g))
            | Ready (Inl error) \<Rightarrow> (True, (connection_fail (disposition_framing error) now c1, i, g))
            | Ready (Inr None) \<Rightarrow>
                (True,
                 (if session_holds session_ready_to_close c1 \<and> \<not> writer_is_busy (cn_writer c1)
                  then connection_release (update_session (session_close None None) c1)
                  else connection_abort (local_failure Fc_ConnectionLost) c1, i, g))
            | Ready (Inr (Some frame)) \<Rightarrow>
                (True,
                 (case cn_handshake c1 of
                    Some h \<Rightarrow> connection_receive_handshake frame h now idn cy (c1, i, g)
                  | None \<Rightarrow>
                      (case cn_integrity c1 of
                         None \<Rightarrow> (c1, i, g)
                       | Some it \<Rightarrow>
                           (connection_receive_verified frame it now registry cy c1, i, g))))))"

section \<open>Polling\<close>

definition connection_finish :: "('s, 'e, 'k) Connection \<Rightarrow> ('s, 'e, 'k) Connection" where
  "connection_finish c =
     (if session_holds session_ready_to_close c \<and> \<not> writer_is_busy (cn_writer c)
      then connection_release (update_session (session_close None None) c)
      else c)"

fun connection_rounds ::
    "'s poll_read \<Rightarrow> 's poll_write \<Rightarrow> nat \<Rightarrow> Instant \<Rightarrow> Registry \<Rightarrow> 'i Identity
      \<Rightarrow> ('g, 'e, 'h, 'p, 'k) Cryptography \<Rightarrow> ('s, 'e, 'k, 'i, 'g) connection_state
      \<Rightarrow> unit poll \<times> ('s, 'e, 'k, 'i, 'g) connection_state" where
  "connection_rounds rd wr 0 now registry idn cy st = (Pending, st)"
| "connection_rounds rd wr (Suc n) now registry idn cy st =
     (case st of (c, i, g) \<Rightarrow>
      case connection_write wr cy now c of (written, c1) \<Rightarrow>
      let c2 = connection_establish c1 in
      if cn_socket c2 = None then (Ready (), (c2, i, g))
      else case (if \<not> cn_closing c2 then connection_read rd now registry idn cy (c2, i, g)
                 else (False, (c2, i, g))) of (was_read, (c3, i', g')) \<Rightarrow>
      let c5 = connection_finish (connection_establish c3) in
      if cn_socket c5 = None then (Ready (), (c5, i', g'))
      else if \<not> (written \<or> was_read) then (Pending, (c5, i', g'))
      else connection_rounds rd wr n now registry idn cy (c5, i', g'))"

definition connection_poll ::
    "'s poll_read \<Rightarrow> 's poll_write \<Rightarrow> Instant \<Rightarrow> Registry \<Rightarrow> 'i Identity
      \<Rightarrow> ('g, 'e, 'h, 'p, 'k) Cryptography \<Rightarrow> ('s, 'e, 'k, 'i, 'g) connection_state
      \<Rightarrow> unit poll \<times> ('s, 'e, 'k, 'i, 'g) connection_state" where
  "connection_poll rd wr now registry idn cy = (\<lambda>(c, i, g).
     if cn_socket c = None then (Ready (), (c, i, g))
     else if (cn_handshake c \<noteq> None \<or> cn_closing c) \<and> now \<ge> cn_deadline c then
       (Ready (), (connection_abort (local_failure Fc_DeadlineExceeded) c, i, g))
     else connection_rounds rd wr 32 now registry idn cy (update_session (session_tick now) c, i, g))"

end
