(* ===== verification/Session_Run.thy ===== *)
theory Session_Run
  imports Scheduler
begin

text \<open>
  All executions of a stream session: any order of local calls, verified frames, timer ticks, write
  completions and deliveries, with the shared budget used by others in between. \<open>session_step\<close> has one
  rule per operation of \<open>Session\<close> that can queue events; \<open>session_run\<close> adds the deliveries. Every
  reachable session satisfies the invariant, which gives the consumer-visible guarantees.
\<close>

inductive session_step :: "Session \<Rightarrow> Session \<Rightarrow> bool" where
  step_open: "session_step s (snd (session_open registry owner s))"
| step_send: "session_step s (snd (session_send owner stream bs s))"
| step_end: "session_step s (snd (session_end owner stream s))"
| step_cancel: "session_step s (snd (session_cancel owner stream reason s))"
| step_sent: "session_step s (session_sent kind i s)"
| step_drain: "session_step s (snd (session_drain shutdown s))"
| step_ping: "session_step s (snd (session_ping token timeout now s))"
| step_tick: "session_step s (session_tick now s)"
| step_receive: "session_step s (snd (session_receive frame registry now s))"
| step_close: "session_step s (session_close failure response s)"

inductive session_run :: "Session \<Rightarrow> usize \<Rightarrow> Event list \<Rightarrow> Session \<Rightarrow> bool" for s\<^sub>0 :: Session where
  run_start: "others = outbound_used (ss_resources s\<^sub>0) \<Longrightarrow> session_run s\<^sub>0 others (ss_events s\<^sub>0) s\<^sub>0"
| run_step: "session_run s\<^sub>0 others h s \<Longrightarrow> session_step s s' \<Longrightarrow>
    session_run s\<^sub>0 others (h @ drop (length (ss_events s)) (ss_events s')) s'"
| run_event: "session_run s\<^sub>0 others h s \<Longrightarrow> session_run s\<^sub>0 others h (snd (session_pop_event s))"
| run_stream_event: "session_run s\<^sub>0 others h s \<Longrightarrow>
    session_run s\<^sub>0 others h (snd (session_pop_stream_event owner s))"
| run_outbound: "session_run s\<^sub>0 others h s \<Longrightarrow> session_pop_outbound s = (Some f, s') \<Longrightarrow>
    session_run s\<^sub>0 (others + reserved (wf_reservation f)) h s'"
| run_budget: "session_run s\<^sub>0 others h s \<Longrightarrow>
    outbound_used rs = others' + queued_bytes (ss_outbound s) \<Longrightarrow> outbound_ok rs \<Longrightarrow>
    rs_limits rs = rs_limits (ss_resources s) \<Longrightarrow>
    session_run s\<^sub>0 others' h (session_set_resources rs s)"

lemma session_step_evolves: "session_step s s' \<Longrightarrow> evolves s s'"
  by (induction rule: session_step.induct) (auto intro: session_evolves)

lemma evolves_history:
  assumes "evolves s s'" "session_inv others h s"
  shows "session_inv others (h @ drop (length (ss_events s)) (ss_events s')) s'"
  using assms by (auto simp: evolves_def)

text \<open>A session as the connection creates it.\<close>

definition session_start ::
    "ConnectionHandle \<Rightarrow> ConnectionRole \<Rightarrow> IdentityId \<Rightarrow> IdentityId \<Rightarrow> Resources \<Rightarrow> Session" where
  "session_start handle role local_identity peer_identity rs =
     session_set_resources rs (session_with_handle handle role local_identity peer_identity)"

lemma session_start_inv:
  assumes "outbound_ok rs"
  shows "session_inv (outbound_used rs) (ss_events (session_start n role l p rs)) (session_start n role l p rs)"
proof -
  have "streams_ok [Ev_Authenticated c] n (stream_ids_new role) []" for c
    by (rule streams_okI) (simp_all add: stream_phase_def)
  then show ?thesis
    using assms ids_history_new [of role]
    by (auto simp: session_inv_def session_start_def session_set_resources_def session_with_handle_def
        Let_def queue_ok_def goaway_ok_def buffers_ok_def ids_ok_def closes_last_def)
qed

lemma session_run_inv:
  assumes "session_run (session_start n role l p rs) others h s" "outbound_ok rs"
  shows "session_inv others h s"
  using assms(1)
proof induction
  case (run_start others)
  then show ?case
    using session_start_inv [OF assms(2)] by (simp add: session_start_def session_set_resources_def)
next
  case (run_step others h s s')
  then show ?case by (blast intro: evolves_history session_step_evolves)
next
  case (run_budget others h s rs others')
  then show ?case by (auto simp: session_inv_def session_set_resources_def queue_ok_def)
qed (blast intro: session_pop_event_inv session_pop_stream_event_inv session_pop_outbound_inv)+

section \<open>Properties\<close>

definition sample_session :: Session where
  "sample_session =
     session_start (connection_handle_new 1) Initiator (IdentityId []) (IdentityId [1]) sample_resources"

definition sample_registry :: Registry where
  "sample_registry = [(\<lparr>pr_id = [0x61], pr_version = 1\<rparr>, StreamOwner 5)]"

definition sample_opened :: Session where
  "sample_opened = snd (session_open sample_registry (StreamOwner 5) sample_session)"

text \<open>Data for a stream that was never opened.\<close>

definition sample_stray :: WireFrame where
  "sample_stray =
     \<lparr>wf_reservation = None,
      wf_header = \<lparr>fh_frame_type = Ft_Data, fh_stream_id = 9, fh_payload_len = 1\<rparr>,
      wf_payload = [0], wf_tag = None\<rparr>"

lemma sample_resources_ok: "outbound_ok sample_resources"
  by (simp add: sample_resources_def resources_new_def outbound_ok_def outbound_used_def)

lemma sample_run: "session_run sample_session 0 (ss_events sample_session) sample_session"
  by (rule run_start)
     (simp add: sample_session_def session_start_def session_set_resources_def sample_resources_def
        resources_new_def outbound_used_def)

lemma sample_opened_run:
  "session_run sample_session 0
     (ss_events sample_session @ drop (length (ss_events sample_session)) (ss_events sample_opened)) sample_opened"
  unfolding sample_opened_def by (rule run_step [OF sample_run step_open])

text \<open>Evaluation of session operations on concrete states.\<close>

lemmas session_eval = session_start_def session_set_resources_def session_with_handle_def
  sample_resources_def resources_new_def session_open_def session_open_reserved_def session_add_def
  session_frame_def wire_frame_new_def header_new_def validate_payload_len_def validate_stream_id_def
  resources_outbound_def reserve_def checked_add_usize_def usize_max_def ids_allocate_def ids_is_local_def
  stream_ids_new_def stream_handle_new_def connection_handle_new_def session_event_limit_def
  saturating_add_usize_def saturating_mul_usize_def MAX_PAYLOAD_BYTES_def registry_protocol_def Let_def

lemma sample_selection: "open_new [0x61] 1 = Inr \<lparr>op_id = [0x61], op_version = 1\<rparr>"
  by code_simp

lemma sample_opened_values:
  "ss_events sample_opened = ss_events sample_session
     @ [Ev_StreamOpened (ss_context sample_session)
          \<lparr>sh_connection = ConnectionId 1, sh_owner = StreamOwner 5, sh_wire_id = 1\<rparr>
          \<lparr>pr_id = [0x61], pr_version = 1\<rparr>]"
  "map fst (ss_streams sample_opened) = [1]"
  "queued_bytes (ss_outbound sample_opened) = 35"
  "ss_closed sample_opened = False"
  "ss_handle sample_opened = \<lparr>ch_id = ConnectionId 1\<rparr>"
  by (simp_all add: sample_opened_def sample_session_def sample_registry_def session_eval sample_selection)

text \<open>The peer's GOAWAY before it accepted any stream.\<close>

definition sample_farewell :: GoAway where
  "sample_farewell =
     \<lparr>ga_last_accepted_remote_stream_id = 0,
      ga_diagnostic = \<lparr>dg_code = Ec_NoError, dg_reason = []\<rparr>\<rparr>"

definition sample_drained :: Session where
  "sample_drained = snd (session_receive
     (VerifiedFrame
        \<lparr>wf_reservation = None,
         wf_header = \<lparr>fh_frame_type = Ft_GoAway, fh_stream_id = 0, fh_payload_len = 8\<rparr>,
         wf_payload = goaway_encode sample_farewell, wf_tag = None\<rparr>) sample_registry 0 sample_session)"

lemma sample_drained_run:
  "session_run sample_session 0
     (ss_events sample_session @ drop (length (ss_events sample_session)) (ss_events sample_drained)) sample_drained"
  unfolding sample_drained_def by (rule run_step [OF sample_run step_receive])

lemma sample_drained_goaway: "ss_peer_goaway sample_drained = Some 0"
proof -
  have "goaway_decode (goaway_encode sample_farewell) = Inr sample_farewell"
    by (rule goaway_codec.decode_encode) code_simp
  moreover have "goaway_new 0 Ec_NoError [] = Inr sample_farewell" by code_simp
  moreover have "length (goaway_encode sample_farewell) = 8" by code_simp
  ultimately show ?thesis
    by (simp add: sample_drained_def sample_session_def session_receive_def session_tick_def
        session_receive_parts_def session_receive_goaway_def session_drain_def session_queue_def
        sample_farewell_def bt_keys_def session_eval)
qed

text \<open>
  The peer has opened its first stream, 2, and this side then drains, announcing that stream.
\<close>

definition sample_hosting :: Session where
  "sample_hosting = snd (session_receive
     (VerifiedFrame
        \<lparr>wf_reservation = None,
         wf_header = \<lparr>fh_frame_type = Ft_Open, fh_stream_id = 2, fh_payload_len = 7\<rparr>,
         wf_payload = [0, 1, 0x61, 0, 0, 0, 1], wf_tag = None\<rparr>) sample_registry 0 sample_session)"

lemma sample_hosting_run:
  "session_run sample_session 0
     (ss_events sample_session @ drop (length (ss_events sample_session)) (ss_events sample_hosting)) sample_hosting"
  unfolding sample_hosting_def by (rule run_step [OF sample_run step_receive])

lemma sample_hosting_values:
  "fst (session_drain Sr_Normal sample_hosting) = Inr ()" "\<not> ss_goaway_sent sample_hosting"
  "bt_get 2 (ss_streams sample_hosting) \<noteq> None" "\<not> ids_is_local 2 (ss_ids sample_hosting)"
proof -
  have "open_decode [0, 1, 0x61, 0, 0, 0, 1] = Inr \<lparr>op_id = [0x61], op_version = 1\<rparr>" by code_simp
  moreover have "length (goaway_encode \<lparr>ga_last_accepted_remote_stream_id = 2,
      ga_diagnostic = \<lparr>dg_code = Ec_NoError, dg_reason = []\<rparr>\<rparr>) = 8" by code_simp
  ultimately show "fst (session_drain Sr_Normal sample_hosting) = Inr ()" "\<not> ss_goaway_sent sample_hosting"
    "bt_get 2 (ss_streams sample_hosting) \<noteq> None" "\<not> ids_is_local 2 (ss_ids sample_hosting)"
    by (simp_all add: sample_hosting_def sample_session_def sample_registry_def session_receive_def
        session_tick_def session_receive_parts_def session_receive_open_def session_drain_def
        session_queue_def ids_accept_def registry_resolve_def goaway_new_empty bt_get_def session_eval)
qed

text \<open>
  C1: What the consumer of a stream sees is well formed in every execution of a session, whatever the
  peer sends: a stream is opened once before anything else, delivers data, then at most one remote
  end, and is closed exactly once and last; it is reported completed only after the remote end. When
  the session is closed, every stream that was opened has been closed.
\<close>

theorem session_stream_lifecycle:
  assumes "session_run (session_start n role l p rs) others h s" "outbound_ok rs"
  shows "stream_phase i h \<noteq> Ph_Bad \<and>
    (ss_closed s \<longrightarrow> stream_phase i h \<in> {Ph_Idle, Ph_Done}) \<and>
    (bt_get i (ss_streams s) \<noteq> None \<longleftrightarrow> stream_phase i h \<in> {Ph_Open, Ph_Half})"
proof -
  have inv: "session_inv others h s" using assms by (rule session_run_inv)
  then have streams: "streams_ok h (ss_handle s) (ss_ids s) (ss_streams s)"
    and closed: "ss_closed s \<longrightarrow> ss_streams s = []" by (simp_all add: session_inv_def)
  note ok = streams_okD [OF streams]
  show ?thesis
  proof (cases "bt_get i (ss_streams s)")
    case None
    with ok(3) [OF None] show ?thesis by auto
  next
    case (Some st)
    with ok(2) [OF Some] closed show ?thesis by (auto simp: stream_ok_def)
  qed
qed

theorem session_stream_lifecycle_witness:
  "\<exists>h. session_run sample_session 0 h sample_opened \<and> stream_phase 1 h \<noteq> Ph_Bad \<and>
     bt_get 1 (ss_streams sample_opened) \<noteq> None"
proof -
  let ?h = "ss_events sample_session @ drop (length (ss_events sample_session)) (ss_events sample_opened)"
  have "?h = ss_events sample_opened" by (simp add: sample_opened_values)
  then have phase: "stream_phase 1 ?h = Ph_Open"
    by (simp add: sample_opened_values sample_session_def session_start_def session_set_resources_def
        session_with_handle_def Let_def stream_phase_def concerns_def)
  from sample_opened_run session_stream_lifecycle [OF sample_opened_run [unfolded sample_session_def]
      sample_resources_ok, folded sample_session_def, of 1]
  show ?thesis by (intro exI [of _ ?h]) (simp add: phase)
qed

text \<open>
  C15: Memory held for a session is bounded in every execution: for each stream the data waiting for
  its consumer stays within the configured number of bytes, the streams within their limit, the
  outstanding probes within 64, and the queued output is exactly what the session holds of the shared
  budget, which is never exceeded.
\<close>

theorem session_bounded:
  assumes "session_run (session_start n role l p rs) others h s" "outbound_ok rs"
  shows "data_bytes i (ss_events s) \<le> rl_buffered_bytes_per_stream (rs_limits (ss_resources s)) \<and>
    length (ss_streams s) \<le> rl_streams_per_connection (rs_limits (ss_resources s)) \<and>
    length (ss_pings s) \<le> 64 \<and>
    outbound_used (ss_resources s) = others + queued_bytes (ss_outbound s) \<and>
    outbound_used (ss_resources s) \<le> ct_limit (rs_outbound (ss_resources s))"
  using session_run_inv [OF assms]
  by (simp add: session_inv_def buffers_ok_def queue_ok_def outbound_ok_def)

theorem session_bounded_witness:
  "outbound_ok sample_resources \<and> outbound_used (ss_resources sample_opened) = 0 + 35"
  using session_bounded [OF sample_opened_run [unfolded sample_session_def] sample_resources_ok]
  by (simp add: sample_opened_values(3) sample_resources_ok)

text \<open>The frame a first drain queues.\<close>

lemma session_drain_frame:
  assumes "session_drain reason s = (Inr (), s')" "\<not> ss_goaway_sent s"
  shows "\<exists>f goaway. ss_outbound s' = ss_outbound s @ [f] \<and> frame_kind f = Ft_GoAway \<and> frame_id f = 0 \<and>
    goaway_decode (wf_payload f) = Inr goaway \<and>
    ga_last_accepted_remote_stream_id goaway = ss_accepted_remote s \<and>
    ss_goaway_sent s' \<and> ss_streams s' = ss_streams s \<and> ss_ids s' = ss_ids s"
proof -
  from assms obtain code f t where
    frame: "session_frame Ft_GoAway 0 (goaway_encode
        \<lparr>ga_last_accepted_remote_stream_id = ss_accepted_remote s,
         ga_diagnostic = \<lparr>dg_code = code, dg_reason = []\<rparr>\<rparr>) = Inr f"
    and queue: "session_queue f s = (Inr (), t)" and s': "s' = t\<lparr>ss_goaway_sent := True\<rparr>"
    by (auto simp: session_drain_def Let_def goaway_new_empty and_thread_eq_Inr map_err_def split: if_splits)
  let ?g = "\<lparr>ga_last_accepted_remote_stream_id = ss_accepted_remote s,
    ga_diagnostic = \<lparr>dg_code = code, dg_reason = []\<rparr>\<rparr>"
  have "goaway_decode (goaway_encode ?g) = Inr ?g"
    by (rule goaway_codec.decode_encode)
       (simp add: goaway_valid_def diagnostic_valid_def starts_with_bom_def)
  with session_frame_ok(2-4) [OF frame] queue s' show ?thesis
    by (auto simp: session_queue_def frame_kind_def frame_id_def split: option.splits)
qed

text \<open>
  C18: Draining is respected in both directions. Once the peer has announced its last accepted
  stream, no locally opened stream above that bound is active and none can be opened. The first drain
  of this side queues exactly one frame, a GOAWAY that decodes to a bound which is zero or a stream of
  the peer that was really created and which covers every active stream of the peer; afterwards an
  OPEN of the peer adds no stream.
\<close>

theorem session_goaway:
  assumes "session_run (session_start n role l p rs) others h s" "outbound_ok rs"
  shows "(case ss_peer_goaway s of
      None \<Rightarrow> True
    | Some bound \<Rightarrow>
        \<not> is_ok (fst (session_open registry owner s)) \<and>
        (\<forall>i. bt_get i (ss_streams s) \<noteq> None \<and> ids_is_local i (ss_ids s) \<longrightarrow> i \<le> bound)) \<and>
    (\<forall>s'. session_drain reason s = (Inr (), s') \<and> \<not> ss_goaway_sent s \<longrightarrow>
      (\<exists>f goaway bound. ss_outbound s' = ss_outbound s @ [f] \<and>
        frame_kind f = Ft_GoAway \<and> frame_id f = 0 \<and> goaway_decode (wf_payload f) = Inr goaway \<and>
        bound = ga_last_accepted_remote_stream_id goaway \<and>
        (bound = 0 \<or> \<not> ids_is_local bound (ss_ids s) \<and> ids_was_created bound (ss_ids s)) \<and>
        (\<forall>i. bt_get i (ss_streams s) \<noteq> None \<and> \<not> ids_is_local i (ss_ids s) \<longrightarrow> i \<le> bound) \<and>
        ss_goaway_sent s')) \<and>
    (ss_goaway_sent s \<longrightarrow> ss_streams (snd (session_receive_open i payload registry s)) = ss_streams s)"
proof (intro conjI allI impI)
  have inv: "goaway_ok (ss_peer_goaway s) (ss_accepted_remote s) (ss_ids s) (ss_streams s)"
    "ids_ok (ss_ids s) (ss_accepted_remote s)"
    using session_run_inv [OF assms] by (simp_all add: session_inv_def)
  show "case ss_peer_goaway s of
      None \<Rightarrow> True
    | Some bound \<Rightarrow>
        \<not> is_ok (fst (session_open registry owner s)) \<and>
        (\<forall>i. bt_get i (ss_streams s) \<noteq> None \<and> ids_is_local i (ss_ids s) \<longrightarrow> i \<le> bound)"
    using inv(1) by (auto simp: goaway_ok_def session_open_def split: option.splits)
  fix s'
  assume drain: "session_drain reason s = (Inr (), s') \<and> \<not> ss_goaway_sent s"
  obtain f goaway where "ss_outbound s' = ss_outbound s @ [f]" "frame_kind f = Ft_GoAway" "frame_id f = 0"
    "goaway_decode (wf_payload f) = Inr goaway"
    "ga_last_accepted_remote_stream_id goaway = ss_accepted_remote s" "ss_goaway_sent s'"
    using session_drain_frame [OF conjunct1 [OF drain] conjunct2 [OF drain]] by blast
  moreover have "ss_accepted_remote s = 0 \<or>
      \<not> ids_is_local (ss_accepted_remote s) (ss_ids s) \<and> ids_was_created (ss_accepted_remote s) (ss_ids s)"
    using inv(2) by (simp add: ids_ok_def)
  moreover have "\<forall>i. bt_get i (ss_streams s) \<noteq> None \<and> \<not> ids_is_local i (ss_ids s) \<longrightarrow>
      i \<le> ss_accepted_remote s"
    using inv(1) by (simp add: goaway_ok_def)
  ultimately show "\<exists>f goaway bound. ss_outbound s' = ss_outbound s @ [f] \<and>
        frame_kind f = Ft_GoAway \<and> frame_id f = 0 \<and> goaway_decode (wf_payload f) = Inr goaway \<and>
        bound = ga_last_accepted_remote_stream_id goaway \<and>
        (bound = 0 \<or> \<not> ids_is_local bound (ss_ids s) \<and> ids_was_created bound (ss_ids s)) \<and>
        (\<forall>i. bt_get i (ss_streams s) \<noteq> None \<and> \<not> ids_is_local i (ss_ids s) \<longrightarrow> i \<le> bound) \<and>
        ss_goaway_sent s'" by metis
next
  assume "ss_goaway_sent s"
  then show "ss_streams (snd (session_receive_open i payload registry s)) = ss_streams s"
    by (auto simp: session_receive_open_def session_refuse_def Let_def session_queue_frame and_thread_def
        split: prod.splits sum.splits)
qed

theorem session_goaway_witness:
  "ss_peer_goaway sample_drained = Some 0 \<and>
   \<not> is_ok (fst (session_open sample_registry (StreamOwner 5) sample_drained)) \<and>
   bt_get 2 (ss_streams sample_hosting) \<noteq> None \<and>
   (\<exists>s' f goaway. session_drain Sr_Normal sample_hosting = (Inr (), s') \<and>
      ss_outbound s' = ss_outbound sample_hosting @ [f] \<and> goaway_decode (wf_payload f) = Inr goaway \<and>
      2 \<le> ga_last_accepted_remote_stream_id goaway)"
proof -
  obtain s' where drain: "session_drain Sr_Normal sample_hosting = (Inr (), s')"
    using sample_hosting_values(1) by (cases "session_drain Sr_Normal sample_hosting") simp
  note hosting = session_goaway [OF sample_hosting_run [unfolded sample_session_def] sample_resources_ok,
      of undefined undefined Sr_Normal]
  from hosting drain sample_hosting_values(2-4) obtain f goaway where
    "ss_outbound s' = ss_outbound sample_hosting @ [f]" "goaway_decode (wf_payload f) = Inr goaway"
    "2 \<le> ga_last_accepted_remote_stream_id goaway"
    by blast
  with drain sample_hosting_values(3) session_goaway [OF sample_drained_run [unfolded sample_session_def]
      sample_resources_ok, of sample_registry "StreamOwner 5"]
  show ?thesis by (simp add: sample_drained_goaway)
qed

text \<open>
  Capabilities are enforced: sending, ending or cancelling with a handle of another connection or
  another owner is refused with the authority error and changes nothing at all.
\<close>

lemma session_authority:
  assumes "\<not> ss_closed s" "sh_connection stream \<noteq> ch_id (ss_handle s) \<or> sh_owner stream \<noteq> owner"
  shows "\<exists>e. session_send owner stream bs s = (Inl (Se_Authority e), s) \<and>
    session_end owner stream s = (Inl (Se_Authority e), s) \<and>
    session_cancel owner stream reason s = (Inl (Se_Authority e), s)"
proof -
  obtain e where "authorize stream (ch_id (ss_handle s)) owner = Inl e"
    using assms(2) by (cases "authorize stream (ch_id (ss_handle s)) owner") auto
  with assms(1) show ?thesis
    by (simp add: session_send_def session_end_def session_cancel_def)
qed

lemma session_close_closed [simp]: "ss_closed (session_close failure response s)"
  by (auto simp: session_close_def Let_def session_queue_frame split: option.split sum.split)

text \<open>
  C20: A peer error is contained: when a received frame is refused with an error, the session ends
  closed with no stream and no probe left; and every later frame or call (open, send, end, cancel,
  drain, ping) is refused as closed without any effect, and closing again changes nothing.
\<close>

theorem session_receive_error_closes:
  assumes "session_run (session_start n role l p rs) others h s" "outbound_ok rs"
    "session_receive frame registry now s = (Inl e, s')"
  shows "ss_closed s' \<and> ss_streams s' = [] \<and> ss_pings s' = [] \<and>
    session_receive frame' registry' now' s' = (Inl Se_Closed, s') \<and>
    session_open registry' owner s' = (Inl Se_Closed, s') \<and>
    session_send owner stream bs s' = (Inl Se_Closed, s') \<and>
    session_end owner stream s' = (Inl Se_Closed, s') \<and>
    session_cancel owner stream reason s' = (Inl Se_Closed, s') \<and>
    session_drain shutdown s' = (Inl Se_Closed, s') \<and>
    session_ping token timeout now' s' = (Inl Se_Closed, s') \<and>
    session_close failure response s' = s'"
proof -
  have "evolves s s'" using evolves_receive [of s frame registry now] assms(3) by simp
  from evolves_history [OF this session_run_inv [OF assms(1,2)]]
  have "ss_closed s' \<longrightarrow> ss_streams s' = [] \<and> ss_pings s' = []" by (simp add: session_inv_def)
  moreover have "ss_closed s'"
    using assms(3) session_close_closed
    by (auto simp: session_receive_def Let_def split: if_splits prod.splits sum.splits)
  ultimately show ?thesis
    by (simp add: session_receive_def session_open_def session_send_def session_end_def session_cancel_def
        session_drain_def session_ping_def session_close_def)
qed

theorem session_receive_error_closes_witness:
  "\<exists>s'. session_receive (VerifiedFrame sample_stray) sample_registry 0 sample_session = (Inl Se_Protocol, s') \<and>
     ss_closed s' \<and> ss_streams s' = []"
proof -
  let ?out = "session_receive (VerifiedFrame sample_stray) sample_registry 0 sample_session"
  have "fst ?out = Inl Se_Protocol"
    by (simp add: session_receive_def session_receive_parts_def session_tick_def sample_stray_def
        sample_session_def session_eval ids_was_created_def)
  then have out: "?out = (Inl Se_Protocol, snd ?out)" by (metis prod.collapse)
  from session_receive_error_closes [OF sample_run [unfolded sample_session_def] sample_resources_ok
      out [unfolded sample_session_def]]
  show ?thesis
    by (intro exI [of _ "snd ?out"] conjI out) (simp_all add: sample_session_def)
qed

text \<open>
  C21: Output order: the frame taken next is the oldest queued frame of its stream, the other streams'
  queues are untouched, OPEN frames leave in the order they were queued, GOAWAY overtakes no OPEN, no
  frame is lost or duplicated, and a frame is taken whenever one is queued.
\<close>

theorem scheduler_order:
  assumes "session_pop_outbound s = (out, s')"
  shows "case out of
      None \<Rightarrow> ss_outbound s = [] \<and> s' = s
    | Some f \<Rightarrow>
        (\<forall>i. filter (\<lambda>g. frame_id g = i) (ss_outbound s)
           = (if frame_id f = i then [f] else []) @ filter (\<lambda>g. frame_id g = i) (ss_outbound s')) \<and>
        filter is_open_frame (ss_outbound s)
          = (if is_open_frame f then [f] else []) @ filter is_open_frame (ss_outbound s') \<and>
        mset (ss_outbound s) = add_mset f (mset (ss_outbound s')) \<and>
        (frame_kind f = Ft_GoAway \<longrightarrow>
          (\<exists>earlier later. ss_outbound s = earlier @ f # later \<and> (\<forall>g \<in> set earlier. \<not> is_open_frame g)))"
proof (cases out)
  case None
  then show ?thesis
    using assms next_output_total [of s] session_pop_outbound_None
    by (auto simp: session_pop_outbound_def)
next
  case (Some f)
  then have pop: "session_next_output s = (Some f, s')"
    using assms by (simp add: session_pop_outbound_def)
  have "frame_kind f = Ft_GoAway \<Longrightarrow>
      \<exists>earlier later. ss_outbound s = earlier @ f # later \<and> (\<forall>g \<in> set earlier. \<not> is_open_frame g)"
    using pop by (rule next_output_split) (auto simp: sendable_after_def)
  with Some next_output_order [OF pop] show ?thesis by auto
qed

theorem scheduler_order_witness:
  "\<exists>f s'. session_pop_outbound sample_opened = (Some f, s') \<and>
     mset (ss_outbound sample_opened) = add_mset f (mset (ss_outbound s'))"
proof -
  have "ss_outbound sample_opened \<noteq> []" using sample_opened_values(3) by auto
  then obtain f s' where pop: "session_pop_outbound sample_opened = (Some f, s')"
    using next_output_total [of sample_opened]
    by (cases "session_next_output sample_opened") (auto simp: session_pop_outbound_def)
  from pop scheduler_order [OF pop] show ?thesis by auto
qed

text \<open>
  C22: No stream starves: if the next frame of a stream may be sent, it is taken within as many turns
  as there are streams with queued output.
\<close>

theorem scheduler_no_starvation:
  assumes "sendable (ss_outbound s) g"
  shows "frame_id g \<in> frame_id ` set (fst (session_pops (card (frame_id ` set (ss_outbound s))) s))"
proof -
  have "g \<in> set (ss_outbound s)" using assms by (auto simp: sendable_def)
  then have "card (ahead (frame_id g) s) < card (frame_id ` set (ss_outbound s))"
    by (intro card_ahead) auto
  with assms show ?thesis by (rule session_pops_serves)
qed

theorem scheduler_no_starvation_witness:
  "\<exists>g. sendable (ss_outbound sample_opened) g \<and>
     frame_id g \<in> frame_id ` set (fst (session_pops (card (frame_id ` set (ss_outbound sample_opened))) sample_opened))"
proof -
  obtain g fs where "ss_outbound sample_opened = g # fs"
    using sample_opened_values(3) by (cases "ss_outbound sample_opened") auto
  then have "sendable (ss_outbound sample_opened) g"
    unfolding sendable_def by (intro exI [of _ "[]"] exI [of _ fs]) (simp add: sendable_after_def)
  with scheduler_no_starvation [OF this] show ?thesis by blast
qed

end
