(* ===== verification/Connection_Invariant.thy ===== *)
theory Connection_Invariant
  imports Connection Session_Run
begin

text \<open>
  The invariant of a connection and its preservation by every operation. It says which parts exist in
  which phase (\<open>phase_ok\<close>), that the session and the handshake are those of an authenticated execution
  of the handshake (\<open>vetted\<close>), and that the shared budgets account for exactly what the connection
  holds (\<open>books\<close>). As for sessions, the ghost arguments are the history of all events queued so far and
  the parts \<open>others\<close> and \<open>conns\<close> of the two budgets that belong to other connections.
\<close>

section \<open>The parts of the invariant\<close>

definition all_events :: "('s, 'e, 'k) Connection \<Rightarrow> Event list" where
  "all_events c = cn_events c @ (case cn_session c of None \<Rightarrow> [] | Some s \<Rightarrow> ss_events s)"

definition held :: "('s, 'e, 'k) Connection \<Rightarrow> usize" where
  "held c = queued_bytes (cn_handshake_output c) + reserved (fw_reservation (cn_writer c))"

definition phase_ok :: "('s, 'e, 'k) Connection \<Rightarrow> bool" where
  "phase_ok c \<longleftrightarrow>
     (cn_socket c \<noteq> None \<longrightarrow>
        (cn_handshake c \<noteq> None \<longleftrightarrow> cn_session c = None) \<and>
        (cn_integrity c \<noteq> None \<longleftrightarrow> cn_session c \<noteq> None) \<and> cn_admission c = Some 1) \<and>
     (cn_socket c = None \<longrightarrow>
        cn_handshake c = None \<and> cn_integrity c = None \<and> cn_admission c = None \<and>
        cn_handshake_output c = [] \<and> cn_writer c = writer_default \<and> cn_writing c = None \<and>
        (\<forall>s. cn_session c = Some s \<longrightarrow> ss_outbound s = [] \<and> ss_closed s)) \<and>
     (cn_closing c \<longrightarrow>
        (\<forall>h. cn_handshake c = Some h \<longrightarrow> \<not> hs_peer_verified h \<or> hs_closed h) \<and>
        (\<forall>s. cn_session c = Some s \<longrightarrow> ss_closed s))"

text \<open>
  Where a connection comes from: the options it was begun with, and the HELLO and the ephemeral secret
  its own handshake generated then. They tell this connection's handshake from any other.
\<close>

record 'e Origin =
  og_options :: Options
  og_hello :: Hello
  og_secret :: 'e

definition begun_as :: "'e Origin \<Rightarrow> ('s, 'e, 'k) Connection \<Rightarrow> bool" where
  "begun_as origin c \<longleftrightarrow>
     (\<exists>hs. cn_handshake c = Some hs \<and> hs_local hs = og_hello origin \<and> hs_private hs = Some (og_secret origin))"

definition originates ::
    "'i Identity \<Rightarrow> ('g, 'e, 'h, 'p, 'k) Cryptography \<Rightarrow> 'e Origin \<Rightarrow> ('e, 'k) Handshake \<Rightarrow> bool" where
  "originates idn cy origin hs \<longleftrightarrow>
     handshake_run idn cy (co_role (og_options origin)) (co_expected_peer (og_options origin))
       (og_secret origin) hs \<and>
     hs_local hs = og_hello origin"

text \<open>The keys in use are those of the handshake, as left by operations of the integrity layer only.\<close>

definition keyed :: "('g, 'e, 'h, 'p, 'k) Cryptography \<Rightarrow> 'k SessionKeys \<Rightarrow> 'k Integrity \<Rightarrow> bool" where
  "keyed cy keys it \<longleftrightarrow> (\<exists>sealed accepted. integrity_run cy (integrity_new keys) sealed accepted it)"

definition vetted ::
    "'i Identity \<Rightarrow> ('g, 'e, 'h, 'p, 'k) Cryptography \<Rightarrow> 'e Origin \<Rightarrow> ('s, 'e, 'k) Connection \<Rightarrow> bool" where
  "vetted idn cy origin c \<longleftrightarrow>
     (\<forall>hs. cn_handshake c = Some hs \<longrightarrow> originates idn cy origin hs) \<and>
     (\<forall>s. cn_session c = Some s \<longrightarrow>
        (\<exists>hs est hs'. originates idn cy origin hs \<and> take_established hs = (Some est, hs') \<and>
           ss_context s = \<lparr>pc_connection = ch_id (cn_handle c), pc_role = es_role est,
             pc_local_identity = es_local_identity est, pc_peer_identity = es_peer_identity est\<rparr> \<and>
           (\<forall>it. cn_integrity c = Some it \<longrightarrow> keyed cy (es_keys est) it)))"

lemma keyed_new: "keyed cy keys (integrity_new keys)"
  unfolding keyed_def by (blast intro: integrity_run.run_start)

lemma keyed_seal: "keyed cy keys it \<Longrightarrow> integrity_seal cy f it rs = (res, it', rs') \<Longrightarrow> keyed cy keys it'"
  unfolding keyed_def by (cases res) (blast intro: integrity_run.run_seal integrity_run.run_seal_error)+

lemma keyed_sent: "keyed cy keys it \<Longrightarrow> integrity_sent it = (res, it') \<Longrightarrow> keyed cy keys it'"
  unfolding keyed_def by (blast intro: integrity_run.run_sent)

lemma keyed_verify: "keyed cy keys it \<Longrightarrow> integrity_verify cy f it = (res, it') \<Longrightarrow> keyed cy keys it'"
  unfolding keyed_def by (cases res) (blast intro: integrity_run.run_verify integrity_run.run_verify_error)+

lemma originates_sent: "originates idn cy origin hs \<Longrightarrow> handshake_sent kind hs = (res, hs') \<Longrightarrow> originates idn cy origin hs'"
  unfolding originates_def
  by (auto intro: handshake_run.run_sent) (auto simp: handshake_sent_def handshake_close_def split: if_splits)

lemma originates_receive:
  "originates idn cy origin hs \<Longrightarrow> handshake_receive frame idn cy (hs, i, g) = (reply, hs', i', g') \<Longrightarrow>
     originates idn cy origin hs'"
  unfolding originates_def using receive_local by (metis handshake_run.run_receive)

definition books :: "usize \<Rightarrow> usize \<Rightarrow> Event list \<Rightarrow> ('s, 'e, 'k) Connection \<Rightarrow> bool" where
  "books others conns h c \<longleftrightarrow>
     ct_used (rs_connections (cn_resources c)) = conns + reserved (cn_admission c) \<and>
     (case cn_session c of
        None \<Rightarrow>
          set (cn_events c) \<subseteq> set h \<and> (\<forall>e \<in> set h. is_closing e) \<and> own_events (cn_handle c) h \<and>
          outbound_used (cn_resources c) = others + held c \<and> outbound_ok (cn_resources c)
      | Some s \<Rightarrow>
          cn_events c = [] \<and> ss_handle s = cn_handle c \<and>
          session_inv (others + held c) h (s\<lparr>ss_resources := cn_resources c\<rparr>))"

definition told :: "('s, 'e, 'k) Connection \<Rightarrow> bool" where
  "told c \<longleftrightarrow> (case cn_session c of
     None \<Rightarrow> cn_closing c \<or> cn_socket c = None | Some s \<Rightarrow> ss_closed s)"

definition connection_inv ::
    "'i Identity \<Rightarrow> ('g, 'e, 'h, 'p, 'k) Cryptography \<Rightarrow> 'e Origin \<Rightarrow> usize \<Rightarrow> usize \<Rightarrow> Event list
      \<Rightarrow> ('s, 'e, 'k) Connection \<Rightarrow> bool" where
  "connection_inv idn cy origin others conns h c \<longleftrightarrow>
     phase_ok c \<and> vetted idn cy origin c \<and> books others conns h c \<and>
     closings h = (if told c then 1 else 0)"

lemma books_None:
  "cn_session c = None \<Longrightarrow>
     books others conns h c \<longleftrightarrow>
       ct_used (rs_connections (cn_resources c)) = conns + reserved (cn_admission c) \<and>
       set (cn_events c) \<subseteq> set h \<and> (\<forall>e \<in> set h. is_closing e) \<and> own_events (cn_handle c) h \<and>
       outbound_used (cn_resources c) = others + held c \<and> outbound_ok (cn_resources c)"
  by (simp add: books_def)

lemma books_Some:
  "cn_session c = Some s \<Longrightarrow>
     books others conns h c \<longleftrightarrow>
       ct_used (rs_connections (cn_resources c)) = conns + reserved (cn_admission c) \<and>
       cn_events c = [] \<and> ss_handle s = cn_handle c \<and>
       session_inv (others + held c) h (s\<lparr>ss_resources := cn_resources c\<rparr>)"
  by (simp add: books_def)

lemma books_closings:
  "books others conns h c \<Longrightarrow> cn_session c = Some s \<Longrightarrow> closings h = (if ss_closed s then 1 else 0)"
  by (simp add: books_Some session_inv_def)

section \<open>Lending the session\<close>

lemma update_session_None: "cn_session c = None \<Longrightarrow> update_session f c = c"
  by (simp add: update_session_def with_session_def)

lemma update_session_Some:
  "cn_session c = Some s \<Longrightarrow>
     update_session f c = c\<lparr>cn_session := Some (f (s\<lparr>ss_resources := cn_resources c\<rparr>)),
       cn_resources := ss_resources (f (s\<lparr>ss_resources := cn_resources c\<rparr>))\<rparr>"
  by (simp add: update_session_def with_session_def session_set_resources_def)

lemma update_session_frame [simp]:
  "cn_admission (update_session f c) = cn_admission c"
  "cn_handle (update_session f c) = cn_handle c"
  "cn_socket (update_session f c) = cn_socket c"
  "cn_reader (update_session f c) = cn_reader c"
  "cn_writer (update_session f c) = cn_writer c"
  "cn_handshake (update_session f c) = cn_handshake c"
  "cn_integrity (update_session f c) = cn_integrity c"
  "cn_handshake_output (update_session f c) = cn_handshake_output c"
  "cn_writing (update_session f c) = cn_writing c"
  "cn_events (update_session f c) = cn_events c"
  "cn_deadline (update_session f c) = cn_deadline c"
  "cn_timeout (update_session f c) = cn_timeout c"
  "cn_closing (update_session f c) = cn_closing c"
  "cn_session (update_session f c) = None \<longleftrightarrow> cn_session c = None"
  "held (update_session f c) = held c"
  by (cases "cn_session c"; simp add: update_session_None update_session_Some held_def)+

lemma session_resources_self: "s\<lparr>ss_resources := ss_resources s\<rparr> = s"
  by simp

lemma update_session_books:
  assumes "books others conns h c" "\<And>s. evolves s (f s)"
  obtains new where "all_events (update_session f c) = all_events c @ new"
    "books others conns (h @ new) (update_session f c)"
proof (cases "cn_session c")
  case None
  with assms(1) show ?thesis by (intro that [of "[]"]) (simp_all add: update_session_None)
next
  case (Some s)
  let ?s = "s\<lparr>ss_resources := cn_resources c\<rparr>"
  from assms(2) [of ?s] obtain new where new: "ss_events (f ?s) = ss_events s @ new"
      "\<forall>others h. session_inv others h ?s \<longrightarrow> session_inv others (h @ new) (f ?s)"
      "ss_handle (f ?s) = ss_handle s" "rs_connections (ss_resources (f ?s)) = rs_connections (cn_resources c)"
    by (auto simp: evolves_def)
  show ?thesis
  proof (rule that [of new])
    show "all_events (update_session f c) = all_events c @ new"
      using Some new(1) by (simp add: all_events_def update_session_Some)
    show "books others conns (h @ new) (update_session f c)"
      using assms(1) Some new by (simp add: update_session_Some books_Some held_def)
  qed
qed

lemma update_session_context:
  assumes "\<And>s. evolves s (f s)" "cn_session c = Some s" "cn_session (update_session f c) = Some s'"
  shows "ss_context s' = ss_context s" "ss_closed s \<Longrightarrow> ss_closed s'"
  using assms(1) [of "s\<lparr>ss_resources := cn_resources c\<rparr>"] assms(2,3)
  by (auto simp: update_session_Some evolves_def)

lemma update_session_vetted:
  assumes "vetted idn cy origin c" "\<And>s. evolves s (f s)"
  shows "vetted idn cy origin (update_session f c)"
proof (cases "cn_session c")
  case None
  with assms(1) show ?thesis by (simp add: update_session_None)
next
  case (Some s)
  then obtain s' where s': "cn_session (update_session f c) = Some s'"
    by (simp add: update_session_Some)
  have "ss_context s' = ss_context s" using assms(2) Some s' by (rule update_session_context)
  with assms(1) Some s' show ?thesis by (simp add: vetted_def)
qed

text \<open>An operation of the session is an operation of the connection.\<close>

definition cn_evolves ::
    "'i Identity \<Rightarrow> ('g, 'e, 'h, 'p, 'k) Cryptography \<Rightarrow> 'e Origin \<Rightarrow> ('s, 'e, 'k) Connection
      \<Rightarrow> ('s, 'e, 'k) Connection \<Rightarrow> bool" where
  "cn_evolves idn cy origin c c' \<longleftrightarrow>
     (\<forall>others conns h. connection_inv idn cy origin others conns h c \<longrightarrow>
        (\<exists>new. all_events c' = all_events c @ new \<and> connection_inv idn cy origin others conns (h @ new) c'))"

lemma cn_evolves_refl [simp]: "cn_evolves idn cy origin c c"
  by (auto simp: cn_evolves_def intro!: exI [of _ "[]"])

lemma cn_evolves_trans [trans]:
  assumes "cn_evolves idn cy origin c d" "cn_evolves idn cy origin d e"
  shows "cn_evolves idn cy origin c e"
  unfolding cn_evolves_def
proof (intro allI impI)
  fix others conns h
  assume "connection_inv idn cy origin others conns h c"
  with assms(1) obtain a where a: "all_events d = all_events c @ a"
      "connection_inv idn cy origin others conns (h @ a) d" unfolding cn_evolves_def by blast
  with assms(2) obtain b where b: "all_events e = all_events d @ b"
      "connection_inv idn cy origin others conns ((h @ a) @ b) e" unfolding cn_evolves_def by blast
  from a(1) b show "\<exists>new. all_events e = all_events c @ new \<and>
      connection_inv idn cy origin others conns (h @ new) e"
    by (intro exI [of _ "a @ b"]) simp
qed

lemma cn_evolves_session:
  assumes ev: "\<And>s. evolves s (f s)" and "cn_socket c \<noteq> None"
  shows "cn_evolves idn cy origin c (update_session f c)"
  unfolding cn_evolves_def
proof (intro allI impI)
  fix others conns h
  assume inv: "connection_inv idn cy origin others conns h c"
  then have "books others conns h c" by (simp add: connection_inv_def)
  then obtain new where new: "all_events (update_session f c) = all_events c @ new"
      "books others conns (h @ new) (update_session f c)"
    using ev by (rule update_session_books)
  have "phase_ok (update_session f c)"
  proof (cases "cn_session c")
    case None
    with inv show ?thesis by (simp add: update_session_None connection_inv_def)
  next
    case (Some s)
    then obtain s' where s': "cn_session (update_session f c) = Some s'" by (simp add: update_session_Some)
    have "ss_closed s \<Longrightarrow> ss_closed s'" using ev Some s' by (rule update_session_context)
    with inv Some s' assms(2) show ?thesis by (auto simp: connection_inv_def phase_ok_def)
  qed
  moreover have "vetted idn cy origin (update_session f c)"
    using inv ev by (intro update_session_vetted) (simp_all add: connection_inv_def)
  moreover have "closings (h @ new) = (if told (update_session f c) then 1 else 0)"
  proof (cases "cn_session (update_session f c)")
    case None
    then have "cn_session c = None" by simp
    with inv new(1) show ?thesis by (simp add: update_session_None connection_inv_def all_events_def)
  next
    case (Some s)
    from books_closings [OF new(2) Some] Some show ?thesis by (simp add: told_def)
  qed
  ultimately show "\<exists>new. all_events (update_session f c) = all_events c @ new \<and>
      connection_inv idn cy origin others conns (h @ new) (update_session f c)"
    using new by (auto simp: connection_inv_def)
qed
section \<open>Closing\<close>

lemma session_discard_keeps:
  "session_inv others h s \<Longrightarrow>
     session_inv others h (session_discard s) \<and> ss_outbound (session_discard s) = [] \<and>
     ss_events (session_discard s) = ss_events s \<and> ss_closed (session_discard s) = ss_closed s \<and>
     ss_handle (session_discard s) = ss_handle s \<and> ss_context (session_discard s) = ss_context s \<and>
     rs_connections (ss_resources (session_discard s)) = rs_connections (ss_resources s)"
proof (induction s rule: session_discard.induct)
  case (1 s)
  note inv = "1.prems"
  obtain out s' where pop: "session_pop_outbound s = (out, s')" by (cases "session_pop_outbound s")
  show ?case
  proof (cases out)
    case None
    with pop have "s' = s" "fst (session_next_output s) = None"
      using session_pop_outbound_None by (auto simp: session_pop_outbound_def)
    then show ?thesis
      using inv pop None next_output_total [of s] by (simp add: session_discard.simps [of s])
  next
    case (Some f)
    let ?t = "s'\<lparr>ss_resources := drop_outbound (wf_reservation f) (ss_resources s')\<rparr>"
    note pop = pop [unfolded Some]
    from pop have "session_next_output s = (Some f, s')" by (simp add: session_pop_outbound_def)
    then obtain earlier later where s': "s' = s\<lparr>ss_last_output := Some (frame_id f), ss_outbound := earlier @ later\<rparr>"
      by (rule next_output_split)
    have "queued_ok f" using inv pop by (rule session_pop_outbound_inv)
    then obtain n where n: "wf_reservation f = Some n" by (simp add: queued_ok_def)
    have "session_inv (others + n) h s'" using session_pop_outbound_inv(1) [OF inv pop] n by simp
    then have t: "session_inv others h ?t" using n by (simp add: session_inv_release)
    have step: "session_discard s = session_discard ?t" using pop by (simp add: session_discard.simps [of s])
    from "1.IH" [OF pop [symmetric] refl t] show ?thesis unfolding step by (simp add: s')
  qed
qed

lemma session_discard_inv:
  assumes "session_inv others h s"
  shows "session_inv others h (session_discard s)" "ss_outbound (session_discard s) = []"
    "ss_events (session_discard s) = ss_events s" "ss_closed (session_discard s) = ss_closed s"
    "ss_handle (session_discard s) = ss_handle s" "ss_context (session_discard s) = ss_context s"
    "rs_connections (ss_resources (session_discard s)) = rs_connections (ss_resources s)"
  using session_discard_keeps [OF assms] by simp_all

text \<open>
  Releasing a connection whose end has been announced: nothing is held any more, and the budgets are
  back to what the others hold.
\<close>

lemma drop_connection_frame [simp]:
  "outbound_used (drop_connection v rs) = outbound_used rs"
  "outbound_ok (drop_connection v rs) = outbound_ok rs"
  "rs_limits (drop_connection v rs) = rs_limits rs"
  "rs_outbound (drop_connection v rs) = rs_outbound rs"
  by (auto simp: drop_connection_def outbound_used_def outbound_ok_def split: option.splits)

lemma drop_connection_used [simp]:
  "reserved v \<le> ct_used (rs_connections rs) \<Longrightarrow>
     ct_used (rs_connections (drop_connection v rs)) = ct_used (rs_connections rs) - reserved v"
  by (auto simp: drop_connection_def split: option.splits)

lemma session_inv_budget:
  assumes "session_inv others h (s\<lparr>ss_resources := rs\<rparr>)" "rs_limits rs' = rs_limits rs"
    "outbound_used rs' + others = outbound_used rs + others'" "outbound_ok rs'"
  shows "session_inv others' h (s\<lparr>ss_resources := rs'\<rparr>)"
  using assms by (auto simp: session_inv_def queue_ok_def)

lemma drop_frames_ok: "outbound_ok rs \<Longrightarrow> queued_bytes fs \<le> outbound_used rs \<Longrightarrow> outbound_ok (drop_frames fs rs)"
  by (simp add: outbound_ok_def drop_frames_used)

lemma writer_default_free [simp]: "fw_reservation writer_default = None"
  by (simp add: writer_default_def)

lemma release_frame [simp]:
  "cn_socket (connection_release c) = None"
  "cn_handshake (connection_release c) = None"
  "cn_integrity (connection_release c) = None"
  "cn_admission (connection_release c) = None"
  "cn_handshake_output (connection_release c) = []"
  "cn_writer (connection_release c) = writer_default"
  "cn_writing (connection_release c) = None"
  "cn_events (connection_release c) = cn_events c"
  "cn_handle (connection_release c) = cn_handle c"
  "cn_closing (connection_release c) = cn_closing c"
  "cn_session (connection_release c) = None \<longleftrightarrow> cn_session c = None"
  "held (connection_release c) = 0"
  by (simp_all add: connection_release_def Let_def held_def)

lemma release_None:
  assumes "cn_session c = None"
  shows "cn_resources (connection_release c)
    = drop_outbound (fw_reservation (cn_writer c))
        (drop_frames (cn_handshake_output c) (drop_connection (cn_admission c) (cn_resources c)))"
    "cn_session (connection_release c) = None"
proof -
  show "cn_session (connection_release c) = None" using assms by simp
qed (use assms in \<open>simp add: connection_release_def Let_def update_session_None\<close>)

lemma release_Some:
  fixes c :: "('s, 'e, 'k) Connection"
  defines "rs \<equiv> drop_frames (cn_handshake_output c) (drop_connection (cn_admission c) (cn_resources c))"
  assumes "cn_session c = Some s"
  shows "cn_session (connection_release c) = Some (session_discard (s\<lparr>ss_resources := rs\<rparr>))"
    "cn_resources (connection_release c) = drop_outbound (fw_reservation (cn_writer c))
        (ss_resources (session_discard (s\<lparr>ss_resources := rs\<rparr>)))"
  using assms(2) by (simp_all add: connection_release_def Let_def update_session_Some rs_def)

lemma release_books:
  assumes "books others conns h c"
  shows "books others conns h (connection_release c)" "all_events (connection_release c) = all_events c"
proof -
  let ?rs = "drop_frames (cn_handshake_output c) (drop_connection (cn_admission c) (cn_resources c))"
  have "books others conns h (connection_release c) \<and> all_events (connection_release c) = all_events c"
  proof (cases "cn_session c")
    case None
    with assms show ?thesis
      by (simp add: books_None release_None all_events_def held_def drop_frames_used drop_outbound_ok drop_frames_ok)
  next
    case (Some s)
    let ?s = "s\<lparr>ss_resources := ?rs\<rparr>" and ?n = "reserved (fw_reservation (cn_writer c))"
    have inv: "session_inv (others + held c) h (s\<lparr>ss_resources := cn_resources c\<rparr>)"
      and parts: "cn_events c = []" "ss_handle s = cn_handle c"
        "ct_used (rs_connections (cn_resources c)) = conns + reserved (cn_admission c)"
      using assms Some by (simp_all add: books_Some)
    then have used: "held c \<le> outbound_used (cn_resources c)" "outbound_ok (cn_resources c)"
      by (simp_all add: session_inv_def queue_ok_def)
    have "session_inv (others + ?n) h ?s"
      by (rule session_inv_budget [OF inv]) (use used in \<open>simp_all add: held_def drop_frames_used drop_frames_ok\<close>)
    note d = session_discard_inv [OF this]
    have out: "outbound_used (ss_resources (session_discard ?s)) = others + ?n"
        "outbound_ok (ss_resources (session_discard ?s))"
      using d(1,2) by (simp_all add: session_inv_def queue_ok_def)
    have "session_inv others h ((session_discard ?s)\<lparr>ss_resources :=
        drop_outbound (fw_reservation (cn_writer c)) (ss_resources (session_discard ?s))\<rparr>)"
      by (rule session_inv_budget [where others = "others + ?n" and rs = "ss_resources (session_discard ?s)"])
         (use d(1) out in \<open>simp_all add: drop_outbound_ok\<close>)
    with Some parts d release_Some [OF Some] show ?thesis
      by (simp add: books_Some all_events_def)
  qed
  then show "books others conns h (connection_release c)" "all_events (connection_release c) = all_events c"
    by simp_all
qed

lemma release_vetted: "vetted idn cy origin c \<Longrightarrow> books others conns h c \<Longrightarrow> vetted idn cy origin (connection_release c)"
proof (cases "cn_session c")
  case (Some s)
  let ?s = "s\<lparr>ss_resources := drop_frames (cn_handshake_output c) (drop_connection (cn_admission c) (cn_resources c))\<rparr>"
  assume "vetted idn cy origin c" "books others conns h c"
  moreover from this Some have "\<exists>others. session_inv others h ?s"
    by (auto simp: books_Some session_inv_def queue_ok_def drop_frames_used drop_frames_ok held_def
        intro!: exI [of _ "others + reserved (fw_reservation (cn_writer c))"])
  then have "ss_context (session_discard ?s) = ss_context s"
    using session_discard_inv(6) by fastforce
  ultimately show ?thesis using Some release_Some(1) [OF Some] by (auto simp: vetted_def)
qed (simp add: vetted_def release_None)

lemma release_inv:
  assumes "vetted idn cy origin c" "books others conns h c" "closings h = 1"
  shows "connection_inv idn cy origin others conns h (connection_release c)"
proof -
  have b: "books others conns h (connection_release c)" using assms(2) by (rule release_books)
  have "phase_ok (connection_release c)"
  proof (cases "cn_session c")
    case None
    then show ?thesis by (simp add: phase_ok_def release_None)
  next
    case (Some s)
    let ?s = "s\<lparr>ss_resources := drop_frames (cn_handshake_output c) (drop_connection (cn_admission c) (cn_resources c))\<rparr>"
    have "\<exists>others. session_inv others h ?s"
      using assms(2) Some
      by (auto simp: books_Some session_inv_def queue_ok_def drop_frames_used drop_frames_ok held_def
          intro!: exI [of _ "others + reserved (fw_reservation (cn_writer c))"])
    then have "ss_outbound (session_discard ?s) = []" using session_discard_inv(2) by blast
    moreover have "ss_closed (session_discard ?s)"
      using books_closings [OF b release_Some(1) [OF Some]] assms(3)
      by (cases "ss_closed (session_discard ?s)") simp_all
    ultimately show ?thesis using release_Some(1) [OF Some] by (simp add: phase_ok_def)
  qed
  moreover have "told (connection_release c)"
  proof (cases "cn_session (connection_release c)")
    case (Some s)
    from books_closings [OF b Some] assms(3) Some show ?thesis by (cases "ss_closed s") (simp_all add: told_def)
  next
    case None
    then have "cn_session c = None" by simp
    then show ?thesis by (simp add: told_def release_None)
  qed
  ultimately show ?thesis using assms(3) b release_vetted [OF assms(1,2)] by (simp add: connection_inv_def)
qed

lemma connection_invD:
  assumes "connection_inv idn cy origin others conns h c"
  shows "phase_ok c" "vetted idn cy origin c" "books others conns h c" "closings h = (if told c then 1 else 0)"
  using assms by (simp_all add: connection_inv_def)

text \<open>Releasing after the session was told, or after the announcement without a session.\<close>

lemma release_closed_session:
  assumes "connection_inv idn cy origin others conns h c" "cn_session c = Some s" "ss_closed s"
  shows "connection_inv idn cy origin others conns h (connection_release c)"
    "all_events (connection_release c) = all_events c"
proof -
  note inv = connection_invD [OF assms(1)]
  have "closings h = 1" using books_closings [OF inv(3) assms(2)] assms(3) by simp
  with inv show "connection_inv idn cy origin others conns h (connection_release c)" by (intro release_inv)
  show "all_events (connection_release c) = all_events c" using inv(3) by (rule release_books)
qed

lemma cn_evolves_release:
  assumes "told c"
  shows "cn_evolves idn cy origin c (connection_release c)"
  unfolding cn_evolves_def
proof (intro allI impI exI [of _ "[]"] conjI)
  fix others conns h
  assume "connection_inv idn cy origin others conns h c"
  note inv = connection_invD [OF this]
  show "all_events (connection_release c) = all_events c @ []" using release_books(2) [OF inv(3)] by simp
  show "connection_inv idn cy origin others conns (h @ []) (connection_release c)"
    using inv assms by (simp add: release_inv)
qed

lemma cn_evolves_close_session:
  assumes "cn_socket c \<noteq> None" "cn_session c \<noteq> None"
  shows "cn_evolves idn cy origin c (connection_release (update_session (session_close failure response) c))"
proof (rule cn_evolves_trans [OF cn_evolves_session cn_evolves_release])
  show "told (update_session (session_close failure response) c)"
    using assms(2) by (auto simp: told_def update_session_Some)
qed (use assms in \<open>simp_all add: evolves_close\<close>)

lemma cn_evolves_abort: "cn_evolves idn cy origin c (connection_abort d c)"
proof (cases "cn_socket c")
  case None
  then show ?thesis by (simp add: connection_abort_def)
next
  case (Some sock)
  show ?thesis
  proof (cases "cn_session c")
    case None
    show ?thesis
    proof (cases "cn_closing c")
      case True
      with Some None show ?thesis by (simp add: connection_abort_def cn_evolves_release told_def)
    next
      case False
      let ?e = "Ev_ConnectionClosed (ch_id (cn_handle c)) (Some (ds_failure d))"
      let ?c = "c\<lparr>cn_events := cn_events c @ [?e]\<rparr>"
      show ?thesis
        unfolding cn_evolves_def
      proof (intro allI impI exI [of _ "[?e]"] conjI)
        fix others conns h
        assume "connection_inv idn cy origin others conns h c"
        note inv = connection_invD [OF this]
        have books: "books others conns (h @ [?e]) ?c"
          using inv(3) None by (auto simp: books_None held_def)
        have "closings (h @ [?e]) = 1" "vetted idn cy origin ?c"
          using inv None False Some by (simp_all add: told_def vetted_def)
        with books show "connection_inv idn cy origin others conns (h @ [?e]) (connection_abort d c)"
          using Some None False by (simp add: connection_abort_def release_inv)
        show "all_events (connection_abort d c) = all_events c @ [?e]"
          using Some None False release_books(2) [OF books]
          by (simp add: connection_abort_def all_events_def)
      qed
    qed
  next
    case session: (Some s)
    with Some show ?thesis by (simp add: connection_abort_def cn_evolves_close_session)
  qed
qed

text \<open>The two forms of a failure that is answered.\<close>

definition closing_from :: "Instant \<Rightarrow> ('s, 'e, 'k) Connection \<Rightarrow> ('s, 'e, 'k) Connection" where
  "closing_from deadline c =
     c\<lparr>cn_deadline := deadline, cn_closing := True,
       cn_resources := drop_frames (cn_handshake_output c) (cn_resources c),
       cn_handshake_output := []\<rparr>"

lemma closing_from_frame [simp]:
  "cn_socket (closing_from t c) = cn_socket c" "cn_handshake (closing_from t c) = cn_handshake c"
  "cn_session (closing_from t c) = cn_session c" "cn_events (closing_from t c) = cn_events c"
  "cn_integrity (closing_from t c) = cn_integrity c" "cn_handle (closing_from t c) = cn_handle c"
  "cn_admission (closing_from t c) = cn_admission c" "cn_writer (closing_from t c) = cn_writer c"
  "cn_closing (closing_from t c)" "cn_handshake_output (closing_from t c) = []"
  "all_events (closing_from t c) = all_events c"
  by (simp_all add: closing_from_def all_events_def)

lemma closing_from_books:
  assumes "books others conns h c"
  shows "books others conns h (closing_from t c)"
proof (cases "cn_session c")
  case None
  with assms show ?thesis
    by (simp add: closing_from_def books_None held_def drop_frames_used drop_frames_ok)
next
  case (Some s)
  with assms show ?thesis
    by (auto simp: closing_from_def books_Some held_def session_inv_def queue_ok_def drop_frames_used
        drop_frames_ok)
qed

lemma fail_answered:
  assumes "with_safe_output (safe_output c) d = d'" "ds_response d' = Some code"
    "instant_checked_add now (cn_timeout c) = Some deadline" "cn_session c = None"
  obtains rs out where
    "connection_fail d now c = (closing_from deadline c)\<lparr>
       cn_events := cn_events c @ [Ev_ConnectionClosed (ch_id (cn_handle c)) (Some (ds_failure d'))],
       cn_resources := rs, cn_handshake_output := out\<rparr>"
    "outbound_used rs = outbound_used (cn_resources (closing_from deadline c)) + queued_bytes out"
    "rs_connections rs = rs_connections (cn_resources (closing_from deadline c))"
    "outbound_ok (cn_resources (closing_from deadline c)) \<longrightarrow> outbound_ok rs"
proof -
  let ?c1 = "closing_from deadline c"
  have fail: "connection_fail d now c =
      (let c2 = ?c1\<lparr>cn_events := cn_events c @ [Ev_ConnectionClosed (ch_id (cn_handle c)) (Some (ds_failure d'))]\<rparr>
       in case error_frame code of
            None \<Rightarrow> c2
          | Some frame \<Rightarrow>
              (case resources_outbound (length (wf_payload frame) + 12) (cn_resources c2) of
                 None \<Rightarrow> c2
               | Some (reservation, rs) \<Rightarrow>
                   c2\<lparr>cn_resources := rs, cn_handshake_output := cn_handshake_output c2
                        @ [frame\<lparr>wf_reservation := Some reservation\<rparr>]\<rparr>))"
    using assms by (simp add: connection_fail_def Let_def closing_from_def)
  show ?thesis
  proof (cases "\<exists>frame v rs. error_frame code = Some frame \<and>
      resources_outbound (length (wf_payload frame) + 12) (cn_resources ?c1) = Some (v, rs)")
    case True
    then obtain frame v rs where out: "error_frame code = Some frame"
      "resources_outbound (length (wf_payload frame) + 12) (cn_resources ?c1) = Some (v, rs)" by blast
    show ?thesis
      using resources_outbound_Some [OF out(2)] out
      by (intro that [of "[frame\<lparr>wf_reservation := Some v\<rparr>]" rs]) (simp_all add: fail Let_def)
  next
    case False
    then have "connection_fail d now c = ?c1\<lparr>cn_events := cn_events c
        @ [Ev_ConnectionClosed (ch_id (cn_handle c)) (Some (ds_failure d'))]\<rparr>"
      unfolding fail Let_def by (auto split: option.split)
    then show ?thesis
      by (intro that [of "[]" "cn_resources ?c1"]) (simp_all add: closing_from_def)
  qed
qed

lemma fail_told:
  assumes "with_safe_output (safe_output c) d = d'" "ds_response d' = Some code"
    "instant_checked_add now (cn_timeout c) = Some deadline" "cn_session c \<noteq> None"
  shows "connection_fail d now c
    = update_session (session_close (Some (ds_failure d')) (Some code)) (closing_from deadline c)"
  using assms by (auto simp: connection_fail_def Let_def closing_from_def)

lemma cn_evolves_fail:
  assumes "cn_socket c \<noteq> None" "\<not> cn_closing c"
    "\<And>h. cn_handshake c = Some h \<Longrightarrow> \<not> hs_peer_verified h \<or> hs_closed h"
  shows "cn_evolves idn cy origin c (connection_fail d now c)"
proof -
  let ?d = "with_safe_output (safe_output c) d"
  let ?e = "Ev_ConnectionClosed (ch_id (cn_handle c)) (Some (ds_failure ?d))"
  have ?thesis if silent: "ds_response ?d = None \<or> instant_checked_add now (cn_timeout c) = None"
    using silent by (auto simp: connection_fail_def Let_def cn_evolves_abort split: option.split)
  moreover have ?thesis
    if d: "ds_response ?d = Some code" "instant_checked_add now (cn_timeout c) = Some deadline" for code deadline
    unfolding cn_evolves_def
  proof (intro allI impI)
    fix others conns h
    assume "connection_inv idn cy origin others conns h c"
    note inv = connection_invD [OF this]
    let ?c1 = "closing_from deadline c" and ?f = "connection_fail d now c"
    have books: "books others conns h ?c1" using inv(3) by (rule closing_from_books)
    show "\<exists>new. all_events ?f = all_events c @ new \<and> connection_inv idn cy origin others conns (h @ new) ?f"
    proof (cases "cn_session c")
      case (Some s)
      then have fail: "?f = update_session (session_close (Some (ds_failure ?d)) (Some code)) ?c1"
        by (intro fail_told [OF refl d]) simp
      obtain new where new: "all_events ?f = all_events ?c1 @ new" "books others conns (h @ new) ?f"
        unfolding fail using books evolves_close by (rule update_session_books)
      obtain s' where s': "cn_session ?f = Some s'" "ss_closed s'"
        using Some by (simp add: fail update_session_Some)
      have "vetted idn cy origin ?f"
        unfolding fail
        by (rule update_session_vetted [OF _ evolves_close]) (use inv(2) in \<open>simp add: vetted_def\<close>)
      moreover have "phase_ok ?f" using inv(1) Some s' assms(1,3) by (auto simp: fail phase_ok_def)
      moreover have "closings (h @ new) = (if told ?f then 1 else 0)"
        using books_closings [OF new(2) s'(1)] s' by (simp add: told_def)
      ultimately show ?thesis using new by (auto simp: connection_inv_def)
    next
      case None
      obtain rs out where fail: "?f = ?c1\<lparr>cn_events := cn_events c @ [?e], cn_resources := rs,
            cn_handshake_output := out\<rparr>"
          and rs: "outbound_used rs = outbound_used (cn_resources ?c1) + queued_bytes out"
            "rs_connections rs = rs_connections (cn_resources ?c1)"
            "outbound_ok (cn_resources ?c1) \<longrightarrow> outbound_ok rs"
        by (rule fail_answered [OF refl d None])
      have "books others conns (h @ [?e]) ?f"
        using books None rs by (auto simp: fail books_None held_def)
      moreover have "closings (h @ [?e]) = 1" "vetted idn cy origin ?f" "told ?f"
        using inv(2,4) None assms(1,2) by (simp_all add: fail told_def vetted_def)
      moreover have "phase_ok ?f" using inv(1) None assms(1,3) by (auto simp: fail phase_ok_def)
      moreover have "all_events ?f = all_events c @ [?e]" using None by (simp add: fail all_events_def)
      ultimately show ?thesis by (auto simp: connection_inv_def)
    qed
  qed
  ultimately show ?thesis by (cases "ds_response ?d"; cases "instant_checked_add now (cn_timeout c)") auto
qed

section \<open>Establishing the session\<close>

lemma closings_zero: "closings h = 0 \<Longrightarrow> \<forall>e \<in> set h. is_closing e \<Longrightarrow> h = []"
  by (cases h) auto

lemma cn_evolves_establish: "cn_evolves idn cy origin c (connection_establish c)"
proof (cases "cn_handshake c")
  case None
  then show ?thesis by (simp add: connection_establish_def)
next
  case handshake: (Some hs)
  obtain est hs' where taken: "take_established hs = (est, hs')" by (cases "take_established hs")
  show ?thesis
  proof (cases est)
    case None
    then have "hs' = hs" using taken by (auto simp: take_established_def split: if_splits option.splits)
    then have "connection_establish c = c" using handshake taken None by (simp add: connection_establish_def)
    then show ?thesis by simp
  next
    case (Some facts)
    let ?s = "session_start (cn_handle c) (es_role facts) (es_local_identity facts) (es_peer_identity facts) (cn_resources c)"
    have c': "connection_establish c = c\<lparr>cn_session := Some ?s, cn_integrity := Some (integrity_new (es_keys facts)),
        cn_handshake := None\<rparr>"
      using handshake taken Some by (simp add: connection_establish_def session_start_def)
    have authentic: "hs_peer_verified hs" "\<not> hs_closed hs"
      using taken Some by (auto simp: take_established_def is_authenticated_def split: if_splits)
    have self: "?s\<lparr>ss_resources := cn_resources c\<rparr> = ?s" "ss_handle ?s = cn_handle c" "\<not> ss_closed ?s"
        "ss_context ?s = \<lparr>pc_connection = ch_id (cn_handle c), pc_role = es_role facts,
           pc_local_identity = es_local_identity facts, pc_peer_identity = es_peer_identity facts\<rparr>"
      by (simp_all add: session_start_def session_set_resources_def session_with_handle_def Let_def)
    show ?thesis
      unfolding cn_evolves_def
    proof (intro allI impI exI [of _ "ss_events ?s"])
      fix others conns h
      assume "connection_inv idn cy origin others conns h c"
      note inv = connection_invD [OF this]
      have phase: "cn_socket c \<noteq> None" "cn_session c = None" "\<not> cn_closing c"
        using inv(1) handshake authentic by (auto simp: phase_ok_def)
      then have "closings h = 0" using inv(4) by (simp add: told_def)
      then have h: "h = []" using inv(3) phase(2) closings_zero by (simp add: books_None)
      then have quiet: "cn_events c = []" using inv(3) phase(2) by (simp add: books_None)
      have "session_inv (others + held c) (ss_events ?s) ?s"
        using session_start_inv [of "cn_resources c"] inv(3) phase(2) by (simp add: books_None)
      then have "books others conns (h @ ss_events ?s) (connection_establish c)"
        using inv(3) phase(2) self quiet by (simp add: c' books_None books_Some h held_def)
      moreover have "vetted idn cy origin (connection_establish c)"
        using inv(2) handshake taken Some self(4) by (auto simp: c' vetted_def keyed_new)
      moreover have "phase_ok (connection_establish c)" using phase inv(1) by (simp add: c' phase_ok_def)
      moreover have "closings (h @ ss_events ?s) = (if told (connection_establish c) then 1 else 0)"
        using self(3)
        by (simp add: c' h told_def session_start_def session_set_resources_def session_with_handle_def Let_def)
      ultimately show "all_events (connection_establish c) = all_events c @ ss_events ?s \<and>
          connection_inv idn cy origin others conns (h @ ss_events ?s) (connection_establish c)"
        using quiet phase(2) by (simp add: connection_inv_def all_events_def c')
    qed
  qed
qed

section \<open>Updates of single parts\<close>

lemma inv_parts:
  assumes "connection_inv idn cy origin others conns h c" "cn_socket c \<noteq> None"
  shows "connection_inv idn cy origin others conns h (c\<lparr>cn_reader := r\<rparr>)"
    "connection_inv idn cy origin others conns h (c\<lparr>cn_socket := Some sock\<rparr>)"
    "connection_inv idn cy origin others conns h (c\<lparr>cn_writing := wr\<rparr>)"
    "connection_inv idn cy origin others conns h (c\<lparr>cn_deadline := t\<rparr>)"
    "cn_integrity c = Some it \<Longrightarrow> (\<And>keys. keyed cy keys it \<Longrightarrow> keyed cy keys it') \<Longrightarrow>
       connection_inv idn cy origin others conns h (c\<lparr>cn_integrity := Some it'\<rparr>)"
  using assms
  by (auto simp: connection_inv_def phase_ok_def vetted_def books_def told_def held_def split: option.splits)

lemma parts_events [simp]:
  "all_events (c\<lparr>cn_reader := r\<rparr>) = all_events c" "all_events (c\<lparr>cn_socket := sock\<rparr>) = all_events c"
  "all_events (c\<lparr>cn_writing := wr\<rparr>) = all_events c" "all_events (c\<lparr>cn_deadline := t\<rparr>) = all_events c"
  "all_events (c\<lparr>cn_integrity := it\<rparr>) = all_events c" "all_events (c\<lparr>cn_writer := w\<rparr>) = all_events c"
  "all_events (c\<lparr>cn_resources := rs\<rparr>) = all_events c" "all_events (c\<lparr>cn_handshake := hs\<rparr>) = all_events c"
  "all_events (c\<lparr>cn_handshake_output := out\<rparr>) = all_events c" "all_events (c\<lparr>cn_closing := b\<rparr>) = all_events c"
  by (simp_all add: all_events_def)

lemma cn_evolves_parts:
  assumes "cn_socket c \<noteq> None"
  shows "cn_evolves idn cy origin c (c\<lparr>cn_reader := r\<rparr>)"
    "cn_evolves idn cy origin c (c\<lparr>cn_socket := Some sock\<rparr>)"
    "cn_evolves idn cy origin c (c\<lparr>cn_writing := wr\<rparr>)"
    "cn_integrity c = Some it \<Longrightarrow> (\<And>keys. keyed cy keys it \<Longrightarrow> keyed cy keys it') \<Longrightarrow>
       cn_evolves idn cy origin c (c\<lparr>cn_integrity := Some it'\<rparr>)"
  using assms by (auto simp: cn_evolves_def intro!: exI [of _ "[]"] inv_parts)

lemma cn_evolves_handshake:
  assumes "cn_handshake c = Some hs" "cn_socket c \<noteq> None"
    "originates idn cy origin hs \<Longrightarrow> originates idn cy origin hs'"
    "\<not> cn_closing c"
  shows "cn_evolves idn cy origin c (c\<lparr>cn_handshake := Some hs'\<rparr>)"
  unfolding cn_evolves_def
proof (intro allI impI exI [of _ "[]"])
  fix others conns h
  assume inv: "connection_inv idn cy origin others conns h c"
  then have session: "cn_session c = None"
    using assms(1,2) by (auto simp: connection_inv_def phase_ok_def)
  show "all_events (c\<lparr>cn_handshake := Some hs'\<rparr>) = all_events c @ [] \<and>
      connection_inv idn cy origin others conns (h @ []) (c\<lparr>cn_handshake := Some hs'\<rparr>)"
    using inv assms session
    by (auto simp: connection_inv_def phase_ok_def vetted_def books_None told_def held_def)
qed

text \<open>Exchanging the writer or the queued output together with the budgets.\<close>

lemma inv_budget:
  assumes "connection_inv idn cy origin others conns h c" "cn_socket c \<noteq> None"
    "rs_limits rs = rs_limits (cn_resources c)" "rs_connections rs = rs_connections (cn_resources c)"
    "outbound_ok rs"
    "outbound_used rs + (others + held c)
       = outbound_used (cn_resources c) + (others' + held (c\<lparr>cn_writer := w, cn_handshake_output := out\<rparr>))"
  shows "connection_inv idn cy origin others' conns h
    (c\<lparr>cn_writer := w, cn_handshake_output := out, cn_resources := rs\<rparr>)"
proof -
  note inv = connection_invD [OF assms(1)]
  let ?c = "c\<lparr>cn_writer := w, cn_handshake_output := out, cn_resources := rs\<rparr>"
  have "books others' conns h ?c"
  proof (cases "cn_session c")
    case None
    with inv(3) assms(4-6) show ?thesis by (simp add: books_None held_def)
  next
    case (Some s)
    have "session_inv (others + held c) h (s\<lparr>ss_resources := cn_resources c\<rparr>)"
      using inv(3) Some by (simp add: books_Some)
    from session_inv_budget [OF this assms(3), where others' = "others' + held ?c"] assms(5,6)
    have "session_inv (others' + held ?c) h (s\<lparr>ss_resources := rs\<rparr>)" by (simp add: held_def)
    with inv(3) Some assms(4) show ?thesis by (simp add: books_Some held_def)
  qed
  with inv assms(2) show ?thesis
    by (auto simp: connection_inv_def phase_ok_def vetted_def told_def)
qed

section \<open>Output\<close>

text \<open>A frame taken from a queue carries its reservation out of the connection's share.\<close>

lemma next_frame_inv:
  assumes "connection_inv idn cy origin others conns h c" "cn_socket c \<noteq> None"
    "connection_next_frame c = (next_frame, c')"
  shows "connection_inv idn cy origin
      (others + (case next_frame of None \<Rightarrow> 0 | Some f \<Rightarrow> reserved (wf_reservation f))) conns h c'"
    "all_events c' = all_events c" "cn_socket c' = cn_socket c" "cn_writer c' = cn_writer c"
    "cn_closing c' = cn_closing c" "cn_integrity c' = cn_integrity c" "told c' = told c"
proof -
  note inv = connection_invD [OF assms(1)]
  have "connection_inv idn cy origin
      (others + (case next_frame of None \<Rightarrow> 0 | Some f \<Rightarrow> reserved (wf_reservation f))) conns h c' \<and>
    all_events c' = all_events c \<and> cn_socket c' = cn_socket c \<and> cn_writer c' = cn_writer c \<and>
    cn_closing c' = cn_closing c \<and> cn_integrity c' = cn_integrity c \<and> told c' = told c"
  proof (cases "cn_session c")
    case None
    show ?thesis
    proof (cases "cn_handshake_output c")
      case Nil
      with assms None show ?thesis by (simp add: connection_next_frame_def with_session_def)
    next
      case (Cons f fs)
      have "connection_inv idn cy origin (others + reserved (wf_reservation f)) conns h
          (c\<lparr>cn_writer := cn_writer c, cn_handshake_output := fs, cn_resources := cn_resources c\<rparr>)"
        by (rule inv_budget [OF assms(1,2)]) (use inv(3) None Cons in \<open>simp_all add: books_None held_def\<close>)
      then show ?thesis
        using assms(3) None Cons by (auto simp: connection_next_frame_def with_session_def told_def)
    qed
  next
    case (Some s)
    let ?s = "s\<lparr>ss_resources := cn_resources c\<rparr>"
    obtain out s' where pop: "session_pop_outbound ?s = (out, s')" by (cases "session_pop_outbound ?s")
    have c': "next_frame = out" "c' = c\<lparr>cn_session := Some s', cn_resources := ss_resources s'\<rparr>"
      using assms(3) Some pop
      by (simp_all add: connection_next_frame_def with_session_def session_set_resources_def)
    have session: "session_inv (others + held c) h ?s" using inv(3) Some by (simp add: books_Some)
    show ?thesis
    proof (cases out)
      case None
      with pop have "s' = ?s" using session_pop_outbound_None by blast
      moreover have "connection_inv idn cy origin others conns h (c\<lparr>cn_session := Some ?s\<rparr>)"
        using inv Some
        by (auto simp: connection_inv_def phase_ok_def vetted_def books_Some told_def held_def)
      ultimately show ?thesis
        using None c' Some by (auto simp: all_events_def told_def)
    next
      case frame: (Some f)
      note pop = pop [unfolded frame]
      have popped: "session_inv (others + held c + reserved (wf_reservation f)) h s'"
        using session_pop_outbound_inv(1) [OF session pop] .
      have "session_next_output ?s = (Some f, s')" using pop by (simp add: session_pop_outbound_def)
      then obtain earlier later where s': "ss_outbound s = earlier @ f # later"
          "s' = s\<lparr>ss_resources := cn_resources c, ss_last_output := Some (frame_id f), ss_outbound := earlier @ later\<rparr>"
        by (rule next_output_split) auto
      have kept: "ss_handle s' = ss_handle s" "ss_resources s' = cn_resources c" by (simp_all add: s'(2))
      have self: "s'\<lparr>ss_resources := cn_resources c\<rparr> = s'" unfolding kept(2) [symmetric] by simp
      have "books (others + reserved (wf_reservation f)) conns h c'"
        using inv(3) Some popped kept
        by (simp add: c' books_Some held_def add.commute add.left_commute self)
      moreover have "phase_ok c'" "vetted idn cy origin c'" "told c' = told c"
        using inv(1,2) Some s' assms(2) by (auto simp: c' phase_ok_def vetted_def told_def)
      ultimately show ?thesis
        using inv(4) frame Some s' by (simp add: connection_inv_def c' all_events_def told_def)
    qed
  qed
  then show "connection_inv idn cy origin
      (others + (case next_frame of None \<Rightarrow> 0 | Some f \<Rightarrow> reserved (wf_reservation f))) conns h c'"
    "all_events c' = all_events c" "cn_socket c' = cn_socket c" "cn_writer c' = cn_writer c"
    "cn_closing c' = cn_closing c" "cn_integrity c' = cn_integrity c" "told c' = told c"
    by blast+
qed

text \<open>
  A step that consumes a frame in hand: the connection evolves to a state in which the frame's
  reservation is either dropped or held again.
\<close>

definition cn_consumes ::
    "'i Identity \<Rightarrow> ('g, 'e, 'h, 'p, 'k) Cryptography \<Rightarrow> 'e Origin \<Rightarrow> usize \<Rightarrow> ('s, 'e, 'k) Connection
      \<Rightarrow> ('s, 'e, 'k) Connection \<Rightarrow> bool" where
  "cn_consumes idn cy origin n c c' \<longleftrightarrow>
     (\<forall>others conns h. connection_inv idn cy origin (others + n) conns h c \<longrightarrow>
        (\<exists>new. all_events c' = all_events c @ new \<and> connection_inv idn cy origin others conns (h @ new) c'))"

lemma cn_consumes_then:
  assumes "\<And>others conns h. connection_inv idn cy origin (others + n) conns h c \<Longrightarrow>
      connection_inv idn cy origin others conns h d"
    "all_events d = all_events c" "cn_evolves idn cy origin d e"
  shows "cn_consumes idn cy origin n c e"
  unfolding cn_consumes_def
proof (intro allI impI)
  fix others conns h
  assume "connection_inv idn cy origin (others + n) conns h c"
  then have "connection_inv idn cy origin others conns h d" by (rule assms(1))
  with assms(3) show "\<exists>new. all_events e = all_events c @ new \<and>
      connection_inv idn cy origin others conns (h @ new) e"
    unfolding cn_evolves_def assms(2) by blast
qed

lemma inv_share:
  assumes "connection_inv idn cy origin (others + n) conns h c"
  shows "n + held c \<le> outbound_used (cn_resources c)" "outbound_ok (cn_resources c)"
proof -
  have "n + held c \<le> outbound_used (cn_resources c) \<and> outbound_ok (cn_resources c)"
  proof (cases "cn_session c")
    case None
    with assms show ?thesis by (simp add: connection_inv_def books_None)
  next
    case (Some s)
    with assms show ?thesis by (simp add: connection_inv_def books_Some session_inv_def queue_ok_def)
  qed
  then show "n + held c \<le> outbound_used (cn_resources c)" "outbound_ok (cn_resources c)" by simp_all
qed

lemma inv_drop:
  assumes "connection_inv idn cy origin (others + reserved v) conns h c" "cn_socket c \<noteq> None"
  shows "connection_inv idn cy origin others conns h (c\<lparr>cn_resources := drop_outbound v (cn_resources c)\<rparr>)"
proof -
  have "connection_inv idn cy origin others conns h
      (c\<lparr>cn_writer := cn_writer c, cn_handshake_output := cn_handshake_output c,
         cn_resources := drop_outbound v (cn_resources c)\<rparr>)"
    by (rule inv_budget [OF assms(1,2)])
       (use inv_share [OF assms(1)] in \<open>simp_all add: held_def drop_outbound_ok\<close>)
  then show ?thesis by simp
qed

lemma writer_start_cases:
  assumes "writer_start frame phase w rs = (res, w', rs')"
  obtains (rejected) e where "res = Inl e" "w' = w" "rs' = drop_outbound (wf_reservation frame) rs"
  | (started) "res = Inr ()" "fw_reservation w' = wf_reservation frame" "rs' = drop_outbound (fw_reservation w) rs"
  using assms by (auto simp: writer_start_def Let_def split: if_splits sum.splits)

lemma start_frame_consumes:
  assumes "cn_socket c \<noteq> None" "n = reserved (wf_reservation frame)"
  shows "cn_consumes idn cy origin n c (snd (connection_start_frame frame phase kind i c))"
proof -
  obtain res w rs where start: "writer_start frame phase (cn_writer c) (cn_resources c) = (res, w, rs)"
    by (metis prod_cases3)
  then show ?thesis
  proof (cases rule: writer_start_cases)
    case (rejected e)
    let ?d = "c\<lparr>cn_writer := w, cn_resources := rs\<rparr>"
    show ?thesis
    proof (rule cn_consumes_then)
      show "connection_inv idn cy origin others conns h ?d"
        if "connection_inv idn cy origin (others + n) conns h c" for others conns h
        using inv_drop [OF that [unfolded assms(2)] assms(1)] rejected by simp
      show "cn_evolves idn cy origin ?d (snd (connection_start_frame frame phase kind i c))"
        using start rejected by (simp add: connection_start_frame_def cn_evolves_abort)
    qed simp
  next
    case started
    let ?d = "c\<lparr>cn_writer := w, cn_resources := rs\<rparr>"
    show ?thesis
    proof (rule cn_consumes_then)
      show "connection_inv idn cy origin others conns h ?d"
        if inv: "connection_inv idn cy origin (others + n) conns h c" for others conns h
      proof -
        have "connection_inv idn cy origin others conns h
            (c\<lparr>cn_writer := w, cn_handshake_output := cn_handshake_output c, cn_resources := rs\<rparr>)"
          by (rule inv_budget [OF inv assms(1)])
             (use inv_share [OF inv] started assms(2) in \<open>simp_all add: held_def drop_outbound_ok\<close>)
        then show ?thesis by simp
      qed
      show "cn_evolves idn cy origin ?d (snd (connection_start_frame frame phase kind i c))"
        using start started cn_evolves_parts(3) [of ?d] assms(1) by (simp add: connection_start_frame_def)
    qed simp
  qed
qed

lemma sealed_reservation:
  assumes "integrity_seal cy frame it rs = (res, it', rs')"
  obtains (rejected) e where "res = Inl e" "rs' = drop_outbound (wf_reservation frame) rs"
  | (sealed) f where "res = Inr f" "wf_reservation f = wf_reservation frame" "rs' = rs"
  using assms
  by (auto simp: integrity_seal_def integrity_fail_def Let_def split: option.splits if_splits sum.splits)

lemma start_next_consumes:
  fixes frame :: WireFrame and c :: "('s, 'e, 'k) Connection"
  assumes "cn_socket c \<noteq> None" "n = reserved (wf_reservation frame)"
  shows "cn_consumes idn cy origin n c (snd
    (let kind = fh_frame_type (wf_header frame); i = fh_stream_id (wf_header frame) in
     case cn_integrity c of
       None \<Rightarrow> connection_start_frame frame Untagged kind i c
     | Some it \<Rightarrow>
         (case integrity_seal cy frame it (cn_resources c) of
            (Inl error, it', rs) \<Rightarrow>
              (False, connection_abort (disposition_integrity error)
                 (c\<lparr>cn_integrity := Some it', cn_resources := rs\<rparr>))
          | (Inr sealed, it', rs) \<Rightarrow>
              connection_start_frame sealed Tagged kind i (c\<lparr>cn_integrity := Some it', cn_resources := rs\<rparr>))))"
    (is "cn_consumes idn cy origin n c (snd ?r)")
proof (cases "cn_integrity c")
  case None
  with assms show ?thesis by (simp add: Let_def start_frame_consumes)
next
  case (Some it)
  obtain res it' rs where seal: "integrity_seal cy frame it (cn_resources c) = (res, it', rs)"
    by (metis prod_cases3)
  let ?d = "c\<lparr>cn_integrity := Some it', cn_resources := rs\<rparr>"
  from seal show ?thesis
  proof (cases rule: sealed_reservation)
    case (rejected e)
    show ?thesis
    proof (rule cn_consumes_then)
      show "connection_inv idn cy origin others conns h ?d"
        if "connection_inv idn cy origin (others + n) conns h c" for others conns h
      proof -
        have "connection_inv idn cy origin (others + reserved (wf_reservation frame)) conns h
            (c\<lparr>cn_integrity := Some it'\<rparr>)"
          by (rule inv_parts(5) [OF that [unfolded assms(2)] assms(1) Some keyed_seal [OF _ seal]])
        from inv_drop [OF this] rejected assms(1) show ?thesis by simp
      qed
      show "cn_evolves idn cy origin ?d (snd ?r)"
        using seal rejected Some by (simp add: cn_evolves_abort)
    qed simp
  next
    case (sealed f)
    have "cn_consumes idn cy origin n ?d (snd ?r)"
      using seal sealed Some assms by (simp add: Let_def start_frame_consumes)
    moreover have "connection_inv idn cy origin others conns h ?d"
      if "connection_inv idn cy origin others conns h c" for others conns h
    proof -
      have "connection_inv idn cy origin others conns h (c\<lparr>cn_integrity := Some it'\<rparr>)"
        by (rule inv_parts(5) [OF that assms(1) Some keyed_seal [OF _ seal]])
      with sealed show ?thesis by simp
    qed
    moreover have "all_events ?d = all_events c" by simp
    ultimately show ?thesis by (auto simp: cn_consumes_def)
  qed
qed

lemma cn_evolves_start:
  assumes "cn_socket c \<noteq> None"
  shows "cn_evolves idn cy origin c (snd (connection_start cy c))"
proof (cases "writer_is_busy (cn_writer c)")
  case True
  then show ?thesis by (simp add: connection_start_def)
next
  case idle: False
  obtain next_frame d where next_frame: "connection_next_frame c = (next_frame, d)"
    by (cases "connection_next_frame c")
  let ?r = "snd (connection_start cy c)"
  show ?thesis
    unfolding cn_evolves_def
  proof (intro allI impI)
    fix others conns h
    assume inv: "connection_inv idn cy origin others conns h c"
    note d = next_frame_inv [OF inv assms next_frame]
    show "\<exists>new. all_events ?r = all_events c @ new \<and> connection_inv idn cy origin others conns (h @ new) ?r"
    proof (cases next_frame)
      case None
      have "cn_closing c \<Longrightarrow> told d"
        using connection_invD(1) [OF inv] d(7) by (auto simp: told_def phase_ok_def split: option.splits)
      then have "cn_evolves idn cy origin d ?r"
        using None idle next_frame d(5) by (simp add: connection_start_def cn_evolves_release)
      with d(1,2) None show ?thesis by (auto simp: cn_evolves_def)
    next
      case (Some frame)
      have "cn_socket d \<noteq> None" using assms d(3) by simp
      from start_next_consumes [OF this refl, of idn cy origin frame]
      have "cn_consumes idn cy origin (reserved (wf_reservation frame)) d ?r"
        using Some idle next_frame by (simp add: connection_start_def)
      with d(1,2) Some show ?thesis by (auto simp: cn_consumes_def)
    qed
  qed
qed

lemma handshake_sent_closes: "handshake_sent kind hs = (Inl e, hs') \<Longrightarrow> hs_closed hs'"
  by (auto simp: handshake_sent_def handshake_close_def split: if_splits)

lemma cn_evolves_written:
  assumes "cn_socket c \<noteq> None"
  shows "cn_evolves idn cy origin c (snd (connection_written kind i phase now c))"
proof -
  have reported: "cn_evolves idn cy origin c (update_session (session_sent kind i) d)"
    if "cn_evolves idn cy origin c d" "cn_socket d \<noteq> None" for d
    using that evolves_sent by (blast intro: cn_evolves_trans cn_evolves_session)
  consider (tagged) it where "phase = Tagged" "cn_integrity c = Some it"
    | (handshake) hs where "phase = Untagged" "\<not> cn_closing c" "cn_handshake c = Some hs"
    | (other) "snd (connection_written kind i phase now c) = update_session (session_sent kind i) c"
    by (cases phase; cases "cn_integrity c"; cases "cn_handshake c"; cases "cn_closing c")
       (auto simp: connection_written_def)
  then show ?thesis
  proof cases
    case tagged
    obtain res it' where sent: "integrity_sent it = (res, it')" by (cases "integrity_sent it")
    have step: "cn_evolves idn cy origin c (c\<lparr>cn_integrity := Some it'\<rparr>)"
      by (rule cn_evolves_parts(4) [OF assms tagged(2) keyed_sent [OF _ sent]])
    show ?thesis
    proof (cases res)
      case (Inl e)
      with tagged sent show ?thesis
        using cn_evolves_trans [OF step cn_evolves_abort] by (simp add: connection_written_def)
    next
      case (Inr u)
      with tagged sent reported [OF step] assms show ?thesis by (simp add: connection_written_def)
    qed
  next
    case handshake
    obtain res hs' where sent: "handshake_sent kind hs = (res, hs')" by (cases "handshake_sent kind hs")
    let ?d = "c\<lparr>cn_handshake := Some hs'\<rparr>"
    have step: "cn_evolves idn cy origin c ?d"
      using handshake(3) assms _ handshake(2) by (rule cn_evolves_handshake) (rule originates_sent [OF _ sent])
    show ?thesis
    proof (cases res)
      case (Inl e)
      then have "hs_closed hs'" using sent by (simp add: handshake_sent_closes)
      then have "cn_evolves idn cy origin ?d (connection_fail (disposition_handshake e) now ?d)"
        using assms handshake by (intro cn_evolves_fail) auto
      from cn_evolves_trans [OF step this] show ?thesis
        using handshake sent Inl by (simp add: connection_written_def)
    next
      case (Inr u)
      with handshake sent reported [OF step] assms show ?thesis by (simp add: connection_written_def)
    qed
  next
    case other
    then show ?thesis using reported [OF cn_evolves_refl assms] by simp
  qed
qed

text \<open>What a flush does to the budgets.\<close>

lemma writer_loop_budget:
  assumes "writer_loop wr n w s rs = (out, w', s', rs')" "reserved (fw_reservation w) \<le> outbound_used rs"
    "outbound_ok rs"
  shows "rs_limits rs' = rs_limits rs \<and> rs_connections rs' = rs_connections rs \<and> outbound_ok rs' \<and>
    outbound_used rs' + reserved (fw_reservation w) = outbound_used rs + reserved (fw_reservation w')"
  using assms
proof (induction n arbitrary: w s)
  case (Suc n)
  show ?case
  proof (cases "fw_offset w = length (fw_bytes w)")
    case True
    with Suc.prems show ?thesis by (auto simp: drop_outbound_ok)
  next
    case False
    obtain outcome s1 where wrote: "wr s (drop (fw_offset w) (fw_bytes w)) = (outcome, s1)"
      by (cases "wr s (drop (fw_offset w) (fw_bytes w))")
    consider (again) w1 where "writer_loop wr n w1 s1 rs = (out, w', s', rs')"
          "fw_reservation w1 = fw_reservation w"
      | (stop) "w' = w" "rs' = rs"
      | (failed) "fw_reservation w' = None" "rs' = drop_outbound (fw_reservation w) rs"
    proof (cases outcome)
      case Pending
      with Suc.prems(1) False wrote that(2) show ?thesis by (simp add: Let_def)
    next
      case (Ready res)
      have "(\<exists>w1. writer_loop wr n w1 s1 rs = (out, w', s', rs') \<and> fw_reservation w1 = fw_reservation w)
          \<or> fw_reservation w' = None \<and> rs' = drop_outbound (fw_reservation w) rs"
        using Suc.prems(1) False wrote Ready
        by (cases res) (fastforce simp: Let_def split: if_splits)+
      with that(1,3) show ?thesis by metis
    qed
    then show ?thesis
    proof cases
      case (again w1)
      with Suc.IH [of w1 s1] Suc.prems show ?thesis by simp
    qed (use Suc.prems(2,3) in \<open>simp_all add: drop_outbound_ok\<close>)
  qed
qed simp

lemma writer_flush_budget:
  assumes "writer_poll_flush wr w s rs = (out, w', s', rs')" "reserved (fw_reservation w) \<le> outbound_used rs"
    "outbound_ok rs"
  shows "rs_limits rs' = rs_limits rs \<and> rs_connections rs' = rs_connections rs \<and> outbound_ok rs' \<and>
    outbound_used rs' + reserved (fw_reservation w) = outbound_used rs + reserved (fw_reservation w')"
proof (cases "fw_failed w")
  case True
  with assms show ?thesis by (auto simp: writer_poll_flush_def)
next
  case False
  with assms(1) have "writer_loop wr 64 w s rs = (out, w', s', rs')" by (simp add: writer_poll_flush_def)
  then show ?thesis using assms(2,3) by (rule writer_loop_budget)
qed

lemma cn_evolves_flushed:
  assumes "cn_socket c = Some s" "writer_poll_flush wr (cn_writer c) s (cn_resources c) = (out, w, s', rs)"
  shows "cn_evolves idn cy origin c (c\<lparr>cn_writer := w, cn_socket := Some s', cn_resources := rs\<rparr>)"
  unfolding cn_evolves_def
proof (intro allI impI exI [of _ "[]"])
  fix others conns h
  assume inv: "connection_inv idn cy origin others conns h c"
  have "reserved (fw_reservation (cn_writer c)) \<le> outbound_used (cn_resources c)" "outbound_ok (cn_resources c)"
    using inv_share [of idn cy origin others 0 conns h c] inv by (simp_all add: held_def)
  note budget = writer_flush_budget [OF assms(2) this]
  have "connection_inv idn cy origin others conns h
      (c\<lparr>cn_writer := w, cn_handshake_output := cn_handshake_output c, cn_resources := rs\<rparr>)"
    by (rule inv_budget [OF inv]) (use budget assms(1) in \<open>simp_all add: held_def\<close>)
  from inv_parts(2) [OF this, of s'] assms(1)
  have "connection_inv idn cy origin others conns h ((c\<lparr>cn_writer := w, cn_resources := rs\<rparr>)\<lparr>cn_socket := Some s'\<rparr>)"
    by simp
  moreover have "(c\<lparr>cn_writer := w, cn_resources := rs\<rparr>)\<lparr>cn_socket := Some s'\<rparr>
      = c\<lparr>cn_writer := w, cn_socket := Some s', cn_resources := rs\<rparr>" by simp
  ultimately show "all_events (c\<lparr>cn_writer := w, cn_socket := Some s', cn_resources := rs\<rparr>) = all_events c @ [] \<and>
      connection_inv idn cy origin others conns (h @ []) (c\<lparr>cn_writer := w, cn_socket := Some s', cn_resources := rs\<rparr>)"
    by (simp only: append_Nil2 parts_events simp_thms)
qed

lemma cn_evolves_write:
  "cn_evolves idn cy origin c (snd (connection_write wr cy now c))"
proof (cases "cn_socket c = None")
  case True
  then show ?thesis by (simp add: connection_write_def)
next
  case False
  obtain go c1 where start: "connection_start cy c = (go, c1)" by (cases "connection_start cy c")
  with cn_evolves_start [OF False, of idn cy origin] have one: "cn_evolves idn cy origin c c1" by simp
  show ?thesis
  proof (cases "go \<and> cn_socket c1 \<noteq> None")
    case False
    with one start \<open>cn_socket c \<noteq> None\<close> show ?thesis
      by (cases go) (auto simp: connection_write_def)
  next
    case True
    then obtain s where go: "go" "cn_socket c1 = Some s" by auto
    obtain out w s' rs where flush: "writer_poll_flush wr (cn_writer c1) s (cn_resources c1) = (out, w, s', rs)"
      by (metis prod_cases4)
    let ?c2 = "c1\<lparr>cn_writer := w, cn_socket := Some s', cn_resources := rs\<rparr>"
    have two: "cn_evolves idn cy origin c ?c2"
      using cn_evolves_trans [OF one cn_evolves_flushed [OF go(2) flush]] .
    have three: "cn_evolves idn cy origin c (snd (connection_written kind i phase now (?c2\<lparr>cn_writing := None\<rparr>)))"
      for kind i phase
      by (rule cn_evolves_trans [OF cn_evolves_trans [OF two cn_evolves_parts(3)] cn_evolves_written]) simp_all
    show ?thesis
      using False start go flush two three cn_evolves_trans [OF two cn_evolves_abort]
      by (auto simp: connection_write_def Let_def split: poll.split sum.split option.split)
  qed
qed

section \<open>Input\<close>

lemma handshake_receive_closes: "handshake_receive frame idn cy st = (Inl e, hs', i, g) \<Longrightarrow> hs_closed hs'"
  by (auto simp: handshake_receive_def handshake_close_def split: prod.splits sum.splits)

lemma cn_evolves_receive_handshake:
  assumes "cn_socket c \<noteq> None" "cn_handshake c = Some hs" "\<not> cn_closing c"
  shows "cn_evolves idn cy origin c (fst (connection_receive_handshake frame hs now idn cy (c, i, g)))"
proof -
  obtain reply hs' i' g' where recv: "handshake_receive frame idn cy (hs, i, g) = (reply, hs', i', g')"
    by (metis prod_cases4)
  let ?d = "c\<lparr>cn_handshake := Some hs'\<rparr>"
  have step: "cn_evolves idn cy origin c ?d"
    using assms(2,1) _ assms(3) by (rule cn_evolves_handshake) (rule originates_receive [OF _ recv])
  have "cn_evolves idn cy origin ?d (fst (connection_receive_handshake frame hs now idn cy (c, i, g)))"
  proof (cases reply)
    case (Inl e)
    then have "hs_closed hs'" using recv by (simp add: handshake_receive_closes)
    then show ?thesis
      using recv Inl assms
      by (auto simp: connection_receive_handshake_def Let_def intro!: cn_evolves_fail)
  next
    case (Inr answer)
    show ?thesis
    proof (cases answer)
      case None
      with Inr recv show ?thesis by (simp add: connection_receive_handshake_def Let_def)
    next
      case (Some auth)
      show ?thesis
      proof (cases "resources_outbound (length (wf_payload auth) + 12) (cn_resources ?d)")
        case None
        with Some Inr recv show ?thesis
          by (simp add: connection_receive_handshake_def Let_def cn_evolves_abort)
      next
        case res: (Some out)
        obtain v rs where out: "out = (v, rs)" by (cases out)
        note reserved = resources_outbound_Some [OF res [unfolded out]]
        let ?q = "cn_handshake_output ?d @ [auth\<lparr>wf_reservation := Some v\<rparr>]"
        have "fst (connection_receive_handshake frame hs now idn cy (c, i, g))
            = ?d\<lparr>cn_writer := cn_writer ?d, cn_handshake_output := ?q, cn_resources := rs\<rparr>"
          using res Some Inr recv out by (simp add: connection_receive_handshake_def Let_def)
        moreover have "connection_inv idn cy origin others conns h
            (?d\<lparr>cn_writer := cn_writer ?d, cn_handshake_output := ?q, cn_resources := rs\<rparr>)"
          if "connection_inv idn cy origin others conns h ?d" for others conns h
          by (rule inv_budget [OF that]) (use reserved assms(1) in \<open>simp_all add: held_def\<close>)
        ultimately show ?thesis by (auto simp: cn_evolves_def)
      qed
    qed
  qed
  with step show ?thesis by (rule cn_evolves_trans)
qed

lemma cn_evolves_closing:
  assumes "session_holds ss_closed c"
  shows "cn_evolves idn cy origin c (c\<lparr>cn_closing := True, cn_deadline := t\<rparr>)"
  unfolding cn_evolves_def
proof (intro allI impI exI [of _ "[]"])
  fix others conns h
  assume inv: "connection_inv idn cy origin others conns h c"
  obtain s where s: "cn_session c = Some s" "ss_closed s"
    using assms by (auto simp: session_holds_def split: option.splits)
  with inv show "all_events (c\<lparr>cn_closing := True, cn_deadline := t\<rparr>) = all_events c @ [] \<and>
      connection_inv idn cy origin others conns (h @ []) (c\<lparr>cn_closing := True, cn_deadline := t\<rparr>)"
    by (auto simp: connection_inv_def phase_ok_def vetted_def books_Some told_def held_def)
qed

lemma told_session: "session_holds ss_closed c \<Longrightarrow> told c"
  by (auto simp: session_holds_def told_def split: option.splits)

lemma cn_evolves_receive_verified:
  assumes "cn_socket c \<noteq> None" "cn_integrity c = Some it"
  shows "cn_evolves idn cy origin c (connection_receive_verified frame it now registry cy c)"
proof -
  obtain res it' where verify: "integrity_verify cy frame it = (res, it')"
    by (cases "integrity_verify cy frame it")
  let ?d = "c\<lparr>cn_integrity := Some it'\<rparr>"
  have step: "cn_evolves idn cy origin c ?d"
    by (rule cn_evolves_parts(4) [OF assms keyed_verify [OF _ verify]])
  show ?thesis
  proof (cases res)
    case (Inl e)
    with verify cn_evolves_trans [OF step cn_evolves_abort] show ?thesis
      by (simp add: connection_receive_verified_def)
  next
    case (Inr v)
    let ?e = "update_session (\<lambda>s. snd (session_receive v registry now s)) ?d"
    have two: "cn_evolves idn cy origin c ?e"
      by (rule cn_evolves_trans [OF step cn_evolves_session]) (use assms(1) evolves_receive in simp_all)
    have "cn_evolves idn cy origin ?e (connection_receive_verified frame it now registry cy c)"
      using verify Inr cn_evolves_release [OF told_session, of ?e] cn_evolves_closing [of ?e]
      by (auto simp: connection_receive_verified_def Let_def)
    with two show ?thesis by (rule cn_evolves_trans)
  qed
qed

lemma cn_evolves_finish: "cn_evolves idn cy origin c (connection_finish c)"
proof (cases "cn_socket c = None")
  case True
  have "connection_finish c = c" if "connection_inv idn cy origin others conns h c" for others conns h
    using that True
    by (auto simp: connection_finish_def session_holds_def session_ready_to_close_def connection_inv_def
        phase_ok_def split: option.splits)
  then show ?thesis unfolding cn_evolves_def by (metis append_Nil2)
next
  case False
  then show ?thesis
    by (auto simp: connection_finish_def session_holds_def intro!: cn_evolves_close_session split: option.splits)
qed

lemma cn_evolves_read:
  assumes "\<not> cn_closing c"
  shows "cn_evolves idn cy origin c (fst (snd (connection_read rd now registry idn cy (c, i, g))))"
proof -
  let ?phase = "case cn_handshake c of None \<Rightarrow> Tagged | Some h \<Rightarrow> receive_protection h"
  let ?r = "fst (snd (connection_read rd now registry idn cy (c, i, g)))"
  show ?thesis
  proof (cases "?phase = Tagged \<and> cn_integrity c = None \<or> cn_socket c = None")
    case True
    then have "?r = c" by (auto simp: connection_read_def Let_def split: option.split)
    then show ?thesis by simp
  next
    case False
    then obtain s where s: "cn_socket c = Some s" and phase: "\<not> (?phase = Tagged \<and> cn_integrity c = None)" by auto
    obtain out r s' where poll: "reader_poll_frame rd ?phase (cn_reader c) s = (out, r, s')" by (metis prod_cases3)
    let ?c1 = "c\<lparr>cn_reader := r, cn_socket := Some s'\<rparr>"
    have one: "cn_evolves idn cy origin c ?c1"
      by (rule cn_evolves_trans [OF cn_evolves_parts(1) cn_evolves_parts(2)]) (simp_all add: s)
    have unverified: "cn_handshake c = Some hs \<Longrightarrow> cn_integrity c = None \<Longrightarrow> \<not> hs_peer_verified hs" for hs
      using phase by (auto simp: receive_protection_def)
    have read: "?r = (case out of
        Pending \<Rightarrow> ?c1
      | Ready (Inl e) \<Rightarrow> connection_fail (disposition_framing e) now ?c1
      | Ready (Inr None) \<Rightarrow>
          if session_holds session_ready_to_close ?c1 \<and> \<not> writer_is_busy (cn_writer ?c1)
          then connection_release (update_session (session_close None None) ?c1)
          else connection_abort (local_failure Fc_ConnectionLost) ?c1
      | Ready (Inr (Some frame)) \<Rightarrow>
          fst (case cn_handshake ?c1 of
             Some h \<Rightarrow> connection_receive_handshake frame h now idn cy (?c1, i, g)
           | None \<Rightarrow>
               (case cn_integrity ?c1 of
                  None \<Rightarrow> (?c1, i, g)
                | Some it \<Rightarrow> (connection_receive_verified frame it now registry cy ?c1, i, g))))"
      using s phase poll
      by (auto simp: connection_read_def Let_def split: poll.split sum.split option.split)
    have "cn_evolves idn cy origin c ?r"
      unfolding cn_evolves_def
    proof (intro allI impI)
      fix others conns h
      assume inv: "connection_inv idn cy origin others conns h c"
      then have "cn_handshake c = Some hs \<Longrightarrow> cn_integrity c = None" for hs
        using s by (auto simp: connection_inv_def phase_ok_def)
      with unverified have fail: "cn_evolves idn cy origin ?c1 (connection_fail d now ?c1)" for d
        using assms by (intro cn_evolves_fail) auto
      have "cn_evolves idn cy origin ?c1 ?r"
        unfolding read
        using fail assms cn_evolves_close_session [of ?c1]
        by (auto simp: session_holds_def cn_evolves_abort cn_evolves_receive_handshake
            cn_evolves_receive_verified split: poll.split sum.split option.split)
      with one have "cn_evolves idn cy origin c ?r" by (rule cn_evolves_trans)
      with inv show "\<exists>new. all_events ?r = all_events c @ new \<and>
          connection_inv idn cy origin others conns (h @ new) ?r" by (simp add: cn_evolves_def)
    qed
    then show ?thesis .
  qed
qed

section \<open>Polling\<close>

lemma cn_evolves_rounds:
  "cn_evolves idn cy origin c (fst (snd (connection_rounds rd wr n now registry idn cy (c, i, g))))"
proof (induction n arbitrary: c i g)
  case (Suc n)
  obtain written c1 where wrote: "connection_write wr cy now c = (written, c1)" by (cases "connection_write wr cy now c")
  have one: "cn_evolves idn cy origin c (connection_establish c1)"
    using cn_evolves_trans [OF cn_evolves_write cn_evolves_establish, of idn cy origin c wr now] wrote by simp
  let ?c2 = "connection_establish c1"
  show ?case
  proof (cases "cn_socket ?c2 = None")
    case True
    with one wrote show ?thesis by (simp add: Let_def)
  next
    case False
    obtain was_read c3 i' g' where input: "(if \<not> cn_closing ?c2 then connection_read rd now registry idn cy (?c2, i, g)
        else (False, (?c2, i, g))) = (was_read, (c3, i', g'))" by (metis prod_cases4)
    have "cn_evolves idn cy origin ?c2 c3"
      using input cn_evolves_read [of ?c2 idn cy origin rd now registry i g] by (auto split: if_splits)
    then have "cn_evolves idn cy origin c (connection_establish c3)"
      using one by (blast intro: cn_evolves_trans cn_evolves_establish)
    moreover have "cn_evolves idn cy origin (connection_establish c3) (connection_finish (connection_establish c3))"
      by (rule cn_evolves_finish)
    ultimately have four: "cn_evolves idn cy origin c (connection_finish (connection_establish c3))"
      by (rule cn_evolves_trans)
    then show ?thesis
      using wrote False input Suc.IH [of "connection_finish (connection_establish c3)" i' g']
      by (auto simp: Let_def intro: cn_evolves_trans)
  qed
qed simp

lemma cn_evolves_poll:
  "cn_evolves idn cy origin c (fst (snd (connection_poll rd wr now registry idn cy (c, i, g))))"
proof (cases "cn_socket c = None \<or> (cn_handshake c \<noteq> None \<or> cn_closing c) \<and> now \<ge> cn_deadline c")
  case True
  then show ?thesis by (auto simp: connection_poll_def cn_evolves_abort)
next
  case False
  have "cn_evolves idn cy origin c (update_session (session_tick now) c)"
    by (rule cn_evolves_session) (use False evolves_tick in simp_all)
  from cn_evolves_trans [OF this cn_evolves_rounds] False show ?thesis by (auto simp: connection_poll_def)
qed

lemma connection_begin_inv:
  assumes "connection_begin_shared socket fresh (og_options origin) config now idn i cy g rs = (Inr c, g', rs')"
    "begun_as origin c" "outbound_ok rs"
  shows "connection_inv idn cy origin (outbound_used rs) (ct_used (rs_connections rs)) []
      (connection_set_handle handle c)"
    "cn_resources c = rs'" "all_events (connection_set_handle handle c) = []"
proof -
  note unfold = assms(1) [unfolded connection_begin_shared_def]
  from unfold obtain admission rs1 where conn: "resources_connection rs = Some (admission, rs1)"
    by (cases "resources_connection rs") auto
  from unfold conn obtain v rs2 where out: "resources_outbound 112 rs1 = Some (v, rs2)"
    by (cases "resources_outbound 112 rs1") auto
  from unfold conn out obtain deadline where deadline: "instant_checked_add now (tc_handshake_timeout config) = Some deadline"
    by (cases "instant_checked_add now (tc_handshake_timeout config)") (auto simp: Let_def)
  obtain res g1 where begun: "handshake_begin (co_role (og_options origin)) (co_expected_peer (og_options origin)) idn i cy g = (res, g1)"
    by (cases "handshake_begin (co_role (og_options origin)) (co_expected_peer (og_options origin)) idn i cy g")
  from unfold conn out deadline begun obtain hs hello where res: "res = Inr (hs, hello)"
    by (cases res) (auto simp: Let_def)
  from unfold conn out deadline begun res
  have c: "c = \<lparr>cn_resources = rs2, cn_admission = Some admission, cn_handle = connection_handle_new fresh,
      cn_socket = Some socket, cn_reader = reader_default, cn_writer = writer_default,
      cn_handshake = Some hs, cn_integrity = None, cn_session = None,
      cn_handshake_output = [hello\<lparr>wf_reservation := Some v\<rparr>], cn_writing = None, cn_events = [],
      cn_deadline = deadline, cn_timeout = tc_handshake_timeout config, cn_closing = False\<rparr>" "rs' = rs2"
    by (auto simp: Let_def)
  note started = begun [unfolded res]
  from conn have one: "admission = 1" "rs_connections rs1 = (rs_connections rs)\<lparr>ct_used := ct_used (rs_connections rs) + 1\<rparr>"
      "rs_outbound rs1 = rs_outbound rs"
    by (auto simp: resources_connection_def reserve_iff)
  note two = resources_outbound_Some [OF out]
  have "hs_private hs = Some (og_secret origin)" "hs_local hs = og_hello origin"
    using assms(2) by (simp_all add: begun_as_def c)
  then have "originates idn cy origin hs"
    using handshake_run.run_begin [OF started] by (simp add: originates_def)
  then show "connection_inv idn cy origin (outbound_used rs) (ct_used (rs_connections rs)) []
      (connection_set_handle handle c)"
    using one two assms(3)
    by (auto simp: c connection_set_handle_def connection_inv_def phase_ok_def vetted_def books_None told_def
        held_def outbound_used_def)
  show "cn_resources c = rs'" "all_events (connection_set_handle handle c) = []"
    by (simp_all add: c all_events_def connection_set_handle_def)
qed

lemma connection_begin_origin:
  assumes "connection_begin_shared socket fresh options config now idn i cy g rs = (Inr c, g', rs')"
  obtains origin where "og_options origin = options" "begun_as origin c"
proof -
  from assms obtain hs hello g1 where
    begun: "handshake_begin (co_role options) (co_expected_peer options) idn i cy g = (Inr (hs, hello), g1)"
    and hs: "cn_handshake c = Some hs"
    by (auto simp: connection_begin_shared_def Let_def split: option.splits prod.splits sum.splits)
  from begun obtain secret where "hs_private hs = Some secret"
    by (auto simp: handshake_begin_def and_thread_eq_Inr Let_def)
  with hs show thesis
    by (intro that [of "\<lparr>og_options = options, og_hello = hs_local hs, og_secret = secret\<rparr>"])
       (simp_all add: begun_as_def)
qed

end
