(* ===== verification/Connection_Run.thy ===== *)
theory Connection_Run
  imports Connection_Invariant
begin

text \<open>
  All executions of one connection: polls over an arbitrary socket and peer, local requests to its
  session, deliveries, closing, and other users of the shared budgets in between. Every reachable
  connection satisfies the invariant; the properties follow.
\<close>

section \<open>Executions\<close>

text \<open>The operations of the session that local requests reach.\<close>

inductive local_call :: "(Session \<Rightarrow> Session) \<Rightarrow> bool" where
  call_open: "local_call (\<lambda>s. snd (session_open registry owner s))"
| call_send: "local_call (\<lambda>s. snd (session_send owner stream bs s))"
| call_end: "local_call (\<lambda>s. snd (session_end owner stream s))"
| call_cancel: "local_call (\<lambda>s. snd (session_cancel owner stream reason s))"
| call_drain: "local_call (\<lambda>s. snd (session_drain shutdown s))"
| call_ping: "local_call (\<lambda>s. snd (session_ping token timeout now s))"

lemma local_call_evolves: "local_call f \<Longrightarrow> evolves s (f s)"
  by (induction rule: local_call.induct) (auto intro: session_evolves)

lemma local_call_closed: "local_call f \<Longrightarrow> ss_closed s \<Longrightarrow> f s = s"
  by (induction rule: local_call.induct)
     (simp_all add: session_open_def session_send_def session_end_def session_cancel_def
       session_drain_def session_ping_def)

text \<open>
  The origin is fixed by the first step: the options, and the HELLO and ephemeral secret the handshake
  begun there generated.
\<close>

inductive connection_run ::
    "'s poll_read \<Rightarrow> 's poll_write \<Rightarrow> 'i Identity \<Rightarrow> ('g, 'e, 'h, 'p, 'k) Cryptography \<Rightarrow> 'e Origin
      \<Rightarrow> usize \<Rightarrow> usize \<Rightarrow> Event list \<Rightarrow> ('s, 'e, 'k) Connection \<Rightarrow> bool"
  for rd :: "'s poll_read" and wr :: "'s poll_write" and idn :: "'i Identity"
    and cy :: "('g, 'e, 'h, 'p, 'k) Cryptography" and origin :: "'e Origin" where
  cn_begin: "connection_begin_shared socket fresh (og_options origin) config now idn i cy g rs = (Inr c, g', rs') \<Longrightarrow>
     begun_as origin c \<Longrightarrow> outbound_ok rs \<Longrightarrow>
     connection_run rd wr idn cy origin (outbound_used rs) (ct_used (rs_connections rs)) []
       (connection_set_handle handle c)"
| cn_poll: "connection_run rd wr idn cy origin others conns h c \<Longrightarrow>
     connection_poll rd wr now registry idn cy (c, i, g) = (res, c', i', g') \<Longrightarrow>
     connection_run rd wr idn cy origin others conns (h @ drop (length (all_events c)) (all_events c')) c'"
| cn_call: "connection_run rd wr idn cy origin others conns h c \<Longrightarrow> local_call f \<Longrightarrow>
     c' = update_session f c \<Longrightarrow>
     connection_run rd wr idn cy origin others conns (h @ drop (length (all_events c)) (all_events c')) c'"
| cn_close: "connection_run rd wr idn cy origin others conns h c \<Longrightarrow> c' = connection_close c \<Longrightarrow>
     connection_run rd wr idn cy origin others conns (h @ drop (length (all_events c)) (all_events c')) c'"
| cn_event: "connection_run rd wr idn cy origin others conns h c \<Longrightarrow>
     connection_run rd wr idn cy origin others conns h (snd (connection_pop_event c))"
| cn_budget: "connection_run rd wr idn cy origin others conns h c \<Longrightarrow>
     rs_limits rs = rs_limits (cn_resources c) \<Longrightarrow> outbound_ok rs \<Longrightarrow>
     outbound_used rs + others = outbound_used (cn_resources c) + others' \<Longrightarrow>
     ct_used (rs_connections rs) + conns = ct_used (rs_connections (cn_resources c)) + conns' \<Longrightarrow>
     connection_run rd wr idn cy origin others' conns' h (c\<lparr>cn_resources := rs\<rparr>)"

lemma cn_evolves_history:
  assumes "cn_evolves idn cy origin c c'" "connection_inv idn cy origin others conns h c"
  shows "connection_inv idn cy origin others conns (h @ drop (length (all_events c)) (all_events c')) c'"
proof -
  from assms obtain new where "all_events c' = all_events c @ new"
      "connection_inv idn cy origin others conns (h @ new) c'" unfolding cn_evolves_def by blast
  then show ?thesis by simp
qed

lemma cn_evolves_call:
  assumes "local_call f"
  shows "cn_evolves idn cy origin c (update_session f c)"
proof (cases "cn_socket c = None")
  case False
  then show ?thesis by (intro cn_evolves_session) (rule local_call_evolves [OF assms])
next
  case closed: True
  show ?thesis
    unfolding cn_evolves_def
  proof (intro allI impI exI [of _ "[]"])
    fix others conns h
    assume inv: "connection_inv idn cy origin others conns h c"
    show "all_events (update_session f c) = all_events c @ [] \<and>
        connection_inv idn cy origin others conns (h @ []) (update_session f c)"
    proof (cases "cn_session c")
      case None
      with inv show ?thesis by (simp add: update_session_None)
    next
      case (Some s)
      then have "ss_closed s" using inv closed by (simp add: connection_inv_def phase_ok_def)
      then have "update_session f c = c\<lparr>cn_session := Some (s\<lparr>ss_resources := cn_resources c\<rparr>)\<rparr>"
        using local_call_closed [OF assms, of "s\<lparr>ss_resources := cn_resources c\<rparr>"] Some
        by (simp add: update_session_Some)
      with inv Some closed show ?thesis
        by (auto simp: connection_inv_def phase_ok_def vetted_def books_Some told_def held_def all_events_def)
    qed
  qed
qed

lemma connection_pop_event_inv:
  assumes "connection_inv idn cy origin others conns h c"
  shows "connection_inv idn cy origin others conns h (snd (connection_pop_event c))"
proof (cases "cn_session c")
  case None
  with assms show ?thesis
    by (auto simp: connection_pop_event_def with_session_def connection_inv_def phase_ok_def vetted_def
        books_None told_def held_def split: list.split)
next
  case (Some s)
  let ?s = "s\<lparr>ss_resources := cn_resources c\<rparr>"
  have inv: "cn_events c = []" "session_inv (others + held c) h ?s"
    using assms Some by (simp_all add: connection_inv_def books_Some)
  define es where "es = tl (ss_events s)"
  obtain e where pop: "session_pop_event ?s = (e, s\<lparr>ss_resources := cn_resources c, ss_events := es\<rparr>)"
    by (cases s; cases "ss_events s") (auto simp: session_pop_event_def es_def)
  then have "session_inv (others + held c) h (s\<lparr>ss_resources := cn_resources c, ss_events := es\<rparr>)"
    using session_pop_event_inv [OF inv(2)] by simp
  moreover have swap: "s\<lparr>ss_resources := cn_resources c, ss_events := es\<rparr>
      = s\<lparr>ss_events := es, ss_resources := cn_resources c\<rparr>" by simp
  ultimately have "session_inv (others + held c) h (s\<lparr>ss_events := es, ss_resources := cn_resources c\<rparr>)"
    unfolding swap by blast
  moreover have "snd (connection_pop_event c)
      = c\<lparr>cn_session := Some (s\<lparr>ss_events := es, ss_resources := cn_resources c\<rparr>)\<rparr>"
    unfolding swap [symmetric] using Some inv(1) pop by (simp add: connection_pop_event_def with_session_def session_set_resources_def)
  ultimately show ?thesis
    using assms Some
    by (auto simp: connection_inv_def phase_ok_def vetted_def books_Some told_def held_def)
qed

lemma connection_budget_inv:
  assumes "connection_inv idn cy origin others conns h c" "rs_limits rs = rs_limits (cn_resources c)"
    "outbound_ok rs" "outbound_used rs + others = outbound_used (cn_resources c) + others'"
    "ct_used (rs_connections rs) + conns = ct_used (rs_connections (cn_resources c)) + conns'"
  shows "connection_inv idn cy origin others' conns' h (c\<lparr>cn_resources := rs\<rparr>)"
proof -
  have "books others' conns' h (c\<lparr>cn_resources := rs\<rparr>)"
  proof (cases "cn_session c")
    case None
    with assms show ?thesis by (auto simp: connection_inv_def books_None held_def)
  next
    case (Some s)
    then have books: "session_inv (others + held c) h (s\<lparr>ss_resources := cn_resources c\<rparr>)"
        "ct_used (rs_connections (cn_resources c)) = conns + reserved (cn_admission c)"
      using assms(1) by (simp_all add: connection_inv_def books_Some)
    from session_inv_budget [OF books(1) assms(2), of "others' + held c"] assms(3,4)
    have "session_inv (others' + held c) h (s\<lparr>ss_resources := rs\<rparr>)" by simp
    with assms(1,5) Some books(2) show ?thesis by (simp add: connection_inv_def books_Some held_def)
  qed
  moreover have "told (c\<lparr>cn_resources := rs\<rparr>) = told c" by (cases "cn_session c") (simp_all add: told_def)
  ultimately show ?thesis using assms(1) by (simp add: connection_inv_def phase_ok_def vetted_def)
qed

lemma connection_run_inv:
  "connection_run rd wr idn cy origin others conns h c \<Longrightarrow> connection_inv idn cy origin others conns h c"
proof (induction rule: connection_run.induct)
  case (cn_begin socket fresh config now i g rs c g' rs' handle)
  then show ?case by (rule connection_begin_inv)
next
  case (cn_poll others conns h c now registry i g res c' i' g')
  have "cn_evolves idn cy origin c c'"
    using cn_evolves_poll [of idn cy origin c rd wr now registry i g] cn_poll.hyps(2) by simp
  then show ?case using cn_poll.IH by (rule cn_evolves_history)
next
  case (cn_call others conns h c f c')
  then show ?case by (simp add: cn_evolves_history cn_evolves_call)
next
  case (cn_close others conns h c c')
  then show ?case by (simp add: connection_close_def cn_evolves_history cn_evolves_abort)
next
  case (cn_event others conns h c)
  then show ?case by (simp add: connection_pop_event_inv)
next
  case (cn_budget others conns h c rs others' conns')
  then show ?case by (simp add: connection_budget_inv)
qed

lemma closing_unconcerned: "is_closing e \<Longrightarrow> \<not> concerns i e"
  by (cases e) auto

lemma streams_phase:
  assumes "streams_ok h handle ids m" "closed \<longrightarrow> m = []"
  shows "stream_phase i h \<noteq> Ph_Bad \<and> (closed \<longrightarrow> stream_phase i h \<in> {Ph_Idle, Ph_Done})"
proof (cases "bt_get i m")
  case None
  then show ?thesis using streams_okD(3) [OF assms(1) None] by auto
next
  case (Some st)
  then show ?thesis using streams_okD(2) [OF assms(1) Some] assms(2) by (auto simp: stream_ok_def)
qed

text \<open>The history of one connection: its own events, well formed per stream, the end last.\<close>

lemma connection_inv_history:
  assumes "connection_inv idn cy origin others conns h c"
  shows "own_events (cn_handle c) h" "closes_last h" "closings h \<le> 1" "stream_phase i h \<noteq> Ph_Bad"
    "closings h = 1 \<Longrightarrow> stream_phase i h \<in> {Ph_Idle, Ph_Done}"
proof -
  note inv = connection_invD [OF assms]
  have "own_events (cn_handle c) h \<and> closes_last h \<and> stream_phase i h \<noteq> Ph_Bad \<and>
      (closings h = 1 \<longrightarrow> stream_phase i h \<in> {Ph_Idle, Ph_Done})"
  proof (cases "cn_session c")
    case None
    then have all: "\<forall>e \<in> set h. is_closing e" and own: "own_events (cn_handle c) h" using inv(3) by (simp_all add: books_None)
    have "stream_phase i ([] @ h) = stream_phase i []"
      using all by (intro stream_phase_unconcerned) (auto simp: closing_unconcerned)
    moreover have "length h = closings h" using all by (simp add: closings_def)
    then have "butlast h = []" using inv(4) by (cases h) (auto split: if_splits)
    ultimately show ?thesis using own by (simp add: closes_last_def)
  next
    case (Some s)
    let ?s = "s\<lparr>ss_resources := cn_resources c\<rparr>"
    have session: "session_inv (others + held c) h ?s" "ss_handle s = cn_handle c"
      using inv(3) Some by (simp_all add: books_Some)
    then have streams: "streams_ok h (ss_handle s) (ss_ids s) (ss_streams s)"
        and closed: "ss_closed s \<longrightarrow> ss_streams s = []" by (simp_all add: session_inv_def)
    have "closings h = (if ss_closed s then 1 else 0)" using books_closings [OF inv(3) Some] .
    then show ?thesis
      using streams_phase [OF streams closed, of i] session by (auto simp: session_inv_def split: if_splits)
  qed
  then show "own_events (cn_handle c) h" "closes_last h" "stream_phase i h \<noteq> Ph_Bad"
    "closings h = 1 \<Longrightarrow> stream_phase i h \<in> {Ph_Idle, Ph_Done}" by simp_all
  show "closings h \<le> 1" using inv(4) by simp
qed

section \<open>A connection whose session closed itself\<close>

text \<open>
  \<open>Session::cancel\<close> closes the session when the CANCEL frame does not fit the output budget. The
  connection checks \<open>is_closed\<close> only after a received frame, so it then stays open, without a deadline,
  for as long as the peer is silent, although its end has been announced.
\<close>

lemma closed_session_lingers:
  assumes "cn_session c = Some s" "ss_closed s" "ss_outbound s = []" "ss_pings s = []"
    "cn_handshake c = None" "cn_integrity c = Some it" "\<not> cn_closing c" "\<not> writer_is_busy (cn_writer c)"
    "cn_socket c = Some sock" "reader_poll_frame rd Tagged (cn_reader c) sock = (Pending, r, sock')"
  shows "\<exists>c'. connection_poll rd wr now registry idn cy (c, i, g) = (Pending, c', i, g) \<and>
    cn_socket c' = Some sock' \<and> connection_next_deadline c' = None"
proof -
  let ?s = "s\<lparr>ss_resources := cn_resources c, ss_now := Some now\<rparr>"
  let ?c = "c\<lparr>cn_session := Some ?s\<rparr>" and ?d = "c\<lparr>cn_reader := r, cn_socket := Some sock', cn_session := Some ?s\<rparr>"
  have self: "s\<lparr>ss_now := Some now, ss_resources := cn_resources c\<rparr> = ?s" by simp
  have tick: "update_session (session_tick now) c = ?c"
    using assms(1,4) by (simp add: update_session_Some session_tick_def)
  have idle: "fst (session_next_output ?s) = None" using assms(3) by (simp add: next_output_total)
  then have pop: "session_pop_outbound ?s = (None, ?s)"
    using session_pop_outbound_None [of ?s] by (cases "session_next_output ?s") (auto simp: session_pop_outbound_def)
  have wrote: "connection_write wr cy now ?c = (False, ?c)"
    using assms pop
    by (simp add: connection_write_def connection_start_def connection_next_frame_def with_session_def
        session_set_resources_def self)
  have read: "connection_read rd now registry idn cy (?c, i, g) = (False, ?d, i, g)"
    using assms by (simp add: connection_read_def)
  have same: "connection_establish ?c = ?c" "connection_establish ?d = ?d" "connection_finish ?d = ?d"
    using assms
    by (simp_all add: connection_establish_def connection_finish_def session_holds_def session_ready_to_close_def)
  have "connection_rounds rd wr (Suc 31) now registry idn cy (?c, i, g) = (Pending, ?d, i, g)"
    using assms wrote read same by (simp only: connection_rounds.simps) simp
  moreover have "connection_next_deadline ?d = None"
    using assms by (simp add: connection_next_deadline_def session_next_deadline_def)
  ultimately show ?thesis
    using assms tick by (intro exI [of _ ?d]) (simp add: connection_poll_def)
qed

section \<open>Properties\<close>

text \<open>
  C6: The consumer of a connection is told its end exactly once and last: in every execution over any
  socket and against any peer, all events are about this connection, the end is announced at most
  once and followed by nothing, it has been announced when the socket is closed, every stream's events
  stay well formed, and after the announcement no stream is open.
\<close>

theorem connection_lifecycle:
  assumes "connection_run rd wr idn cy origin others conns h c"
  shows "own_events (cn_handle c) h \<and> closings h \<le> 1 \<and> closes_last h \<and>
    (cn_socket c = None \<longrightarrow> closings h = 1) \<and> stream_phase i h \<noteq> Ph_Bad \<and>
    (closings h = 1 \<longrightarrow> stream_phase i h \<in> {Ph_Idle, Ph_Done})"
proof -
  have inv: "connection_inv idn cy origin others conns h c" using assms by (rule connection_run_inv)
  note parts = connection_invD [OF inv]
  have "cn_socket c = None \<longrightarrow> told c" using parts(1) by (auto simp: told_def phase_ok_def split: option.splits)
  with parts(4) connection_inv_history [OF inv] show ?thesis by auto
qed

text \<open>
  C10: A closed connection has released everything: once the socket is gone, no handshake secret, key,
  queued or half-written frame is left, and its shares of both budgets have been returned. While it
  lives, the budgets account for exactly the frames it holds, never above their limit.
\<close>

theorem connection_releases:
  assumes "connection_run rd wr idn cy origin others conns h c"
  shows "outbound_used (cn_resources c) = others + queued_bytes (cn_handshake_output c)
      + reserved (fw_reservation (cn_writer c))
      + (case cn_session c of None \<Rightarrow> 0 | Some s \<Rightarrow> queued_bytes (ss_outbound s)) \<and>
    outbound_used (cn_resources c) \<le> ct_limit (rs_outbound (cn_resources c)) \<and>
    (cn_socket c = None \<longrightarrow>
      cn_handshake c = None \<and> cn_integrity c = None \<and> cn_writer c = writer_default \<and>
      outbound_used (cn_resources c) = others \<and> ct_used (rs_connections (cn_resources c)) = conns)"
proof -
  note inv = connection_invD [OF connection_run_inv [OF assms]]
  show ?thesis
  proof (cases "cn_session c")
    case None
    with inv(1,3) show ?thesis by (auto simp: books_None held_def outbound_ok_def phase_ok_def)
  next
    case (Some s)
    with inv(1,3) show ?thesis
      by (auto simp: books_Some held_def outbound_ok_def phase_ok_def session_inv_def queue_ok_def)
  qed
qed

text \<open>
  C9: Nothing but the end of the connection is reported without authentication: either there is no
  session and no key and only the closing was ever announced, or the session was established by the
  completed handshake of this very connection, the one begun with its HELLO and ephemeral secret. In
  that handshake this end's AUTH was written, the reported peer is the one its HELLO named, identified
  by its key and the pinned contact if there is one, and a signature under that key over the
  transcript of the two HELLOs was verified; the keys that protect the connection's frames are those
  derived from the secret, the peer's ephemeral key and that transcript.
\<close>

theorem connection_authentic:
  fixes c :: "('s, 'e, 'k) Connection"
  assumes "connection_run rd wr idn cy origin others conns h c"
  shows "cn_session c = None \<and> cn_integrity c = None \<and> (\<forall>e \<in> set h. is_closing e) \<or>
    (\<exists>s (hs :: ('e, 'k) Handshake) hs' est r sig g g'.
       cn_session c = Some s \<and>
       ss_context s = \<lparr>pc_connection = ch_id (cn_handle c), pc_role = es_role est,
         pc_local_identity = es_local_identity est, pc_peer_identity = es_peer_identity est\<rparr> \<and>
       handshake_run idn cy (co_role (og_options origin)) (co_expected_peer (og_options origin))
         (og_secret origin) hs \<and>
       hs_local hs = og_hello origin \<and> take_established hs = (Some est, hs') \<and> hs_auth_sent hs \<and>
       hs_remote hs = Some (r, es_peer_identity est) \<and>
       id_identify idn (hl_identity_public_key r) = Inr (es_peer_identity est) \<and>
       accepts (co_expected_peer (og_options origin)) (es_peer_identity est) \<and>
       cy_verify_signature cy (hl_identity_public_key r) (peer_proof hs r) sig = Inr () \<and>
       derive_keys (co_role (og_options origin)) (og_secret origin) (hl_ephemeral_public_key r)
         (handshake_transcript hs r) cy g = (Inr (es_keys est), g') \<and>
       (\<forall>it. cn_integrity c = Some it \<longrightarrow>
         (\<exists>sealed accepted. integrity_run cy (integrity_new (es_keys est)) sealed accepted it)))"
proof -
  note inv = connection_invD [OF connection_run_inv [OF assms]]
  show ?thesis
  proof (cases "cn_session c")
    case None
    with inv(1,3) show ?thesis by (auto simp: books_None phase_ok_def)
  next
    case (Some s)
    with inv(2) obtain hs est hs' where
      run: "handshake_run idn cy (co_role (og_options origin)) (co_expected_peer (og_options origin))
          (og_secret origin) hs" "take_established hs = (Some est, hs')"
      and own: "hs_local hs = og_hello origin"
      and ctx: "ss_context s = \<lparr>pc_connection = ch_id (cn_handle c), pc_role = es_role est,
        pc_local_identity = es_local_identity est, pc_peer_identity = es_peer_identity est\<rparr>"
      and keys: "\<forall>it. cn_integrity c = Some it \<longrightarrow>
        (\<exists>sealed accepted. integrity_run cy (integrity_new (es_keys est)) sealed accepted it)"
      unfolding vetted_def originates_def keyed_def by blast
    from run obtain r sig g g' where "hs_remote hs = Some (r, es_peer_identity est)" "hs_auth_sent hs"
        "id_identify idn (hl_identity_public_key r) = Inr (es_peer_identity est)"
        "accepts (co_expected_peer (og_options origin)) (es_peer_identity est)"
        "cy_verify_signature cy (hl_identity_public_key r) (peer_proof hs r) sig = Inr ()"
        "derive_keys (co_role (og_options origin)) (og_secret origin) (hl_ephemeral_public_key r)
           (handshake_transcript hs r) cy g = (Inr (es_keys est), g')"
      by (rule established_facts)
    with Some ctx run own keys show ?thesis by blast
  qed
qed

text \<open>
  C13: Deadlines are enforced without the peer: a poll at or after the deadline of an unfinished
  handshake or of a closing connection closes the socket at once, whatever the socket would do, tells
  the consumer, and returns its shares of the budgets.
\<close>

theorem connection_deadline:
  assumes "connection_run rd wr idn cy origin others conns h c" "cn_socket c \<noteq> None"
    "cn_handshake c \<noteq> None \<or> cn_closing c" "cn_deadline c \<le> now"
    "connection_poll rd wr now registry idn cy (c, i, g) = (res, c', i', g')"
  shows "res = Ready () \<and> cn_socket c' = None \<and> i' = i \<and> g' = g \<and>
    closings (h @ drop (length (all_events c)) (all_events c')) = 1 \<and>
    outbound_used (cn_resources c') = others \<and> ct_used (rs_connections (cn_resources c')) = conns"
proof -
  have c': "res = Ready ()" "c' = connection_abort (local_failure Fc_DeadlineExceeded) c" "i' = i" "g' = g"
    using assms(2-5) by (auto simp: connection_poll_def)
  have closed: "cn_socket c' = None" using assms(2) by (simp add: c' connection_abort_def)
  have "connection_inv idn cy origin others conns (h @ drop (length (all_events c)) (all_events c')) c'"
    using cn_evolves_abort connection_run_inv [OF assms(1)] unfolding c' by (rule cn_evolves_history)
  note inv = connection_invD [OF this]
  have "told c'" using inv(1) closed by (auto simp: told_def phase_ok_def split: option.splits)
  moreover have "outbound_used (cn_resources c') = others \<and> ct_used (rs_connections (cn_resources c')) = conns"
  proof (cases "cn_session c'")
    case None
    with inv(1,3) closed show ?thesis by (simp add: books_None held_def phase_ok_def)
  next
    case (Some s)
    with inv(1,3) closed show ?thesis
      by (auto simp: books_Some held_def phase_ok_def session_inv_def queue_ok_def)
  qed
  ultimately show ?thesis using c' closed inv(4) by simp
qed

section \<open>An example connection\<close>

text \<open>A socket that accepts all output and delivers nothing.\<close>

definition mute_read :: "unit poll_read" where
  "mute_read s buffer = (Pending, [], s)"

definition open_write :: "unit poll_write" where
  "open_write s bs = (Ready (Inr (length bs)), s)"

definition sample_options :: Options where
  "sample_options = \<lparr>co_role = Initiator, co_expected_peer = Unpinned\<rparr>"

definition sample_origin :: "nat Origin" where
  "sample_origin = \<lparr>og_options = sample_options, og_hello = sample_hello 1 5, og_secret = 5\<rparr>"

definition sample_config :: TransportConfig where
  "sample_config = \<lparr>tc_limits = rs_limits sample_resources, tc_handshake_timeout = 10\<rparr>"

definition sample_begun :: "'s \<Rightarrow> ('s, nat, nat) Connection" where
  "sample_begun socket = (case connection_begin_shared socket 1 sample_options sample_config 0 sample_identity 1
     sample_crypto 5 sample_resources of (Inr c, _) \<Rightarrow> c)"

lemma sample_begun_parts:
  fixes socket :: 's
  shows "\<exists>g rs. connection_begin_shared socket 1 sample_options sample_config 0 sample_identity 1 sample_crypto 5
     sample_resources = (Inr (sample_begun socket), g, rs)"
  "cn_socket (sample_begun socket) = Some socket"
  "cn_handshake (sample_begun socket) = Some (sample_end Initiator 1 5)"
  "cn_deadline (sample_begun socket) = 10" "cn_handle (sample_begun socket) = connection_handle_new 1"
proof -
  obtain c :: "('s, nat, nat) Connection" and g rs where
    c: "connection_begin_shared socket 1 sample_options sample_config 0 sample_identity 1 sample_crypto 5
       sample_resources = (Inr c, g, rs)" "cn_socket c = Some socket"
      "cn_handshake c = Some (sample_end Initiator 1 5)" "cn_deadline c = 10"
      "cn_handle c = connection_handle_new 1"
    by (simp add: connection_begin_shared_def sample_options_def sample_config_def sample_resources_def
        resources_new_def resources_connection_def resources_outbound_def reserve_def checked_add_usize_def
        usize_max_def instant_checked_add_def instant_max_def sample_begin Let_def)
  then have "sample_begun socket = c" by (simp add: sample_begun_def)
  with c show "\<exists>g rs. connection_begin_shared socket 1 sample_options sample_config 0 sample_identity 1 sample_crypto 5
     sample_resources = (Inr (sample_begun socket), g, rs)"
    "cn_socket (sample_begun socket) = Some socket"
    "cn_handshake (sample_begun socket) = Some (sample_end Initiator 1 5)"
    "cn_deadline (sample_begun socket) = 10" "cn_handle (sample_begun socket) = connection_handle_new 1"
    by auto
qed

lemma sample_begun_run:
  "connection_run rd wr sample_identity sample_crypto sample_origin 0 0 [] (sample_begun socket)"
proof -
  obtain g rs where start: "connection_begin_shared socket 1 (og_options sample_origin) sample_config 0
      sample_identity 1 sample_crypto 5 sample_resources = (Inr (sample_begun socket), g, rs)"
    using sample_begun_parts(1) [of socket] by (auto simp: sample_origin_def)
  have "begun_as sample_origin (sample_begun socket)"
    by (simp add: begun_as_def sample_begun_parts(3) sample_origin_def)
  from cn_begin [OF start this sample_resources_ok, of rd wr "cn_handle (sample_begun socket)"]
  show ?thesis
    by (simp add: connection_set_handle_def sample_resources_def resources_new_def outbound_used_def)
qed

definition sample_link :: "(unit, nat, nat) Connection" where
  "sample_link = sample_begun ()"

lemma sample_link_begin:
  "cn_socket sample_link \<noteq> None" "cn_handshake sample_link \<noteq> None" "cn_deadline sample_link = 10"
  by (simp_all add: sample_link_def sample_begun_parts)

lemma sample_link_run:
  "connection_run mute_read open_write sample_identity sample_crypto sample_origin 0 0 [] sample_link"
  unfolding sample_link_def by (rule sample_begun_run)

lemma sample_link_closed_run:
  "connection_run mute_read open_write sample_identity sample_crypto sample_origin 0 0
     (drop (length (all_events sample_link)) (all_events (connection_close sample_link))) (connection_close sample_link)"
  using cn_close [OF sample_link_run refl] by simp

lemma sample_link_closed: "cn_socket (connection_close sample_link) = None"
  using sample_link_begin(1) by (simp add: connection_close_def connection_abort_def)

theorem connection_lifecycle_witness:
  "\<exists>h. connection_run mute_read open_write sample_identity sample_crypto sample_origin 0 0 h
     (connection_close sample_link) \<and> closings h = 1 \<and> stream_phase 1 h \<in> {Ph_Idle, Ph_Done}"
  using connection_lifecycle [OF sample_link_closed_run, of 1] sample_link_closed_run sample_link_closed
  by (intro exI [of _ "drop (length (all_events sample_link)) (all_events (connection_close sample_link))"]) simp

theorem connection_releases_witness:
  "cn_socket (connection_close sample_link) = None \<and> cn_handshake (connection_close sample_link) = None \<and>
   outbound_used (cn_resources (connection_close sample_link)) = 0"
  using connection_releases [OF sample_link_closed_run] sample_link_closed by simp

text \<open>
  A socket that holds what the peer sends: here the HELLO and the AUTH of the other end of the example
  exchange, in one piece.
\<close>

definition queue_read :: "bytes poll_read" where
  "queue_read s buffer =
     (let n = min (length s) (length buffer) in
      if n = 0 then (Pending, [], s) else (Ready (Inr n), take n s, drop n s))"

definition queue_write :: "bytes poll_write" where
  "queue_write s bs = (Ready (Inr (length bs)), s)"

definition sample_proof :: "ConnectionRole \<Rightarrow> nat \<Rightarrow> nat \<Rightarrow> nat \<Rightarrow> nat \<Rightarrow> Auth" where
  "sample_proof role i g j k =
     take 64 (sample_public i @ own_proof (sample_end role i g) (sample_hello j k) @ replicate 64 0)"

definition sample_peer :: bytes where
  "sample_peer = wire_bytes (hello_frame (sample_hello 2 7)) @ wire_bytes (auth_frame (sample_proof Acceptor 2 7 1 5))"

lemma queue_read_frame:
  assumes "frame_shape Untagged f" "wf_reservation f = None" "wf_payload f \<noteq> []"
  shows "reader_poll_frame queue_read Untagged reader_default (wire_bytes f @ rest)
    = (Ready (Inr (Some f)), reader_default, rest)"
proof -
  let ?h = "wf_header f" and ?p = "wf_payload f"
  have f: "header_valid ?h" "length ?p = unat (fh_payload_len ?h)" "wf_tag f = None"
    using assms(1) by (auto simp: frame_shape_def split: option.splits)
  have bytes: "wire_bytes f @ rest = header_encode ?h @ ?p @ rest" by (simp add: wire_bytes_def f(3))
  let ?r0 = "reader_default\<lparr>fr_phase := Some Untagged, fr_bytes := replicate 12 0\<rparr>"
  let ?r1 = "?r0\<lparr>fr_bytes := header_encode ?h, fr_offset := 12\<rparr>"
  let ?r2 = "?r1\<lparr>fr_header := Some ?h, fr_bytes := header_encode ?h @ replicate (length ?p) 0\<rparr>"
  let ?r3 = "?r2\<lparr>fr_bytes := header_encode ?h @ ?p, fr_offset := 12 + length ?p\<rparr>"
  have size: "frame_len ?h Untagged = Inr (12 + length ?p)" by (simp add: frame_len_eq f(2))
  have one: "reader_loop queue_read (Suc n) Untagged ?r0 (header_encode ?h @ ?p @ rest)
      = reader_loop queue_read n Untagged ?r1 (?p @ rest)" for n
    by (simp add: queue_read_def overwrite_def reader_default_def Let_def)
  have two: "reader_loop queue_read (Suc n) Untagged ?r1 s = reader_loop queue_read n Untagged ?r2 s" for n s
    by (simp add: header_decode_encode [OF f(1)] size resize_def reader_default_def)
  have three: "reader_loop queue_read (Suc n) Untagged ?r2 (?p @ rest) = reader_loop queue_read n Untagged ?r3 rest" for n
    using assms(3) by (simp add: queue_read_def overwrite_def reader_default_def Let_def)
  have four: "reader_loop queue_read (Suc n) Untagged ?r3 s = (Ready (Inr (Some f)), reader_default, s)" for n s
    using assms(2) f(3) by (cases f) (simp add: reader_complete_def reader_default_def Let_def)
  have "(64 :: nat) = Suc (Suc (Suc (Suc 60)))" by simp
  then have "reader_loop queue_read 64 Untagged ?r0 (wire_bytes f @ rest) = (Ready (Inr (Some f)), reader_default, rest)"
    unfolding bytes by (simp only: one two three four)
  then show ?thesis by (simp add: reader_poll_frame_def reader_default_def resize_def)
qed

lemma queue_write_frame:
  assumes "frame_shape phase f"
  shows "writer_poll_flush queue_write (writer_default\<lparr>fw_reservation := v, fw_bytes := wire_bytes f\<rparr>) s rs
    = (Ready (Inr ()), writer_default, s, drop_outbound v rs)"
proof -
  have "writer_loop queue_write (Suc (Suc n)) (writer_default\<lparr>fw_reservation := v, fw_bytes := wire_bytes f\<rparr>) s rs
      = (Ready (Inr ()), writer_default, s, drop_outbound v rs)" for n
    using frame_shape_length [OF assms] by (simp add: queue_write_def writer_default_def Let_def)
  from this [of 62] show ?thesis by (simp add: writer_poll_flush_def writer_default_def)
qed

text \<open>One round of an unfinished handshake: the oldest frame is written, and a frame is received.\<close>

lemma handshake_write:
  assumes "cn_socket c = Some s" "cn_session c = None" "cn_integrity c = None" "cn_handshake c = Some hs"
    "\<not> cn_closing c" "cn_writer c = writer_default" "cn_handshake_output c = f # fs" "frame_shape Untagged f"
    "handshake_sent (fh_frame_type (wf_header f)) hs = (Inr (), hs')"
  shows "connection_write queue_write cy now c = (True, c\<lparr>cn_handshake_output := fs, cn_writing := None,
     cn_handshake := Some hs', cn_resources := drop_outbound (wf_reservation f) (cn_resources c)\<rparr>)"
  using assms queue_write_frame [OF assms(8)] writer_start_default [OF assms(8)]
  by (cases c) (simp add: connection_write_def connection_start_def connection_next_frame_def with_session_def
      connection_start_frame_def connection_written_def update_session_def writer_is_busy_def drop_outbound_def
      writer_default_def Let_def)

lemma handshake_read:
  assumes "cn_socket c = Some (wire_bytes f @ rest)" "cn_handshake c = Some hs" "\<not> hs_peer_verified hs"
    "cn_reader c = reader_default" "frame_shape Untagged f" "wf_reservation f = None" "wf_payload f \<noteq> []"
  shows "connection_read queue_read now registry idn cy (c, i, g)
    = (True, connection_receive_handshake f hs now idn cy (c\<lparr>cn_socket := Some rest\<rparr>, i, g))"
  using assms queue_read_frame [OF assms(5-7), of rest]
  by (cases c) (simp add: connection_read_def receive_protection_def Let_def)

lemma rounds_step:
  assumes "connection_write wr cy now c = (True, c1)" "connection_establish c1 = c1"
    "cn_socket c1 \<noteq> None" "\<not> cn_closing c1"
    "connection_read rd now registry idn cy (c1, i, g) = (r, c2, i', g')"
    "connection_finish (connection_establish c2) = c3" "cn_socket c3 \<noteq> None"
  shows "connection_rounds rd wr (Suc n) now registry idn cy (c, i, g)
    = connection_rounds rd wr n now registry idn cy (c3, i', g')"
  using assms by (auto simp: Let_def)

lemma establish_waits:
  "cn_handshake c = Some hs \<Longrightarrow> \<not> is_authenticated hs \<Longrightarrow> connection_establish c = c"
  by (cases c) (simp add: connection_establish_def take_established_def)

lemma finish_waits: "cn_session c = None \<Longrightarrow> connection_finish c = c"
  by (simp add: connection_finish_def session_holds_def)

text \<open>The example connection over such a socket, from its HELLO to its session.\<close>

definition sample_busy :: "usize \<Rightarrow> Resources" where
  "sample_busy n = sample_resources\<lparr>rs_connections := (rs_connections sample_resources)\<lparr>ct_used := 1\<rparr>,
     rs_outbound := (rs_outbound sample_resources)\<lparr>ct_used := n\<rparr>\<rparr>"

lemma sample_busy_steps:
  "resources_outbound 76 (sample_busy 0) = Some (76, sample_busy 76)"
  "drop_outbound (Some n) (sample_busy n) = sample_busy 0"
  by (simp_all add: sample_busy_def sample_resources_def resources_new_def resources_outbound_def reserve_def
      checked_add_usize_def usize_max_def drop_outbound_def release_def)

definition sample_stage :: "bytes \<Rightarrow> WireFrame list \<Rightarrow> usize \<Rightarrow> (nat, nat) Handshake \<Rightarrow> (bytes, nat, nat) Connection" where
  "sample_stage socket output n hs =
     \<lparr>cn_resources = sample_busy n, cn_admission = Some 1, cn_handle = connection_handle_new 1,
      cn_socket = Some socket, cn_reader = reader_default, cn_writer = writer_default,
      cn_handshake = Some hs, cn_integrity = None, cn_session = None, cn_handshake_output = output,
      cn_writing = None, cn_events = [], cn_deadline = 10, cn_timeout = 10, cn_closing = False\<rparr>"

lemma sample_begun_stage:
  "sample_begun socket = sample_stage socket [hello_frame (sample_hello 1 5)\<lparr>wf_reservation := Some 112\<rparr>] 112
     (sample_end Initiator 1 5)"
  by (simp add: sample_begun_def sample_stage_def sample_busy_def connection_begin_shared_def sample_options_def
      sample_config_def sample_resources_def resources_new_def resources_connection_def resources_outbound_def
      reserve_def checked_add_usize_def usize_max_def instant_checked_add_def instant_max_def sample_begin Let_def)

lemma handshake_frames:
  "hello_valid own \<Longrightarrow> frame_shape Untagged (hello_frame own\<lparr>wf_reservation := v\<rparr>)"
  "length a = 64 \<Longrightarrow> frame_shape Untagged (auth_frame a\<lparr>wf_reservation := v\<rparr>)"
  "hello_valid own \<Longrightarrow> frame_shape Untagged (hello_frame own)"
  "length a = 64 \<Longrightarrow> frame_shape Untagged (auth_frame a)"
  by (simp_all add: frame_shape_def hello_frame_def auth_frame_def header_valid_def auth_encode_def
      length_hello_encode MAX_PAYLOAD_BYTES_def)

lemma stage_round:
  assumes "frame_shape Untagged f" "wf_reservation f = Some n"
    "handshake_sent (fh_frame_type (wf_header f)) hs = (Inr (), hs1)" "\<not> is_authenticated hs1" "\<not> hs_peer_verified hs1"
    "frame_shape Untagged input" "wf_reservation input = None" "wf_payload input \<noteq> []"
    "connection_receive_handshake input hs1 now idn cy (sample_stage rest [] 0 hs1, i, g) = (c, i', g')"
    "connection_finish (connection_establish c) = c'" "cn_socket c' \<noteq> None"
  shows "connection_rounds queue_read queue_write (Suc k) now registry idn cy
      (sample_stage (wire_bytes input @ rest) [f] n hs, i, g)
    = connection_rounds queue_read queue_write k now registry idn cy (c', i', g')"
proof (rule rounds_step)
  let ?c = "sample_stage (wire_bytes input @ rest) [] 0 hs1"
  show "connection_write queue_write cy now (sample_stage (wire_bytes input @ rest) [f] n hs) = (True, ?c)"
    using handshake_write [of "sample_stage (wire_bytes input @ rest) [f] n hs" _ hs f "[]" hs1 cy now] assms(1-3)
      sample_busy_steps(2) [of n]
    by (simp add: sample_stage_def)
  show "connection_establish ?c = ?c"
    by (rule establish_waits [OF _ assms(4)]) (simp add: sample_stage_def)
  show "connection_read queue_read now registry idn cy (?c, i, g) = (True, c, i', g')"
    using handshake_read [of ?c input rest hs1 now registry idn cy i g] assms(5-9)
    by (simp add: sample_stage_def)
qed (use assms(10,11) in \<open>simp_all add: sample_stage_def\<close>)

definition sample_half :: "(nat, nat) Handshake" where
  "sample_half = (sample_end Initiator 1 5)\<lparr>hs_hello_sent := True,
     hs_remote := Some (sample_hello 2 7, IdentityId (sample_public 2))\<rparr>"

lemma length_sample_proof [simp]: "length (sample_proof role i g j k) = 64"
  by (simp add: sample_proof_def)

lemma sample_hello_step:
  "handshake_sent Ft_Hello (sample_end Initiator 1 5) = (Inr (), (sample_end Initiator 1 5)\<lparr>hs_hello_sent := True\<rparr>)"
  "handshake_receive (hello_frame (sample_hello 2 7)) sample_identity sample_crypto
      ((sample_end Initiator 1 5)\<lparr>hs_hello_sent := True\<rparr>, 1, 7)
    = (Inr (Some (auth_frame (sample_proof Initiator 1 5 2 7))), sample_half, 1, 7)"
proof -
  have sign: "id_sign_authentication sample_identity (own_proof (sample_end Initiator 1 5) (sample_hello 2 7)) 1
      = (Inr (sample_proof Initiator 1 5 2 7), 1)"
    by (simp add: sample_identity_def sample_proof_def)
  have "accepts Unpinned (IdentityId (sample_public 2))" by (simp add: accepts_def)
  note hello = fresh_hello [OF sample_hello_valid sample_known this sign [unfolded sample_end_def] length_sample_proof,
      folded sample_end_def]
  from hello(1) show "handshake_sent Ft_Hello (sample_end Initiator 1 5)
      = (Inr (), (sample_end Initiator 1 5)\<lparr>hs_hello_sent := True\<rparr>)" .
  from hello(2) show "handshake_receive (hello_frame (sample_hello 2 7)) sample_identity sample_crypto
      ((sample_end Initiator 1 5)\<lparr>hs_hello_sent := True\<rparr>, 1, 7)
    = (Inr (Some (auth_frame (sample_proof Initiator 1 5 2 7))), sample_half, 1, 7)"
    unfolding sample_half_def .
qed

lemma sample_auth_step:
  obtains keys g where
    "handshake_sent Ft_Auth sample_half = (Inr (), sample_half\<lparr>hs_auth_sent := True\<rparr>)"
    "handshake_receive (auth_frame (sample_proof Acceptor 2 7 1 5)) sample_identity sample_crypto
        (sample_half\<lparr>hs_auth_sent := True\<rparr>, 1, 7)
      = (Inr None, sample_half\<lparr>hs_auth_sent := True, hs_private := None, hs_keys := Some keys,
          hs_peer_verified := True\<rparr>, 1, g)"
proof -
  let ?a = "sample_end Initiator 1 5" and ?r = "sample_hello 2 7"
  obtain keys g where keys: "derive_keys Initiator 5 (hl_ephemeral_public_key ?r) (handshake_transcript ?a ?r)
      sample_crypto 7 = (Inr keys, g)"
    using sample_derives [of Initiator 5 "hl_ephemeral_public_key ?r" "handshake_transcript ?a ?r" 7]
    by (auto simp: is_ok_iff prod_eq_iff)
  have roles: "hs_role ?a = Initiator" "hs_role (sample_end Acceptor 2 7) = Acceptor"
    by (simp_all add: sample_end_def fresh_end_def)
  have same: "own_proof (sample_end Acceptor 2 7) (sample_hello 1 5) = peer_proof ?a ?r"
    using proofs_match(2) [OF roles] unfolding sample_end_parts .
  have "sample_proof Acceptor 2 7 1 5 = take 64 (hl_identity_public_key ?r @ peer_proof ?a ?r @ replicate 64 0)"
    unfolding sample_proof_def same by (simp add: sample_hello_def)
  then have "cy_verify_signature sample_crypto (hl_identity_public_key ?r) (peer_proof ?a ?r)
      (sample_proof Acceptor 2 7 1 5) = Inr ()"
    by (simp only: sample_crypto_def Cryptography.simps if_True refl)
  note auth = fresh_auth [OF this [unfolded sample_end_def] length_sample_proof keys [unfolded sample_end_def],
      folded sample_end_def]
  show thesis
    by (rule that [of keys g]; unfold sample_half_def) (use auth in simp_all)
qed

lemma sample_round_one:
  "connection_rounds queue_read queue_write (Suc k) 0 registry sample_identity sample_crypto
      (sample_begun sample_peer, 1, 7)
    = connection_rounds queue_read queue_write k 0 registry sample_identity sample_crypto
      (sample_stage (wire_bytes (auth_frame (sample_proof Acceptor 2 7 1 5)))
        [auth_frame (sample_proof Initiator 1 5 2 7)\<lparr>wf_reservation := Some 76\<rparr>] 76 sample_half, 1, 7)"
  unfolding sample_begun_stage sample_peer_def
proof (rule stage_round [OF handshake_frames(1) [OF sample_hello_valid] _ _ _ _ handshake_frames(3) [OF sample_hello_valid]])
  let ?rest = "wire_bytes (auth_frame (sample_proof Acceptor 2 7 1 5))"
  let ?auth = "auth_frame (sample_proof Initiator 1 5 2 7)\<lparr>wf_reservation := Some 76\<rparr>"
  let ?hs = "(sample_end Initiator 1 5)\<lparr>hs_hello_sent := True\<rparr>"
  show "handshake_sent (fh_frame_type (wf_header (hello_frame (sample_hello 1 5)\<lparr>wf_reservation := Some 112\<rparr>)))
      (sample_end Initiator 1 5) = (Inr (), ?hs)"
    using sample_hello_step(1) by (simp add: hello_frame_def)
  show "connection_receive_handshake (hello_frame (sample_hello 2 7)) ?hs 0 sample_identity sample_crypto
      (sample_stage ?rest [] 0 ?hs, 1, 7) = (sample_stage ?rest [?auth] 76 sample_half, 1, 7)"
    unfolding connection_receive_handshake_def prod.case sample_hello_step(2)
    by (simp add: sample_stage_def sample_busy_steps auth_frame_def auth_encode_def Let_def)
  show "connection_finish (connection_establish (sample_stage ?rest [?auth] 76 sample_half))
      = sample_stage ?rest [?auth] 76 sample_half"
    by (simp add: establish_waits finish_waits sample_stage_def sample_half_def sample_end_def fresh_end_def
        is_authenticated_def)
  show "wf_payload (hello_frame (sample_hello 2 7)) \<noteq> []"
    using length_hello_encode [OF sample_hello_valid, of 2 7] by (auto simp: hello_frame_def)
qed (simp_all add: hello_frame_def sample_stage_def sample_end_def fresh_end_def is_authenticated_def)

text \<open>The session of the example, as the handshake leaves it.\<close>

definition sample_session_link :: "nat SessionKeys \<Rightarrow> FrameReader \<Rightarrow> (bytes, nat, nat) Connection" where
  "sample_session_link keys r = (sample_stage [] [] 0 sample_half)\<lparr>cn_handshake := None, cn_reader := r,
     cn_integrity := Some (integrity_new keys),
     cn_session := Some (session_set_resources (sample_busy 0) (session_with_handle (connection_handle_new 1)
       Initiator (IdentityId (sample_public 1)) (IdentityId (sample_public 2))))\<rparr>"

lemma sample_round_two:
  obtains keys g where
    "\<And>k. connection_rounds queue_read queue_write (Suc k) 0 registry sample_identity sample_crypto
      (sample_stage (wire_bytes (auth_frame (sample_proof Acceptor 2 7 1 5)))
        [auth_frame (sample_proof Initiator 1 5 2 7)\<lparr>wf_reservation := Some 76\<rparr>] 76 sample_half, 1, 7)
    = connection_rounds queue_read queue_write k 0 registry sample_identity sample_crypto
      (sample_session_link keys reader_default, 1, g)"
proof -
  let ?input = "auth_frame (sample_proof Acceptor 2 7 1 5)"
  let ?auth = "auth_frame (sample_proof Initiator 1 5 2 7)\<lparr>wf_reservation := Some 76\<rparr>"
  let ?hs = "sample_half\<lparr>hs_auth_sent := True\<rparr>"
  obtain keys g where sent: "handshake_sent Ft_Auth sample_half = (Inr (), ?hs)"
    and received: "handshake_receive ?input sample_identity sample_crypto (?hs, 1, 7)
      = (Inr None, ?hs\<lparr>hs_private := None, hs_keys := Some keys, hs_peer_verified := True\<rparr>, 1, g)"
    by (rule sample_auth_step) simp
  let ?c = "sample_stage [] [] 0 (?hs\<lparr>hs_private := None, hs_keys := Some keys, hs_peer_verified := True\<rparr>)"
  have "connection_rounds queue_read queue_write (Suc k) 0 registry sample_identity sample_crypto
      (sample_stage (wire_bytes ?input @ []) [?auth] 76 sample_half, 1, 7)
    = connection_rounds queue_read queue_write k 0 registry sample_identity sample_crypto
      (sample_session_link keys reader_default, 1, g)" for k
  proof (rule stage_round [OF handshake_frames(2) _ _ _ _ handshake_frames(4)])
    show "handshake_sent (fh_frame_type (wf_header ?auth)) sample_half = (Inr (), ?hs)"
      using sent by (simp add: auth_frame_def)
    show "connection_receive_handshake ?input ?hs 0 sample_identity sample_crypto (sample_stage [] [] 0 ?hs, 1, 7)
        = (?c, 1, g)"
      unfolding connection_receive_handshake_def prod.case received
      by (simp add: sample_stage_def Let_def)
    show "connection_finish (connection_establish ?c) = sample_session_link keys reader_default"
      by (simp add: connection_establish_def take_established_def is_authenticated_def sample_session_link_def
          sample_stage_def sample_half_def sample_end_def fresh_end_def connection_finish_def session_holds_def
          session_ready_to_close_def session_set_resources_def session_with_handle_def Let_def)
    show "wf_payload ?input \<noteq> []"
      by (simp add: auth_frame_def auth_encode_def flip: length_greater_0_conv)
  qed (simp_all add: auth_frame_def sample_session_link_def sample_stage_def sample_half_def sample_end_def
      fresh_end_def is_authenticated_def)
  then show thesis unfolding append_Nil2 by (rule that)
qed

lemma sample_round_three:
  "\<exists>r. connection_rounds queue_read queue_write (Suc k) 0 registry sample_identity sample_crypto
      (sample_session_link keys reader_default, 1, g) = (Pending, sample_session_link keys r, 1, g)"
proof -
  let ?c = "sample_session_link keys reader_default"
  let ?s = "session_set_resources (sample_busy 0) (session_with_handle (connection_handle_new 1)
       Initiator (IdentityId (sample_public 1)) (IdentityId (sample_public 2)))"
  have "session_pop_outbound ?s = (None, ?s)"
    by (simp add: session_pop_outbound_def next_output_choice choice_def eligible_def session_set_resources_def session_with_handle_def Let_def)
  then have wrote: "connection_write queue_write sample_crypto 0 ?c = (False, ?c)"
    by (simp add: connection_write_def connection_start_def connection_next_frame_def with_session_def
        sample_session_link_def sample_stage_def writer_is_busy_def writer_default_def session_set_resources_def)
  have read: "\<exists>r. connection_read queue_read 0 registry sample_identity sample_crypto (?c, 1, g)
      = (False, sample_session_link keys r, 1, g)"
    by (auto simp: connection_read_def sample_session_link_def sample_stage_def reader_poll_frame_def
        reader_default_def resize_def queue_read_def Let_def numeral_eq_Suc)
  have idle: "connection_establish (sample_session_link keys r) = sample_session_link keys r"
      "connection_finish (sample_session_link keys r) = sample_session_link keys r"
      "cn_socket (sample_session_link keys r) \<noteq> None" "\<not> cn_closing (sample_session_link keys r)" for r
    by (simp_all add: connection_establish_def connection_finish_def session_holds_def session_ready_to_close_def
        sample_session_link_def sample_stage_def session_set_resources_def session_with_handle_def Let_def)
  from read obtain r where "connection_read queue_read 0 registry sample_identity sample_crypto (?c, 1, g)
      = (False, sample_session_link keys r, 1, g)" ..
  with wrote idle show ?thesis by (intro exI [of _ r]) (auto simp: Let_def)
qed

lemma sample_joined:
  obtains keys r g where
    "connection_poll queue_read queue_write 0 registry sample_identity sample_crypto (sample_begun sample_peer, 1, 7)
      = (Pending, sample_session_link keys r, 1, g)"
proof -
  obtain keys g where two: "\<And>k. connection_rounds queue_read queue_write (Suc k) 0 registry sample_identity sample_crypto
      (sample_stage (wire_bytes (auth_frame (sample_proof Acceptor 2 7 1 5)))
        [auth_frame (sample_proof Initiator 1 5 2 7)\<lparr>wf_reservation := Some 76\<rparr>] 76 sample_half, 1, 7)
    = connection_rounds queue_read queue_write k 0 registry sample_identity sample_crypto
      (sample_session_link keys reader_default, 1, g)" using sample_round_two by blast
  obtain r where three: "connection_rounds queue_read queue_write (Suc 29) 0 registry sample_identity sample_crypto
      (sample_session_link keys reader_default, 1, g) = (Pending, sample_session_link keys r, 1, g)"
    using sample_round_three by blast
  have "(32 :: nat) = Suc (Suc (Suc 29))" by simp
  then have "connection_rounds queue_read queue_write 32 0 registry sample_identity sample_crypto
      (sample_begun sample_peer, 1, 7) = (Pending, sample_session_link keys r, 1, g)"
    by (simp only: sample_round_one two three)
  moreover have "cn_session (sample_begun sample_peer) = None" by (simp add: sample_begun_stage sample_stage_def)
  ultimately have "connection_poll queue_read queue_write 0 registry sample_identity sample_crypto
      (sample_begun sample_peer, 1, 7) = (Pending, sample_session_link keys r, 1, g)"
    by (simp add: connection_poll_def update_session_None sample_begun_parts)
  then show thesis by (rule that)
qed

theorem connection_authentic_witness:
  "\<exists>h (c :: (bytes, nat, nat) Connection) s it (hs :: (nat, nat) Handshake) hs' est r sig.
     connection_run queue_read queue_write sample_identity sample_crypto sample_origin 0 0 h c \<and>
     cn_session c = Some s \<and> cn_integrity c = Some it \<and>
     pc_peer_identity (ss_context s) = IdentityId (sample_public 2) \<and>
     hs_local hs = og_hello sample_origin \<and> take_established hs = (Some est, hs') \<and> hs_auth_sent hs \<and>
     hs_remote hs = Some (r, pc_peer_identity (ss_context s)) \<and>
     cy_verify_signature sample_crypto (hl_identity_public_key r) (peer_proof hs r) sig = Inr ()"
proof -
  obtain keys rd g where poll: "connection_poll queue_read queue_write 0 sample_registry sample_identity sample_crypto
      (sample_begun sample_peer, 1, 7) = (Pending, sample_session_link keys rd, 1, g)"
    by (rule sample_joined)
  let ?c = "sample_session_link keys rd"
  let ?h = "[] @ drop (length (all_events (sample_begun sample_peer))) (all_events ?c)"
  have run: "connection_run queue_read queue_write sample_identity sample_crypto sample_origin 0 0 ?h ?c"
    by (rule cn_poll [OF sample_begun_run poll])
  obtain s where s: "cn_session ?c = Some s" "pc_peer_identity (ss_context s) = IdentityId (sample_public 2)"
    and it: "cn_integrity ?c = Some (integrity_new keys)"
    by (simp add: sample_session_link_def session_set_resources_def session_with_handle_def Let_def)
  from connection_authentic [OF run] have "\<exists>(hs :: (nat, nat) Handshake) hs' est r sig.
      pc_peer_identity (ss_context s) = es_peer_identity est \<and> hs_local hs = og_hello sample_origin \<and>
      take_established hs = (Some est, hs') \<and> hs_auth_sent hs \<and> hs_remote hs = Some (r, es_peer_identity est) \<and>
      cy_verify_signature sample_crypto (hl_identity_public_key r) (peer_proof hs r) sig = Inr ()"
  proof (elim disjE exE conjE)
    assume "cn_session ?c = None"
    with s(1) show ?thesis by simp
  next
    fix s' r sig g g' and hs hs' :: "(nat, nat) Handshake" and est :: "nat Established"
    assume parts: "cn_session ?c = Some s'" "hs_local hs = og_hello sample_origin"
      "take_established hs = (Some est, hs')" "hs_auth_sent hs" "hs_remote hs = Some (r, es_peer_identity est)"
      "cy_verify_signature sample_crypto (hl_identity_public_key r) (peer_proof hs r) sig = Inr ()"
      and "ss_context s' = \<lparr>pc_connection = ch_id (cn_handle ?c), pc_role = es_role est,
        pc_local_identity = es_local_identity est, pc_peer_identity = es_peer_identity est\<rparr>"
    then have "pc_peer_identity (ss_context s) = es_peer_identity est" using s(1) by simp
    with parts show ?thesis by blast
  qed
  then obtain hs hs' :: "(nat, nat) Handshake" and est r sig where
    "hs_local hs = og_hello sample_origin" "take_established hs = (Some est, hs')" "hs_auth_sent hs"
    "hs_remote hs = Some (r, pc_peer_identity (ss_context s))"
    "cy_verify_signature sample_crypto (hl_identity_public_key r) (peer_proof hs r) sig = Inr ()" by metis
  with run s it show ?thesis by blast
qed

theorem connection_deadline_witness:
  "fst (connection_poll mute_read open_write 10 sample_registry sample_identity sample_crypto (sample_link, 2, 7))
     = Ready () \<and>
   cn_socket (fst (snd (connection_poll mute_read open_write 10 sample_registry sample_identity sample_crypto
     (sample_link, 2, 7)))) = None"
proof -
  obtain res c i g where poll: "connection_poll mute_read open_write 10 sample_registry sample_identity sample_crypto
      (sample_link, 2, 7) = (res, c, i, g)" by (metis prod_cases4)
  from connection_deadline [OF sample_link_run sample_link_begin(1) disjI1 [OF sample_link_begin(2)] _ poll]
  show ?thesis by (simp add: poll sample_link_begin(3))
qed

end
