(* ===== verification/Driver.thy ===== *)
theory Driver
  imports Connection_Run
begin

text \<open>
  The Transport driver: \<open>driver/mod.rs\<close> and \<open>driver/requests.rs\<close>, with the request vocabulary of
  \<open>api.rs\<close>. One driver owns all connections, connection attempts and listeners of one local identity
  and lends them the shared budgets, the registry and its dependencies.

  The socket provider, the sockets, attempts, listeners and the clock are code outside this program:
  their states are type parameters and their operations the fields of \<open>Ports\<close> (\<open>ports/io.rs\<close>). Wakeups
  are not modelled. Capabilities are issued from the counter \<open>dv_next\<close>, which stands for the
  allocation of a new instance.
\<close>

section \<open>Requests\<close>

text \<open>An endpoint: address octets and port.\<close>

record SocketAddr =
  sa_ip :: bytes
  sa_port :: u16

record ConnectRequest =
  cq_endpoint :: SocketAddr
  cq_expected_peer :: ExpectedPeer

definition connect_request_new :: "SocketAddr \<Rightarrow> ExpectedPeer \<Rightarrow> (TransportError, ConnectRequest) result" where
  "connect_request_new endpoint expected_peer =
     (if sa_port endpoint = 0 then Inl Te_InvalidEndpoint
      else Inr \<lparr>cq_endpoint = endpoint, cq_expected_peer = expected_peer\<rparr>)"

datatype StreamAction = Sa_Data bytes | Sa_End | Sa_Cancel CancellationReason

datatype 's Request =
    Rq_Connect ConnectRequest
  | Rq_Listen SocketAddr
  | Rq_Accept 's ExpectedPeer
  | Rq_StopListening ListenerHandle
  | Rq_RegisterProtocol Protocol
  | Rq_OpenStream ConnectionHandle StreamOwner
  | Rq_Stream StreamOwner StreamHandle StreamAction
  | Rq_Ping ConnectionHandle bytes Duration
  | Rq_Drain ConnectionHandle ShutdownReason
  | Rq_Close ConnectionHandle

datatype Accepted =
    Ac_Connection ConnectionHandle
  | Ac_Listener ListenerHandle SocketAddr
  | Ac_Registration StreamOwner
  | Ac_Stream StreamHandle
  | Ac_Queued

section \<open>State\<close>

record ('s, 'a, 'l, 'n, 't) Ports =
  po_read :: "'s poll_read"
  po_write :: "'s poll_write"
  po_connected :: "'a \<Rightarrow> (ErrorKind, 's) result poll \<times> 'a"
  po_local_addr :: "'l \<Rightarrow> (ErrorKind, SocketAddr) result"
  po_accept :: "'l \<Rightarrow> (ErrorKind, 's) result poll \<times> 'l"
  po_close :: "'l \<Rightarrow> (ErrorKind, unit) result"
  po_connect :: "SocketAddr \<Rightarrow> 'n \<Rightarrow> (ErrorKind, 'a) result \<times> 'n"
  po_listen :: "SocketAddr \<Rightarrow> 'n \<Rightarrow> (ErrorKind, 'l) result \<times> 'n"
  po_now :: "'t \<Rightarrow> Instant"
  po_poll_deadline :: "Instant \<Rightarrow> 't \<Rightarrow> unit poll \<times> 't"

record 'a PendingConnect =
  pn_handle :: ConnectionHandle
  pn_attempt :: 'a
  pn_expected :: ExpectedPeer
  pn_deadline :: Instant
  pn_reservation :: Reservation

record ('s, 'a, 'l, 'n, 't, 'i, 'g, 'e, 'k) Driver =
  dv_sockets :: 'n
  dv_clock :: 't
  dv_identity :: 'i
  dv_crypto :: 'g
  dv_config :: TransportConfig
  dv_resources :: Resources
  dv_registry :: Registry
  dv_registrations :: usize
  dv_connections :: "('s, 'e, 'k) Connection list"
  dv_pending :: "'a PendingConnect list"
  dv_listeners :: "(ListenerHandle \<times> 'l) list"
  dv_events :: "Event list"
  dv_next :: nat

definition driver_new ::
    "TransportConfig \<Rightarrow> 'n \<Rightarrow> 't \<Rightarrow> 'i \<Rightarrow> 'g \<Rightarrow> ('s, 'a, 'l, 'n, 't, 'i, 'g, 'e, 'k) Driver" where
  "driver_new config sockets clock i g =
     \<lparr>dv_sockets = sockets, dv_clock = clock, dv_identity = i, dv_crypto = g, dv_config = config,
      dv_resources = resources_new (tc_limits config), dv_registry = [], dv_registrations = 0,
      dv_connections = [], dv_pending = [], dv_listeners = [], dv_events = [], dv_next = 0\<rparr>"

definition driver_full :: "('s, 'a, 'l, 'n, 't, 'i, 'g, 'e, 'k) Driver \<Rightarrow> bool" where
  "driver_full d \<longleftrightarrow>
     rl_connections (tc_limits (dv_config d)) \<le> length (dv_connections d) + length (dv_pending d)"

text \<open>Admission of a socket with the driver's dependencies and budgets.\<close>

definition driver_begin ::
    "'i Identity \<Rightarrow> ('g, 'e, 'h, 'p, 'k) Cryptography \<Rightarrow> 's \<Rightarrow> Options \<Rightarrow> Instant
      \<Rightarrow> ('s, 'a, 'l, 'n, 't, 'i, 'g, 'e, 'k) Driver
      \<Rightarrow> (Disposition, ('s, 'e, 'k) Connection) result \<times> ('s, 'a, 'l, 'n, 't, 'i, 'g, 'e, 'k) Driver" where
  "driver_begin idn cy socket options now d =
     (case connection_begin_shared socket (dv_next d) options (dv_config d) now idn (dv_identity d) cy
             (dv_crypto d) (dv_resources d) of
        (r, g, rs) \<Rightarrow> (r, d\<lparr>dv_crypto := g, dv_resources := rs, dv_next := Suc (dv_next d)\<rparr>))"

section \<open>Connection attempts\<close>

definition connect_failure :: "ErrorKind \<Rightarrow> Failure" where
  "connect_failure kind =
     \<lparr>fl_origin = Fo_Local,
      fl_code = (if kind = Ek_TimedOut then Fc_DeadlineExceeded else Fc_ConnectionLost)\<rparr>"

text \<open>An attempt that has finished, removed from the list.\<close>

definition driver_connected ::
    "'i Identity \<Rightarrow> ('g, 'e, 'h, 'p, 'k) Cryptography \<Rightarrow> Instant \<Rightarrow> (ErrorKind, 's) result
      \<Rightarrow> 'a PendingConnect \<Rightarrow> ('s, 'a, 'l, 'n, 't, 'i, 'g, 'e, 'k) Driver
      \<Rightarrow> ('s, 'a, 'l, 'n, 't, 'i, 'g, 'e, 'k) Driver" where
  "driver_connected idn cy now outcome p d =
     (let closed = (\<lambda>failure d. d\<lparr>dv_events := dv_events d
            @ [Ev_ConnectionClosed (ch_id (pn_handle p)) (Some failure)]\<rparr>);
          d1 = d\<lparr>dv_resources := drop_connection (Some (pn_reservation p)) (dv_resources d)\<rparr>
      in case outcome of
           Inl kind \<Rightarrow> closed (connect_failure kind) d1
         | Inr socket \<Rightarrow>
             (case driver_begin idn cy socket
                     \<lparr>co_role = Initiator, co_expected_peer = pn_expected p\<rparr> now d1 of
                (Inl disposition, d2) \<Rightarrow> closed (ds_failure disposition) d2
              | (Inr c, d2) \<Rightarrow>
                  d2\<lparr>dv_connections := dv_connections d2 @ [connection_set_handle (pn_handle p) c]\<rparr>))"

fun driver_connects ::
    "('s, 'a, 'l, 'n, 't) Ports \<Rightarrow> 'i Identity \<Rightarrow> ('g, 'e, 'h, 'p, 'k) Cryptography \<Rightarrow> Instant
      \<Rightarrow> 'a PendingConnect list \<Rightarrow> ('s, 'a, 'l, 'n, 't, 'i, 'g, 'e, 'k) Driver
      \<Rightarrow> ('s, 'a, 'l, 'n, 't, 'i, 'g, 'e, 'k) Driver" where
  "driver_connects px idn cy now [] d = d"
| "driver_connects px idn cy now (p # rest) d =
     (case (if now \<ge> pn_deadline p then (Ready (Inl Ek_TimedOut), pn_attempt p)
            else po_connected px (pn_attempt p)) of
        (Pending, attempt) \<Rightarrow>
          driver_connects px idn cy now rest
            (d\<lparr>dv_pending := dv_pending d @ [p\<lparr>pn_attempt := attempt\<rparr>]\<rparr>)
      | (Ready outcome, _) \<Rightarrow>
          driver_connects px idn cy now rest (driver_connected idn cy now outcome p d))"

definition driver_poll_connects ::
    "('s, 'a, 'l, 'n, 't) Ports \<Rightarrow> 'i Identity \<Rightarrow> ('g, 'e, 'h, 'p, 'k) Cryptography \<Rightarrow> Instant
      \<Rightarrow> ('s, 'a, 'l, 'n, 't, 'i, 'g, 'e, 'k) Driver \<Rightarrow> ('s, 'a, 'l, 'n, 't, 'i, 'g, 'e, 'k) Driver" where
  "driver_poll_connects px idn cy now d =
     driver_connects px idn cy now (dv_pending d) (d\<lparr>dv_pending := []\<rparr>)"

section \<open>Listeners\<close>

definition driver_accepted ::
    "'i Identity \<Rightarrow> ('g, 'e, 'h, 'p, 'k) Cryptography \<Rightarrow> Instant \<Rightarrow> 's
      \<Rightarrow> ('s, 'a, 'l, 'n, 't, 'i, 'g, 'e, 'k) Driver \<Rightarrow> ('s, 'a, 'l, 'n, 't, 'i, 'g, 'e, 'k) Driver" where
  "driver_accepted idn cy now socket d =
     (case driver_begin idn cy socket \<lparr>co_role = Acceptor, co_expected_peer = Unpinned\<rparr> now d of
        (Inr c, d1) \<Rightarrow>
          d1\<lparr>dv_events := dv_events d1 @ [Ev_IncomingConnection (cn_handle c)],
             dv_connections := dv_connections d1 @ [c]\<rparr>
      | (Inl disposition, d1) \<Rightarrow>
          d1\<lparr>dv_events := dv_events d1
               @ [Ev_ConnectionClosed (ch_id (connection_handle_new (dv_next d1))) (Some (ds_failure disposition))],
             dv_next := Suc (dv_next d1)\<rparr>)"

text \<open>One pass over the listeners, stopped when the driver is at capacity.\<close>

fun driver_accepts ::
    "('s, 'a, 'l, 'n, 't) Ports \<Rightarrow> 'i Identity \<Rightarrow> ('g, 'e, 'h, 'p, 'k) Cryptography \<Rightarrow> Instant
      \<Rightarrow> (ListenerHandle \<times> 'l) list \<Rightarrow> ('s, 'a, 'l, 'n, 't, 'i, 'g, 'e, 'k) Driver
      \<Rightarrow> ('s, 'a, 'l, 'n, 't, 'i, 'g, 'e, 'k) Driver" where
  "driver_accepts px idn cy now [] d = d"
| "driver_accepts px idn cy now ((handle, socket) # rest) d =
     (if rl_connections (tc_limits (dv_config d)) \<le> ct_used (rs_connections (dv_resources d)) \<or> driver_full d
      then d\<lparr>dv_listeners := dv_listeners d @ (handle, socket) # rest\<rparr>
      else case po_accept px socket of
        (Pending, socket') \<Rightarrow>
          driver_accepts px idn cy now rest (d\<lparr>dv_listeners := dv_listeners d @ [(handle, socket')]\<rparr>)
      | (Ready (Inl _), _) \<Rightarrow>
          driver_accepts px idn cy now rest
            (d\<lparr>dv_events := dv_events d
                 @ [Ev_ListenerClosed handle (Some \<lparr>fl_origin = Fo_Local, fl_code = Fc_ConnectionLost\<rparr>)]\<rparr>)
      | (Ready (Inr accepted), socket') \<Rightarrow>
          driver_accepts px idn cy now rest
            (driver_accepted idn cy now accepted (d\<lparr>dv_listeners := dv_listeners d @ [(handle, socket')]\<rparr>)))"

definition driver_poll_listeners ::
    "('s, 'a, 'l, 'n, 't) Ports \<Rightarrow> 'i Identity \<Rightarrow> ('g, 'e, 'h, 'p, 'k) Cryptography \<Rightarrow> Instant
      \<Rightarrow> ('s, 'a, 'l, 'n, 't, 'i, 'g, 'e, 'k) Driver \<Rightarrow> ('s, 'a, 'l, 'n, 't, 'i, 'g, 'e, 'k) Driver" where
  "driver_poll_listeners px idn cy now d =
     driver_accepts px idn cy now (dv_listeners d) (d\<lparr>dv_listeners := []\<rparr>)"

section \<open>Timer\<close>

definition driver_deadlines :: "('s, 'a, 'l, 'n, 't, 'i, 'g, 'e, 'k) Driver \<Rightarrow> Instant list" where
  "driver_deadlines d =
     map pn_deadline (dv_pending d) @ List.map_filter connection_next_deadline (dv_connections d)"

definition driver_arm_timer ::
    "('s, 'a, 'l, 'n, 't) Ports \<Rightarrow> ('s, 'a, 'l, 'n, 't, 'i, 'g, 'e, 'k) Driver
      \<Rightarrow> ('s, 'a, 'l, 'n, 't, 'i, 'g, 'e, 'k) Driver" where
  "driver_arm_timer px d =
     (case driver_deadlines d of
        [] \<Rightarrow> d
      | t # ts \<Rightarrow> d\<lparr>dv_clock := snd (po_poll_deadline px (fold min ts t) (dv_clock d))\<rparr>)"

section \<open>Polling\<close>

text \<open>
  The connection at the front is polled, its next event taken, and it goes to the back of the queue;
  a closed connection without events left is dropped.
\<close>

definition driver_turn ::
    "('s, 'a, 'l, 'n, 't) Ports \<Rightarrow> 'i Identity \<Rightarrow> ('g, 'e, 'h, 'p, 'k) Cryptography \<Rightarrow> Instant
      \<Rightarrow> ('s, 'e, 'k) Connection \<Rightarrow> ('s, 'a, 'l, 'n, 't, 'i, 'g, 'e, 'k) Driver
      \<Rightarrow> Event option \<times> ('s, 'a, 'l, 'n, 't, 'i, 'g, 'e, 'k) Driver" where
  "driver_turn px idn cy now c d =
     (case connection_poll (po_read px) (po_write px) now (dv_registry d) idn cy
             (c\<lparr>cn_resources := dv_resources d\<rparr>, dv_identity d, dv_crypto d) of
        (polled, c1, i, g) \<Rightarrow>
          (case connection_pop_event c1 of
             (event, c2) \<Rightarrow>
               (let d1 = d\<lparr>dv_identity := i, dv_crypto := g\<rparr> in
                (event,
                 if polled = Pending \<or> event \<noteq> None
                 then d1\<lparr>dv_resources := cn_resources c2, dv_connections := dv_connections d1 @ [c2]\<rparr>
                 else d1\<lparr>dv_resources := connection_drop c2\<rparr>))))"

fun driver_turns ::
    "('s, 'a, 'l, 'n, 't) Ports \<Rightarrow> 'i Identity \<Rightarrow> ('g, 'e, 'h, 'p, 'k) Cryptography \<Rightarrow> Instant \<Rightarrow> nat
      \<Rightarrow> ('s, 'a, 'l, 'n, 't, 'i, 'g, 'e, 'k) Driver
      \<Rightarrow> Event option \<times> ('s, 'a, 'l, 'n, 't, 'i, 'g, 'e, 'k) Driver" where
  "driver_turns px idn cy now 0 d = (None, d)"
| "driver_turns px idn cy now (Suc n) d =
     (case dv_connections d of
        [] \<Rightarrow> (None, d)
      | c # rest \<Rightarrow>
          (case driver_turn px idn cy now c (d\<lparr>dv_connections := rest\<rparr>) of
             (Some event, d1) \<Rightarrow> (Some event, d1)
           | (None, d1) \<Rightarrow> driver_turns px idn cy now n d1))"

definition driver_pop_event ::
    "('s, 'a, 'l, 'n, 't, 'i, 'g, 'e, 'k) Driver
      \<Rightarrow> Event option \<times> ('s, 'a, 'l, 'n, 't, 'i, 'g, 'e, 'k) Driver" where
  "driver_pop_event d =
     (case dv_events d of [] \<Rightarrow> (None, d) | e # es \<Rightarrow> (Some e, d\<lparr>dv_events := es\<rparr>))"

definition driver_poll_event ::
    "('s, 'a, 'l, 'n, 't) Ports \<Rightarrow> 'i Identity \<Rightarrow> ('g, 'e, 'h, 'p, 'k) Cryptography
      \<Rightarrow> ('s, 'a, 'l, 'n, 't, 'i, 'g, 'e, 'k) Driver
      \<Rightarrow> Event option poll \<times> ('s, 'a, 'l, 'n, 't, 'i, 'g, 'e, 'k) Driver" where
  "driver_poll_event px idn cy d =
     (case driver_pop_event d of
        (Some e, d1) \<Rightarrow> (Ready (Some e), d1)
      | (None, d1) \<Rightarrow>
          (let now = po_now px (dv_clock d1);
               d2 = driver_poll_listeners px idn cy now (driver_poll_connects px idn cy now d1)
           in case driver_pop_event d2 of
                (Some e, d3) \<Rightarrow> (Ready (Some e), driver_arm_timer px d3)
              | (None, d3) \<Rightarrow>
                  (case driver_turns px idn cy now (length (dv_connections d3)) d3 of
                     (Some e, d4) \<Rightarrow> (Ready (Some e), driver_arm_timer px d4)
                   | (None, d4) \<Rightarrow>
                       (case driver_pop_event (driver_arm_timer px d4) of
                          (Some e, d5) \<Rightarrow> (Ready (Some e), d5)
                        | (None, d5) \<Rightarrow> (Pending, d5)))))"

section \<open>Requests of the local controller\<close>

fun session_error :: "SessionError \<Rightarrow> TransportError" where
  "session_error Se_Capacity = Te_Backpressure"
| "session_error (Se_Authority error) = error"
| "session_error Se_Owner = Te_WrongStreamOwner"
| "session_error Se_Closed = Te_Closed"
| "session_error _ = Te_InvalidRequest"

definition driver_accept ::
    "('s, 'a, 'l, 'n, 't) Ports \<Rightarrow> 'i Identity \<Rightarrow> ('g, 'e, 'h, 'p, 'k) Cryptography \<Rightarrow> 's \<Rightarrow> ExpectedPeer
      \<Rightarrow> ('s, 'a, 'l, 'n, 't, 'i, 'g, 'e, 'k) Driver
      \<Rightarrow> (TransportError, Accepted) result \<times> ('s, 'a, 'l, 'n, 't, 'i, 'g, 'e, 'k) Driver" where
  "driver_accept px idn cy socket expected_peer d =
     (if driver_full d then (Inl Te_Backpressure, d)
      else case driver_begin idn cy socket \<lparr>co_role = Acceptor, co_expected_peer = expected_peer\<rparr>
                  (po_now px (dv_clock d)) d of
        (Inl disposition, d1) \<Rightarrow>
          (Inl (if fl_code (ds_failure disposition) = Fc_ResourceLimit then Te_Backpressure
                else Te_Startup (ds_failure disposition)), d1)
      | (Inr c, d1) \<Rightarrow>
          (Inr (Ac_Connection (cn_handle c)), d1\<lparr>dv_connections := dv_connections d1 @ [c]\<rparr>))"

definition driver_connect ::
    "('s, 'a, 'l, 'n, 't) Ports \<Rightarrow> ConnectRequest \<Rightarrow> ('s, 'a, 'l, 'n, 't, 'i, 'g, 'e, 'k) Driver
      \<Rightarrow> (TransportError, Accepted) result \<times> ('s, 'a, 'l, 'n, 't, 'i, 'g, 'e, 'k) Driver" where
  "driver_connect px request d =
     (if driver_full d then (Inl Te_Backpressure, d)
      else case resources_connection (dv_resources d) of
        None \<Rightarrow> (Inl Te_Backpressure, d)
      | Some (reservation, rs) \<Rightarrow>
          (let d1 = d\<lparr>dv_resources := rs\<rparr>;
               rejected = (\<lambda>d. d\<lparr>dv_resources := drop_connection (Some reservation) (dv_resources d)\<rparr>)
           in case instant_checked_add (po_now px (dv_clock d1)) (tc_handshake_timeout (dv_config d1)) of
                None \<Rightarrow> (Inl Te_InvalidRequest, rejected d1)
              | Some deadline \<Rightarrow>
                  (case po_connect px (cq_endpoint request) (dv_sockets d1) of
                     (Inl kind, n) \<Rightarrow> (Inl (Te_Io kind), rejected (d1\<lparr>dv_sockets := n\<rparr>))
                   | (Inr attempt, n) \<Rightarrow>
                       (let handle = connection_handle_new (dv_next d1) in
                        (Inr (Ac_Connection handle),
                         d1\<lparr>dv_sockets := n, dv_next := Suc (dv_next d1),
                            dv_pending := dv_pending d1
                              @ [\<lparr>pn_handle = handle, pn_attempt = attempt,
                                  pn_expected = cq_expected_peer request, pn_deadline = deadline,
                                  pn_reservation = reservation\<rparr>]\<rparr>)))))"

definition driver_listen ::
    "('s, 'a, 'l, 'n, 't) Ports \<Rightarrow> SocketAddr \<Rightarrow> ('s, 'a, 'l, 'n, 't, 'i, 'g, 'e, 'k) Driver
      \<Rightarrow> (TransportError, Accepted) result \<times> ('s, 'a, 'l, 'n, 't, 'i, 'g, 'e, 'k) Driver" where
  "driver_listen px endpoint d =
     (if rl_connections (tc_limits (dv_config d)) \<le> length (dv_listeners d) then (Inl Te_Backpressure, d)
      else case po_listen px endpoint (dv_sockets d) of
        (Inl kind, n) \<Rightarrow> (Inl (Te_Io kind), d\<lparr>dv_sockets := n\<rparr>)
      | (Inr socket, n) \<Rightarrow>
          (case po_local_addr px socket of
             Inl kind \<Rightarrow> (Inl (Te_Io kind), d\<lparr>dv_sockets := n\<rparr>)
           | Inr local_addr \<Rightarrow>
               (let handle = ListenerHandle (dv_next d) in
                (Inr (Ac_Listener handle local_addr),
                 d\<lparr>dv_sockets := n, dv_next := Suc (dv_next d),
                   dv_listeners := dv_listeners d @ [(handle, socket)]\<rparr>))))"

definition driver_stop_listening ::
    "('s, 'a, 'l, 'n, 't) Ports \<Rightarrow> ListenerHandle \<Rightarrow> ('s, 'a, 'l, 'n, 't, 'i, 'g, 'e, 'k) Driver
      \<Rightarrow> (TransportError, Accepted) result \<times> ('s, 'a, 'l, 'n, 't, 'i, 'g, 'e, 'k) Driver" where
  "driver_stop_listening px listener d =
     (case position (\<lambda>(handle, _). handle = listener) (dv_listeners d) of
        None \<Rightarrow> (Inl Te_Closed, d)
      | Some k \<Rightarrow>
          (let failure = (case po_close px (snd (dv_listeners d ! k)) of
                 Inr _ \<Rightarrow> None
               | Inl _ \<Rightarrow> Some \<lparr>fl_origin = Fo_Local, fl_code = Fc_ConnectionLost\<rparr>)
           in (Inr Ac_Queued,
               d\<lparr>dv_listeners := remove_at k (dv_listeners d),
                 dv_events := dv_events d @ [Ev_ListenerClosed listener failure]\<rparr>)))"

definition driver_register ::
    "Protocol \<Rightarrow> ('s, 'a, 'l, 'n, 't, 'i, 'g, 'e, 'k) Driver
      \<Rightarrow> (TransportError, Accepted) result \<times> ('s, 'a, 'l, 'n, 't, 'i, 'g, 'e, 'k) Driver" where
  "driver_register protocol d =
     (if 256 \<le> dv_registrations d then (Inl Te_Backpressure, d)
      else case registry_register protocol (dv_next d) (dv_registry d) of
        (Inl _, registry) \<Rightarrow> (Inl Te_InvalidRequest, d\<lparr>dv_registry := registry\<rparr>)
      | (Inr owner, registry) \<Rightarrow>
          (Inr (Ac_Registration owner),
           d\<lparr>dv_registry := registry, dv_registrations := dv_registrations d + 1, dv_next := Suc (dv_next d)\<rparr>))"

text \<open>A call of the session of the connection that is meant.\<close>

definition driver_call ::
    "(('s, 'e, 'k) Connection \<Rightarrow> bool) \<Rightarrow> (Session \<Rightarrow> 'r session_result)
      \<Rightarrow> ('s, 'a, 'l, 'n, 't, 'i, 'g, 'e, 'k) Driver
      \<Rightarrow> (TransportError, 'r) result \<times> ('s, 'a, 'l, 'n, 't, 'i, 'g, 'e, 'k) Driver" where
  "driver_call meant f d =
     (case position meant (dv_connections d) of
        None \<Rightarrow> (Inl Te_WrongConnection, d)
      | Some k \<Rightarrow>
          (case with_session f ((dv_connections d ! k)\<lparr>cn_resources := dv_resources d\<rparr>) of
             (None, _) \<Rightarrow> (Inl Te_InvalidRequest, d)
           | (Some r, c) \<Rightarrow>
               (map_err session_error r,
                d\<lparr>dv_connections := (dv_connections d)[k := c], dv_resources := cn_resources c\<rparr>)))"

definition driver_close ::
    "ConnectionHandle \<Rightarrow> ('s, 'a, 'l, 'n, 't, 'i, 'g, 'e, 'k) Driver
      \<Rightarrow> (TransportError, Accepted) result \<times> ('s, 'a, 'l, 'n, 't, 'i, 'g, 'e, 'k) Driver" where
  "driver_close connection d =
     (case position (\<lambda>p. pn_handle p = connection) (dv_pending d) of
        Some k \<Rightarrow>
          (Inr Ac_Queued,
           d\<lparr>dv_pending := remove_at k (dv_pending d),
             dv_resources := drop_connection (Some (pn_reservation (dv_pending d ! k))) (dv_resources d),
             dv_events := dv_events d
               @ [Ev_ConnectionClosed (ch_id connection)
                    (Some \<lparr>fl_origin = Fo_Local, fl_code = Fc_ConnectionLost\<rparr>)]\<rparr>)
      | None \<Rightarrow>
          (case position (\<lambda>c. cn_handle c = connection) (dv_connections d) of
             None \<Rightarrow> (Inl Te_WrongConnection, d)
           | Some k \<Rightarrow>
               (let c = connection_close ((dv_connections d ! k)\<lparr>cn_resources := dv_resources d\<rparr>) in
                (Inr Ac_Queued,
                 d\<lparr>dv_connections := (dv_connections d)[k := c], dv_resources := cn_resources c\<rparr>))))"

fun stream_action :: "StreamOwner \<Rightarrow> StreamHandle \<Rightarrow> StreamAction \<Rightarrow> Session \<Rightarrow> unit session_result" where
  "stream_action owner stream (Sa_Data bs) s = session_send owner stream bs s"
| "stream_action owner stream Sa_End s = session_end owner stream s"
| "stream_action owner stream (Sa_Cancel reason) s = session_cancel owner stream reason s"

definition accepted_as :: "('r \<Rightarrow> Accepted) \<Rightarrow> (TransportError, 'r) result \<times> 'd \<Rightarrow> (TransportError, Accepted) result \<times> 'd" where
  "accepted_as f = (\<lambda>(r, d). (map_sum id f r, d))"

fun driver_request ::
    "('s, 'a, 'l, 'n, 't) Ports \<Rightarrow> 'i Identity \<Rightarrow> ('g, 'e, 'h, 'p, 'k) Cryptography \<Rightarrow> 's Request
      \<Rightarrow> ('s, 'a, 'l, 'n, 't, 'i, 'g, 'e, 'k) Driver
      \<Rightarrow> (TransportError, Accepted) result \<times> ('s, 'a, 'l, 'n, 't, 'i, 'g, 'e, 'k) Driver" where
  "driver_request px idn cy (Rq_RegisterProtocol protocol) d = driver_register protocol d"
| "driver_request px idn cy (Rq_Connect request) d = driver_connect px request d"
| "driver_request px idn cy (Rq_Accept socket expected_peer) d = driver_accept px idn cy socket expected_peer d"
| "driver_request px idn cy (Rq_Listen endpoint) d = driver_listen px endpoint d"
| "driver_request px idn cy (Rq_StopListening listener) d = driver_stop_listening px listener d"
| "driver_request px idn cy (Rq_OpenStream connection owner) d =
     accepted_as Ac_Stream
       (driver_call (\<lambda>c. cn_handle c = connection) (session_open (dv_registry d) owner) d)"
| "driver_request px idn cy (Rq_Stream owner stream action) d =
     accepted_as (\<lambda>_. Ac_Queued)
       (driver_call (\<lambda>c. ch_id (cn_handle c) = sh_connection stream) (stream_action owner stream action) d)"
| "driver_request px idn cy (Rq_Ping connection token timeout) d =
     accepted_as (\<lambda>_. Ac_Queued)
       (driver_call (\<lambda>c. cn_handle c = connection)
          (session_ping token timeout (po_now px (dv_clock d))) d)"
| "driver_request px idn cy (Rq_Drain connection reason) d =
     accepted_as (\<lambda>_. Ac_Queued)
       (driver_call (\<lambda>c. cn_handle c = connection) (session_drain reason) d)"
| "driver_request px idn cy (Rq_Close connection) d = driver_close connection d"

definition driver_submit ::
    "('s, 'a, 'l, 'n, 't) Ports \<Rightarrow> 'i Identity \<Rightarrow> ('g, 'e, 'h, 'p, 'k) Cryptography \<Rightarrow> 's Request
      \<Rightarrow> ('s, 'a, 'l, 'n, 't, 'i, 'g, 'e, 'k) Driver
      \<Rightarrow> (TransportError, Accepted) result \<times> ('s, 'a, 'l, 'n, 't, 'i, 'g, 'e, 'k) Driver" where
  "driver_submit px idn cy request d =
     (if saturating_add_usize (saturating_mul_usize (rl_connections (tc_limits (dv_config d))) 4) 16
           \<le> length (dv_events d)
      then (Inl Te_Backpressure, d)
      else driver_request px idn cy request d)"

end
