(* ===== verification/Connection_Frame.thy ===== *)
theory Connection_Frame
  imports Connection_Run
begin

text \<open>
  What a connection keeps and what it holds, as the driver sees it: every operation keeps the handle
  and the limits of the budgets (\<open>caps\<close>), and changes the shared budgets by exactly the change of the
  connection's own share. Together with the invariant this is the contract by which several
  connections use one budget.
\<close>

section \<open>Handle and limits\<close>

named_theorems steady \<open>operations keep the handle and the limits\<close>

definition caps :: "Resources \<Rightarrow> ResourceLimits \<times> usize \<times> usize" where
  "caps rs = (rs_limits rs, ct_limit (rs_connections rs), ct_limit (rs_outbound rs))"

lemma caps_drop [steady]:
  "caps (drop_outbound v rs) = caps rs" "caps (drop_connection v rs) = caps rs" "caps (drop_frames fs rs) = caps rs"
  by (simp_all add: caps_def drop_outbound_def drop_connection_def release_def split: option.split)

lemma caps_outbound: "resources_outbound n rs = Some (v, rs') \<Longrightarrow> caps rs' = caps rs"
  by (auto simp: caps_def resources_outbound_def reserve_iff)

lemma caps_connection: "resources_connection rs = Some (v, rs') \<Longrightarrow> caps rs' = caps rs"
  by (auto simp: caps_def resources_connection_def reserve_iff)

lemma caps_session: "evolves s s' \<Longrightarrow> caps (ss_resources s') = caps (ss_resources s)"
  by (simp add: caps_def evolves_def)

lemma update_session_steady:
  assumes "\<And>s. evolves s (f s)"
  shows "caps (cn_resources (update_session f c)) = caps (cn_resources c)"
  using caps_session [OF assms [of "the (cn_session c)\<lparr>ss_resources := cn_resources c\<rparr>"]]
  by (cases "cn_session c") (simp_all add: update_session_None update_session_Some)

lemma evolves_receive_snd: "evolves s ((\<lambda>s. snd (session_receive f r t s)) s)"
  by (simp add: evolves_receive)

lemmas session_steady [steady] = update_session_steady [OF evolves_close]
  update_session_steady [OF evolves_tick] update_session_steady [OF evolves_sent]
  update_session_steady [OF evolves_receive_snd]

lemma pop_outbound_resources: "ss_resources (snd (session_pop_outbound s)) = ss_resources s"
  by (simp add: session_pop_outbound_def session_next_output_def Let_def split: option.split)

lemma session_discard_caps: "caps (ss_resources (session_discard s)) = caps (ss_resources s)"
proof (induction s rule: session_discard.induct)
  case (1 s)
  obtain out s' where pop: "session_pop_outbound s = (out, s')" by (cases "session_pop_outbound s")
  then have kept: "ss_resources s' = ss_resources s" using pop_outbound_resources [of s] by simp
  show ?case
  proof (cases out)
    case None
    with pop kept show ?thesis by (simp add: session_discard.simps [of s])
  next
    case (Some f)
    from "1.IH" [OF pop [symmetric] Some] pop Some kept show ?thesis
      by (simp add: session_discard.simps [of s] steady)
  qed
qed

lemma release_steady [steady]: "caps (cn_resources (connection_release c)) = caps (cn_resources c)"
  by (cases "cn_session c") (simp_all add: release_None release_Some session_discard_caps steady)

lemma abort_steady [steady]:
  "cn_handle (connection_abort d c) = cn_handle c" "caps (cn_resources (connection_abort d c)) = caps (cn_resources c)"
  by (simp_all add: connection_abort_def steady)

lemma fail_steady [steady]:
  "cn_handle (connection_fail d now c) = cn_handle c"
  "caps (cn_resources (connection_fail d now c)) = caps (cn_resources c)"
  by (auto simp: connection_fail_def Let_def steady caps_outbound split: option.split)

lemma establish_steady [steady]:
  "cn_handle (connection_establish c) = cn_handle c" "cn_resources (connection_establish c) = cn_resources c"
  by (simp_all add: connection_establish_def split: option.split prod.split)

lemma next_frame_steady:
  assumes "connection_next_frame c = (out, c')"
  shows "cn_handle c' = cn_handle c" "cn_resources c' = cn_resources c"
  using assms pop_outbound_resources [of "the (cn_session c)\<lparr>ss_resources := cn_resources c\<rparr>"]
  by (auto simp: connection_next_frame_def with_session_def session_set_resources_def
      split: option.splits list.splits prod.splits)

lemma start_frame_steady [steady]:
  "cn_handle (snd (connection_start_frame frame phase kind i c)) = cn_handle c"
  "caps (cn_resources (snd (connection_start_frame frame phase kind i c))) = caps (cn_resources c)"
proof -
  obtain res w rs where start: "writer_start frame phase (cn_writer c) (cn_resources c) = (res, w, rs)"
    by (metis prod_cases3)
  then have "caps rs = caps (cn_resources c)" by (cases rule: writer_start_cases) (simp_all add: steady)
  with start show "cn_handle (snd (connection_start_frame frame phase kind i c)) = cn_handle c"
    "caps (cn_resources (snd (connection_start_frame frame phase kind i c))) = caps (cn_resources c)"
    by (cases res; simp add: connection_start_frame_def steady)+
qed

lemma start_steady [steady]:
  "cn_handle (snd (connection_start cy c)) = cn_handle c"
  "caps (cn_resources (snd (connection_start cy c))) = caps (cn_resources c)"
proof -
  obtain out d where out: "connection_next_frame c = (out, d)" by (cases "connection_next_frame c")
  note d = next_frame_steady [OF out]
  have "caps rs = caps rs0" if "integrity_seal cy frame it rs0 = (res, it', rs)" for frame it res it' rs rs0
    using that by (cases rule: sealed_reservation) (simp_all add: steady)
  with d out show "cn_handle (snd (connection_start cy c)) = cn_handle c"
    "caps (cn_resources (snd (connection_start cy c))) = caps (cn_resources c)"
    by (auto simp: connection_start_def Let_def steady split: option.split sum.split prod.split)
qed

lemma written_steady [steady]:
  "cn_handle (snd (connection_written kind i phase now c)) = cn_handle c"
  "caps (cn_resources (snd (connection_written kind i phase now c))) = caps (cn_resources c)"
  by (auto simp: connection_written_def Let_def steady split: option.split sum.split prod.split)

lemma writer_loop_caps: "writer_loop wr n w s rs = (out, w', s', rs') \<Longrightarrow> caps rs' = caps rs"
proof (induction n arbitrary: w s)
  case (Suc n)
  then show ?case
    by (fastforce simp: Let_def steady split: if_splits prod.splits poll.splits sum.splits)
qed simp

lemma flush_caps: "writer_poll_flush wr w s rs = (out, w', s', rs') \<Longrightarrow> caps rs' = caps rs"
  by (auto simp: writer_poll_flush_def writer_loop_caps split: if_splits)

lemma write_steady [steady]:
  "cn_handle (snd (connection_write wr cy now c)) = cn_handle c"
  "caps (cn_resources (snd (connection_write wr cy now c))) = caps (cn_resources c)"
proof -
  obtain go d where start: "connection_start cy c = (go, d)" by (cases "connection_start cy c")
  have d: "cn_handle d = cn_handle c" "caps (cn_resources d) = caps (cn_resources c)"
    using start_steady [of cy c] start by simp_all
  show "cn_handle (snd (connection_write wr cy now c)) = cn_handle c"
    "caps (cn_resources (snd (connection_write wr cy now c))) = caps (cn_resources c)"
    using start d
    by (auto simp: connection_write_def Let_def steady dest!: flush_caps
        split: bool.split option.split prod.split poll.split sum.split)
qed

lemma receive_handshake_steady [steady]:
  "cn_handle (fst (connection_receive_handshake frame h now idn cy (c, i, g))) = cn_handle c"
  "caps (cn_resources (fst (connection_receive_handshake frame h now idn cy (c, i, g)))) = caps (cn_resources c)"
  by (auto simp: connection_receive_handshake_def Let_def steady caps_outbound
      split: option.split prod.split sum.split)

lemma receive_verified_steady [steady]:
  "cn_handle (connection_receive_verified frame it now registry cy c) = cn_handle c"
  "caps (cn_resources (connection_receive_verified frame it now registry cy c)) = caps (cn_resources c)"
  by (auto simp: connection_receive_verified_def Let_def steady split: prod.split sum.split)

lemma read_steady [steady]:
  "cn_handle (fst (snd (connection_read rd now registry idn cy (c, i, g)))) = cn_handle c"
  "caps (cn_resources (fst (snd (connection_read rd now registry idn cy (c, i, g))))) = caps (cn_resources c)"
  by (auto simp: connection_read_def Let_def steady split: option.split prod.split poll.split sum.split)

lemma finish_steady [steady]:
  "cn_handle (connection_finish c) = cn_handle c" "caps (cn_resources (connection_finish c)) = caps (cn_resources c)"
  by (simp_all add: connection_finish_def steady)

lemma rounds_steady:
  "connection_rounds rd wr n now registry idn cy (c, i, g) = (res, c', i', g') \<Longrightarrow>
     cn_handle c' = cn_handle c \<and> caps (cn_resources c') = caps (cn_resources c)"
proof (induction n arbitrary: c i g)
  case (Suc n)
  obtain written c1 where wrote: "connection_write wr cy now c = (written, c1)" by (cases "connection_write wr cy now c")
  have c1: "cn_handle c1 = cn_handle c" "caps (cn_resources c1) = caps (cn_resources c)"
    using write_steady [of wr cy now c] wrote by simp_all
  let ?c2 = "connection_establish c1"
  obtain was_read c3 i3 g3 where input: "(if \<not> cn_closing ?c2 then connection_read rd now registry idn cy (?c2, i, g)
      else (False, (?c2, i, g))) = (was_read, (c3, i3, g3))" by (metis prod_cases4)
  have c3: "cn_handle c3 = cn_handle c" "caps (cn_resources c3) = caps (cn_resources c)"
    using input c1 read_steady [of rd now registry idn cy ?c2 i g]
    by (auto simp: establish_steady split: if_splits)
  from Suc.prems Suc.IH [of "connection_finish (connection_establish c3)" i3 g3] wrote input c1 c3 show ?case
    by (auto simp: Let_def steady split: if_splits)
qed simp

lemma poll_steady:
  assumes "connection_poll rd wr now registry idn cy (c, i, g) = (res, c', i', g')"
  shows "cn_handle c' = cn_handle c" "caps (cn_resources c') = caps (cn_resources c)"
  using assms rounds_steady [of rd wr 32 now registry idn cy "update_session (session_tick now) c" i g res c' i' g']
  by (auto simp: connection_poll_def steady split: if_splits)

lemma pop_event_steady:
  assumes "connection_pop_event c = (e, c')"
  shows "cn_handle c' = cn_handle c" "cn_resources c' = cn_resources c" "cn_socket c' = cn_socket c"
  using assms
  by (auto simp: connection_pop_event_def with_session_def session_set_resources_def session_pop_event_def
      split: list.splits option.splits)

section \<open>Shares\<close>

definition share :: "('s, 'e, 'k) Connection \<Rightarrow> usize" where
  "share c = held c + (case cn_session c of None \<Rightarrow> 0 | Some s \<Rightarrow> queued_bytes (ss_outbound s))"

definition admitted :: "('s, 'e, 'k) Connection \<Rightarrow> usize" where
  "admitted c = reserved (cn_admission c)"

lemma share_lent [simp]: "share (c\<lparr>cn_resources := rs\<rparr>) = share c" "admitted (c\<lparr>cn_resources := rs\<rparr>) = admitted c"
  by (simp_all add: share_def held_def admitted_def)

lemma inv_shares:
  assumes "connection_inv idn cy origin others conns h c"
  shows "outbound_used (cn_resources c) = others + share c" "outbound_ok (cn_resources c)"
    "ct_used (rs_connections (cn_resources c)) = conns + admitted c"
    "admitted c = (if cn_socket c = None then 0 else 1)" "cn_socket c = None \<Longrightarrow> share c = 0"
proof -
  note inv = connection_invD [OF assms]
  have "outbound_used (cn_resources c) = others + share c \<and> outbound_ok (cn_resources c) \<and>
      ct_used (rs_connections (cn_resources c)) = conns + admitted c"
  proof (cases "cn_session c")
    case None
    with inv(3) show ?thesis by (simp add: books_None share_def admitted_def)
  next
    case (Some s)
    with inv(3) show ?thesis by (simp add: books_Some session_inv_def queue_ok_def share_def admitted_def)
  qed
  then show "outbound_used (cn_resources c) = others + share c" "outbound_ok (cn_resources c)"
    "ct_used (rs_connections (cn_resources c)) = conns + admitted c" by simp_all
  show "admitted c = (if cn_socket c = None then 0 else 1)" using inv(1) by (auto simp: phase_ok_def admitted_def)
  show "share c = 0" if "cn_socket c = None"
    using inv(1) that by (auto simp: phase_ok_def share_def held_def split: option.split)
qed

text \<open>A connection that satisfies its invariant for some user of the rest of the budgets.\<close>

definition sound ::
    "'i Identity \<Rightarrow> ('g, 'e, 'h, 'p, 'k) Cryptography \<Rightarrow> Event list \<Rightarrow> ('s, 'e, 'k) Connection \<Rightarrow> bool" where
  "sound idn cy h c \<longleftrightarrow> (\<exists>origin others conns. connection_inv idn cy origin others conns h c)"

lemma sound_lent:
  assumes "sound idn cy h c" "caps rs = caps (cn_resources c)" "outbound_ok rs" "share c \<le> outbound_used rs"
    "admitted c \<le> ct_used (rs_connections rs)"
  shows "sound idn cy h (c\<lparr>cn_resources := rs\<rparr>)"
proof -
  from assms(1) obtain origin others conns where inv: "connection_inv idn cy origin others conns h c"
    unfolding sound_def by blast
  have "connection_inv idn cy origin (outbound_used rs - share c) (ct_used (rs_connections rs) - admitted c) h
      (c\<lparr>cn_resources := rs\<rparr>)"
    by (rule connection_budget_inv [OF inv]) (use assms inv_shares [OF inv] in \<open>simp_all add: caps_def\<close>)
  then show ?thesis unfolding sound_def by blast
qed

lemma sound_step:
  assumes "sound idn cy h c" "\<And>origin. cn_evolves idn cy origin c c'"
  obtains new where "all_events c' = all_events c @ new" "sound idn cy (h @ new) c'"
    "outbound_used (cn_resources c') + share c = outbound_used (cn_resources c) + share c'"
    "ct_used (rs_connections (cn_resources c')) + admitted c = ct_used (rs_connections (cn_resources c)) + admitted c'"
    "outbound_ok (cn_resources c')"
proof -
  from assms(1) obtain origin others conns where inv: "connection_inv idn cy origin others conns h c"
    unfolding sound_def by blast
  with assms(2) [of origin] obtain new where new: "all_events c' = all_events c @ new"
      "connection_inv idn cy origin others conns (h @ new) c'" unfolding cn_evolves_def by blast
  show ?thesis
    by (rule that [OF new(1)]) (use new(2) inv_shares [OF inv] inv_shares [OF new(2)] in \<open>auto simp: sound_def\<close>)
qed

lemma sound_admitted:
  assumes "sound idn cy h c"
  shows "admitted c = (if cn_socket c = None then 0 else 1)" "cn_socket c = None \<Longrightarrow> share c = 0"
  using assms inv_shares(4,5) unfolding sound_def by blast+

lemma sound_closed: "sound idn cy h c \<Longrightarrow> cn_socket c = None \<Longrightarrow> closings h = 1 \<and> told c"
  by (auto simp: sound_def connection_inv_def told_def phase_ok_def split: option.splits)

lemma sound_pop:
  assumes "sound idn cy h c" "connection_pop_event c = (e, c')"
  shows "sound idn cy h c'" "all_events c = (case e of None \<Rightarrow> [] | Some e \<Rightarrow> [e]) @ all_events c'"
    "share c' = share c" "admitted c' = admitted c"
proof -
  show "sound idn cy h c'" using assms connection_pop_event_inv unfolding sound_def by (metis snd_conv)
  show "all_events c = (case e of None \<Rightarrow> [] | Some e \<Rightarrow> [e]) @ all_events c'"
    "share c' = share c" "admitted c' = admitted c"
    using assms(2)
    by (auto simp: connection_pop_event_def with_session_def session_set_resources_def session_pop_event_def
        all_events_def share_def held_def admitted_def split: list.splits option.splits)
qed

lemma rounds_closed:
  "connection_rounds rd wr n now registry idn cy st = (Ready (), c', i', g') \<Longrightarrow> cn_socket c' = None"
proof (induction n arbitrary: st)
  case (Suc n)
  then show ?case
    by (auto simp: Let_def split: prod.splits if_splits)
qed simp

lemma poll_closed:
  "connection_poll rd wr now registry idn cy (c, i, g) = (Ready (), c', i', g') \<Longrightarrow> cn_socket c' = None"
  by (auto simp: connection_poll_def connection_abort_def split: if_splits dest: rounds_closed)

text \<open>Admission of a socket: the budgets are as before, or the connection holds its share.\<close>

lemma begin_failed:
  assumes "connection_begin_shared socket fresh options config now idn i cy g rs = (Inl disposition, g', rs')"
  shows "rs' = rs"
proof -
  have undo: "drop_connection (Some v) rs1 = r" if "resources_connection r = Some (v, rs1)" for r v rs1
    using that by (auto simp: resources_connection_def drop_connection_def reserve_iff release_def)
  have undo2: "drop_outbound (Some v) (drop_connection (Some a) rs2) = drop_connection (Some a) r"
    if "resources_outbound n r = Some (v, rs2)" for n r v rs2 a
    using that by (auto simp: resources_outbound_def drop_outbound_def drop_connection_def reserve_iff release_def)
  from assms show ?thesis
    by (auto simp: connection_begin_shared_def Let_def undo undo2 split: option.splits prod.splits sum.splits)
qed

lemma begin_sound:
  assumes "connection_begin_shared socket fresh options config now idn i cy g rs = (Inr c, g', rs')" "outbound_ok rs"
  shows "sound idn cy [] (connection_set_handle handle c)" "all_events (connection_set_handle handle c) = []"
    "outbound_used rs' = outbound_used rs + share c"
    "ct_used (rs_connections rs') = ct_used (rs_connections rs) + admitted c" "caps rs' = caps rs"
    "outbound_ok rs'" "cn_handle c = connection_handle_new fresh" "cn_resources c = rs'"
proof -
  from assms(1) obtain origin where origin: "og_options origin = options" "begun_as origin c"
    by (rule connection_begin_origin)
  note start = assms(1) [folded origin(1)] origin(2) assms(2)
  note inv = connection_begin_inv(1) [OF start, where handle = handle] connection_begin_inv(2) [OF start]
    connection_begin_inv(3) [OF start, where handle = handle]
  then show "sound idn cy [] (connection_set_handle handle c)" "all_events (connection_set_handle handle c) = []"
    "cn_resources c = rs'" unfolding sound_def by blast+
  note shares = inv_shares [OF inv(1)]
  show "outbound_used rs' = outbound_used rs + share c" "outbound_ok rs'"
    "ct_used (rs_connections rs') = ct_used (rs_connections rs) + admitted c"
    using shares inv(2) by (simp_all add: connection_set_handle_def share_def held_def admitted_def)
  show "cn_handle c = connection_handle_new fresh" "caps rs' = caps rs"
    using assms(1)
    by (auto simp: connection_begin_shared_def Let_def caps_outbound caps_connection
        split: option.splits prod.splits sum.splits)
qed

end
