(* ===== verification/Driver_Invariant.thy ===== *)
theory Driver_Invariant
  imports Driver Connection_Frame
begin

text \<open>
  The invariant of the driver. It is stated over the parts of the driver that matter for it: the
  configuration, the shared budgets, the connections, the attempts, the log of all events handed over
  or queued by the driver, and the next capability. \<open>issued\<close> is the set of connections the consumer
  has been given. \<open>ledger\<close> says that the budgets are exactly the sum of what the parts hold, \<open>stories\<close>
  that the consumer's view of every connection, past, queued and still inside the connection, is a
  well-formed tale.
\<close>

section \<open>The invariant\<close>

definition about :: "ConnectionId \<Rightarrow> Event list \<Rightarrow> Event list" where
  "about n events = filter (\<lambda>e. event_connection e = Some n) events"

text \<open>What may be seen of one connection: at most one end, and last; every stream well formed and closed by then.\<close>

definition tale :: "Event list \<Rightarrow> bool" where
  "tale events \<longleftrightarrow>
     closings events \<le> 1 \<and> closes_last events \<and>
     (\<forall>i. stream_phase i events \<noteq> Ph_Bad \<and>
        (closings events = 1 \<longrightarrow> stream_phase i events \<in> {Ph_Idle, Ph_Done}))"

fun id_number :: "ConnectionId \<Rightarrow> nat" where
  "id_number (ConnectionId n) = n"

definition names :: "('s, 'e, 'k) Connection list \<Rightarrow> 'a PendingConnect list \<Rightarrow> ConnectionId list" where
  "names cs ps = map (\<lambda>p. ch_id (pn_handle p)) ps @ map (\<lambda>c. ch_id (cn_handle c)) cs"

definition ledger ::
    "TransportConfig \<Rightarrow> Resources \<Rightarrow> ('s, 'e, 'k) Connection list \<Rightarrow> 'a PendingConnect list \<Rightarrow> bool" where
  "ledger config rs cs ps \<longleftrightarrow>
     caps rs = caps (resources_new (tc_limits config)) \<and> outbound_ok rs \<and>
     outbound_used rs = sum_list (map share cs) \<and>
     ct_used (rs_connections rs) = length ps + sum_list (map admitted cs) \<and>
     (\<forall>p \<in> set ps. pn_reservation p = 1) \<and>
     length cs + length ps \<le> rl_connections (tc_limits config)"

text \<open>
  The events of one connection: those already in the log, then those still queued inside it; the
  announcement of an accepted socket precedes what the connection itself reports.
\<close>

definition story ::
    "'i Identity \<Rightarrow> ('g, 'e, 'h, 'p, 'k) Cryptography \<Rightarrow> Resources \<Rightarrow> Event list
      \<Rightarrow> ('s, 'e, 'k) Connection \<Rightarrow> bool" where
  "story idn cy rs seen c \<longleftrightarrow>
     (\<exists>h. sound idn cy h (c\<lparr>cn_resources := rs\<rparr>) \<and>
        (seen @ all_events c = h \<or> seen @ all_events c = Ev_IncomingConnection (cn_handle c) # h))"

definition settled :: "Event list \<Rightarrow> bool" where
  "settled events \<longleftrightarrow> closings events = 1 \<and> tale events"

definition stories ::
    "'i Identity \<Rightarrow> ('g, 'e, 'h, 'p, 'k) Cryptography \<Rightarrow> ConnectionId set \<Rightarrow> Resources
      \<Rightarrow> ('s, 'e, 'k) Connection list \<Rightarrow> 'a PendingConnect list \<Rightarrow> Event list \<Rightarrow> nat \<Rightarrow> bool" where
  "stories idn cy issued rs cs ps log next_id \<longleftrightarrow>
     distinct (names cs ps) \<and>
     (\<forall>n \<in> set (names cs ps) \<union> issued. id_number n < next_id) \<and>
     (\<forall>n. about n log \<noteq> [] \<longrightarrow> id_number n < next_id) \<and>
     (\<forall>c \<in> set cs. story idn cy rs (about (ch_id (cn_handle c)) log) c) \<and>
     (\<forall>p \<in> set ps. about (ch_id (pn_handle p)) log = []) \<and>
     (\<forall>n. n \<notin> set (names cs ps) \<longrightarrow> about n log \<noteq> [] \<longrightarrow> settled (about n log)) \<and>
     (\<forall>n \<in> issued. n \<notin> set (names cs ps) \<longrightarrow> about n log \<noteq> [])"

definition fleet ::
    "'i Identity \<Rightarrow> ('g, 'e, 'h, 'p, 'k) Cryptography \<Rightarrow> ConnectionId set \<Rightarrow> TransportConfig \<Rightarrow> Resources
      \<Rightarrow> ('s, 'e, 'k) Connection list \<Rightarrow> 'a PendingConnect list \<Rightarrow> Event list \<Rightarrow> nat \<Rightarrow> bool" where
  "fleet idn cy issued config rs cs ps log next_id \<longleftrightarrow>
     ledger config rs cs ps \<and> stories idn cy issued rs cs ps log next_id"

definition driver_inv ::
    "'i Identity \<Rightarrow> ('g, 'e, 'h, 'p, 'k) Cryptography \<Rightarrow> ConnectionId set \<Rightarrow> Event list
      \<Rightarrow> ('s, 'a, 'l, 'n, 't, 'i, 'g, 'e, 'k) Driver \<Rightarrow> bool" where
  "driver_inv idn cy issued out d \<longleftrightarrow>
     fleet idn cy issued (dv_config d) (dv_resources d) (dv_connections d) (dv_pending d)
       (out @ dv_events d) (dv_next d)"

section \<open>Events\<close>

lemma about_simps [simp]:
  "about n [] = []" "about n (es @ fs) = about n es @ about n fs"
  "about n (e # es) = (if event_connection e = Some n then e # about n es else about n es)"
  by (simp_all add: about_def)

lemma sound_tale:
  assumes "sound idn cy h c"
  shows "tale h" "own_events (cn_handle c) h"
proof -
  from assms obtain origin others conns where "connection_inv idn cy origin others conns h c"
    unfolding sound_def by blast
  note h = connection_inv_history [OF this]
  show "tale h" unfolding tale_def using h(2,3,4,5) by blast
  show "own_events (cn_handle c) h" by (rule h(1))
qed

lemma concerns_incoming [simp]: "\<not> concerns i (Ev_IncomingConnection handle)"
  by (simp add: concerns_def)

lemma tale_incoming [simp]: "tale (Ev_IncomingConnection handle # h) \<longleftrightarrow> tale h"
proof -
  have "stream_phase i (Ev_IncomingConnection handle # h) = stream_phase i h" for i
    by (simp add: stream_phase_def)
  then show ?thesis by (auto simp: tale_def closes_last_def)
qed

lemma tale_closed [simp]: "tale [Ev_ConnectionClosed n f]"
  by (simp add: tale_def closes_last_def stream_phase_def)

lemma story_tale:
  assumes "story idn cy rs seen c"
  shows "tale (seen @ all_events c)"
    "e \<in> set (all_events c) \<Longrightarrow> event_connection e = Some (ch_id (cn_handle c))"
proof -
  from assms obtain h where h: "sound idn cy h (c\<lparr>cn_resources := rs\<rparr>)"
      "seen @ all_events c = h \<or> seen @ all_events c = Ev_IncomingConnection (cn_handle c) # h"
    by (auto simp: story_def)
  have t: "tale h" "own_events (cn_handle c) h" using sound_tale [OF h(1)] by simp_all
  then show "tale (seen @ all_events c)" using h(2) by auto
  have "own_events (cn_handle c) (Ev_IncomingConnection (cn_handle c) # h)" using t(2) by simp
  with h(2) t(2) have "own_events (cn_handle c) (seen @ all_events c)" by metis
  then show "e \<in> set (all_events c) \<Longrightarrow> event_connection e = Some (ch_id (cn_handle c))"
    by (auto simp: own_events_def)
qed

lemma story_lent:
  assumes "story idn cy rs seen c" "caps rs' = caps rs" "outbound_ok rs'"
    "share c \<le> outbound_used rs'" "admitted c \<le> ct_used (rs_connections rs')"
  shows "story idn cy rs' seen c"
proof -
  from assms(1) obtain h where h: "sound idn cy h (c\<lparr>cn_resources := rs\<rparr>)"
      "seen @ all_events c = h \<or> seen @ all_events c = Ev_IncomingConnection (cn_handle c) # h"
    by (auto simp: story_def)
  from sound_lent [OF h(1), of rs'] assms(2-5) have "sound idn cy h (c\<lparr>cn_resources := rs'\<rparr>)" by simp
  with h(2) show ?thesis by (auto simp: story_def)
qed

lemma ledger_bounds:
  assumes "ledger config rs cs ps" "c \<in> set cs"
  shows "share c \<le> outbound_used rs" "admitted c \<le> ct_used (rs_connections rs)"
  using assms member_le_sum_list [of "share c" "map share cs"] member_le_sum_list [of "admitted c" "map admitted cs"]
  by (auto simp: ledger_def)

lemma fleet_stories_lent:
  assumes "ledger config rs' cs ps" "c \<in> set cs" "story idn cy rs seen c" "caps rs = caps rs'"
  shows "story idn cy rs' seen c"
  using assms(3) _ _ ledger_bounds [OF assms(1,2)]
  by (rule story_lent) (use assms(1,4) in \<open>simp_all add: ledger_def\<close>)

lemma fleetD:
  assumes "fleet idn cy issued config rs cs ps log next_id"
  shows "ledger config rs cs ps" "stories idn cy issued rs cs ps log next_id"
  using assms by (simp_all add: fleet_def)

lemma fleet_issued:
  "fleet idn cy issued config rs cs ps log next_id \<Longrightarrow> issued' \<subseteq> issued \<Longrightarrow>
     fleet idn cy issued' config rs cs ps log next_id"
  by (auto simp: fleet_def stories_def)

lemma fleet_next:
  assumes "fleet idn cy issued config rs cs ps log n" "n \<le> n'"
  shows "fleet idn cy issued config rs cs ps log n'"
proof -
  have "id_number m < n \<Longrightarrow> id_number m < n'" for m using assms(2) by simp
  with assms(1) show ?thesis unfolding fleet_def stories_def by blast
qed

lemma storiesI:
  assumes "distinct (names cs ps)"
    "\<And>n. n \<in> set (names cs ps) \<Longrightarrow> id_number n < next_id" "\<And>n. n \<in> issued \<Longrightarrow> id_number n < next_id"
    "\<And>n. about n log \<noteq> [] \<Longrightarrow> id_number n < next_id"
    "\<And>c. c \<in> set cs \<Longrightarrow> story idn cy rs (about (ch_id (cn_handle c)) log) c"
    "\<And>p. p \<in> set ps \<Longrightarrow> about (ch_id (pn_handle p)) log = []"
    "\<And>n. n \<notin> set (names cs ps) \<Longrightarrow> about n log \<noteq> [] \<Longrightarrow> settled (about n log)"
    "\<And>n. n \<in> issued \<Longrightarrow> n \<notin> set (names cs ps) \<Longrightarrow> about n log \<noteq> []"
  shows "stories idn cy issued rs cs ps log next_id"
  unfolding stories_def
proof (intro conjI ballI allI impI)
  show "id_number n < next_id" if "n \<in> set (names cs ps) \<union> issued" for n
    using that assms(2,3) [of n] by auto
qed (fact assms)+

lemma storiesD:
  assumes "stories idn cy issued rs cs ps log next_id"
  shows "distinct (names cs ps)"
    "\<And>n. n \<in> set (names cs ps) \<Longrightarrow> id_number n < next_id" "\<And>n. n \<in> issued \<Longrightarrow> id_number n < next_id"
    "\<And>n. about n log \<noteq> [] \<Longrightarrow> id_number n < next_id"
    "\<And>c. c \<in> set cs \<Longrightarrow> story idn cy rs (about (ch_id (cn_handle c)) log) c"
    "\<And>p. p \<in> set ps \<Longrightarrow> about (ch_id (pn_handle p)) log = []"
    "\<And>n. n \<notin> set (names cs ps) \<Longrightarrow> about n log \<noteq> [] \<Longrightarrow> settled (about n log)"
    "\<And>n. n \<in> issued \<Longrightarrow> n \<notin> set (names cs ps) \<Longrightarrow> about n log \<noteq> []"
  using assms by (simp_all add: stories_def)

text \<open>The connections change under the same names.\<close>

lemma stories_renew:
  assumes "stories idn cy issued rs cs ps log next_id" "names cs' ps = names cs ps"
    "\<And>c. c \<in> set cs' \<Longrightarrow> story idn cy rs' (about (ch_id (cn_handle c)) log) c"
  shows "stories idn cy issued rs' cs' ps log next_id"
  using assms unfolding stories_def by simp

section \<open>Changes of the fleet\<close>

lemma set_names:
  "set (names cs ps) = (\<lambda>p. ch_id (pn_handle p)) ` set ps \<union> (\<lambda>c. ch_id (cn_handle c)) ` set cs"
  by (simp add: names_def)

lemma names_Cons: "distinct (names (c # cs) ps) \<longleftrightarrow> ch_id (cn_handle c) \<notin> set (names cs ps) \<and> distinct (names cs ps)"
  by (auto simp: names_def)

lemma names_pending:
  "distinct (names cs (ps @ p # qs)) \<longleftrightarrow>
     ch_id (pn_handle p) \<notin> set (names cs (ps @ qs)) \<and> distinct (names cs (ps @ qs))"
  by (auto simp: names_def)

lemma names_apart:
  assumes "n \<notin> set (names cs ps)"
  shows "c \<in> set cs \<Longrightarrow> ch_id (cn_handle c) \<noteq> n" "p \<in> set ps \<Longrightarrow> ch_id (pn_handle p) \<noteq> n"
  using assms by (auto simp: set_names)

lemma sum_list_mset: "mset xs = mset ys \<Longrightarrow> sum_list (map f xs) = sum_list (map f ys)"
  for f :: "'x \<Rightarrow> nat"
  by (metis mset_map sum_mset_sum_list)

text \<open>The order of connections does not matter.\<close>

lemma fleet_perm:
  assumes "fleet idn cy issued config rs cs ps log next_id" "mset cs' = mset cs"
  shows "fleet idn cy issued config rs cs' ps log next_id"
proof -
  have same: "set cs' = set cs" "length cs' = length cs" "sum_list (map share cs') = sum_list (map share cs)"
      "sum_list (map admitted cs') = sum_list (map admitted cs)"
    using mset_eq_setD [OF assms(2)] mset_eq_length [OF assms(2)] sum_list_mset [OF assms(2)] by simp_all
  have "mset (names cs' ps) = mset (names cs ps)" by (simp add: names_def assms(2))
  from mset_eq_imp_distinct_iff [OF this] mset_eq_setD [OF this]
  have "distinct (names cs' ps) = distinct (names cs ps)" "set (names cs' ps) = set (names cs ps)" by simp_all
  with assms(1) same show ?thesis by (simp add: fleet_def ledger_def stories_def)
qed

text \<open>One connection evolves.\<close>

lemma fleet_step:
  assumes "fleet idn cy issued config rs (c # cs) ps log next_id"
    "\<And>origin. cn_evolves idn cy origin (c\<lparr>cn_resources := rs\<rparr>) c'"
    "cn_handle c' = cn_handle c" "caps (cn_resources c') = caps rs"
  shows "fleet idn cy issued config (cn_resources c') (c' # cs) ps log next_id"
proof -
  note parts = fleetD [OF assms(1)]
  note told = storiesD [OF parts(2)]
  let ?seen = "about (ch_id (cn_handle c)) log"
  obtain h where h: "sound idn cy h (c\<lparr>cn_resources := rs\<rparr>)"
      "?seen @ all_events c = h \<or> ?seen @ all_events c = Ev_IncomingConnection (cn_handle c) # h"
    using told(5) [of c] by (auto simp: story_def)
  obtain new where new: "all_events c' = all_events c @ new" "sound idn cy (h @ new) c'"
      "outbound_used (cn_resources c') + share c = outbound_used rs + share c'"
      "ct_used (rs_connections (cn_resources c')) + admitted c = ct_used (rs_connections rs) + admitted c'"
      "outbound_ok (cn_resources c')"
    using sound_step [OF h(1) assms(2)] by auto
  have ledger: "ledger config (cn_resources c') (c' # cs) ps"
    using parts(1) new(3-5) assms(4) by (auto simp: ledger_def)
  have first: "story idn cy (cn_resources c') ?seen c'"
    unfolding story_def using new(1,2) h(2) assms(3) by (intro exI [of _ "h @ new"]) auto
  have rest: "story idn cy (cn_resources c') (about (ch_id (cn_handle x)) log) x" if "x \<in> set cs" for x
    using ledger _ told(5)
    by (rule fleet_stories_lent) (use that assms(4) in auto)
  have names: "names (c' # cs) ps = names (c # cs) ps" by (simp add: names_def assms(3))
  have "stories idn cy issued (cn_resources c') (c' # cs) ps log next_id"
    using parts(2) names
  proof (rule stories_renew)
    show "story idn cy (cn_resources c') (about (ch_id (cn_handle x)) log) x" if "x \<in> set (c' # cs)" for x
      using that first rest [of x] assms(3) by auto
  qed
  with ledger show ?thesis by (simp add: fleet_def)
qed

text \<open>An event of a connection is handed over.\<close>

lemma fleet_deliver:
  assumes "fleet idn cy issued config (cn_resources c) (c # cs) ps log next_id"
    "connection_pop_event c = (Some e, c')"
  shows "fleet idn cy issued config (cn_resources c') (c' # cs) ps (log @ [e]) next_id"
proof -
  note parts = fleetD [OF assms(1)]
  note told = storiesD [OF parts(2)]
  let ?n = "ch_id (cn_handle c)"
  have this_one: "story idn cy (cn_resources c) (about ?n log) c" by (rule told(5)) simp
  then obtain h where h: "sound idn cy h c"
      "about ?n log @ all_events c = h \<or> about ?n log @ all_events c = Ev_IncomingConnection (cn_handle c) # h"
    by (auto simp: story_def)
  note pop = sound_pop [OF h(1) assms(2)] pop_event_steady [OF assms(2)]
  have e: "event_connection e = Some ?n" using story_tale(2) [OF this_one, of e] pop(2) by simp
  have self: "c'\<lparr>cn_resources := cn_resources c'\<rparr> = c'" by simp
  have first: "story idn cy (cn_resources c') (about ?n (log @ [e])) c'"
    unfolding story_def self using pop h(2) e by (intro exI [of _ h]) simp
  have fresh: "?n \<notin> set (names cs ps)" using told(1) by (simp add: names_Cons)
  note apart = names_apart [OF fresh]
  have rest: "story idn cy (cn_resources c') (about (ch_id (cn_handle x)) (log @ [e])) x" if "x \<in> set cs" for x
    using told(5) [of x] that apart(1) [OF that] e by (auto simp: pop(6))
  have names: "names (c' # cs) ps = names (c # cs) ps" by (simp add: names_def pop(5))
  have used: "?n \<in> set (names (c # cs) ps)" by (simp add: set_names)
  have "stories idn cy issued (cn_resources c') (c' # cs) ps (log @ [e]) next_id"
    using told(1)
  proof (intro storiesI)
    show "story idn cy (cn_resources c') (about (ch_id (cn_handle x)) (log @ [e])) x" if x: "x \<in> set (c' # cs)" for x
    proof (cases "x = c'")
      case True
      then show ?thesis using first by (simp only: pop(5))
    next
      case False
      with x have "x \<in> set cs" by simp
      then show ?thesis by (rule rest)
    qed
    show "about (ch_id (pn_handle p)) (log @ [e]) = []" if "p \<in> set ps" for p
      using told(6) [OF that] apart(2) [OF that] e by auto
    show "id_number n < next_id" if "about n (log @ [e]) \<noteq> []" for n
      using that told(4) [of n] told(2) [OF used] e by (auto split: if_splits)
    show "settled (about n (log @ [e]))" if "n \<notin> set (names (c' # cs) ps)" "about n (log @ [e]) \<noteq> []" for n
      using that told(7) [of n] used e by (auto simp: names split: if_splits)
    show "about n (log @ [e]) \<noteq> []" if "n \<in> issued" "n \<notin> set (names (c' # cs) ps)" for n
      using that told(8) [of n] by (simp add: names)
  qed (use told(2,3) in \<open>simp_all add: names\<close>)
  moreover have "ledger config (cn_resources c') (c' # cs) ps" using parts(1) pop by (simp add: ledger_def)
  ultimately show ?thesis by (simp add: fleet_def)
qed

lemma fleet_idle:
  assumes "fleet idn cy issued config (cn_resources c) (c # cs) ps log next_id"
    "connection_pop_event c = (None, c')"
  shows "fleet idn cy issued config (cn_resources c') (c' # cs) ps log next_id" "all_events c' = []"
    "\<exists>h. sound idn cy h c \<and> sound idn cy h c'"
proof -
  note parts = fleetD [OF assms(1)]
  note told = storiesD [OF parts(2)]
  let ?n = "ch_id (cn_handle c)"
  obtain h where h: "sound idn cy h c"
      "about ?n log @ all_events c = h \<or> about ?n log @ all_events c = Ev_IncomingConnection (cn_handle c) # h"
    using told(5) [of c] by (auto simp: story_def)
  note pop = sound_pop [OF h(1) assms(2)] pop_event_steady [OF assms(2)]
  show "\<exists>h. sound idn cy h c \<and> sound idn cy h c'" using h(1) pop(1) by blast
  show "all_events c' = []"
    using assms(2)
    by (auto simp: connection_pop_event_def with_session_def session_set_resources_def session_pop_event_def
        all_events_def split: list.splits option.splits)
  have self: "c'\<lparr>cn_resources := cn_resources c'\<rparr> = c'" by simp
  have first: "story idn cy (cn_resources c') (about ?n log) c'"
    unfolding story_def self using pop h(2) by (intro exI [of _ h]) simp
  have "stories idn cy issued (cn_resources c') (c' # cs) ps log next_id"
    using parts(2)
  proof (rule stories_renew)
    show "names (c' # cs) ps = names (c # cs) ps" by (simp add: names_def pop(5))
    show "story idn cy (cn_resources c') (about (ch_id (cn_handle x)) log) x" if "x \<in> set (c' # cs)" for x
      using that first told(5) [of x] by (auto simp: pop(5,6))
  qed
  moreover have "ledger config (cn_resources c') (c' # cs) ps" using parts(1) pop by (simp add: ledger_def)
  ultimately show "fleet idn cy issued config (cn_resources c') (c' # cs) ps log next_id" by (simp add: fleet_def)
qed

text \<open>A closed connection without events is forgotten.\<close>

lemma fleet_drop:
  assumes "fleet idn cy issued config (cn_resources c) (c # cs) ps log next_id"
    "cn_socket c = None" "all_events c = []"
  shows "fleet idn cy issued config (connection_drop c) cs ps log next_id"
proof -
  note parts = fleetD [OF assms(1)]
  note told = storiesD [OF parts(2)]
  let ?n = "ch_id (cn_handle c)" and ?r = "connection_release c"
  have this_one: "story idn cy (cn_resources c) (about ?n log) c" by (rule told(5)) simp
  then obtain h where h: "sound idn cy h c"
      "about ?n log = h \<or> about ?n log = Ev_IncomingConnection (cn_handle c) # h"
    using assms(3) by (auto simp: story_def)
  have closed: "closings h = 1" "told c" using sound_closed [OF h(1) assms(2)] by simp_all
  then have "closings (about ?n log) = 1" using h(2) by auto
  moreover have "tale (about ?n log)" using story_tale(1) [OF this_one] assms(3) by simp
  ultimately have settled: "settled (about ?n log)" "about ?n log \<noteq> []" by (auto simp: settled_def)
  obtain new where new: "sound idn cy (h @ new) ?r"
      "outbound_used (cn_resources ?r) + share c = outbound_used (cn_resources c) + share ?r"
      "ct_used (rs_connections (cn_resources ?r)) + admitted c = ct_used (rs_connections (cn_resources c)) + admitted ?r"
      "outbound_ok (cn_resources ?r)"
    using sound_step [OF h(1) cn_evolves_release [OF closed(2)]] by blast
  have ledger: "ledger config (cn_resources ?r) cs ps"
    using parts(1) new sound_admitted [OF h(1)] sound_admitted [OF new(1)] assms(2)
    by (auto simp: ledger_def release_steady)
  have rest: "story idn cy (cn_resources ?r) (about (ch_id (cn_handle x)) log) x" if "x \<in> set cs" for x
    using ledger that told(5) by (rule fleet_stories_lent) (use that in \<open>auto simp: release_steady\<close>)
  have "stories idn cy issued (cn_resources ?r) cs ps log next_id"
  proof (rule storiesI)
    show "settled (about n log)" if "n \<notin> set (names cs ps)" "about n log \<noteq> []" for n
      using that told(7) [of n] settled(1) by (cases "n = ?n") (auto simp: set_names)
    show "about n log \<noteq> []" if "n \<in> issued" "n \<notin> set (names cs ps)" for n
      using that told(8) [of n] settled(2) by (cases "n = ?n") (auto simp: set_names)
    show "distinct (names cs ps)" using told(1) by (simp add: names_Cons)
    show "id_number n < next_id" if "n \<in> set (names cs ps)" for n
      using told(2) [of n] that by (simp add: set_names)
  qed (fact told(3,4,6) rest)+
  with ledger show ?thesis by (simp add: connection_drop_def fleet_def)
qed

text \<open>A new connection under an unused name, announced or not.\<close>

lemma fleet_add:
  assumes "fleet idn cy issued config rs cs ps log next_id"
    "connection_begin_shared socket fresh options config' now idn i cy g rs = (Inr c, g', rs')"
    "ch_id handle \<notin> set (names cs ps)" "about (ch_id handle) log = []" "id_number (ch_id handle) < next_id"
    "length cs + length ps < rl_connections (tc_limits config)"
    "announced = [] \<or> announced = [Ev_IncomingConnection handle]"
  shows "fleet idn cy (insert (ch_id handle) issued) config rs' (connection_set_handle handle c # cs) ps
    (log @ announced) next_id"
proof -
  note parts = fleetD [OF assms(1)]
  note told = storiesD [OF parts(2)]
  have "outbound_ok rs" using parts(1) by (simp add: ledger_def)
  note begun = begin_sound(1,2) [OF assms(2) this, of handle] begin_sound(3-8) [OF assms(2) this]
  let ?c = "connection_set_handle handle c" and ?n = "ch_id handle"
  have c: "cn_handle ?c = handle" "share ?c = share c" "admitted ?c = admitted c" "cn_resources ?c = rs'"
    using begun(8) by (simp_all add: connection_set_handle_def share_def held_def admitted_def)
  have ledger: "ledger config rs' (?c # cs) ps"
    using parts(1) assms(6) begun(3-6) c by (auto simp: ledger_def)
  have self: "?c\<lparr>cn_resources := rs'\<rparr> = ?c" unfolding c(4) [symmetric] by simp
  have first: "story idn cy rs' (about ?n (log @ announced)) ?c"
    unfolding story_def self using begun(1,2) assms(4,7) c(1) by (intro exI [of _ "[]"]) auto
  note apart = names_apart [OF assms(3)]
  have quiet: "m \<noteq> ?n \<Longrightarrow> about m (log @ announced) = about m log" for m using assms(7) by auto
  have rest: "story idn cy rs' (about (ch_id (cn_handle x)) (log @ announced)) x" if "x \<in> set cs" for x
    unfolding quiet [OF apart(1) [OF that]]
    using ledger _ told(5) [OF that] by (rule fleet_stories_lent) (use that begun(5) in simp_all)
  have names: "set (names (?c # cs) ps) = insert ?n (set (names cs ps))" using c(1) by (auto simp: set_names)
  have "stories idn cy (insert ?n issued) rs' (?c # cs) ps (log @ announced) next_id"
  proof (rule storiesI)
    show "distinct (names (?c # cs) ps)" using told(1) assms(3) c(1) by (simp add: names_Cons)
    show "story idn cy rs' (about (ch_id (cn_handle x)) (log @ announced)) x" if "x \<in> set (?c # cs)" for x
      using that first rest by (cases "x = ?c") (auto simp: c(1) simp del: about_simps)
    show "about (ch_id (pn_handle p)) (log @ announced) = []" if "p \<in> set ps" for p
      using told(6) [OF that] quiet [OF apart(2) [OF that]] by simp
    show "id_number m < next_id" if "about m (log @ announced) \<noteq> []" for m
      using that quiet [of m] told(4) [of m] assms(5) by (cases "m = ?n") simp_all
    show "settled (about m (log @ announced))"
      if "m \<notin> set (names (?c # cs) ps)" "about m (log @ announced) \<noteq> []" for m
      using that quiet [of m] told(7) [of m] by (simp add: names del: about_simps)
    show "about m (log @ announced) \<noteq> []" if "m \<in> insert ?n issued" "m \<notin> set (names (?c # cs) ps)" for m
      using that quiet [of m] told(8) [of m] by (auto simp: names)
  qed (use told(2,3) assms(5) names in auto)
  with ledger show ?thesis by (simp add: fleet_def)
qed

text \<open>An attempt leaves the list; its name is free until it is settled or becomes a connection.\<close>

lemma fleet_unpend:
  assumes "fleet idn cy issued config rs cs (ps @ p # qs) log next_id"
  shows "fleet idn cy (issued - {ch_id (pn_handle p)}) config (drop_connection (Some (pn_reservation p)) rs) cs
      (ps @ qs) log next_id"
    "ch_id (pn_handle p) \<notin> set (names cs (ps @ qs))" "about (ch_id (pn_handle p)) log = []"
    "id_number (ch_id (pn_handle p)) < next_id" "length cs + length (ps @ qs) < rl_connections (tc_limits config)"
proof -
  note parts = fleetD [OF assms]
  note told = storiesD [OF parts(2)]
  let ?rs = "drop_connection (Some (pn_reservation p)) rs" and ?n = "ch_id (pn_handle p)"
  have ledger: "ledger config ?rs cs (ps @ qs)"
    using parts(1) by (auto simp: ledger_def caps_drop)
  have rest: "story idn cy ?rs (about (ch_id (cn_handle x)) log) x" if "x \<in> set cs" for x
    using ledger that told(5) [OF that] by (rule fleet_stories_lent) (simp add: caps_drop)
  have names: "set (names cs (ps @ p # qs)) = insert ?n (set (names cs (ps @ qs)))" by (auto simp: set_names)
  have "stories idn cy (issued - {?n}) ?rs cs (ps @ qs) log next_id"
  proof (rule storiesI)
    show "distinct (names cs (ps @ qs))" using told(1) by (simp add: names_pending)
    show "settled (about m log)" if "m \<notin> set (names cs (ps @ qs))" "about m log \<noteq> []" for m
      using that told(6) [of p] told(7) [of m] by (cases "m = ?n") (auto simp: names)
    show "about m log \<noteq> []" if "m \<in> issued - {?n}" "m \<notin> set (names cs (ps @ qs))" for m
      using that told(8) [of m] by (auto simp: names)
    show "about (ch_id (pn_handle q)) log = []" if "q \<in> set (ps @ qs)" for q
      using that told(6) [of q] by auto
    show "id_number m < next_id" if "m \<in> set (names cs (ps @ qs))" for m using that told(2) [of m] by (simp add: names)
    show "id_number m < next_id" if "m \<in> issued - {?n}" for m using that told(3) [of m] by simp
  qed (fact told(4) rest)+
  with ledger show "fleet idn cy (issued - {?n}) config ?rs cs (ps @ qs) log next_id" by (simp add: fleet_def)
  show "?n \<notin> set (names cs (ps @ qs))" using told(1) by (simp add: names_pending)
  show "about ?n log = []" using told(6) [of p] by simp
  show "id_number ?n < next_id" using told(2) [of ?n] by (simp add: names)
  show "length cs + length (ps @ qs) < rl_connections (tc_limits config)" using parts(1) by (auto simp: ledger_def)
qed

lemma fleet_settle:
  assumes "fleet idn cy issued config rs cs ps log next_id"
    "n \<notin> set (names cs ps)" "about n log = []" "id_number n < next_id"
  shows "fleet idn cy (insert n issued) config rs cs ps (log @ [Ev_ConnectionClosed n f]) next_id"
proof -
  note parts = fleetD [OF assms(1)]
  note told = storiesD [OF parts(2)]
  let ?log = "log @ [Ev_ConnectionClosed n f]"
  note apart = names_apart [OF assms(2)]
  have quiet: "m \<noteq> n \<Longrightarrow> about m ?log = about m log" for m by simp
  have "stories idn cy (insert n issued) rs cs ps ?log next_id"
  proof (rule storiesI)
    show "story idn cy rs (about (ch_id (cn_handle x)) ?log) x" if "x \<in> set cs" for x
      using told(5) [OF that] quiet [OF apart(1) [OF that]] by simp
    show "about (ch_id (pn_handle p)) ?log = []" if "p \<in> set ps" for p
      using told(6) [OF that] quiet [OF apart(2) [OF that]] by simp
    show "id_number m < next_id" if "about m ?log \<noteq> []" for m
      using that quiet [of m] told(4) [of m] assms(4) by (cases "m = n") simp_all
    show "settled (about m ?log)" if "m \<notin> set (names cs ps)" "about m ?log \<noteq> []" for m
      using that quiet [of m] told(7) [of m] assms(3) by (cases "m = n") (simp_all add: settled_def)
    show "about m ?log \<noteq> []" if "m \<in> insert n issued" "m \<notin> set (names cs ps)" for m
      using that quiet [of m] told(8) [of m] by (cases "m = n") simp_all
    show "id_number m < next_id" if "m \<in> insert n issued" for m using that told(3) [of m] assms(4) by auto
  qed (fact told(1,2))+
  with parts(1) show ?thesis by (simp add: fleet_def)
qed

lemma fleet_other_event:
  "fleet idn cy issued config rs cs ps log next_id \<Longrightarrow> event_connection e = None \<Longrightarrow>
     fleet idn cy issued config rs cs ps (log @ [e]) next_id"
  by (simp add: fleet_def stories_def)

lemma fleet_fresh:
  assumes "fleet idn cy issued config rs cs ps log next_id"
  shows "ConnectionId next_id \<notin> set (names cs ps)" "about (ConnectionId next_id) log = []"
    "ConnectionId next_id \<notin> issued"
  using storiesD(2,3,4) [OF fleetD(2) [OF assms], of "ConnectionId next_id"] by auto

lemma fleet_pend:
  assumes "fleet idn cy issued config rs cs ps log next_id" "resources_connection rs = Some (v, rs')"
    "length cs + length ps < rl_connections (tc_limits config)" "ch_id (pn_handle p) = ConnectionId next_id"
    "pn_reservation p = v"
  shows "fleet idn cy (insert (ConnectionId next_id) issued) config rs' cs (ps @ [p]) log (Suc next_id)"
proof -
  note parts = fleetD [OF assms(1)]
  note told = storiesD [OF parts(2)]
  note fresh = fleet_fresh [OF assms(1)]
  let ?n = "ConnectionId next_id"
  have rs': "v = 1" "outbound_used rs' = outbound_used rs" "outbound_ok rs' = outbound_ok rs"
      "ct_used (rs_connections rs') = Suc (ct_used (rs_connections rs))" "caps rs' = caps rs"
    using assms(2) caps_connection [OF assms(2)]
    by (auto simp: resources_connection_def reserve_iff outbound_used_def outbound_ok_def)
  have ledger: "ledger config rs' cs (ps @ [p])" using parts(1) rs' assms(3,5) by (auto simp: ledger_def)
  have rest: "story idn cy rs' (about (ch_id (cn_handle x)) log) x" if "x \<in> set cs" for x
    using ledger that told(5) [OF that] by (rule fleet_stories_lent) (simp add: rs'(5))
  have names: "set (names cs (ps @ [p])) = insert ?n (set (names cs ps))" using assms(4) by (auto simp: set_names)
  have "stories idn cy (insert ?n issued) rs' cs (ps @ [p]) log (Suc next_id)"
  proof (rule storiesI)
    show "distinct (names cs (ps @ [p]))"
      using told(1) fresh(1) assms(4) names_pending [of cs ps p "[]"] by simp
    show "about (ch_id (pn_handle q)) log = []" if "q \<in> set (ps @ [p])" for q
      using that told(6) [of q] fresh(2) assms(4) by auto
    show "settled (about m log)" if "m \<notin> set (names cs (ps @ [p]))" "about m log \<noteq> []" for m
      using that told(7) [of m] by (simp add: names)
    show "about m log \<noteq> []" if "m \<in> insert ?n issued" "m \<notin> set (names cs (ps @ [p]))" for m
      using that told(8) [of m] by (auto simp: names)
    show "id_number m < Suc next_id" if "m \<in> set (names cs (ps @ [p]))" for m
      using that told(2) [of m] by (auto simp: names)
    show "id_number m < Suc next_id" if "m \<in> insert ?n issued" for m using that told(3) [of m] by auto
    show "id_number m < Suc next_id" if "about m log \<noteq> []" for m using told(4) [OF that] by simp
  qed (fact rest)
  with ledger show ?thesis by (simp add: fleet_def)
qed

lemma fleet_attempt:
  "fleet idn cy issued config rs cs (ps @ p # qs) log next_id \<Longrightarrow> pn_handle p' = pn_handle p \<Longrightarrow>
     pn_reservation p' = pn_reservation p \<Longrightarrow> fleet idn cy issued config rs cs (ps @ p' # qs) log next_id"
  by (simp add: fleet_def ledger_def stories_def names_def)

end
