(* ===== verification/Driver_Run.thy ===== *)
theory Driver_Run
  imports Driver_Invariant
begin

text \<open>
  All executions of a driver: requests of the local controller and polls in any order, over any
  sockets, peers, clock and dependencies. Every operation keeps the invariant; the properties follow.
\<close>

section \<open>Polling keeps the invariant\<close>

lemma driver_begin_cases:
  assumes "driver_begin idn cy socket options now d = (r, d')"
  obtains (rejected) disposition g where "r = Inl disposition"
      "d' = d\<lparr>dv_crypto := g, dv_next := Suc (dv_next d)\<rparr>"
  | (begun) c g rs where "r = Inr c"
      "connection_begin_shared socket (dv_next d) options (dv_config d) now idn (dv_identity d) cy (dv_crypto d)
         (dv_resources d) = (Inr c, g, rs)"
      "d' = d\<lparr>dv_crypto := g, dv_resources := rs, dv_next := Suc (dv_next d)\<rparr>"
proof -
  obtain r' g rs where out: "connection_begin_shared socket (dv_next d) options (dv_config d) now idn (dv_identity d) cy
      (dv_crypto d) (dv_resources d) = (r', g, rs)" by (metis prod_cases3)
  show ?thesis
  proof (cases r')
    case (Inl disposition)
    then have "rs = dv_resources d" using out by (intro begin_failed) simp
    with assms out Inl rejected show ?thesis by (auto simp: driver_begin_def)
  next
    case (Inr c)
    with assms out begun show ?thesis by (auto simp: driver_begin_def)
  qed
qed

lemma connected_inv:
  assumes "driver_inv idn cy issued out (d\<lparr>dv_pending := ps @ p # qs\<rparr>)"
  shows "driver_inv idn cy issued out ((driver_connected idn cy now outcome p d)\<lparr>dv_pending := ps @ qs\<rparr>)"
proof -
  let ?n = "ch_id (pn_handle p)" and ?rs = "drop_connection (Some (pn_reservation p)) (dv_resources d)"
  from assms have "fleet idn cy issued (dv_config d) (dv_resources d) (dv_connections d) (ps @ p # qs)
      (out @ dv_events d) (dv_next d)" by (simp add: driver_inv_def)
  note free = fleet_unpend [OF this]
  have closed: "fleet idn cy issued (dv_config d) ?rs (dv_connections d) (ps @ qs)
      (out @ dv_events d @ [Ev_ConnectionClosed ?n f]) next_id" if "dv_next d \<le> next_id" for f next_id
    using fleet_next [OF fleet_issued [OF fleet_settle [OF free(1-4)]] that, of issued f] by auto
  show ?thesis
  proof (cases outcome)
    case (Inl kind)
    with closed [of "dv_next d"] show ?thesis by (simp add: driver_connected_def driver_inv_def)
  next
    case (Inr socket)
    let ?d = "d\<lparr>dv_resources := ?rs\<rparr>" and ?o = "\<lparr>co_role = Initiator, co_expected_peer = pn_expected p\<rparr>"
    obtain r d' where started: "driver_begin idn cy socket ?o now ?d = (r, d')"
      by (cases "driver_begin idn cy socket ?o now ?d")
    then show ?thesis
    proof (cases rule: driver_begin_cases)
      case (rejected disposition g)
      with Inr started closed [of "Suc (dv_next d)"] show ?thesis by (simp add: driver_connected_def driver_inv_def)
    next
      case (begun c g rs)
      have "fleet idn cy (insert ?n (issued - {?n})) (dv_config d) rs
          (connection_set_handle (pn_handle p) c # dv_connections d) (ps @ qs) ((out @ dv_events d) @ []) (dv_next d)"
        using free(1) begun(2) [simplified] free(2-5) disjI1 [OF refl] by (rule fleet_add)
      from fleet_next [OF fleet_issued [OF this, of issued], of "Suc (dv_next d)"]
      have "fleet idn cy issued (dv_config d) rs (connection_set_handle (pn_handle p) c # dv_connections d)
          (ps @ qs) (out @ dv_events d) (Suc (dv_next d))" by auto
      then have "fleet idn cy issued (dv_config d) rs (dv_connections d @ [connection_set_handle (pn_handle p) c])
          (ps @ qs) (out @ dv_events d) (Suc (dv_next d))"
        by (rule fleet_perm) simp
      with Inr started begun show ?thesis by (simp add: driver_connected_def driver_inv_def)
    qed
  qed
qed

lemma connected_pending: "dv_pending (driver_connected idn cy now outcome p d) = dv_pending d"
  by (auto simp: driver_connected_def driver_begin_def Let_def split: sum.split prod.split)

lemma connects_inv:
  "driver_inv idn cy issued out (d\<lparr>dv_pending := dv_pending d @ todo\<rparr>) \<Longrightarrow>
     driver_inv idn cy issued out (driver_connects px idn cy now todo d)"
proof (induction todo arbitrary: d)
  case (Cons p rest)
  obtain polled attempt where poll: "(if now \<ge> pn_deadline p then (Ready (Inl Ek_TimedOut), pn_attempt p)
      else po_connected px (pn_attempt p)) = (polled, attempt)" by (metis surj_pair)
  show ?case
  proof (cases polled)
    case Pending
    let ?d = "d\<lparr>dv_pending := dv_pending d @ [p\<lparr>pn_attempt := attempt\<rparr>]\<rparr>"
    have "driver_inv idn cy issued out (?d\<lparr>dv_pending := dv_pending ?d @ rest\<rparr>)"
      using Cons.prems fleet_attempt [of idn cy issued "dv_config d" "dv_resources d" "dv_connections d"
          "dv_pending d" p rest "out @ dv_events d" "dv_next d" "p\<lparr>pn_attempt := attempt\<rparr>"]
      by (simp add: driver_inv_def)
    from Cons.IH [OF this] poll Pending show ?thesis by simp
  next
    case (Ready outcome)
    have "driver_inv idn cy issued out ((driver_connected idn cy now outcome p d)\<lparr>dv_pending := dv_pending d @ rest\<rparr>)"
      using Cons.prems by (rule connected_inv)
    with Cons.IH [of "driver_connected idn cy now outcome p d"] poll Ready show ?thesis
      by (simp add: connected_pending)
  qed
qed simp

lemma accepted_inv:
  assumes "driver_inv idn cy issued out d" "\<not> driver_full d"
  shows "driver_inv idn cy issued out (driver_accepted idn cy now socket d)"
proof -
  note inv = assms(1) [unfolded driver_inv_def]
  let ?o = "\<lparr>co_role = Acceptor, co_expected_peer = Unpinned\<rparr>"
  obtain r d' where started: "driver_begin idn cy socket ?o now d = (r, d')"
    by (cases "driver_begin idn cy socket ?o now d")
  then show ?thesis
  proof (cases rule: driver_begin_cases)
    case (rejected disposition g)
    have later: "fleet idn cy issued (dv_config d) (dv_resources d) (dv_connections d) (dv_pending d)
        (out @ dv_events d) (Suc (dv_next d))" using inv by (rule fleet_next) simp
    have "fleet idn cy issued (dv_config d) (dv_resources d) (dv_connections d) (dv_pending d)
        (out @ dv_events d) (Suc (Suc (dv_next d)))" using inv by (rule fleet_next) simp
    from fleet_issued [OF fleet_settle [OF this], of "ConnectionId (Suc (dv_next d))" issued] fleet_fresh [OF later]
    show ?thesis using started rejected
      by (auto simp: driver_accepted_def driver_inv_def connection_handle_new_def)
  next
    case (begun c g rs)
    have handle: "cn_handle c = connection_handle_new (dv_next d)" "connection_set_handle (cn_handle c) c = c"
      using begin_sound(7) [OF begun(2)] inv by (auto simp: fleet_def ledger_def connection_set_handle_def)
    have later: "fleet idn cy issued (dv_config d) (dv_resources d) (dv_connections d) (dv_pending d)
        (out @ dv_events d) (Suc (dv_next d))" using inv by (rule fleet_next) simp
    from fleet_add [OF later begun(2), of "cn_handle c" "[Ev_IncomingConnection (cn_handle c)]"] fleet_fresh [OF inv] assms(2)
    have "fleet idn cy (insert (ch_id (cn_handle c)) issued) (dv_config d) rs (c # dv_connections d) (dv_pending d)
        ((out @ dv_events d) @ [Ev_IncomingConnection (cn_handle c)]) (Suc (dv_next d))"
      by (simp add: handle(2)) (simp add: handle(1) connection_handle_new_def driver_full_def)
    from fleet_perm [OF fleet_issued [OF this, of issued], of "dv_connections d @ [c]"]
    show ?thesis using started begun by (auto simp: driver_accepted_def driver_inv_def)
  qed
qed

lemma accepts_inv:
  "driver_inv idn cy issued out d \<Longrightarrow> driver_inv idn cy issued out (driver_accepts px idn cy now todo d)"
proof (induction todo arbitrary: d)
  case (Cons entry rest)
  obtain handle socket where entry: "entry = (handle, socket)" by (cases entry)
  obtain polled socket' where poll: "po_accept px socket = (polled, socket')" by (cases "po_accept px socket")
  let ?d = "d\<lparr>dv_listeners := dv_listeners d @ [(handle, socket')]\<rparr>"
  have kept: "driver_inv idn cy issued out ?d" using Cons.prems by (simp add: driver_inv_def)
  show ?case
  proof (cases "rl_connections (tc_limits (dv_config d)) \<le> ct_used (rs_connections (dv_resources d)) \<or> driver_full d")
    case True
    with Cons.prems show ?thesis by (simp add: entry driver_inv_def)
  next
    case False
    then have free: "\<not> driver_full ?d" by (simp add: driver_full_def)
    show ?thesis
    proof (cases polled)
      case Pending
      with False poll Cons.IH [OF kept] show ?thesis by (simp add: entry)
    next
      case (Ready outcome)
      show ?thesis
      proof (cases outcome)
        case (Inl kind)
        let ?e = "Ev_ListenerClosed handle (Some \<lparr>fl_origin = Fo_Local, fl_code = Fc_ConnectionLost\<rparr>)"
        have "driver_inv idn cy issued out (d\<lparr>dv_events := dv_events d @ [?e]\<rparr>)"
          using fleet_other_event [OF Cons.prems [unfolded driver_inv_def], of ?e] by (simp add: driver_inv_def)
        from Cons.IH [OF this] False poll Ready Inl show ?thesis by (simp add: entry)
      next
        case (Inr accepted)
        with Cons.IH [OF accepted_inv [OF kept free]] False poll Ready show ?thesis by (simp add: entry)
      qed
    qed
  qed
qed simp

lemma arm_timer_inv [simp]:
  "driver_inv idn cy issued out (driver_arm_timer px d) = driver_inv idn cy issued out d"
  "dv_events (driver_arm_timer px d) = dv_events d"
  by (simp_all add: driver_arm_timer_def driver_inv_def split: list.split)

lemma turn_inv:
  assumes "driver_inv idn cy issued out (d\<lparr>dv_connections := c # dv_connections d\<rparr>)" "dv_events d = []"
    "driver_turn px idn cy now c d = (event, d')"
  shows "driver_inv idn cy issued (out @ (case event of None \<Rightarrow> [] | Some e \<Rightarrow> [e])) d'" "dv_events d' = []"
proof -
  let ?c = "c\<lparr>cn_resources := dv_resources d\<rparr>"
  obtain polled c1 i g where poll: "connection_poll (po_read px) (po_write px) now (dv_registry d) idn cy
      (?c, dv_identity d, dv_crypto d) = (polled, c1, i, g)" by (metis prod_cases4)
  obtain e c2 where pop: "connection_pop_event c1 = (e, c2)" by (cases "connection_pop_event c1")
  have event: "event = e" using assms(3) poll pop by (simp add: driver_turn_def Let_def)
  from assms(1,2) have "fleet idn cy issued (dv_config d) (dv_resources d) (c # dv_connections d) (dv_pending d) out (dv_next d)"
    by (simp add: driver_inv_def)
  then have one: "fleet idn cy issued (dv_config d) (cn_resources c1) (c1 # dv_connections d) (dv_pending d) out (dv_next d)"
  proof (rule fleet_step)
    show "cn_evolves idn cy origin ?c c1" for origin
      using cn_evolves_poll [of idn cy origin ?c "po_read px" "po_write px" now "dv_registry d"
          "dv_identity d" "dv_crypto d"] poll by simp
  qed (use poll_steady [OF poll] in simp_all)
  show "driver_inv idn cy issued (out @ (case event of None \<Rightarrow> [] | Some e \<Rightarrow> [e])) d'"
  proof (cases e)
    case (Some ev)
    have "fleet idn cy issued (dv_config d) (cn_resources c2) (c2 # dv_connections d) (dv_pending d) (out @ [ev]) (dv_next d)"
      using one pop [unfolded Some] by (rule fleet_deliver)
    from fleet_perm [OF this, of "dv_connections d @ [c2]"] assms(2,3) poll pop Some event show ?thesis
      by (auto simp: driver_turn_def Let_def driver_inv_def)
  next
    case None
    note idle = fleet_idle [OF one pop [unfolded None]]
    show ?thesis
    proof (cases polled)
      case Pending
      from fleet_perm [OF idle(1), of "dv_connections d @ [c2]"] assms(2,3) poll pop None event Pending show ?thesis
        by (auto simp: driver_turn_def Let_def driver_inv_def)
    next
      case (Ready u)
      then have "cn_socket c1 = None" using poll by (auto intro: poll_closed)
      then have "cn_socket c2 = None" using pop_event_steady(3) [OF pop] by simp
      from fleet_drop [OF idle(1) this idle(2)] assms(2,3) poll pop None event Ready show ?thesis
        by (auto simp: driver_turn_def Let_def driver_inv_def)
    qed
  qed
  show "dv_events d' = []" using assms(2,3) poll pop by (auto simp: driver_turn_def Let_def)
qed

lemma turns_inv:
  "driver_inv idn cy issued out d \<Longrightarrow> dv_events d = [] \<Longrightarrow> driver_turns px idn cy now n d = (event, d') \<Longrightarrow>
     driver_inv idn cy issued (out @ (case event of None \<Rightarrow> [] | Some e \<Rightarrow> [e])) d' \<and> dv_events d' = []"
proof (induction n arbitrary: d)
  case (Suc n)
  show ?case
  proof (cases "dv_connections d")
    case Nil
    with Suc.prems show ?thesis by simp
  next
    case (Cons c rest)
    let ?d = "d\<lparr>dv_connections := rest\<rparr>"
    obtain e d1 where turn: "driver_turn px idn cy now c ?d = (e, d1)" by (cases "driver_turn px idn cy now c ?d")
    have "driver_inv idn cy issued out (?d\<lparr>dv_connections := c # dv_connections ?d\<rparr>)"
      using Suc.prems(1) Cons by (simp add: driver_inv_def)
    from turn_inv [OF this _ turn] Suc.prems(2)
    have step: "driver_inv idn cy issued (out @ (case e of None \<Rightarrow> [] | Some e \<Rightarrow> [e])) d1" "dv_events d1 = []"
      by simp_all
    show ?thesis
    proof (cases e)
      case None
      with Suc.IH [of d1] step Suc.prems(3) Cons turn show ?thesis by simp
    next
      case (Some ev)
      with step Suc.prems(3) Cons turn show ?thesis by auto
    qed
  qed
qed simp

lemma pop_event_inv:
  assumes "driver_pop_event d = (event, d')" "driver_inv idn cy issued out d"
  shows "driver_inv idn cy issued (out @ (case event of None \<Rightarrow> [] | Some e \<Rightarrow> [e])) d'"
    "event = None \<Longrightarrow> dv_events d' = [] \<and> d' = d"
  using assms by (auto simp: driver_pop_event_def driver_inv_def split: list.splits)

fun delivered :: "Event option poll \<Rightarrow> Event list" where
  "delivered (Ready (Some e)) = [e]"
| "delivered _ = []"

lemma poll_event_inv:
  assumes "driver_inv idn cy issued out d" "driver_poll_event px idn cy d = (result, d')"
  shows "driver_inv idn cy issued (out @ delivered result) d'"
proof -
  obtain e1 d1 where pop1: "driver_pop_event d = (e1, d1)" by (cases "driver_pop_event d")
  note one = pop_event_inv [OF pop1 assms(1)]
  show ?thesis
  proof (cases e1)
    case (Some e)
    with assms(2) pop1 one(1) show ?thesis by (auto simp: driver_poll_event_def)
  next
    case None
    let ?now = "po_now px (dv_clock d)"
    let ?d2 = "driver_poll_listeners px idn cy ?now (driver_poll_connects px idn cy ?now d)"
    have d1: "d1 = d" using one(2) None by simp
    have "driver_inv idn cy issued out (driver_poll_connects px idn cy ?now d)"
      unfolding driver_poll_connects_def by (rule connects_inv) (use assms(1) in simp)
    then have "driver_inv idn cy issued out ((driver_poll_connects px idn cy ?now d)\<lparr>dv_listeners := []\<rparr>)"
      by (simp add: driver_inv_def)
    then have d2: "driver_inv idn cy issued out ?d2"
      unfolding driver_poll_listeners_def by (rule accepts_inv)
    obtain e3 d3 where pop3: "driver_pop_event ?d2 = (e3, d3)" by (cases "driver_pop_event ?d2")
    note three = pop_event_inv [OF pop3 d2]
    show ?thesis
    proof (cases e3)
      case (Some e)
      with assms(2) pop1 None d1 pop3 three(1) show ?thesis by (auto simp: driver_poll_event_def Let_def)
    next
      case none3: None
      obtain e4 d4 where turns: "driver_turns px idn cy ?now (length (dv_connections d3)) d3 = (e4, d4)"
        by (cases "driver_turns px idn cy ?now (length (dv_connections d3)) d3")
      have "driver_inv idn cy issued out d3" "dv_events d3 = []" using three [unfolded none3] by auto
      note four = turns_inv [OF this turns]
      obtain e5 d5 where pop5: "driver_pop_event (driver_arm_timer px d4) = (e5, d5)"
        by (cases "driver_pop_event (driver_arm_timer px d4)")
      have "e4 = None \<Longrightarrow> e5 = None \<and> d5 = driver_arm_timer px d4"
        using pop5 four by (auto simp: driver_pop_event_def)
      with assms(2) pop1 None d1 pop3 none3 turns four pop5 show ?thesis
        by (cases e4) (auto simp: driver_poll_event_def Let_def)
    qed
  qed
qed

section \<open>Requests keep the invariant\<close>

fun granted :: "(TransportError, Accepted) result \<Rightarrow> ConnectionId set" where
  "granted (Inr (Ac_Connection handle)) = {ch_id handle}"
| "granted _ = {}"

text \<open>A connection in the middle of the list.\<close>

lemma fleet_at:
  assumes "fleet idn cy issued config rs cs ps log next_id" "k < length cs"
    "\<And>origin. cn_evolves idn cy origin ((cs ! k)\<lparr>cn_resources := rs\<rparr>) c'"
    "cn_handle c' = cn_handle (cs ! k)" "caps (cn_resources c') = caps rs"
  shows "fleet idn cy issued config (cn_resources c') (cs[k := c']) ps log next_id"
proof -
  let ?rest = "take k cs @ drop (Suc k) cs"
  have "mset (cs ! k # ?rest) = mset cs"
    using arg_cong [OF id_take_nth_drop [OF assms(2)], of mset] by simp
  with assms(1) have "fleet idn cy issued config rs (cs ! k # ?rest) ps log next_id" by (rule fleet_perm)
  then have "fleet idn cy issued config (cn_resources c') (c' # ?rest) ps log next_id"
    using assms(3-5) by (rule fleet_step)
  then show ?thesis
    by (rule fleet_perm) (simp add: upd_conv_take_nth_drop [OF assms(2)])
qed

lemma driver_call_inv:
  assumes "driver_inv idn cy issued out d" "driver_call meant f d = (r, d')" "local_call (\<lambda>s. snd (f s))"
  shows "driver_inv idn cy issued out d'"
proof (cases "position meant (dv_connections d)")
  case None
  with assms show ?thesis by (simp add: driver_call_def)
next
  case (Some k)
  let ?c = "(dv_connections d ! k)\<lparr>cn_resources := dv_resources d\<rparr>"
  obtain res c where call: "with_session f ?c = (res, c)" by (cases "with_session f ?c")
  show ?thesis
  proof (cases res)
    case None
    with assms(1,2) Some call show ?thesis by (simp add: driver_call_def)
  next
    case answered: (Some x)
    have c: "c = update_session (\<lambda>s. snd (f s)) ?c"
      using call answered by (auto simp: update_session_def with_session_def split: option.splits prod.splits)
    have "fleet idn cy issued (dv_config d) (cn_resources c) ((dv_connections d)[k := c]) (dv_pending d)
        (out @ dv_events d) (dv_next d)"
      using assms(1) [unfolded driver_inv_def] position_Some(1) [OF Some]
    proof (rule fleet_at)
      show "cn_evolves idn cy origin ?c c" for origin unfolding c using assms(3) by (rule cn_evolves_call)
      show "cn_handle c = cn_handle (dv_connections d ! k)" by (simp add: c)
      show "caps (cn_resources c) = caps (dv_resources d)"
        unfolding c using update_session_steady [OF local_call_evolves [OF assms(3)], of ?c] by simp
    qed
    with assms(2) Some call answered show ?thesis by (auto simp: driver_call_def driver_inv_def)
  qed
qed

lemma remove_at_split: "k < length xs \<Longrightarrow> xs = take k xs @ xs ! k # drop (Suc k) xs \<and> remove_at k xs = take k xs @ drop (Suc k) xs"
  by (simp add: remove_at_def id_take_nth_drop)

lemma driver_close_inv:
  assumes "driver_inv idn cy issued out d" "driver_close connection d = (r, d')"
  shows "driver_inv idn cy issued out d'"
proof (cases "position (\<lambda>p. pn_handle p = connection) (dv_pending d)")
  case (Some k)
  let ?p = "dv_pending d ! k" and ?n = "ch_id connection"
  have k: "k < length (dv_pending d)" "pn_handle ?p = connection" using position_Some [OF Some] by simp_all
  note split = remove_at_split [OF k(1)]
  have "fleet idn cy issued (dv_config d) (dv_resources d) (dv_connections d)
      (take k (dv_pending d) @ ?p # drop (Suc k) (dv_pending d)) (out @ dv_events d) (dv_next d)"
    using assms(1) split by (simp add: driver_inv_def)
  note free = fleet_unpend [OF this, unfolded k(2)]
  have "fleet idn cy issued (dv_config d) (drop_connection (Some (pn_reservation ?p)) (dv_resources d))
      (dv_connections d) (take k (dv_pending d) @ drop (Suc k) (dv_pending d))
      ((out @ dv_events d) @ [Ev_ConnectionClosed ?n f]) (dv_next d)" for f
    by (rule fleet_issued [OF fleet_settle [OF free(1-4)]]) auto
  with split assms(2) Some show ?thesis by (auto simp: driver_close_def driver_inv_def)
next
  case None
  show ?thesis
  proof (cases "position (\<lambda>c. cn_handle c = connection) (dv_connections d)")
    case None
    with assms \<open>position (\<lambda>p. pn_handle p = connection) (dv_pending d) = None\<close> show ?thesis
      by (simp add: driver_close_def)
  next
    case (Some k)
    let ?c = "connection_close ((dv_connections d ! k)\<lparr>cn_resources := dv_resources d\<rparr>)"
    have "fleet idn cy issued (dv_config d) (cn_resources ?c) ((dv_connections d)[k := ?c]) (dv_pending d)
        (out @ dv_events d) (dv_next d)"
      using assms(1) [unfolded driver_inv_def] position_Some(1) [OF Some]
    proof (rule fleet_at)
      show "cn_evolves idn cy origin ((dv_connections d ! k)\<lparr>cn_resources := dv_resources d\<rparr>) ?c" for origin
        by (simp add: connection_close_def cn_evolves_abort)
    qed (simp_all add: connection_close_def abort_steady)
    with assms(2) None Some show ?thesis by (auto simp: driver_close_def Let_def driver_inv_def)
  qed
qed

lemma driver_accept_inv:
  assumes "driver_inv idn cy issued out d" "driver_accept px idn cy socket expected d = (r, d')"
  shows "driver_inv idn cy (issued \<union> granted r) out d'"
proof (cases "driver_full d")
  case True
  with assms show ?thesis by (auto simp: driver_accept_def)
next
  case False
  note inv = assms(1) [unfolded driver_inv_def]
  let ?o = "\<lparr>co_role = Acceptor, co_expected_peer = expected\<rparr>" and ?now = "po_now px (dv_clock d)"
  have later: "fleet idn cy issued (dv_config d) (dv_resources d) (dv_connections d) (dv_pending d)
      (out @ dv_events d) (Suc (dv_next d))" using inv by (rule fleet_next) simp
  obtain res d1 where started: "driver_begin idn cy socket ?o ?now d = (res, d1)"
    by (cases "driver_begin idn cy socket ?o ?now d")
  then show ?thesis
  proof (cases rule: driver_begin_cases)
    case (rejected disposition g)
    with started False later assms(2) show ?thesis by (auto simp: driver_accept_def driver_inv_def)
  next
    case (begun c g rs)
    have handle: "cn_handle c = connection_handle_new (dv_next d)" "connection_set_handle (cn_handle c) c = c"
      using begin_sound(7) [OF begun(2)] inv by (auto simp: fleet_def ledger_def connection_set_handle_def)
    from fleet_add [OF later begun(2), of "cn_handle c" "[]"] fleet_fresh [OF inv] False
    have "fleet idn cy (insert (ch_id (cn_handle c)) issued) (dv_config d) rs (c # dv_connections d) (dv_pending d)
        (out @ dv_events d) (Suc (dv_next d))"
      by (simp add: handle(2)) (simp add: handle(1) connection_handle_new_def driver_full_def)
    from fleet_perm [OF this, of "dv_connections d @ [c]"] started begun False assms(2) show ?thesis
      by (auto simp: driver_accept_def driver_inv_def)
  qed
qed

lemma driver_connect_inv:
  assumes "driver_inv idn cy issued out d" "driver_connect px request d = (r, d')"
  shows "driver_inv idn cy (issued \<union> granted r) out d'"
proof (cases "driver_full d \<or> resources_connection (dv_resources d) = None")
  case True
  with assms show ?thesis by (cases "driver_full d") (auto simp: driver_connect_def)
next
  case False
  note inv = assms(1) [unfolded driver_inv_def]
  from False obtain v rs where res: "resources_connection (dv_resources d) = Some (v, rs)" by auto
  have undo: "drop_connection (Some v) rs = dv_resources d"
    using res by (auto simp: resources_connection_def drop_connection_def reserve_iff release_def)
  have pend: "fleet idn cy (insert (ConnectionId (dv_next d)) issued) (dv_config d) rs (dv_connections d)
      (dv_pending d @ [\<lparr>pn_handle = connection_handle_new (dv_next d), pn_attempt = a, pn_expected = x,
         pn_deadline = t, pn_reservation = v\<rparr>]) (out @ dv_events d) (Suc (dv_next d))" for a x t
    by (rule fleet_pend [OF inv res]) (use False in \<open>simp_all add: driver_full_def connection_handle_new_def\<close>)
  show ?thesis
  proof (cases "instant_checked_add (po_now px (dv_clock d)) (tc_handshake_timeout (dv_config d))")
    case None
    with assms False res undo show ?thesis by (auto simp: driver_connect_def driver_inv_def)
  next
    case (Some deadline)
    obtain outcome n where "po_connect px (cq_endpoint request) (dv_sockets d) = (outcome, n)"
      by (cases "po_connect px (cq_endpoint request) (dv_sockets d)")
    with Some assms False res undo pend show ?thesis
      by (cases outcome) (auto simp: driver_connect_def driver_inv_def Let_def connection_handle_new_def)
  qed
qed

lemma other_requests_inv:
  assumes "driver_inv idn cy issued out d"
  shows "driver_listen px endpoint d = (r, d') \<Longrightarrow> driver_inv idn cy issued out d'"
    "driver_stop_listening px listener d = (r, d') \<Longrightarrow> driver_inv idn cy issued out d'"
    "driver_register protocol d = (r, d') \<Longrightarrow> driver_inv idn cy issued out d'"
proof -
  note inv = assms [unfolded driver_inv_def]
  have later: "fleet idn cy issued (dv_config d) (dv_resources d) (dv_connections d) (dv_pending d)
      (out @ dv_events d) (Suc (dv_next d))" using inv by (rule fleet_next) simp
  show "driver_inv idn cy issued out d'" if "driver_listen px endpoint d = (r, d')"
    using that inv later
    by (auto simp: driver_listen_def driver_inv_def Let_def split: if_splits prod.splits sum.splits)
  show "driver_inv idn cy issued out d'" if "driver_stop_listening px listener d = (r, d')"
    using that inv fleet_other_event [OF inv]
    by (auto simp: driver_stop_listening_def driver_inv_def Let_def split: option.splits)
  show "driver_inv idn cy issued out d'" if "driver_register protocol d = (r, d')"
    using that inv later
    by (auto simp: driver_register_def driver_inv_def split: if_splits prod.splits sum.splits)
qed

lemma stream_action_local: "local_call (\<lambda>s. snd (stream_action owner stream action s))"
  by (cases action) (simp_all add: local_call.intros)

lemma accepted_as_call:
  assumes "accepted_as g (driver_call meant f d) = (r, d')" "local_call (\<lambda>s. snd (f s))"
    "driver_inv idn cy issued out d" "\<And>x handle. g x \<noteq> Ac_Connection handle"
  shows "driver_inv idn cy (issued \<union> granted r) out d'"
proof -
  obtain r' where call: "driver_call meant f d = (r', d')" "r = map_sum id g r'"
    using assms(1) by (cases "driver_call meant f d") (auto simp: accepted_as_def)
  have "granted r = {}"
  proof (cases r')
    case (Inr x)
    with call(2) assms(4) show ?thesis by (cases "g x") auto
  qed (simp add: call(2))
  with driver_call_inv [OF assms(3) call(1) assms(2)] show ?thesis by simp
qed

lemma granted_close: "driver_close connection d = (r, d') \<Longrightarrow> granted r = {}"
  by (auto simp: driver_close_def Let_def split: option.splits)

lemma granted_other:
  "driver_listen px endpoint d = (r, d') \<Longrightarrow> granted r = {}"
  "driver_stop_listening px listener d = (r, d') \<Longrightarrow> granted r = {}"
  "driver_register protocol d = (r, d') \<Longrightarrow> granted r = {}"
  by (auto simp: driver_listen_def driver_stop_listening_def driver_register_def Let_def
      split: if_splits option.splits prod.splits sum.splits)

lemma driver_request_inv:
  assumes "driver_inv idn cy issued out d" "driver_request px idn cy request d = (r, d')"
  shows "driver_inv idn cy (issued \<union> granted r) out d'"
proof (cases request)
  case (Rq_OpenStream connection owner)
  with assms show ?thesis by (auto intro!: accepted_as_call call_open)
next
  case (Rq_Stream owner stream action)
  with assms show ?thesis by (auto intro!: accepted_as_call stream_action_local)
next
  case (Rq_Ping connection token timeout)
  with assms show ?thesis by (auto intro!: accepted_as_call call_ping)
next
  case (Rq_Drain connection reason)
  with assms show ?thesis by (auto intro!: accepted_as_call call_drain)
next
  case (Rq_Close connection)
  with assms granted_close driver_close_inv show ?thesis by fastforce
next
  case (Rq_Connect c)
  with assms driver_connect_inv show ?thesis by fastforce
next
  case (Rq_Accept socket expected)
  with assms driver_accept_inv show ?thesis by fastforce
next
  case (Rq_Listen endpoint)
  with assms granted_other(1) other_requests_inv(1) show ?thesis by fastforce
next
  case (Rq_StopListening listener)
  with assms granted_other(2) other_requests_inv(2) show ?thesis by fastforce
next
  case (Rq_RegisterProtocol protocol)
  with assms granted_other(3) other_requests_inv(3) show ?thesis by fastforce
qed

section \<open>The configuration is constant\<close>

lemma connected_config: "dv_config (driver_connected idn cy now outcome p d) = dv_config d"
  by (auto simp: driver_connected_def driver_begin_def Let_def split: sum.split prod.split)

lemma connects_config: "dv_config (driver_connects px idn cy now todo d) = dv_config d"
  by (induction todo arbitrary: d) (simp_all add: connected_config split: prod.split poll.split)

lemma accepted_config: "dv_config (driver_accepted idn cy now socket d) = dv_config d"
  by (auto simp: driver_accepted_def driver_begin_def split: prod.split sum.split)

lemma accepts_config: "dv_config (driver_accepts px idn cy now todo d) = dv_config d"
  by (induction todo arbitrary: d) (auto simp: accepted_config split: prod.split poll.split sum.split)

lemma turns_config: "driver_turns px idn cy now n d = (event, d') \<Longrightarrow> dv_config d' = dv_config d"
proof (induction n arbitrary: d)
  case (Suc n)
  have "driver_turn px idn cy now c d = (e, d1) \<Longrightarrow> dv_config d1 = dv_config d" for c d e d1
    by (auto simp: driver_turn_def Let_def split: prod.splits if_splits)
  with Suc show ?case by (fastforce split: list.splits prod.splits option.splits)
qed simp

lemma arm_timer_config: "dv_config (driver_arm_timer px d) = dv_config d"
  by (simp add: driver_arm_timer_def split: list.split)

lemma poll_event_config: "driver_poll_event px idn cy d = (result, d') \<Longrightarrow> dv_config d' = dv_config d"
  by (auto simp: driver_poll_event_def driver_pop_event_def driver_poll_listeners_def driver_poll_connects_def
      accepts_config connects_config arm_timer_config Let_def dest!: turns_config
      split: list.splits option.splits prod.splits)

lemma request_config: "driver_request px idn cy request d = (r, d') \<Longrightarrow> dv_config d' = dv_config d"
  by (cases request)
     (auto simp: driver_register_def driver_connect_def driver_accept_def driver_begin_def driver_listen_def
       driver_stop_listening_def accepted_as_def driver_call_def driver_close_def Let_def
       split: if_splits option.splits prod.splits sum.splits)

section \<open>Executions\<close>

text \<open>
  \<open>issued\<close> collects the connections granted to the controller, \<open>out\<close> the events it has received. The
  clock may advance between calls.
\<close>

inductive driver_run ::
    "('s, 'a, 'l, 'n, 't) Ports \<Rightarrow> 'i Identity \<Rightarrow> ('g, 'e, 'h, 'p, 'k) Cryptography \<Rightarrow> TransportConfig
      \<Rightarrow> ConnectionId set \<Rightarrow> Event list \<Rightarrow> ('s, 'a, 'l, 'n, 't, 'i, 'g, 'e, 'k) Driver \<Rightarrow> bool"
  for px :: "('s, 'a, 'l, 'n, 't) Ports" and idn :: "'i Identity"
    and cy :: "('g, 'e, 'h, 'p, 'k) Cryptography" and config :: TransportConfig where
  dr_new: "driver_run px idn cy config {} [] (driver_new config sockets clock i g)"
| dr_submit: "driver_run px idn cy config issued out d \<Longrightarrow>
     driver_submit px idn cy request d = (r, d') \<Longrightarrow>
     driver_run px idn cy config (issued \<union> granted r) out d'"
| dr_poll: "driver_run px idn cy config issued out d \<Longrightarrow>
     driver_poll_event px idn cy d = (result, d') \<Longrightarrow>
     driver_run px idn cy config issued (out @ delivered result) d'"
| dr_clock: "driver_run px idn cy config issued out d \<Longrightarrow>
     driver_run px idn cy config issued out (d\<lparr>dv_clock := t\<rparr>)"

lemma driver_new_inv: "driver_inv idn cy {} [] (driver_new config sockets clock i g)"
  by (simp add: driver_inv_def driver_new_def fleet_def ledger_def stories_def names_def resources_new_def
      outbound_used_def outbound_ok_def)

lemma driver_run_inv: "driver_run px idn cy config issued out d \<Longrightarrow> driver_inv idn cy issued out d"
proof (induction rule: driver_run.induct)
  case (dr_new sockets clock i g)
  show ?case by (rule driver_new_inv)
next
  case (dr_submit issued out d request r d')
  then show ?case by (auto simp: driver_submit_def driver_request_inv split: if_splits)
next
  case (dr_poll issued out d result d')
  then show ?case by (simp add: poll_event_inv)
next
  case (dr_clock issued out d t)
  then show ?case by (simp add: driver_inv_def)
qed

lemma driver_run_config: "driver_run px idn cy config issued out d \<Longrightarrow> dv_config d = config"
  by (induction rule: driver_run.induct)
     (auto simp: driver_new_def driver_submit_def poll_event_config request_config split: if_splits)

section \<open>Properties\<close>

lemma advance_bad: "foldl advance Ph_Bad es = Ph_Bad"
  by (induction es) simp_all

lemma stream_phase_prefix: "stream_phase i (a @ b) \<noteq> Ph_Bad \<Longrightarrow> stream_phase i a \<noteq> Ph_Bad"
  by (auto simp: stream_phase_def advance_bad)

lemma tale_prefix:
  assumes "tale (a @ b)"
  shows "tale a"
proof (cases "b = []")
  case False
  then have "\<forall>e \<in> set a. \<not> is_closing e" using assms by (simp add: tale_def closes_last_def butlast_append)
  then have "closings a = 0" by (simp add: closings_def filter_empty_conv)
  then show ?thesis using assms stream_phase_prefix by (auto simp: tale_def closes_last_none)
qed (use assms in simp)

lemma tale_Nil [simp]: "tale []"
  by (simp add: tale_def closes_last_def)

text \<open>
  C7: The controller's view of every connection is complete and well formed. In every execution, for
  every connection: the events delivered so far name its end at most once and nothing after it, its
  streams are well formed and closed by then; and once the driver holds nothing of a connection it has
  granted or reported, the end has been delivered. No connection is lost silently.
\<close>

theorem driver_lifecycle:
  assumes "driver_run px idn cy config issued out d"
  shows "tale (about n out) \<and>
    ((n \<in> issued \<or> about n out \<noteq> []) \<and> n \<notin> set (names (dv_connections d) (dv_pending d)) \<and>
       about n (dv_events d) = [] \<longrightarrow> closings (about n out) = 1)"
proof -
  have "fleet idn cy issued (dv_config d) (dv_resources d) (dv_connections d) (dv_pending d)
      (out @ dv_events d) (dv_next d)" using driver_run_inv [OF assms] by (simp add: driver_inv_def)
  note told = storiesD [OF fleetD(2) [OF this]]
  have "tale (about n out)"
  proof (cases "n \<in> set (names (dv_connections d) (dv_pending d))")
    case True
    then consider (conn) c where "c \<in> set (dv_connections d)" "n = ch_id (cn_handle c)"
      | (attempt) p where "p \<in> set (dv_pending d)" "n = ch_id (pn_handle p)" by (auto simp: set_names)
    then show ?thesis
    proof cases
      case conn
      with story_tale(1) [OF told(5) [OF conn(1)]] have "tale (about n out @ about n (dv_events d) @ all_events c)" by simp
      then show ?thesis by (rule tale_prefix)
    next
      case attempt
      with told(6) [OF attempt(1)] show ?thesis by simp
    qed
  next
    case False
    with told(7) [OF False] tale_prefix [of "about n out" "about n (dv_events d)"] show ?thesis
      by (cases "about n (out @ dv_events d) = []") (auto simp: settled_def)
  qed
  moreover have "closings (about n out) = 1"
    if "n \<in> issued \<or> about n out \<noteq> []" "n \<notin> set (names (dv_connections d) (dv_pending d))" "about n (dv_events d) = []"
  proof -
    have "about n (out @ dv_events d) \<noteq> []" using that told(8) [of n] by auto
    with told(7) [OF that(2)] that(3) show ?thesis by (simp add: settled_def)
  qed
  ultimately show ?thesis by blast
qed

text \<open>
  C8: The driver's books balance in every execution: connections and attempts together stay within the
  configured number; the admission budget in use is exactly the attempts plus the connections with an
  open socket; the outbound budget in use is exactly what the open connections hold, within its limit.
\<close>

theorem driver_accounting:
  assumes "driver_run px idn cy config issued out d"
  shows "length (dv_connections d) + length (dv_pending d) \<le> rl_connections (tc_limits config) \<and>
    ct_used (rs_connections (dv_resources d))
      = length (dv_pending d) + length (filter (\<lambda>c. cn_socket c \<noteq> None) (dv_connections d)) \<and>
    outbound_used (dv_resources d)
      = sum_list (map share (filter (\<lambda>c. cn_socket c \<noteq> None) (dv_connections d))) \<and>
    outbound_used (dv_resources d) \<le> rl_outbound_bytes (tc_limits config)"
proof -
  have fleet: "fleet idn cy issued config (dv_resources d) (dv_connections d) (dv_pending d)
      (out @ dv_events d) (dv_next d)"
    using driver_run_inv [OF assms] driver_run_config [OF assms] by (simp add: driver_inv_def)
  note ledger = fleetD(1) [OF fleet] and told = storiesD(5) [OF fleetD(2) [OF fleet]]
  have part: "admitted c = (if cn_socket c = None then 0 else 1) \<and> (cn_socket c = None \<longrightarrow> share c = 0)"
    if "c \<in> set (dv_connections d)" for c
    using told [OF that] sound_admitted [of idn cy _ "c\<lparr>cn_resources := dv_resources d\<rparr>"] by (auto simp: story_def)
  have admitted: "sum_list (map admitted cs) = length (filter (\<lambda>c. cn_socket c \<noteq> None) cs)"
    and shares: "sum_list (map share cs) = sum_list (map share (filter (\<lambda>c. cn_socket c \<noteq> None) cs))"
    if "set cs \<subseteq> set (dv_connections d)" for cs
    using that by (induction cs) (auto simp: part)
  have "outbound_used (dv_resources d) \<le> rl_outbound_bytes (tc_limits config)"
    using ledger by (auto simp: ledger_def outbound_ok_def caps_def resources_new_def)
  then show ?thesis using ledger admitted [OF order_refl] shares [OF order_refl] by (simp add: ledger_def)
qed

section \<open>An example driver\<close>

text \<open>Attempts that never finish, no listeners, a clock that stands still.\<close>

definition sample_ports :: "(unit, unit, unit, unit, unit) Ports" where
  "sample_ports =
     \<lparr>po_read = mute_read, po_write = open_write, po_connected = (\<lambda>a. (Pending, a)),
      po_local_addr = (\<lambda>_. Inl Ek_NotConnected), po_accept = (\<lambda>l. (Pending, l)), po_close = (\<lambda>_. Inr ()),
      po_connect = (\<lambda>_ n. (Inr (), n)), po_listen = (\<lambda>_ n. (Inl Ek_NotConnected, n)), po_now = (\<lambda>_. 0),
      po_poll_deadline = (\<lambda>_ t. (Pending, t))\<rparr>"

definition sample_driver :: "(unit, unit, unit, unit, unit, nat, nat, nat, nat) Driver" where
  "sample_driver = driver_new sample_config () () 1 5"

definition sample_target :: ConnectRequest where
  "sample_target = \<lparr>cq_endpoint = \<lparr>sa_ip = [127, 0, 0, 1], sa_port = 9000\<rparr>, cq_expected_peer = Unpinned\<rparr>"

definition sample_attempt :: "(unit, unit, unit, unit, unit, nat, nat, nat, nat) Driver" where
  "sample_attempt = snd (driver_submit sample_ports sample_identity sample_crypto (Rq_Connect sample_target) sample_driver)"

definition sample_hangup :: "(unit, unit, unit, unit, unit, nat, nat, nat, nat) Driver" where
  "sample_hangup = snd (driver_submit sample_ports sample_identity sample_crypto
     (Rq_Close (connection_handle_new 0)) sample_attempt)"

lemmas sample_driver_eval = sample_driver_def driver_new_def sample_config_def sample_resources_def resources_new_def
  driver_submit_def saturating_add_usize_def saturating_mul_usize_def usize_max_def driver_connect_def driver_full_def
  resources_connection_def reserve_def checked_add_usize_def instant_checked_add_def instant_max_def sample_ports_def
  sample_target_def Let_def

lemma sample_attempt_step:
  "driver_submit sample_ports sample_identity sample_crypto (Rq_Connect sample_target) sample_driver
     = (Inr (Ac_Connection (connection_handle_new 0)), sample_attempt)"
  "dv_pending sample_attempt \<noteq> []" "dv_connections sample_attempt = []"
  by (simp_all add: sample_attempt_def sample_driver_eval)

lemma sample_hangup_step:
  "driver_submit sample_ports sample_identity sample_crypto (Rq_Close (connection_handle_new 0)) sample_attempt
     = (Inr Ac_Queued, sample_hangup)"
  "dv_pending sample_hangup = []" "dv_connections sample_hangup = []"
  "dv_events sample_hangup = [Ev_ConnectionClosed (ConnectionId 0) (Some \<lparr>fl_origin = Fo_Local, fl_code = Fc_ConnectionLost\<rparr>)]"
  by (simp_all add: sample_hangup_def sample_attempt_def sample_driver_eval driver_close_def position_def
      connection_handle_new_def remove_at_def)

lemma sample_attempt_run:
  "driver_run sample_ports sample_identity sample_crypto sample_config {ConnectionId 0} [] sample_attempt"
  using dr_submit [OF dr_new sample_attempt_step(1) [unfolded sample_driver_def]]
  by (simp add: connection_handle_new_def)

lemma sample_hangup_run:
  "driver_run sample_ports sample_identity sample_crypto sample_config {ConnectionId 0} [] sample_hangup"
  using dr_submit [OF sample_attempt_run sample_hangup_step(1)] by simp

lemma sample_told_run:
  "driver_run sample_ports sample_identity sample_crypto sample_config {ConnectionId 0}
     [Ev_ConnectionClosed (ConnectionId 0) (Some \<lparr>fl_origin = Fo_Local, fl_code = Fc_ConnectionLost\<rparr>)]
     (sample_hangup\<lparr>dv_events := []\<rparr>)"
proof -
  have "driver_poll_event sample_ports sample_identity sample_crypto sample_hangup
    = (Ready (Some (Ev_ConnectionClosed (ConnectionId 0) (Some \<lparr>fl_origin = Fo_Local, fl_code = Fc_ConnectionLost\<rparr>))),
       sample_hangup\<lparr>dv_events := []\<rparr>)"
    by (simp add: driver_poll_event_def driver_pop_event_def sample_hangup_step)
  from dr_poll [OF sample_hangup_run this] show ?thesis by simp
qed

theorem driver_lifecycle_witness:
  "\<exists>out. driver_run sample_ports sample_identity sample_crypto sample_config {ConnectionId 0} out
       (sample_hangup\<lparr>dv_events := []\<rparr>) \<and>
     tale (about (ConnectionId 0) out) \<and> closings (about (ConnectionId 0) out) = 1"
  using driver_lifecycle [OF sample_told_run, of "ConnectionId 0"] sample_told_run
  by (intro exI conjI) (assumption | simp add: sample_hangup_step names_def)+

theorem driver_accounting_witness:
  "dv_pending sample_attempt \<noteq> [] \<and>
   ct_used (rs_connections (dv_resources sample_attempt)) = length (dv_pending sample_attempt)"
  using driver_accounting [OF sample_attempt_run] sample_attempt_step by simp

end
