(* ===== verification/Primitives.thy ===== *)
theory Primitives
  imports Session_Keys
begin

text \<open>
  The cryptographic primitives of \<open>modules/cryptography\<close>: its errors and byte budgets (\<open>error.rs\<close>,
  \<open>config.rs\<close>), the entropy port (\<open>ports.rs\<close>, \<open>random.rs\<close>), the purpose-scoped secrets (\<open>secrets.rs\<close>)
  and the bounded operations of \<open>primitives/\<close>.

  The algorithms come from third-party crates, which are the record \<open>Backend\<close> here: an argument of
  every operation that calls one. What the crates document is stated as the predicates \<open>sized_backend\<close>
  (widths of the results), \<open>exact_sealing\<close> (decryption recomputes the tag), \<open>commuting\<close>
  (Diffie-Hellman) and \<open>verifying\<close> (signatures of a key verify under it). The lemmas show
  how each bounded operation answers and that its results have the widths of the Rust array types.
\<close>

section \<open>Errors and budgets\<close>

datatype CryptoError =
    Ce_InvalidInput | Ce_AuthenticationFailed | Ce_AccessDenied | Ce_Unavailable | Ce_ResourceLimit

definition MINIMUM_OBJECT_BYTES :: usize where
  "MINIMUM_OBJECT_BYTES = 148"

record ObjectLimits =
  ol_plaintext :: usize
  ol_object :: usize

definition object_limits_new :: "usize \<Rightarrow> usize \<Rightarrow> (CryptoError, ObjectLimits) result" where
  "object_limits_new maximum_plaintext_bytes maximum_object_bytes =
     (if maximum_plaintext_bytes = 0 \<or> maximum_object_bytes < MINIMUM_OBJECT_BYTES
      then Inl Ce_InvalidInput
      else Inr \<lparr>ol_plaintext = maximum_plaintext_bytes, ol_object = maximum_object_bytes\<rparr>)"

text \<open>\<open>try_into\<close> of a slice to an array of \<open>n\<close> bytes, with the error the caller maps a wrong length to.\<close>

definition fixed :: "nat \<Rightarrow> 'e \<Rightarrow> bytes \<Rightarrow> ('e, bytes) result" where
  "fixed n e bs = (if length bs = n then Inr bs else Inl e)"

lemma fixed_eq_Inr [simp]: "fixed n e bs = Inr x \<longleftrightarrow> length bs = n \<and> x = bs"
  by (auto simp: fixed_def)

lemma fixed_eq_Inl [simp]: "fixed n e bs = Inl f \<longleftrightarrow> length bs \<noteq> n \<and> f = e"
  by (auto simp: fixed_def)

lemma fixed_ok: "length bs = n \<Longrightarrow> fixed n e bs = Inr bs"
  by simp

section \<open>Secrets\<close>

text \<open>
  A secret of 32 bytes carries its purpose as a type argument, so that a key for one purpose cannot
  be passed where another is wanted. The purposes have no values in Rust; here each has one,
  which nothing uses. Erasure on drop has no observable result.
\<close>

datatype Signing = Signing
datatype Persistent = Persistent
datatype Ephemeral = Ephemeral
datatype Shared = Shared
datatype Prk = Prk
datatype Content = Content
datatype IntegrityPurpose = IntegrityPurpose

datatype 'p Secret = Secret (secret_bytes: bytes)

record 'k KeyPair =
  kp_public_key :: bytes
  kp_private_key :: 'k

section \<open>The third-party algorithms\<close>

text \<open>
  \<open>sha2\<close>, \<open>ed25519_dalek\<close>, \<open>curve25519_dalek\<close>, \<open>x25519_dalek\<close>, \<open>hkdf\<close>, \<open>chacha20poly1305\<close> and the
  allocator. A curve point is represented by its canonical encoding, which \<open>compress\<close> returns.
\<close>

record Backend =
  bk_sha256 :: "bytes \<Rightarrow> bytes"
  bk_signing_public :: "bytes \<Rightarrow> bytes"
  bk_sign :: "bytes \<Rightarrow> bytes \<Rightarrow> bytes"
  bk_decompress :: "bytes \<Rightarrow> bytes option"
  bk_small_order :: "bytes \<Rightarrow> bool"
  bk_verifying_key :: "bytes \<Rightarrow> bool"
  bk_signature :: "bytes \<Rightarrow> bool"
  bk_verify_strict :: "bytes \<Rightarrow> bytes \<Rightarrow> bytes \<Rightarrow> bool"
  bk_agreement_public :: "bytes \<Rightarrow> bytes"
  bk_diffie_hellman :: "bytes \<Rightarrow> bytes \<Rightarrow> bytes"
  bk_contributory :: "bytes \<Rightarrow> bool"
  bk_hkdf_extract :: "bytes \<Rightarrow> bytes \<Rightarrow> bytes"
  bk_hkdf_prk :: "bytes \<Rightarrow> bool"
  bk_hkdf_expand :: "bytes \<Rightarrow> bytes \<Rightarrow> nat \<Rightarrow> bytes option"
  bk_cipher :: "bytes \<Rightarrow> bool"
  bk_seal :: "bytes \<Rightarrow> bytes \<Rightarrow> bytes \<Rightarrow> bytes \<Rightarrow> (bytes \<times> bytes) option"
  bk_open :: "bytes \<Rightarrow> bytes \<Rightarrow> bytes \<Rightarrow> bytes \<Rightarrow> bytes \<Rightarrow> bytes option"
  bk_reserve :: "usize \<Rightarrow> bool"

definition sized_backend :: "Backend \<Rightarrow> bool" where
  "sized_backend bk \<longleftrightarrow>
     (\<forall>m. length (bk_sha256 bk m) = 32) \<and>
     (\<forall>s. length (bk_signing_public bk s) = 32) \<and>
     (\<forall>s m. length (bk_sign bk s m) = 64) \<and>
     (\<forall>s. length (bk_agreement_public bk s) = 32) \<and>
     (\<forall>s r. length (bk_diffie_hellman bk s r) = 32) \<and>
     (\<forall>s k. length (bk_hkdf_extract bk s k) = 32) \<and>
     (\<forall>p i n out. bk_hkdf_expand bk p i n = Some out \<longrightarrow> length out = n) \<and>
     (\<forall>k n a p c t. bk_seal bk k n a p = Some (c, t) \<longrightarrow> length c = length p \<and> length t = 16)"

text \<open>Decryption recomputes the tag over the associated data and the ciphertext and then inverts encryption.\<close>

definition exact_sealing :: "Backend \<Rightarrow> bool" where
  "exact_sealing bk \<longleftrightarrow>
     (\<forall>k n a c t p. bk_open bk k n a c t = Some p \<longleftrightarrow> bk_seal bk k n a p = Some (c, t))"

text \<open>Each side's secret with the other side's public key gives the same result.\<close>

definition commuting :: "Backend \<Rightarrow> bool" where
  "commuting bk \<longleftrightarrow>
     (\<forall>a b. bk_diffie_hellman bk a (bk_agreement_public bk b) = bk_diffie_hellman bk b (bk_agreement_public bk a))"

text \<open>
  The public key of a seed and the first half of a signature made with it are canonical points of
  large order, and the signature verifies.
\<close>

definition canonical_point :: "Backend \<Rightarrow> bytes \<Rightarrow> bool" where
  "canonical_point bk bs \<longleftrightarrow> bk_decompress bk bs = Some bs \<and> \<not> bk_small_order bk bs"

definition verifying :: "Backend \<Rightarrow> bool" where
  "verifying bk \<longleftrightarrow>
     (\<forall>s m. canonical_point bk (bk_signing_public bk s) \<and> canonical_point bk (take 32 (bk_sign bk s m)) \<and>
        bk_verifying_key bk (bk_signing_public bk s) \<and> bk_signature bk (bk_sign bk s m) \<and>
        bk_verify_strict bk (bk_signing_public bk s) m (bk_sign bk s m))"

section \<open>Entropy\<close>

text \<open>
  The entropy port fills a buffer of the given size; a failure discards the buffer. The adapter's
  state is threaded. \<open>SystemEntropy\<close> bounds a request before it calls \<open>getrandom\<close>.
\<close>

type_synonym 'n entropy = "'n \<Rightarrow> nat \<Rightarrow> (CryptoError, bytes) result \<times> 'n"

definition MAX_RANDOM_BYTES :: usize where
  "MAX_RANDOM_BYTES = 4096"

definition system_fill :: "('n \<Rightarrow> nat \<Rightarrow> (unit, bytes) result \<times> 'n) \<Rightarrow> 'n entropy" where
  "system_fill getrandom g n =
     (if n > MAX_RANDOM_BYTES then (Inl Ce_ResourceLimit, g)
      else (case getrandom g n of (r, g) \<Rightarrow> (map_err (\<lambda>_. Ce_Unavailable) r, g)))"

definition random_bytes :: "'n entropy \<Rightarrow> nat \<Rightarrow> 'n \<Rightarrow> (CryptoError, bytes) result \<times> 'n" where
  "random_bytes fill n g = (if n > MAX_RANDOM_BYTES then (Inl Ce_ResourceLimit, g) else fill g n)"

text \<open>A port writes in place: what it hands back has the size of the buffer.\<close>

definition sized_entropy :: "'n entropy \<Rightarrow> bool" where
  "sized_entropy fill \<longleftrightarrow> (\<forall>g n bs g'. fill g n = (Inr bs, g') \<longrightarrow> length bs = n)"

lemma random_bytes_length:
  "sized_entropy fill \<Longrightarrow> random_bytes fill n g = (Inr bs, g') \<Longrightarrow> length bs = n"
  unfolding sized_entropy_def random_bytes_def by (auto split: if_splits)

lemma system_fill_sized:
  assumes "\<And>g n bs g'. getrandom g n = (Inr bs, g') \<Longrightarrow> length bs = n"
  shows "sized_entropy (system_fill getrandom)"
  using assms by (auto simp: sized_entropy_def system_fill_def split: if_splits prod.splits)

section \<open>Hashing\<close>

text \<open>An ordered hash operation is the bytes fed to it so far and what its budget leaves.\<close>

record Sha256State =
  sh_state :: bytes
  sh_remaining :: usize

definition sha256_new :: "usize \<Rightarrow> Sha256State" where
  "sha256_new maximum_bytes = \<lparr>sh_state = [], sh_remaining = maximum_bytes\<rparr>"

definition sha256_update :: "bytes \<Rightarrow> Sha256State \<Rightarrow> (CryptoError, unit) result \<times> Sha256State" where
  "sha256_update bs st =
     (if length bs > sh_remaining st then (Inl Ce_ResourceLimit, st)
      else (Inr (), st\<lparr>sh_state := sh_state st @ bs, sh_remaining := sh_remaining st - length bs\<rparr>))"

definition sha256_finish :: "Backend \<Rightarrow> Sha256State \<Rightarrow> bytes" where
  "sha256_finish bk st = bk_sha256 bk (sh_state st)"

definition sha256 :: "Backend \<Rightarrow> bytes \<Rightarrow> usize \<Rightarrow> (CryptoError, bytes) result" where
  "sha256 bk bs maximum_bytes =
     (case sha256_update bs (sha256_new maximum_bytes) of
        (Inl e, _) \<Rightarrow> Inl e
      | (Inr _, st) \<Rightarrow> Inr (sha256_finish bk st))"

lemma sha256_eq:
  "sha256 bk bs m = (if length bs > m then Inl Ce_ResourceLimit else Inr (bk_sha256 bk bs))"
  by (simp add: sha256_def sha256_update_def sha256_new_def sha256_finish_def)

text \<open>Feeding chunks one by one is hashing their concatenation, while the whole fits.\<close>

fun sha256_feed :: "bytes list \<Rightarrow> Sha256State \<Rightarrow> (CryptoError, unit) result \<times> Sha256State" where
  "sha256_feed [] st = (Inr (), st)"
| "sha256_feed (c # cs) st = and_thread (sha256_update c st) (\<lambda>_. sha256_feed cs)"

lemma sha256_feed_chunks:
  "sha256_feed cs st = (Inr (), st') \<longleftrightarrow>
     length (concat cs) \<le> sh_remaining st \<and>
     st' = st\<lparr>sh_state := sh_state st @ concat cs, sh_remaining := sh_remaining st - length (concat cs)\<rparr>"
proof (induction cs arbitrary: st)
  case Nil
  then show ?case by auto
next
  case (Cons c cs)
  then show ?case by (auto simp: sha256_update_def)
qed

section \<open>Keys and agreement\<close>

definition signing_key :: "Backend \<Rightarrow> 'n entropy \<Rightarrow> 'n \<Rightarrow> (CryptoError, Signing Secret KeyPair) result \<times> 'n" where
  "signing_key bk fill g =
     and_thread (random_bytes fill 32 g)
       (\<lambda>bs g. (Inr \<lparr>kp_public_key = bk_signing_public bk bs, kp_private_key = Secret bs\<rparr>, g))"

definition agreement_key :: "Backend \<Rightarrow> 'n entropy \<Rightarrow> 'n \<Rightarrow> (CryptoError, 'p Secret KeyPair) result \<times> 'n" where
  "agreement_key bk fill g =
     and_thread (random_bytes fill 32 g)
       (\<lambda>bs g. (Inr \<lparr>kp_public_key = bk_agreement_public bk bs, kp_private_key = Secret bs\<rparr>, g))"

definition persistent_key ::
    "Backend \<Rightarrow> 'n entropy \<Rightarrow> 'n \<Rightarrow> (CryptoError, Persistent Secret KeyPair) result \<times> 'n" where
  "persistent_key bk fill g = agreement_key bk fill g"

definition ephemeral_key ::
    "Backend \<Rightarrow> 'n entropy \<Rightarrow> 'n \<Rightarrow> (CryptoError, Ephemeral Secret KeyPair) result \<times> 'n" where
  "ephemeral_key bk fill g = agreement_key bk fill g"

definition agree :: "Backend \<Rightarrow> bytes \<Rightarrow> bytes \<Rightarrow> (CryptoError, Shared Secret) result" where
  "agree bk bs remote =
     and_then (fixed 32 Ce_InvalidInput remote)
       (\<lambda>remote. let shared = bk_diffie_hellman bk bs remote
         in if \<not> bk_contributory bk shared then Inl Ce_AuthenticationFailed else Inr (Secret shared))"

definition agree_ephemeral ::
    "Backend \<Rightarrow> Ephemeral Secret \<Rightarrow> bytes \<Rightarrow> (CryptoError, Shared Secret) result" where
  "agree_ephemeral bk key remote = agree bk (secret_bytes key) remote"

definition agree_persistent ::
    "Backend \<Rightarrow> Persistent Secret \<Rightarrow> bytes \<Rightarrow> (CryptoError, Shared Secret) result" where
  "agree_persistent bk key remote = agree bk (secret_bytes key) remote"

lemma agreement_key_eq_Inr:
  "agreement_key bk fill g = (Inr kp, g') \<longleftrightarrow>
     (\<exists>bs. random_bytes fill 32 g = (Inr bs, g') \<and>
        kp = \<lparr>kp_public_key = bk_agreement_public bk bs, kp_private_key = Secret bs\<rparr>)"
  by (auto simp: agreement_key_def and_thread_eq_Inr)

lemma signing_key_eq_Inr:
  "signing_key bk fill g = (Inr kp, g') \<longleftrightarrow>
     (\<exists>bs. random_bytes fill 32 g = (Inr bs, g') \<and>
        kp = \<lparr>kp_public_key = bk_signing_public bk bs, kp_private_key = Secret bs\<rparr>)"
  by (auto simp: signing_key_def and_thread_eq_Inr)

lemma agree_commutes:
  assumes "commuting bk" "sized_backend bk"
  shows "agree bk a (bk_agreement_public bk b) = agree bk b (bk_agreement_public bk a)"
  using assms by (simp add: agree_def commuting_def sized_backend_def fixed_def)

section \<open>Key derivation\<close>

definition kdf_extract ::
    "Backend \<Rightarrow> bytes \<Rightarrow> Shared Secret \<Rightarrow> usize \<Rightarrow> (CryptoError, Prk Secret) result" where
  "kdf_extract bk salt shared maximum_bytes =
     (if length salt > maximum_bytes then Inl Ce_ResourceLimit
      else Inr (Secret (bk_hkdf_extract bk salt (secret_bytes shared))))"

definition expand ::
    "Backend \<Rightarrow> Prk Secret \<Rightarrow> bytes \<Rightarrow> nat \<Rightarrow> usize \<Rightarrow> (CryptoError, bytes) result" where
  "expand bk prk info n maximum_bytes =
     (if length info > maximum_bytes \<or> n > 255 * 32 then Inl Ce_ResourceLimit
      else if \<not> bk_hkdf_prk bk (secret_bytes prk) then Inl Ce_InvalidInput
      else ok_or Ce_ResourceLimit (bk_hkdf_expand bk (secret_bytes prk) info n))"

definition expand_key ::
    "Backend \<Rightarrow> Prk Secret \<Rightarrow> bytes \<Rightarrow> usize \<Rightarrow> (CryptoError, 'p Secret) result" where
  "expand_key bk prk info maximum_bytes =
     and_then (expand bk prk info 32 maximum_bytes) (\<lambda>bs. Inr (Secret bs))"

definition expand_nonce_prefix ::
    "Backend \<Rightarrow> Prk Secret \<Rightarrow> bytes \<Rightarrow> usize \<Rightarrow> (CryptoError, bytes) result" where
  "expand_nonce_prefix bk prk info maximum_bytes = expand bk prk info 16 maximum_bytes"

lemma expand_length:
  "sized_backend bk \<Longrightarrow> expand bk prk info n m = Inr out \<Longrightarrow> length out = n"
  by (auto simp: expand_def sized_backend_def split: if_splits)

section \<open>Authenticated encryption\<close>

definition nonce_bytes :: "bytes \<Rightarrow> (CryptoError, bytes) result" where
  "nonce_bytes bs = fixed 24 Ce_InvalidInput bs"

definition staging :: "Backend \<Rightarrow> bytes \<Rightarrow> usize \<Rightarrow> (CryptoError, bytes) result" where
  "staging bk input capacity = (if bk_reserve bk capacity then Inr input else Inl Ce_ResourceLimit)"

definition seal ::
    "Backend \<Rightarrow> Content Secret \<Rightarrow> bytes \<Rightarrow> bytes \<Rightarrow> bytes \<Rightarrow> usize \<Rightarrow> (CryptoError, bytes) result" where
  "seal bk key n plaintext aad maximum_bytes =
     and_then (nonce_bytes n) (\<lambda>n.
     and_then (ok_or Ce_ResourceLimit (checked_add_usize (length plaintext) 16)) (\<lambda>whole.
     if whole > maximum_bytes \<or> length aad > maximum_bytes then Inl Ce_ResourceLimit else
     and_then (staging bk plaintext whole) (\<lambda>buffer.
     if \<not> bk_cipher bk (secret_bytes key) then Inl Ce_InvalidInput else
     and_then (ok_or Ce_InvalidInput (bk_seal bk (secret_bytes key) n aad buffer)) (\<lambda>(buffer, tag).
     Inr (buffer @ tag)))))"

definition unseal ::
    "Backend \<Rightarrow> Content Secret \<Rightarrow> bytes \<Rightarrow> bytes \<Rightarrow> bytes \<Rightarrow> usize \<Rightarrow> (CryptoError, bytes) result" where
  "unseal bk key n sealed aad maximum_bytes =
     and_then (nonce_bytes n) (\<lambda>n.
     if length sealed > maximum_bytes \<or> length aad > maximum_bytes then Inl Ce_ResourceLimit else
     if length sealed < 16 then Inl Ce_InvalidInput else
     let size = length sealed - 16 in
     and_then (staging bk (take size sealed) size) (\<lambda>buffer.
     if \<not> bk_cipher bk (secret_bytes key) then Inl Ce_InvalidInput else
     ok_or Ce_AuthenticationFailed (bk_open bk (secret_bytes key) n aad buffer (drop size sealed))))"

definition tag ::
    "Backend \<Rightarrow> IntegrityPurpose Secret \<Rightarrow> bytes \<Rightarrow> bytes \<Rightarrow> usize \<Rightarrow> (CryptoError, bytes) result" where
  "tag bk key n aad maximum_bytes =
     (if length aad > maximum_bytes then Inl Ce_ResourceLimit
      else if \<not> bk_cipher bk (secret_bytes key) then Inl Ce_InvalidInput
      else and_then (ok_or Ce_InvalidInput (bk_seal bk (secret_bytes key) n aad [])) (\<lambda>(_, t). Inr t))"

definition verify_tag ::
    "Backend \<Rightarrow> IntegrityPurpose Secret \<Rightarrow> bytes \<Rightarrow> bytes \<Rightarrow> bytes \<Rightarrow> usize \<Rightarrow> (CryptoError, unit) result" where
  "verify_tag bk key n aad t maximum_bytes =
     (if length aad > maximum_bytes then Inl Ce_ResourceLimit
      else if \<not> bk_cipher bk (secret_bytes key) then Inl Ce_InvalidInput
      else and_then (ok_or Ce_AuthenticationFailed (bk_open bk (secret_bytes key) n aad [] t)) (\<lambda>_. Inr ()))"

lemma seal_eq_Inr:
  "seal bk key n p aad m = Inr out \<longleftrightarrow>
     length n = 24 \<and> length p + 16 \<le> usize_max \<and> length p + 16 \<le> m \<and> length aad \<le> m \<and>
     bk_reserve bk (length p + 16) \<and> bk_cipher bk (secret_bytes key) \<and>
     (\<exists>c t. bk_seal bk (secret_bytes key) n aad p = Some (c, t) \<and> out = c @ t)"
  by (auto simp: seal_def nonce_bytes_def staging_def and_then_eq_Inr checked_add_usize_eq_Some not_less
      split: if_splits)

lemma unseal_eq_Inr:
  "unseal bk key n sealed aad m = Inr p \<longleftrightarrow>
     length n = 24 \<and> length sealed \<le> m \<and> length aad \<le> m \<and> 16 \<le> length sealed \<and>
     bk_reserve bk (length sealed - 16) \<and> bk_cipher bk (secret_bytes key) \<and>
     bk_open bk (secret_bytes key) n aad (take (length sealed - 16) sealed)
       (drop (length sealed - 16) sealed) = Some p"
  by (auto simp: unseal_def nonce_bytes_def staging_def and_then_eq_Inr not_less Let_def split: if_splits)

lemma seal_length:
  "sized_backend bk \<Longrightarrow> seal bk key n p aad m = Inr out \<Longrightarrow> length out = length p + 16"
  by (auto simp: seal_eq_Inr sized_backend_def)

text \<open>What opens was sealed, and what was sealed opens when the allocator grants the buffer.\<close>

lemma unseal_sealed:
  assumes "exact_sealing bk" "unseal bk key n sealed aad m = Inr p"
  shows "\<exists>c t. bk_seal bk (secret_bytes key) n aad p = Some (c, t) \<and> sealed = c @ t"
  using assms by (auto simp: unseal_eq_Inr exact_sealing_def)

lemma unseal_seal:
  assumes "exact_sealing bk" "sized_backend bk" "seal bk key n p aad m = Inr out"
    "bk_reserve bk (length p)"
  shows "unseal bk key n out aad m = Inr p"
proof -
  from assms(3) obtain c t where s: "bk_seal bk (secret_bytes key) n aad p = Some (c, t)" "out = c @ t"
    by (auto simp: seal_eq_Inr)
  then have "length c = length p" "length t = 16" using assms(2) by (auto simp: sized_backend_def)
  with s assms show ?thesis by (auto simp: unseal_eq_Inr seal_eq_Inr exact_sealing_def)
qed

lemma tag_eq_Inr:
  "tag bk key n aad m = Inr t \<longleftrightarrow>
     length aad \<le> m \<and> bk_cipher bk (secret_bytes key) \<and>
     (\<exists>c. bk_seal bk (secret_bytes key) n aad [] = Some (c, t))"
  by (auto simp: tag_def and_then_eq_Inr split: if_splits)

lemma verify_tag_eq_Inr:
  "verify_tag bk key n aad t m = Inr () \<longleftrightarrow>
     length aad \<le> m \<and> bk_cipher bk (secret_bytes key) \<and>
     (\<exists>p. bk_open bk (secret_bytes key) n aad [] t = Some p)"
  by (auto simp: verify_tag_def and_then_eq_Inr split: if_splits)

lemma verify_tag_exact:
  assumes "exact_sealing bk" "sized_backend bk"
  shows "verify_tag bk key n aad t m = Inr () \<longleftrightarrow> tag bk key n aad m = Inr t"
proof -
  have "(\<exists>p. bk_open bk k n aad [] t = Some p) \<longleftrightarrow> (\<exists>c. bk_seal bk k n aad [] = Some (c, t))" for k
  proof -
    have "p = []" if "bk_seal bk k n aad p = Some ([], t)" for p
      using that assms(2) unfolding sized_backend_def by (metis length_0_conv)
    moreover have "c = []" if "bk_seal bk k n aad [] = Some (c, t)" for c
      using that assms(2) unfolding sized_backend_def by (metis length_0_conv)
    ultimately show ?thesis using assms(1) unfolding exact_sealing_def by metis
  qed
  then show ?thesis by (simp add: verify_tag_eq_Inr tag_eq_Inr)
qed

section \<open>Signatures\<close>

datatype VerificationKey = VerificationKey (verification_key_bytes: bytes)

definition verification_key_parse :: "Backend \<Rightarrow> bytes \<Rightarrow> (CryptoError, VerificationKey) result" where
  "verification_key_parse bk encoded =
     and_then (fixed 32 Ce_InvalidInput encoded) (\<lambda>bs.
     and_then (ok_or Ce_InvalidInput (bk_decompress bk bs)) (\<lambda>point.
     if point \<noteq> bs \<or> bk_small_order bk point then Inl Ce_AuthenticationFailed
     else Inr (VerificationKey bs)))"

definition sign ::
    "Backend \<Rightarrow> Signing Secret \<Rightarrow> bytes \<Rightarrow> usize \<Rightarrow> (CryptoError, bytes) result" where
  "sign bk key message maximum_bytes =
     (if length message > maximum_bytes then Inl Ce_ResourceLimit
      else Inr (bk_sign bk (secret_bytes key) message))"

definition verify ::
    "Backend \<Rightarrow> bytes \<Rightarrow> bytes \<Rightarrow> bytes \<Rightarrow> usize \<Rightarrow> (CryptoError, unit) result" where
  "verify bk public_key message signature maximum_bytes =
     (if length message > maximum_bytes then Inl Ce_ResourceLimit else
      and_then (fixed 32 Ce_InvalidInput public_key) (\<lambda>bs.
      and_then (verification_key_parse bk bs) (\<lambda>_.
      if length signature \<noteq> 64 then Inl Ce_InvalidInput else
      and_then (verification_key_parse bk (take 32 signature)) (\<lambda>_.
      if \<not> bk_verifying_key bk bs then Inl Ce_InvalidInput else
      if \<not> bk_signature bk signature then Inl Ce_InvalidInput else
      if bk_verify_strict bk bs message signature then Inr () else Inl Ce_AuthenticationFailed))))"

lemma verification_key_parse_eq_Inr:
  "verification_key_parse bk bs = Inr key \<longleftrightarrow>
     length bs = 32 \<and> canonical_point bk bs \<and> key = VerificationKey bs"
  by (auto simp: verification_key_parse_def canonical_point_def and_then_eq_Inr split: if_splits)

lemma verify_eq_Inr:
  "verify bk key m sig b = Inr () \<longleftrightarrow>
     length m \<le> b \<and> length key = 32 \<and> canonical_point bk key \<and> length sig = 64 \<and>
     canonical_point bk (take 32 sig) \<and> bk_verifying_key bk key \<and> bk_signature bk sig \<and>
     bk_verify_strict bk key m sig"
  by (auto simp: verify_def and_then_eq_Inr verification_key_parse_eq_Inr split: if_splits)

lemma verify_sign:
  assumes "verifying bk" "sized_backend bk" "sign bk (Secret s) m b = Inr sig" "length m \<le> b'"
  shows "verify bk (bk_signing_public bk s) m sig b' = Inr ()"
  using assms by (auto simp: sign_def verify_eq_Inr verifying_def sized_backend_def split: if_splits)

section \<open>An instance\<close>

text \<open>
  A backend that meets the documented behaviour, for the examples: a hash, a public key and a tag are
  padded prefixes of their inputs, agreement adds the two keys byte by byte, encryption copies. It
  has the shape of the algorithms and none of their strength.
\<close>

definition pad :: "nat \<Rightarrow> bytes \<Rightarrow> bytes" where
  "pad n bs = take n (bs @ replicate n 0)"

lemma length_pad [simp]: "length (pad n bs) = n"
  by (simp add: pad_def)

definition sample_backend :: Backend where
  "sample_backend =
     \<lparr>bk_sha256 = pad 32, bk_signing_public = pad 32, bk_sign = (\<lambda>s m. pad 64 (pad 32 s @ m)),
      bk_decompress = Some, bk_small_order = (\<lambda>_. False), bk_verifying_key = (\<lambda>_. True),
      bk_signature = (\<lambda>_. True), bk_verify_strict = (\<lambda>key m sig. sig = pad 64 (key @ m)),
      bk_agreement_public = pad 32, bk_diffie_hellman = (\<lambda>s r. map2 (+) (pad 32 s) (pad 32 r)),
      bk_contributory = (\<lambda>_. True), bk_hkdf_extract = (\<lambda>salt k. pad 32 k), bk_hkdf_prk = (\<lambda>_. True),
      bk_hkdf_expand = (\<lambda>p info n. Some (pad n p)), bk_cipher = (\<lambda>_. True),
      bk_seal = (\<lambda>k n a p. Some (p, pad 16 k)),
      bk_open = (\<lambda>k n a c t. if t = pad 16 k then Some c else None),
      bk_reserve = (\<lambda>_. True)\<rparr>"

lemma sample_backend_simps:
  "bk_sha256 sample_backend = pad 32" "bk_signing_public sample_backend = pad 32"
  "bk_sign sample_backend s m = pad 64 (pad 32 s @ m)"
  "bk_agreement_public sample_backend = pad 32" "bk_diffie_hellman sample_backend s r = map2 (+) (pad 32 s) (pad 32 r)"
  "bk_contributory sample_backend x" "bk_hkdf_extract sample_backend a b = pad 32 b" "bk_hkdf_prk sample_backend x"
  "bk_hkdf_expand sample_backend p i l = Some (pad l p)" "bk_cipher sample_backend x"
  "bk_seal sample_backend k n a p = Some (p, pad 16 k)"
  "bk_open sample_backend k n a c t = (if t = pad 16 k then Some c else None)"
  "bk_reserve sample_backend u"
  by (simp_all add: sample_backend_def)

lemma pad_pad [simp]: "pad n (pad n bs) = pad n bs"
  by (simp add: pad_def)

lemma sample_backend_laws:
  "sized_backend sample_backend" "exact_sealing sample_backend" "commuting sample_backend"
  "verifying sample_backend"
proof -
  have "map2 (+) xs ys = map2 (+) ys (xs :: bytes)" for xs ys
    by (induction xs ys rule: list_induct2') (simp_all add: add.commute)
  then show "commuting sample_backend" by (simp add: commuting_def sample_backend_def)
qed (auto simp: sized_backend_def exact_sealing_def verifying_def canonical_point_def sample_backend_def
    split: if_splits)

text \<open>An entropy source that counts.\<close>

definition sample_fill :: "nat entropy" where
  "sample_fill g n = (Inr (pad n [of_nat g]), Suc g)"

lemma sample_fill_sized: "sized_entropy sample_fill"
  by (auto simp: sized_entropy_def sample_fill_def)

end
