(* ===== verification/Envelope.thy ===== *)
theory Envelope
  imports Primitives
begin

text \<open>
  Single-object identity encryption: recipient credentials (\<open>credential.rs\<close>) and the version-one
  envelope of \<open>envelope/\<close>, that is its header, the bounds of a complete object, key derivation,
  encryption and decryption.

  The lemmas characterise the header codec, the length arithmetic and what decryption accepts; the
  properties are the round trip, and that decryption releases only a plaintext whose sealing, under
  the derived key and with the whole header as associated data, is the object it was given.
\<close>

section \<open>Recipient credentials\<close>

record RecipientCredential =
  rc_identity_id :: bytes
  rc_signing_public_key :: bytes
  rc_encryption_public_key :: bytes
  rc_binding_signature :: bytes

record ValidatedRecipient =
  vr_identity_id :: bytes
  vr_encryption_public_key :: bytes

definition BINDING_PREFIX :: bytes where
  "BINDING_PREFIX = ascii ''CR2SE-ENCRYPTION-KEY-V1''"

definition BINDING_BYTES :: usize where
  "BINDING_BYTES = length BINDING_PREFIX + 32"

definition credential_parse ::
    "bytes \<Rightarrow> bytes \<Rightarrow> bytes \<Rightarrow> bytes \<Rightarrow> (CryptoError, RecipientCredential) result" where
  "credential_parse identity_id signing_public_key encryption_public_key binding_signature =
     and_then (fixed 32 Ce_InvalidInput identity_id) (\<lambda>i.
     and_then (fixed 32 Ce_InvalidInput signing_public_key) (\<lambda>s.
     and_then (fixed 32 Ce_InvalidInput encryption_public_key) (\<lambda>e.
     and_then (fixed 64 Ce_InvalidInput binding_signature) (\<lambda>b.
     Inr \<lparr>rc_identity_id = i, rc_signing_public_key = s, rc_encryption_public_key = e,
          rc_binding_signature = b\<rparr>))))"

definition identity_id :: "Backend \<Rightarrow> bytes \<Rightarrow> (CryptoError, bytes) result" where
  "identity_id bk public_key =
     and_then (fixed 32 Ce_InvalidInput public_key) (\<lambda>key.
     let bs = [1, 1] @ key in sha256 bk bs (length bs))"

definition binding_bytes :: "bytes \<Rightarrow> (CryptoError, bytes) result" where
  "binding_bytes public_key =
     and_then (fixed 32 Ce_InvalidInput public_key) (\<lambda>key. Inr (BINDING_PREFIX @ key))"

definition bind :: "Backend \<Rightarrow> Signing Secret \<Rightarrow> bytes \<Rightarrow> (CryptoError, bytes) result" where
  "bind bk key public_key =
     and_then (binding_bytes public_key) (\<lambda>message. sign bk key message BINDING_BYTES)"

definition credential_validate ::
    "Backend \<Rightarrow> RecipientCredential \<Rightarrow> (CryptoError, ValidatedRecipient) result" where
  "credential_validate bk c =
     and_then (identity_id bk (rc_signing_public_key c)) (\<lambda>i.
     if i \<noteq> rc_identity_id c then Inl Ce_AuthenticationFailed else
     and_then (binding_bytes (rc_encryption_public_key c)) (\<lambda>message.
     and_then (verify bk (rc_signing_public_key c) message (rc_binding_signature c) BINDING_BYTES) (\<lambda>_.
     Inr \<lparr>vr_identity_id = rc_identity_id c, vr_encryption_public_key = rc_encryption_public_key c\<rparr>)))"

definition credential_sized :: "RecipientCredential \<Rightarrow> bool" where
  "credential_sized c \<longleftrightarrow>
     length (rc_identity_id c) = 32 \<and> length (rc_signing_public_key c) = 32 \<and>
     length (rc_encryption_public_key c) = 32 \<and> length (rc_binding_signature c) = 64"

lemma BINDING_BYTES_eq: "BINDING_BYTES = 55"
  by (simp add: BINDING_BYTES_def BINDING_PREFIX_def)

lemma identity_id_eq:
  "identity_id bk key = (if length key = 32 then Inr (bk_sha256 bk ([1, 1] @ key)) else Inl Ce_InvalidInput)"
  by (simp add: identity_id_def sha256_eq fixed_def Let_def)

lemma binding_bytes_eq:
  "binding_bytes key = (if length key = 32 then Inr (BINDING_PREFIX @ key) else Inl Ce_InvalidInput)"
  by (simp add: binding_bytes_def fixed_def)

lemma credential_validate_eq_Inr:
  "credential_validate bk c = Inr v \<longleftrightarrow>
     length (rc_signing_public_key c) = 32 \<and> length (rc_encryption_public_key c) = 32 \<and>
     rc_identity_id c = bk_sha256 bk ([1, 1] @ rc_signing_public_key c) \<and>
     verify bk (rc_signing_public_key c) (BINDING_PREFIX @ rc_encryption_public_key c)
       (rc_binding_signature c) BINDING_BYTES = Inr () \<and>
     v = \<lparr>vr_identity_id = rc_identity_id c, vr_encryption_public_key = rc_encryption_public_key c\<rparr>"
  by (auto simp: credential_validate_def and_then_eq_Inr identity_id_eq binding_bytes_eq split: if_splits)

lemma credential_validate_sized:
  "sized_backend bk \<Longrightarrow> credential_validate bk c = Inr v \<Longrightarrow> credential_sized c"
  by (simp add: credential_validate_eq_Inr credential_sized_def verify_eq_Inr sized_backend_def)

lemma bind_eq: "length key = 32 \<Longrightarrow> bind bk s key = Inr (bk_sign bk (secret_bytes s) (BINDING_PREFIX @ key))"
  by (simp add: bind_def binding_bytes_eq sign_def BINDING_BYTES_def)

section \<open>The header\<close>

definition ENVELOPE_HEADER_BYTES :: usize where
  "ENVELOPE_HEADER_BYTES = 132"

definition CONTEXT_BYTES :: usize where
  "CONTEXT_BYTES = 124"

record Header =
  hd_recipient_id :: bytes
  hd_recipient_key :: bytes
  hd_ephemeral_key :: bytes
  hd_nonce :: bytes
  hd_sealed_length :: u64

definition envelope_header_encode :: "Header \<Rightarrow> (CryptoError, bytes) result" where
  "envelope_header_encode h =
     (if hd_sealed_length h < 16 then Inl Ce_InvalidInput
      else Inr ([1, 1, 1, 1] @ hd_recipient_id h @ hd_recipient_key h @ hd_ephemeral_key h @ hd_nonce h
        @ u64_to_be (hd_sealed_length h)))"

definition envelope_header_decode :: "bytes \<Rightarrow> (CryptoError, Header) result" where
  "envelope_header_decode bs =
     (if length bs \<noteq> ENVELOPE_HEADER_BYTES \<or> take 4 bs \<noteq> [1, 1, 1, 1] then Inl Ce_InvalidInput
      else let h = \<lparr>hd_recipient_id = subslice 4 36 bs, hd_recipient_key = subslice 36 68 bs,
                    hd_ephemeral_key = subslice 68 100 bs, hd_nonce = subslice 100 124 bs,
                    hd_sealed_length = u64_from_be (subslice 124 132 bs)\<rparr>
           in if hd_sealed_length h < 16 then Inl Ce_InvalidInput else Inr h)"

definition envelope_header_valid :: "Header \<Rightarrow> bool" where
  "envelope_header_valid h \<longleftrightarrow>
     length (hd_recipient_id h) = 32 \<and> length (hd_recipient_key h) = 32 \<and>
     length (hd_ephemeral_key h) = 32 \<and> length (hd_nonce h) = 24 \<and> 16 \<le> hd_sealed_length h"

lemma envelope_header_encode_length:
  "envelope_header_valid h \<Longrightarrow> envelope_header_encode h = Inr bs \<Longrightarrow> length bs = 132"
  by (auto simp: envelope_header_valid_def envelope_header_encode_def split: if_splits)

lemma envelope_header_decode_encode:
  assumes "envelope_header_valid h" "envelope_header_encode h = Inr bs"
  shows "envelope_header_decode bs = Inr h"
proof -
  have "bs = [1, 1, 1, 1] @ hd_recipient_id h @ hd_recipient_key h @ hd_ephemeral_key h @ hd_nonce h
      @ u64_to_be (hd_sealed_length h)" "\<not> hd_sealed_length h < 16"
    using assms(2) by (auto simp: envelope_header_encode_def split: if_splits)
  then show ?thesis
    using assms(1) by (simp add: envelope_header_decode_def envelope_header_valid_def subslice_def
        ENVELOPE_HEADER_BYTES_def Let_def)
qed

lemma envelope_header_encode_decode:
  assumes "envelope_header_decode bs = Inr h"
  shows "envelope_header_valid h" "envelope_header_encode h = Inr bs"
proof -
  have d: "length bs = 132" "take 4 bs = [1, 1, 1, 1]" and len: "\<not> hd_sealed_length h < 16"
    and h: "h = \<lparr>hd_recipient_id = subslice 4 36 bs, hd_recipient_key = subslice 36 68 bs,
                 hd_ephemeral_key = subslice 68 100 bs, hd_nonce = subslice 100 124 bs,
                 hd_sealed_length = u64_from_be (subslice 124 132 bs)\<rparr>"
    using assms by (auto simp: envelope_header_decode_def ENVELOPE_HEADER_BYTES_def Let_def split: if_splits)
  then show "envelope_header_valid h" by (simp add: envelope_header_valid_def not_less)
  have whole: "bs = subslice 0 4 bs @ subslice 4 36 bs @ subslice 36 68 bs @ subslice 68 100 bs
      @ subslice 100 124 bs @ subslice 124 132 bs"
    using d(1) by (simp add: subslice_glue subslice_all)
  moreover have "subslice 0 4 bs = [1, 1, 1, 1]" using d(2) by (simp add: subslice_def)
  ultimately show "envelope_header_encode h = Inr bs"
    using len d(1) by (simp add: envelope_header_encode_def h u64_to_from_be)
qed

section \<open>Complete objects\<close>

text \<open>Conversions between \<open>u64\<close> and the host's \<open>usize\<close>.\<close>

definition usize_try_from :: "u64 \<Rightarrow> usize option" where
  "usize_try_from w = (if unat w \<le> usize_max then Some (unat w) else None)"

definition u64_try_from :: "usize \<Rightarrow> u64 option" where
  "u64_try_from n = (if n < 2 ^ 64 then Some (of_nat n) else None)"

definition validate_lengths :: "u64 \<Rightarrow> ObjectLimits \<Rightarrow> (CryptoError, usize) result" where
  "validate_lengths sealed limits =
     (if sealed < 16 then Inl Ce_InvalidInput else
      let plaintext = sealed - 16 in
      and_then (ok_or Ce_ResourceLimit (checked_add sealed (of_nat ENVELOPE_HEADER_BYTES))) (\<lambda>whole.
      and_then (ok_or Ce_ResourceLimit (usize_try_from whole)) (\<lambda>whole.
      and_then (ok_or Ce_ResourceLimit (usize_try_from plaintext)) (\<lambda>plaintext.
      if whole > ol_object limits \<or> plaintext > ol_plaintext limits then Inl Ce_ResourceLimit
      else Inr whole))))"

definition object_length :: "Header \<Rightarrow> ObjectLimits \<Rightarrow> (CryptoError, usize) result" where
  "object_length h limits = validate_lengths (hd_sealed_length h) limits"

definition lengths_for_plaintext :: "u64 \<Rightarrow> ObjectLimits \<Rightarrow> (CryptoError, u64 \<times> usize) result" where
  "lengths_for_plaintext plaintext_length limits =
     and_then (ok_or Ce_ResourceLimit (checked_add plaintext_length 16)) (\<lambda>sealed.
     and_then (validate_lengths sealed limits) (\<lambda>whole. Inr (sealed, whole)))"

record ParsedObject =
  pj_header :: Header
  pj_encoded_header :: bytes
  pj_sealed :: bytes

definition object_parse :: "bytes \<Rightarrow> ObjectLimits \<Rightarrow> (CryptoError, ParsedObject) result" where
  "object_parse bs limits =
     (if length bs < ENVELOPE_HEADER_BYTES then Inl Ce_InvalidInput else
      if length bs > ol_object limits then Inl Ce_ResourceLimit else
      and_then (envelope_header_decode (take ENVELOPE_HEADER_BYTES bs)) (\<lambda>h.
      and_then (object_length h limits) (\<lambda>n.
      if length bs \<noteq> n then Inl Ce_InvalidInput
      else Inr \<lparr>pj_header = h, pj_encoded_header = take ENVELOPE_HEADER_BYTES bs,
                pj_sealed = drop ENVELOPE_HEADER_BYTES bs\<rparr>)))"

lemma validate_lengths_eq_Inr:
  "validate_lengths sealed limits = Inr n \<longleftrightarrow>
     16 \<le> unat sealed \<and> n = unat sealed + 132 \<and> n < 2 ^ 64 \<and>
     n \<le> ol_object limits \<and> unat sealed - 16 \<le> ol_plaintext limits"
proof (cases "sealed < 16")
  case True
  then show ?thesis by (simp add: validate_lengths_def word_less_nat_alt)
next
  case False
  then have "unat (sealed - 16) = unat sealed - 16" by (simp add: unat_sub not_less)
  moreover have "checked_add sealed 132 = Some w \<longleftrightarrow> unat sealed + 132 < 2 ^ 64 \<and> w = sealed + 132" for w
    by (auto simp: checked_add_def)
  moreover have "unat (sealed + 132) = unat sealed + 132" if "unat sealed + 132 < 2 ^ 64"
    using that by (simp add: unat_word_ariths)
  ultimately show ?thesis
    using False unat_u64_less [of sealed]
    by (auto simp: validate_lengths_def and_then_eq_Inr usize_try_from_def usize_max_def Let_def
        ENVELOPE_HEADER_BYTES_def word_less_nat_alt split: if_splits)
qed

lemma lengths_for_plaintext_eq_Inr:
  "lengths_for_plaintext (of_nat p) limits = Inr (sealed, n) \<longleftrightarrow>
     unat sealed = p + 16 \<and> n = p + 148 \<and> n < 2 ^ 64 \<and> n \<le> ol_object limits \<and> p \<le> ol_plaintext limits"
  if "p < 2 ^ 64"
proof (cases "p + 16 < 2 ^ 64")
  case True
  have p: "unat (of_nat p :: u64) = p" using that by (simp add: unat_of_nat)
  then have u: "unat (of_nat p + 16 :: u64) = p + 16" using True by (simp add: unat_word_ariths)
  have c: "checked_add (of_nat p :: u64) 16 = Some (of_nat p + 16)" using True p by (simp add: checked_add_def)
  have "unat sealed = p + 16 \<longleftrightarrow> sealed = of_nat p + 16" using u by (metis word_unat_eq_iff)
  then show ?thesis
    by (auto simp: lengths_for_plaintext_def c and_then_eq_Inr validate_lengths_eq_Inr u)
next
  case False
  have "unat (of_nat p :: u64) = p" using that by (simp add: unat_of_nat)
  then have "checked_add (of_nat p :: u64) 16 = None" using False by (simp add: checked_add_def)
  then show ?thesis using False by (simp add: lengths_for_plaintext_def)
qed

text \<open>A parsed object is a canonical header followed by as many bytes as it declares.\<close>

lemma object_parse_eq_Inr:
  "object_parse bs limits = Inr p \<longleftrightarrow>
     (\<exists>h encoded sealed. bs = encoded @ sealed \<and> envelope_header_valid h \<and>
        envelope_header_encode h = Inr encoded \<and> length sealed = unat (hd_sealed_length h) \<and>
        length bs < 2 ^ 64 \<and> length bs \<le> ol_object limits \<and> length sealed - 16 \<le> ol_plaintext limits \<and>
        p = \<lparr>pj_header = h, pj_encoded_header = encoded, pj_sealed = sealed\<rparr>)"
  (is "?l \<longleftrightarrow> ?r")
proof
  assume ?l
  then obtain h n where b: "132 \<le> length bs" "length bs \<le> ol_object limits"
      and h: "envelope_header_decode (take 132 bs) = Inr h" "object_length h limits = Inr n" "length bs = n"
      and p: "p = \<lparr>pj_header = h, pj_encoded_header = take 132 bs, pj_sealed = drop 132 bs\<rparr>"
    by (auto simp: object_parse_def and_then_eq_Inr ENVELOPE_HEADER_BYTES_def split: if_splits)
  have "bs = take 132 bs @ drop 132 bs" by simp
  with p h(2,3) b envelope_header_encode_decode [OF h(1)] show ?r
    unfolding object_length_def validate_lengths_eq_Inr
    by (intro exI [of _ h] exI [of _ "take 132 bs"] exI [of _ "drop 132 bs"]) auto
next
  assume ?r
  then obtain h encoded sealed where e: "bs = encoded @ sealed" "envelope_header_valid h"
      "envelope_header_encode h = Inr encoded" "length sealed = unat (hd_sealed_length h)"
      "length bs < 2 ^ 64" "length bs \<le> ol_object limits" "length sealed - 16 \<le> ol_plaintext limits"
    and p: "p = \<lparr>pj_header = h, pj_encoded_header = encoded, pj_sealed = sealed\<rparr>" by blast
  have len: "length encoded = 132" using e(2,3) by (rule envelope_header_encode_length)
  have "16 \<le> unat (hd_sealed_length h)"
    using e(2) by (simp add: envelope_header_valid_def word_le_nat_alt)
  with e len envelope_header_decode_encode [OF e(2,3)] show ?l
    by (simp add: object_parse_def ENVELOPE_HEADER_BYTES_def object_length_def p
        iffD2 [OF validate_lengths_eq_Inr, of _ "length bs"])
qed

section \<open>Key derivation\<close>

definition SALT_PREFIX :: bytes where
  "SALT_PREFIX = ascii ''CR2SE-IDENTITY-ENCRYPTION-SALT-V1'' @ [0]"

definition KEY_PREFIX :: bytes where
  "KEY_PREFIX = ascii ''CR2SE-IDENTITY-ENCRYPTION-KEY-V1'' @ [0]"

definition envelope_context :: "Header \<Rightarrow> (CryptoError, bytes) result" where
  "envelope_context h =
     and_then (envelope_header_encode h) (\<lambda>bs. fixed CONTEXT_BYTES Ce_InvalidInput (take CONTEXT_BYTES bs))"

definition envelope_salt :: "Backend \<Rightarrow> bytes \<Rightarrow> (CryptoError, bytes) result" where
  "envelope_salt bk ctx =
     (if take 4 ctx \<noteq> [1, 1, 1, 1] then Inl Ce_InvalidInput
      else let bs = SALT_PREFIX @ ctx in sha256 bk bs (length bs))"

definition envelope_derive :: "Backend \<Rightarrow> Shared Secret \<Rightarrow> bytes \<Rightarrow> (CryptoError, Content Secret) result" where
  "envelope_derive bk shared ctx =
     and_then (envelope_salt bk ctx) (\<lambda>salt.
     and_then (kdf_extract bk salt shared 32) (\<lambda>prk.
     let info = KEY_PREFIX @ ctx in expand_key bk prk info (length info)))"

lemma envelope_context_eq:
  "envelope_header_valid h \<Longrightarrow> envelope_header_encode h = Inr bs \<Longrightarrow> envelope_context h = Inr (take 124 bs)"
  using envelope_header_encode_length [of h bs] by (simp add: envelope_context_def CONTEXT_BYTES_def fixed_def)

section \<open>Encryption and decryption\<close>

record EncryptRequest =
  eq_plaintext :: bytes
  eq_recipient :: RecipientCredential
  eq_limits :: ObjectLimits

record DecryptRequest =
  dq_object :: bytes
  dq_identity_id :: bytes
  dq_encryption_public_key :: bytes
  dq_private_key :: "Persistent Secret"
  dq_limits :: ObjectLimits

text \<open>Every random value is drawn after the credential and the sizes were accepted.\<close>

definition encrypt ::
    "Backend \<Rightarrow> 'n entropy \<Rightarrow> EncryptRequest \<Rightarrow> 'n \<Rightarrow> (CryptoError, bytes) result \<times> 'n" where
  "encrypt bk fill request g =
     (case credential_validate bk (eq_recipient request) of Inl e \<Rightarrow> (Inl e, g) | Inr recipient \<Rightarrow>
      case and_then (ok_or Ce_ResourceLimit (u64_try_from (length (eq_plaintext request))))
          (\<lambda>n. lengths_for_plaintext n (eq_limits request)) of Inl e \<Rightarrow> (Inl e, g) | Inr (sealed_length, whole) \<Rightarrow>
      and_thread (ephemeral_key bk fill g) (\<lambda>ephemeral g.
      and_thread (random_bytes fill 24 g) (\<lambda>n g.
      let h = \<lparr>hd_recipient_id = vr_identity_id recipient,
               hd_recipient_key = vr_encryption_public_key recipient,
               hd_ephemeral_key = kp_public_key ephemeral, hd_nonce = n, hd_sealed_length = sealed_length\<rparr>
      in (and_then (agree_ephemeral bk (kp_private_key ephemeral) (hd_recipient_key h)) (\<lambda>shared.
          and_then (envelope_context h) (\<lambda>ctx.
          and_then (envelope_derive bk shared ctx) (\<lambda>key.
          and_then (envelope_header_encode h) (\<lambda>encoded_header.
          and_then (seal bk key (hd_nonce h) (eq_plaintext request) encoded_header
              (ol_object (eq_limits request))) (\<lambda>sealed.
          and_then (staging bk [] whole) (\<lambda>object.
          Inr (object @ encoded_header @ sealed))))))), g))))"

definition decrypt :: "Backend \<Rightarrow> DecryptRequest \<Rightarrow> (CryptoError, bytes) result" where
  "decrypt bk request =
     and_then (object_parse (dq_object request) (dq_limits request)) (\<lambda>parsed.
     if hd_recipient_id (pj_header parsed) \<noteq> dq_identity_id request
       \<or> hd_recipient_key (pj_header parsed) \<noteq> dq_encryption_public_key request
     then Inl Ce_AuthenticationFailed else
     and_then (agree_persistent bk (dq_private_key request) (hd_ephemeral_key (pj_header parsed))) (\<lambda>shared.
     and_then (envelope_context (pj_header parsed)) (\<lambda>ctx.
     and_then (envelope_derive bk shared ctx) (\<lambda>key.
     unseal bk key (hd_nonce (pj_header parsed)) (pj_sealed parsed) (pj_encoded_header parsed)
       (ol_object (dq_limits request))))))"

text \<open>What encryption produces, with the random values it drew.\<close>

lemma encrypt_eq_Inr:
  "encrypt bk fill rq g = (Inr object, g') \<longleftrightarrow>
     (\<exists>v sealed_length whole ephemeral n g1 h encoded shared key sealed.
        credential_validate bk (eq_recipient rq) = Inr v \<and> length (eq_plaintext rq) < 2 ^ 64 \<and>
        lengths_for_plaintext (of_nat (length (eq_plaintext rq))) (eq_limits rq) = Inr (sealed_length, whole) \<and>
        ephemeral_key bk fill g = (Inr ephemeral, g1) \<and> random_bytes fill 24 g1 = (Inr n, g') \<and>
        h = \<lparr>hd_recipient_id = vr_identity_id v, hd_recipient_key = vr_encryption_public_key v,
             hd_ephemeral_key = kp_public_key ephemeral, hd_nonce = n, hd_sealed_length = sealed_length\<rparr> \<and>
        agree_ephemeral bk (kp_private_key ephemeral) (hd_recipient_key h) = Inr shared \<and>
        and_then (envelope_context h) (envelope_derive bk shared) = Inr key \<and>
        envelope_header_encode h = Inr encoded \<and>
        seal bk key (hd_nonce h) (eq_plaintext rq) encoded (ol_object (eq_limits rq)) = Inr sealed \<and>
        bk_reserve bk whole \<and> object = encoded @ sealed)"
  by (auto simp: encrypt_def and_thread_eq_Inr and_then_eq_Inr u64_try_from_def staging_def Let_def
      split: sum.splits if_splits prod.splits)

text \<open>An invalid recipient or an excessive plaintext consumes no randomness.\<close>

lemma encrypt_refuses:
  "credential_validate bk (eq_recipient rq) = Inl e \<Longrightarrow> encrypt bk fill rq g = (Inl e, g)"
  "credential_validate bk (eq_recipient rq) = Inr v \<Longrightarrow> length (eq_plaintext rq) < 2 ^ 64 \<Longrightarrow>
     lengths_for_plaintext (of_nat (length (eq_plaintext rq))) (eq_limits rq) = Inl e \<Longrightarrow>
     encrypt bk fill rq g = (Inl e, g)"
  by (simp_all add: encrypt_def u64_try_from_def)

lemma decrypt_eq_Inr:
  "decrypt bk rq = Inr p \<longleftrightarrow>
     (\<exists>h encoded sealed shared key.
        object_parse (dq_object rq) (dq_limits rq)
          = Inr \<lparr>pj_header = h, pj_encoded_header = encoded, pj_sealed = sealed\<rparr> \<and>
        hd_recipient_id h = dq_identity_id rq \<and> hd_recipient_key h = dq_encryption_public_key rq \<and>
        agree_persistent bk (dq_private_key rq) (hd_ephemeral_key h) = Inr shared \<and>
        envelope_derive bk shared (take 124 encoded) = Inr key \<and>
        unseal bk key (hd_nonce h) sealed encoded (ol_object (dq_limits rq)) = Inr p)"
proof (cases "object_parse (dq_object rq) (dq_limits rq)")
  case (Inl e)
  then show ?thesis by (simp add: decrypt_def)
next
  case (Inr parsed)
  obtain h encoded sealed where parsed: "parsed = \<lparr>pj_header = h, pj_encoded_header = encoded, pj_sealed = sealed\<rparr>"
    by (cases parsed) simp
  with Inr have "envelope_context h = Inr (take 124 encoded)"
    using envelope_context_eq by (auto simp: object_parse_eq_Inr)
  with Inr parsed show ?thesis by (auto simp: decrypt_def and_then_eq_Inr split: if_splits)
qed

section \<open>Properties\<close>

definition sample_recipient :: RecipientCredential where
  "sample_recipient =
     \<lparr>rc_identity_id = pad 32 ([1, 1] @ pad 32 [5]), rc_signing_public_key = pad 32 [5],
      rc_encryption_public_key = pad 32 [7],
      rc_binding_signature = pad 64 (pad 32 [5] @ BINDING_PREFIX @ pad 32 [7])\<rparr>"

definition sample_encrypt :: EncryptRequest where
  "sample_encrypt =
     \<lparr>eq_plaintext = [10, 20, 30], eq_recipient = sample_recipient,
      eq_limits = \<lparr>ol_plaintext = 100, ol_object = 300\<rparr>\<rparr>"

definition sample_decrypt :: "bytes \<Rightarrow> DecryptRequest" where
  "sample_decrypt object =
     \<lparr>dq_object = object, dq_identity_id = rc_identity_id sample_recipient,
      dq_encryption_public_key = rc_encryption_public_key sample_recipient,
      dq_private_key = Secret [7], dq_limits = eq_limits sample_encrypt\<rparr>"

lemma sample_sizes: "length (rc_identity_id sample_recipient) = 32" "rc_encryption_public_key sample_recipient = pad 32 [7]"
  by (simp_all add: sample_recipient_def)

lemma sample_recipient_valid:
  "credential_validate sample_backend sample_recipient
     = Inr \<lparr>vr_identity_id = rc_identity_id sample_recipient, vr_encryption_public_key = pad 32 [7]\<rparr>"
  by (simp add: credential_validate_eq_Inr verify_eq_Inr sample_recipient_def sample_backend_def
      canonical_point_def BINDING_BYTES_def)

lemma sample_encrypts: "\<exists>object. encrypt sample_backend sample_fill sample_encrypt 1 = (Inr object, 3)"
proof -
  have len: "lengths_for_plaintext 3 \<lparr>ol_plaintext = 100, ol_object = 300\<rparr> = Inr (19, 151)"
    using lengths_for_plaintext_eq_Inr [of 3 "\<lparr>ol_plaintext = 100, ol_object = 300\<rparr>" 19 151] by simp
  show ?thesis
    by (simp add: encrypt_def sample_encrypt_def sample_recipient_valid u64_try_from_def len
        ephemeral_key_def agreement_key_def random_bytes_def sample_fill_def MAX_RANDOM_BYTES_def
        agree_ephemeral_def agree_def fixed_def envelope_context_def envelope_header_encode_def
        envelope_derive_def envelope_salt_def sha256_eq kdf_extract_def expand_key_def expand_def
        seal_def nonce_bytes_def staging_def checked_add_usize_def usize_max_def CONTEXT_BYTES_def
        sample_sizes sample_backend_simps Let_def)
qed

lemma encrypted_parts:
  assumes "sized_backend bk" "sized_entropy fill" "encrypt bk fill rq g = (Inr object, g')"
  obtains e h encoded sealed key shared where
    "object_parse object (eq_limits rq) = Inr \<lparr>pj_header = h, pj_encoded_header = encoded, pj_sealed = sealed\<rparr>"
    "hd_recipient_id h = rc_identity_id (eq_recipient rq)"
    "hd_recipient_key h = rc_encryption_public_key (eq_recipient rq)"
    "hd_ephemeral_key h = bk_agreement_public bk e"
    "agree bk e (rc_encryption_public_key (eq_recipient rq)) = Inr shared"
    "envelope_derive bk shared (take 124 encoded) = Inr key"
    "seal bk key (hd_nonce h) (eq_plaintext rq) encoded (ol_object (eq_limits rq)) = Inr sealed"
    "length object = length (eq_plaintext rq) + 148"
proof -
  from assms(3) obtain v sealed_length whole ephemeral n g1 h encoded shared key sealed where
    v: "credential_validate bk (eq_recipient rq) = Inr v" "length (eq_plaintext rq) < 2 ^ 64"
    and len: "lengths_for_plaintext (of_nat (length (eq_plaintext rq))) (eq_limits rq) = Inr (sealed_length, whole)"
    and eph: "ephemeral_key bk fill g = (Inr ephemeral, g1)" "random_bytes fill 24 g1 = (Inr n, g')"
    and h: "h = \<lparr>hd_recipient_id = vr_identity_id v, hd_recipient_key = vr_encryption_public_key v,
             hd_ephemeral_key = kp_public_key ephemeral, hd_nonce = n, hd_sealed_length = sealed_length\<rparr>"
    and key: "agree_ephemeral bk (kp_private_key ephemeral) (hd_recipient_key h) = Inr shared"
        "and_then (envelope_context h) (envelope_derive bk shared) = Inr key"
    and enc: "envelope_header_encode h = Inr encoded"
        "seal bk key (hd_nonce h) (eq_plaintext rq) encoded (ol_object (eq_limits rq)) = Inr sealed"
    and object: "object = encoded @ sealed"
    unfolding encrypt_eq_Inr by blast
  from eph(1) obtain e where e: "ephemeral = \<lparr>kp_public_key = bk_agreement_public bk e, kp_private_key = Secret e\<rparr>"
    by (auto simp: ephemeral_key_def agreement_key_eq_Inr)
  note sizes = len [unfolded lengths_for_plaintext_eq_Inr [OF v(2)]]
  have recipient: "vr_identity_id v = rc_identity_id (eq_recipient rq)"
      "vr_encryption_public_key v = rc_encryption_public_key (eq_recipient rq)"
    using v(1) by (auto simp: credential_validate_eq_Inr)
  have valid: "envelope_header_valid h"
    using credential_validate_sized [OF assms(1) v(1)] recipient e assms(1) sizes
      random_bytes_length [OF assms(2) eph(2)]
    by (simp add: h envelope_header_valid_def credential_sized_def sized_backend_def word_le_nat_alt)
  have lengths: "length encoded = 132" "length sealed = length (eq_plaintext rq) + 16"
    using envelope_header_encode_length [OF valid enc(1)] seal_length [OF assms(1) enc(2)] by simp_all
  have "object_parse object (eq_limits rq)
      = Inr \<lparr>pj_header = h, pj_encoded_header = encoded, pj_sealed = sealed\<rparr>"
    using valid enc(1) object lengths sizes by (auto simp: object_parse_eq_Inr h)
  moreover have "envelope_derive bk shared (take 124 encoded) = Inr key"
    using key(2) envelope_context_eq [OF valid enc(1)] by simp
  ultimately show ?thesis
    using that enc(2) key(1) recipient e lengths object by (simp add: h agree_ephemeral_def)
qed

text \<open>
  C25: Encrypting for a credential and decrypting with the private half of its encryption key gives the
  plaintext back, whatever randomness was drawn; the object is 148 bytes longer than the plaintext.
\<close>

theorem envelope_round_trip:
  assumes "sized_backend bk" "exact_sealing bk" "commuting bk" "sized_entropy fill"
    "encrypt bk fill rq g = (Inr object, g')"
    "rc_encryption_public_key (eq_recipient rq) = bk_agreement_public bk s"
    "bk_reserve bk (length (eq_plaintext rq))"
  shows "decrypt bk
      \<lparr>dq_object = object, dq_identity_id = rc_identity_id (eq_recipient rq),
       dq_encryption_public_key = rc_encryption_public_key (eq_recipient rq),
       dq_private_key = Secret s, dq_limits = eq_limits rq\<rparr> = Inr (eq_plaintext rq) \<and>
    length object = length (eq_plaintext rq) + 148"
proof -
  obtain e h encoded sealed key shared where
    parse: "object_parse object (eq_limits rq)
      = Inr \<lparr>pj_header = h, pj_encoded_header = encoded, pj_sealed = sealed\<rparr>"
    and h: "hd_recipient_id h = rc_identity_id (eq_recipient rq)"
      "hd_recipient_key h = rc_encryption_public_key (eq_recipient rq)"
      "hd_ephemeral_key h = bk_agreement_public bk e"
    and key: "agree bk e (rc_encryption_public_key (eq_recipient rq)) = Inr shared"
      "envelope_derive bk shared (take 124 encoded) = Inr key"
    and seal: "seal bk key (hd_nonce h) (eq_plaintext rq) encoded (ol_object (eq_limits rq)) = Inr sealed"
    and len: "length object = length (eq_plaintext rq) + 148"
    using assms(1,4,5) by (rule encrypted_parts)
  have "agree_persistent bk (Secret s) (hd_ephemeral_key h) = Inr shared"
    using key(1) agree_commutes [OF assms(3,1), of e s] by (simp add: agree_persistent_def h(3) assms(6))
  moreover have "unseal bk key (hd_nonce h) sealed encoded (ol_object (eq_limits rq)) = Inr (eq_plaintext rq)"
    using assms(2,1) seal assms(7) by (rule unseal_seal)
  ultimately show ?thesis
    using parse h(1,2) key(2) len by (simp add: decrypt_eq_Inr)
qed

theorem envelope_round_trip_witness:
  "\<exists>object. encrypt sample_backend sample_fill sample_encrypt 1 = (Inr object, 3) \<and>
     decrypt sample_backend (sample_decrypt object) = Inr [10, 20, 30] \<and> length object = 151"
proof -
  obtain object where e: "encrypt sample_backend sample_fill sample_encrypt 1 = (Inr object, 3)"
    using sample_encrypts by blast
  have "rc_encryption_public_key (eq_recipient sample_encrypt) = bk_agreement_public sample_backend [7]"
    "bk_reserve sample_backend (length (eq_plaintext sample_encrypt))"
    by (simp_all add: sample_encrypt_def sample_recipient_def sample_backend_def)
  from envelope_round_trip [OF sample_backend_laws(1-3) sample_fill_sized e this] e show ?thesis
    by (auto simp: sample_decrypt_def sample_encrypt_def)
qed

text \<open>
  C26: Decryption releases nothing unauthenticated: an accepted object is the canonical encoding of a
  header naming this identity and key, followed by exactly the sealing of the released plaintext under
  the key derived from the agreement and the first 124 header bytes, with all 132 header bytes as
  associated data; object and plaintext are within the caller's limits.
\<close>

theorem envelope_authentic:
  assumes "sized_backend bk" "exact_sealing bk" "decrypt bk rq = Inr p"
  shows "\<exists>h encoded c t shared key.
    dq_object rq = encoded @ c @ t \<and> envelope_header_valid h \<and> envelope_header_encode h = Inr encoded \<and>
    hd_recipient_id h = dq_identity_id rq \<and> hd_recipient_key h = dq_encryption_public_key rq \<and>
    agree_persistent bk (dq_private_key rq) (hd_ephemeral_key h) = Inr shared \<and>
    envelope_derive bk shared (take 124 encoded) = Inr key \<and>
    bk_seal bk (secret_bytes key) (hd_nonce h) encoded p = Some (c, t) \<and>
    length (dq_object rq) = length p + 148 \<and>
    length (dq_object rq) \<le> ol_object (dq_limits rq) \<and> length p \<le> ol_plaintext (dq_limits rq)"
proof -
  from assms(3) obtain h encoded sealed shared key where
    parse: "object_parse (dq_object rq) (dq_limits rq)
      = Inr \<lparr>pj_header = h, pj_encoded_header = encoded, pj_sealed = sealed\<rparr>"
    and key: "hd_recipient_id h = dq_identity_id rq" "hd_recipient_key h = dq_encryption_public_key rq"
      "agree_persistent bk (dq_private_key rq) (hd_ephemeral_key h) = Inr shared"
      "envelope_derive bk shared (take 124 encoded) = Inr key"
    and released: "unseal bk key (hd_nonce h) sealed encoded (ol_object (dq_limits rq)) = Inr p"
    unfolding decrypt_eq_Inr by blast
  from unseal_sealed [OF assms(2) released] obtain c t where
    s: "bk_seal bk (secret_bytes key) (hd_nonce h) encoded p = Some (c, t)" "sealed = c @ t" by blast
  then have "length c = length p" "length t = 16" using assms(1) by (auto simp: sized_backend_def)
  with parse key s envelope_header_encode_length [of h encoded] show ?thesis
    by (intro exI [of _ h] exI [of _ encoded] exI [of _ c] exI [of _ t] exI [of _ shared] exI [of _ key])
       (auto simp: object_parse_eq_Inr)
qed

theorem envelope_authentic_witness:
  "\<exists>object. decrypt sample_backend (sample_decrypt object) = Inr [10, 20, 30] \<and>
     (\<exists>h encoded (key :: Content Secret). envelope_header_encode h = Inr encoded \<and>
        object = encoded @ [10, 20, 30] @ pad 16 (secret_bytes key))"
proof -
  obtain object where e: "encrypt sample_backend sample_fill sample_encrypt 1 = (Inr object, 3)"
    using sample_encrypts by blast
  obtain e h encoded sealed key shared where
    parse: "object_parse object (eq_limits sample_encrypt)
      = Inr \<lparr>pj_header = h, pj_encoded_header = encoded, pj_sealed = sealed\<rparr>"
    and h: "hd_recipient_id h = rc_identity_id (eq_recipient sample_encrypt)"
      "hd_recipient_key h = rc_encryption_public_key (eq_recipient sample_encrypt)"
      "hd_ephemeral_key h = bk_agreement_public sample_backend e"
    and key: "agree sample_backend e (rc_encryption_public_key (eq_recipient sample_encrypt)) = Inr shared"
      "envelope_derive sample_backend shared (take 124 encoded) = Inr key"
    and seal: "seal sample_backend key (hd_nonce h) (eq_plaintext sample_encrypt) encoded
      (ol_object (eq_limits sample_encrypt)) = Inr sealed"
    using sample_backend_laws(1) sample_fill_sized e by (rule encrypted_parts)
  have "agree_persistent sample_backend (Secret [7]) (hd_ephemeral_key h) = Inr shared"
    using key(1) agree_commutes [OF sample_backend_laws(3,1), of e "[7]"]
    by (simp add: agree_persistent_def h(3) sample_encrypt_def sample_recipient_def sample_backend_def)
  moreover have "unseal sample_backend key (hd_nonce h) sealed encoded (ol_object (eq_limits sample_encrypt))
      = Inr (eq_plaintext sample_encrypt)"
    by (rule unseal_seal [OF sample_backend_laws(2,1) seal]) (simp add: sample_backend_def)
  ultimately have d: "decrypt sample_backend (sample_decrypt object) = Inr [10, 20, 30]"
    using parse h(1,2) key(2) by (simp add: decrypt_eq_Inr sample_decrypt_def sample_encrypt_def)
  have "dq_object (sample_decrypt object) = object" by (simp add: sample_decrypt_def)
  with envelope_authentic [OF sample_backend_laws(1,2) d] d show ?thesis
    by (intro exI [of _ object]) (auto simp: sample_backend_simps)
qed

end
