(* ===== verification/Provider.thy ===== *)
theory Provider
  imports Envelope
begin

text \<open>
  The owners of the primitives: protected identity keys (\<open>identity_keys.rs\<close>) and the bounded provider
  (\<open>provider.rs\<close>), which holds an entropy source and one immutable byte ceiling.

  The lemmas show that a credential derived from identity keys always validates, that import
  inverts export into a sink, and that a provider object is bounded by both ceilings.
\<close>

section \<open>Identity keys\<close>

text \<open>A protected sink: its authorization check, and the acceptance of both private inputs together.\<close>

record 'k ProtectedKeySink =
  ps_authorize :: "'k \<Rightarrow> (CryptoError, unit) result"
  ps_store_pair :: "bytes \<Rightarrow> bytes \<Rightarrow> 'k \<Rightarrow> (CryptoError, unit) result \<times> 'k"

record IdentityKeys =
  ik_signing :: "Signing Secret"
  ik_encryption :: "Persistent Secret"

definition identity_keys_generate ::
    "Backend \<Rightarrow> 'n entropy \<Rightarrow> 'n \<Rightarrow> (CryptoError, IdentityKeys) result \<times> 'n" where
  "identity_keys_generate bk fill g =
     and_thread (signing_key bk fill g) (\<lambda>signing g.
     and_thread (persistent_key bk fill g) (\<lambda>encryption g.
     (Inr \<lparr>ik_signing = kp_private_key signing, ik_encryption = kp_private_key encryption\<rparr>, g)))"

definition identity_keys_import :: "bytes \<Rightarrow> bytes \<Rightarrow> (CryptoError, IdentityKeys) result" where
  "identity_keys_import signing encryption =
     (if length signing \<noteq> 32 \<or> length encryption \<noteq> 32 then Inl Ce_InvalidInput
      else Inr \<lparr>ik_signing = Secret signing, ik_encryption = Secret encryption\<rparr>)"

definition identity_keys_credential ::
    "Backend \<Rightarrow> IdentityKeys \<Rightarrow> (CryptoError, RecipientCredential) result" where
  "identity_keys_credential bk keys =
     (let signing_public_key = bk_signing_public bk (secret_bytes (ik_signing keys));
          encryption_public_key = bk_agreement_public bk (secret_bytes (ik_encryption keys))
      in and_then (identity_id bk signing_public_key) (\<lambda>i.
         and_then (bind bk (ik_signing keys) encryption_public_key) (\<lambda>b.
         Inr \<lparr>rc_identity_id = i, rc_signing_public_key = signing_public_key,
              rc_encryption_public_key = encryption_public_key, rc_binding_signature = b\<rparr>)))"

definition identity_keys_store ::
    "'k ProtectedKeySink \<Rightarrow> IdentityKeys \<Rightarrow> 'k \<Rightarrow> (CryptoError, unit) result \<times> 'k" where
  "identity_keys_store sink keys k =
     and_thread (ps_authorize sink k, k) (\<lambda>_.
     ps_store_pair sink (secret_bytes (ik_signing keys)) (secret_bytes (ik_encryption keys)))"

definition keys_sized :: "IdentityKeys \<Rightarrow> bool" where
  "keys_sized keys \<longleftrightarrow>
     length (secret_bytes (ik_signing keys)) = 32 \<and> length (secret_bytes (ik_encryption keys)) = 32"

lemma import_keys:
  "keys_sized keys \<Longrightarrow>
     identity_keys_import (secret_bytes (ik_signing keys)) (secret_bytes (ik_encryption keys)) = Inr keys"
  by (simp add: identity_keys_import_def keys_sized_def)

lemma import_sized: "identity_keys_import s e = Inr keys \<Longrightarrow> keys_sized keys"
  by (auto simp: identity_keys_import_def keys_sized_def split: if_splits)

lemma generate_sized:
  assumes "sized_entropy fill" "identity_keys_generate bk fill g = (Inr keys, g')"
  shows "keys_sized keys"
  using assms random_bytes_length [OF assms(1)]
  by (auto simp: identity_keys_generate_def and_thread_eq_Inr signing_key_eq_Inr persistent_key_def
      agreement_key_eq_Inr keys_sized_def)

text \<open>The credential of a pair of keys, which always exists.\<close>

definition credential_of :: "Backend \<Rightarrow> IdentityKeys \<Rightarrow> RecipientCredential" where
  "credential_of bk keys =
     \<lparr>rc_identity_id = bk_sha256 bk ([1, 1] @ bk_signing_public bk (secret_bytes (ik_signing keys))),
      rc_signing_public_key = bk_signing_public bk (secret_bytes (ik_signing keys)),
      rc_encryption_public_key = bk_agreement_public bk (secret_bytes (ik_encryption keys)),
      rc_binding_signature = bk_sign bk (secret_bytes (ik_signing keys))
        (BINDING_PREFIX @ bk_agreement_public bk (secret_bytes (ik_encryption keys)))\<rparr>"

lemma identity_keys_credential_eq:
  "sized_backend bk \<Longrightarrow> identity_keys_credential bk keys = Inr (credential_of bk keys)"
  by (simp add: identity_keys_credential_def credential_of_def identity_id_eq bind_eq sized_backend_def Let_def)

lemma credential_of_sized: "sized_backend bk \<Longrightarrow> credential_sized (credential_of bk keys)"
  by (simp add: credential_of_def credential_sized_def sized_backend_def)

lemma credential_of_valid:
  assumes "sized_backend bk" "verifying bk"
  shows "credential_validate bk (credential_of bk keys)
    = Inr \<lparr>vr_identity_id = rc_identity_id (credential_of bk keys),
           vr_encryption_public_key = rc_encryption_public_key (credential_of bk keys)\<rparr>"
proof -
  have "verify bk (bk_signing_public bk s) m (bk_sign bk s m) BINDING_BYTES = Inr ()"
    if "length m = BINDING_BYTES" for s m
    using verify_sign [OF assms(2,1), of s m BINDING_BYTES "bk_sign bk s m" BINDING_BYTES] that
    by (simp add: sign_def)
  then show ?thesis
    using assms(1) by (simp add: credential_validate_eq_Inr credential_of_def BINDING_BYTES_def sized_backend_def)
qed

section \<open>The provider\<close>

record 'n Provider =
  pv_entropy :: 'n
  pv_maximum_bytes :: usize

definition provider_new :: "'n \<Rightarrow> usize \<Rightarrow> (CryptoError, 'n Provider) result" where
  "provider_new g maximum_bytes =
     and_then (object_limits_new maximum_bytes maximum_bytes)
       (\<lambda>_. Inr \<lparr>pv_entropy = g, pv_maximum_bytes = maximum_bytes\<rparr>)"

text \<open>A method that draws randomness changes the entropy source alone.\<close>

definition with_entropy :: "('n \<Rightarrow> 'a \<times> 'n) \<Rightarrow> 'n Provider \<Rightarrow> 'a \<times> 'n Provider" where
  "with_entropy f p = (case f (pv_entropy p) of (r, g) \<Rightarrow> (r, p\<lparr>pv_entropy := g\<rparr>))"

definition provider_hello_nonce :: "'n entropy \<Rightarrow> 'n Provider \<Rightarrow> (CryptoError, bytes) result \<times> 'n Provider" where
  "provider_hello_nonce fill = with_entropy (random_bytes fill 32)"

definition provider_bounded :: "'n Provider \<Rightarrow> ObjectLimits \<Rightarrow> (CryptoError, ObjectLimits) result" where
  "provider_bounded p limits =
     object_limits_new (min (ol_plaintext limits) (pv_maximum_bytes p)) (min (ol_object limits) (pv_maximum_bytes p))"

definition provider_sha256 :: "Backend \<Rightarrow> 'n Provider \<Rightarrow> bytes \<Rightarrow> (CryptoError, bytes) result" where
  "provider_sha256 bk p bs = sha256 bk bs (pv_maximum_bytes p)"

definition provider_signing_key ::
    "Backend \<Rightarrow> 'n entropy \<Rightarrow> 'n Provider \<Rightarrow> (CryptoError, Signing Secret KeyPair) result \<times> 'n Provider" where
  "provider_signing_key bk fill = with_entropy (signing_key bk fill)"

definition provider_sign ::
    "Backend \<Rightarrow> 'n Provider \<Rightarrow> Signing Secret \<Rightarrow> bytes \<Rightarrow> (CryptoError, bytes) result" where
  "provider_sign bk p key message = sign bk key message (pv_maximum_bytes p)"

definition provider_verify ::
    "Backend \<Rightarrow> 'n Provider \<Rightarrow> bytes \<Rightarrow> bytes \<Rightarrow> bytes \<Rightarrow> (CryptoError, unit) result" where
  "provider_verify bk p public_key message signature = verify bk public_key message signature (pv_maximum_bytes p)"

definition provider_persistent_key ::
    "Backend \<Rightarrow> 'n entropy \<Rightarrow> 'n Provider \<Rightarrow> (CryptoError, Persistent Secret KeyPair) result \<times> 'n Provider" where
  "provider_persistent_key bk fill = with_entropy (persistent_key bk fill)"

definition provider_ephemeral_key ::
    "Backend \<Rightarrow> 'n entropy \<Rightarrow> 'n Provider \<Rightarrow> (CryptoError, Ephemeral Secret KeyPair) result \<times> 'n Provider" where
  "provider_ephemeral_key bk fill = with_entropy (ephemeral_key bk fill)"

definition provider_agree_ephemeral ::
    "Backend \<Rightarrow> 'n Provider \<Rightarrow> Ephemeral Secret \<Rightarrow> bytes \<Rightarrow> (CryptoError, Shared Secret) result" where
  "provider_agree_ephemeral bk p key remote = agree_ephemeral bk key remote"

definition provider_agree_persistent ::
    "Backend \<Rightarrow> 'n Provider \<Rightarrow> Persistent Secret \<Rightarrow> bytes \<Rightarrow> (CryptoError, Shared Secret) result" where
  "provider_agree_persistent bk p key remote = agree_persistent bk key remote"

definition provider_encrypt ::
    "Backend \<Rightarrow> 'n entropy \<Rightarrow> EncryptRequest \<Rightarrow> 'n Provider \<Rightarrow> (CryptoError, bytes) result \<times> 'n Provider" where
  "provider_encrypt bk fill rq p =
     (case provider_bounded p (eq_limits rq) of
        Inl e \<Rightarrow> (Inl e, p)
      | Inr limits \<Rightarrow> with_entropy (encrypt bk fill (rq\<lparr>eq_limits := limits\<rparr>)) p)"

definition provider_decrypt :: "Backend \<Rightarrow> DecryptRequest \<Rightarrow> 'n Provider \<Rightarrow> (CryptoError, bytes) result" where
  "provider_decrypt bk rq p =
     and_then (provider_bounded p (dq_limits rq)) (\<lambda>limits. decrypt bk (rq\<lparr>dq_limits := limits\<rparr>))"

lemma with_entropy_eq:
  "with_entropy f p = (r, p') \<longleftrightarrow> (\<exists>g. f (pv_entropy p) = (r, g) \<and> p' = p\<lparr>pv_entropy := g\<rparr>)"
  by (auto simp: with_entropy_def split: prod.splits)

lemma provider_new_eq_Inr:
  "provider_new g m = Inr p \<longleftrightarrow> 148 \<le> m \<and> p = \<lparr>pv_entropy = g, pv_maximum_bytes = m\<rparr>"
  by (auto simp: provider_new_def object_limits_new_def and_then_eq_Inr MINIMUM_OBJECT_BYTES_def)

lemma provider_bounded_eq_Inr:
  "provider_bounded p limits = Inr l \<longleftrightarrow>
     0 < ol_plaintext l \<and> 148 \<le> ol_object l \<and>
     l = \<lparr>ol_plaintext = min (ol_plaintext limits) (pv_maximum_bytes p),
          ol_object = min (ol_object limits) (pv_maximum_bytes p)\<rparr>"
  by (auto simp: provider_bounded_def object_limits_new_def MINIMUM_OBJECT_BYTES_def)

end
