(* ===== verification/Transport_Crypto.thy ===== *)
theory Transport_Crypto
  imports Provider Handshake Integrity
begin

text \<open>
  The adapter of \<open>composition/cryptography.rs\<close>: the real provider behind Transport's primitive port.
  The record it builds is an instance of the port of theory Crypto_Ports. The mutable part of a
  provider is its entropy source, which is the state the record threads; the ceiling is fixed when
  the record is built, and no method changes it.

  The lemmas discharge what Transport relies on: widths, exact tags, derivation that does not
  depend on the adapter's state and agreement of ephemeral keys.
\<close>

definition crypto_dependency_error :: "CryptoError \<Rightarrow> DependencyError" where
  "crypto_dependency_error e =
     (case e of
        Ce_InvalidInput \<Rightarrow> De_InvalidInput
      | Ce_ResourceLimit \<Rightarrow> De_InvalidInput
      | Ce_AuthenticationFailed \<Rightarrow> De_VerificationFailed
      | Ce_AccessDenied \<Rightarrow> De_Denied
      | Ce_Unavailable \<Rightarrow> De_Unavailable)"

definition tc_random_nonce :: "'n entropy \<Rightarrow> 'n Provider \<Rightarrow> (DependencyError, bytes) result \<times> 'n Provider" where
  "tc_random_nonce fill p =
     (case provider_hello_nonce fill p of (r, p) \<Rightarrow> (map_err crypto_dependency_error r, p))"

definition tc_ephemeral_key ::
    "Backend \<Rightarrow> 'n entropy \<Rightarrow> 'n Provider \<Rightarrow> (DependencyError, bytes \<times> Ephemeral Secret) result \<times> 'n Provider" where
  "tc_ephemeral_key bk fill p =
     (case provider_ephemeral_key bk fill p of (r, p) \<Rightarrow>
        (and_then (map_err crypto_dependency_error r) (\<lambda>key. Inr (kp_public_key key, kp_private_key key)), p))"

definition tc_sha256 :: "Backend \<Rightarrow> 'n Provider \<Rightarrow> bytes \<Rightarrow> (DependencyError, bytes) result" where
  "tc_sha256 bk p bs = map_err crypto_dependency_error (provider_sha256 bk p bs)"

definition tc_verify_signature ::
    "Backend \<Rightarrow> 'n Provider \<Rightarrow> bytes \<Rightarrow> bytes \<Rightarrow> bytes \<Rightarrow> (DependencyError, unit) result" where
  "tc_verify_signature bk p public_key message signature =
     map_err crypto_dependency_error (provider_verify bk p public_key message signature)"

definition tc_agree ::
    "Backend \<Rightarrow> Ephemeral Secret \<Rightarrow> bytes \<Rightarrow> 'n Provider \<Rightarrow> (DependencyError, Shared Secret) result \<times> 'n Provider" where
  "tc_agree bk private_key remote_key p =
     (map_err crypto_dependency_error (provider_agree_ephemeral bk p private_key remote_key), p)"

definition tc_extract ::
    "Backend \<Rightarrow> bytes \<Rightarrow> Shared Secret \<Rightarrow> 'n Provider \<Rightarrow> (DependencyError, Prk Secret) result \<times> 'n Provider" where
  "tc_extract bk salt shared p =
     (map_err crypto_dependency_error (kdf_extract bk salt shared (pv_maximum_bytes p)), p)"

definition tc_expand_key ::
    "Backend \<Rightarrow> Prk Secret \<Rightarrow> bytes \<Rightarrow> 'n Provider
      \<Rightarrow> (DependencyError, IntegrityPurpose Secret) result \<times> 'n Provider" where
  "tc_expand_key bk key info p =
     (map_err crypto_dependency_error (expand_key bk key info (pv_maximum_bytes p)), p)"

definition tc_expand_nonce_prefix ::
    "Backend \<Rightarrow> 'n Provider \<Rightarrow> Prk Secret \<Rightarrow> bytes \<Rightarrow> (DependencyError, bytes) result" where
  "tc_expand_nonce_prefix bk p key info =
     map_err crypto_dependency_error (expand_nonce_prefix bk key info (pv_maximum_bytes p))"

definition tc_tag ::
    "Backend \<Rightarrow> 'n Provider \<Rightarrow> IntegrityPurpose Secret \<Rightarrow> bytes \<Rightarrow> bytes \<Rightarrow> (DependencyError, bytes) result" where
  "tc_tag bk p key n authenticated_data =
     map_err crypto_dependency_error (tag bk key n authenticated_data (pv_maximum_bytes p))"

definition tc_verify_tag ::
    "Backend \<Rightarrow> 'n Provider \<Rightarrow> IntegrityPurpose Secret \<Rightarrow> bytes \<Rightarrow> bytes \<Rightarrow> bytes
      \<Rightarrow> (DependencyError, unit) result" where
  "tc_verify_tag bk p key n authenticated_data t =
     map_err crypto_dependency_error (verify_tag bk key n authenticated_data t (pv_maximum_bytes p))"

text \<open>A method of the provider, as a function of the entropy source it holds.\<close>

definition on_entropy :: "'n Provider \<Rightarrow> ('n Provider \<Rightarrow> 'a \<times> 'n Provider) \<Rightarrow> 'n \<Rightarrow> 'a \<times> 'n" where
  "on_entropy p f g = (case f (p\<lparr>pv_entropy := g\<rparr>) of (r, q) \<Rightarrow> (r, pv_entropy q))"

definition transport_crypto ::
    "Backend \<Rightarrow> 'n entropy \<Rightarrow> 'n Provider
      \<Rightarrow> ('n, Ephemeral Secret, Shared Secret, Prk Secret, IntegrityPurpose Secret) Cryptography" where
  "transport_crypto bk fill p =
     \<lparr>cy_random_nonce = on_entropy p (tc_random_nonce fill),
      cy_ephemeral_key = on_entropy p (tc_ephemeral_key bk fill),
      cy_sha256 = tc_sha256 bk p,
      cy_verify_signature = tc_verify_signature bk p,
      cy_agree = (\<lambda>key remote. on_entropy p (tc_agree bk key remote)),
      cy_extract = (\<lambda>salt shared. on_entropy p (tc_extract bk salt shared)),
      cy_expand_key = (\<lambda>key info. on_entropy p (tc_expand_key bk key info)),
      cy_expand_nonce_prefix = tc_expand_nonce_prefix bk p,
      cy_tag = tc_tag bk p,
      cy_verify_tag = tc_verify_tag bk p\<rparr>"

lemmas tc_defs = tc_random_nonce_def tc_ephemeral_key_def tc_sha256_def tc_verify_signature_def tc_agree_def
  tc_extract_def tc_expand_key_def tc_expand_nonce_prefix_def tc_tag_def tc_verify_tag_def
  provider_hello_nonce_def provider_ephemeral_key_def provider_agree_ephemeral_def on_entropy_def

lemma transport_crypto_sized:
  assumes "sized_backend bk" "sized_entropy fill"
  shows "sized_crypto (transport_crypto bk fill p)"
  using assms random_bytes_length [OF assms(2)]
  by (fastforce simp: sized_crypto_def transport_crypto_def tc_defs with_entropy_def ephemeral_key_def
      agreement_key_def and_thread_def sized_backend_def and_then_eq_Inr split: prod.splits sum.splits)

lemma transport_crypto_exact:
  assumes "sized_backend bk" "exact_sealing bk"
  shows "exact_tags (transport_crypto bk fill p)"
  using verify_tag_exact [OF assms(2,1)] by (simp add: exact_tags_def transport_crypto_def tc_defs)

lemma transport_crypto_deterministic: "deterministic_derivation (transport_crypto bk fill p)"
  by (simp add: deterministic_derivation_def transport_crypto_def tc_defs)

text \<open>No method changes the ceiling, so the entropy source is all there is to thread.\<close>

lemma tc_ceiling:
  "pv_maximum_bytes (snd (tc_random_nonce fill p)) = pv_maximum_bytes p"
  "pv_maximum_bytes (snd (tc_ephemeral_key bk fill p)) = pv_maximum_bytes p"
  "snd (tc_agree bk key remote p) = p" "snd (tc_extract bk salt shared p) = p"
  "snd (tc_expand_key bk prk info p) = p"
  by (simp_all add: tc_defs with_entropy_def split: prod.splits)

text \<open>Ephemeral pairs generated by the provider agree.\<close>

lemma transport_crypto_agreement:
  assumes "sized_backend bk" "commuting bk"
    "cy_ephemeral_key (transport_crypto bk fill p) q = (Inr (pub_a, a), q')"
    "cy_ephemeral_key (transport_crypto bk fill p) r = (Inr (pub_b, b), r')"
  shows "agreement (transport_crypto bk fill p) a pub_a b pub_b"
proof -
  have pair: "pub = bk_agreement_public bk (secret_bytes s)"
    if "cy_ephemeral_key (transport_crypto bk fill p) q = (Inr (pub, s), q')" for q pub s q'
    using that by (auto simp: transport_crypto_def tc_defs ephemeral_key_def agreement_key_eq_Inr with_entropy_eq
        and_then_eq_Inr split: prod.splits)
  show ?thesis
    using agree_commutes [OF assms(2,1), of "secret_bytes a" "secret_bytes b"]
    by (simp add: agreement_def transport_crypto_def tc_defs agree_ephemeral_def pair [OF assms(3)]
        pair [OF assms(4)])
qed

lemma transport_crypto_tags:
  assumes "sized_backend bk" "HEADER_BYTES + MAX_PAYLOAD_BYTES \<le> pv_maximum_bytes p"
    "bk_cipher bk (secret_bytes (dk_key d))"
    "\<And>n a. length a \<le> HEADER_BYTES + MAX_PAYLOAD_BYTES \<Longrightarrow> bk_seal bk (secret_bytes (dk_key d)) n a [] \<noteq> None"
  shows "tags_available (transport_crypto bk fill p) d"
  using assms by (fastforce simp: tags_available_def transport_crypto_def tc_defs is_ok_iff tag_eq_Inr)

end
