(* ===== verification/Identity_Api.thy ===== *)
theory Identity_Api
  imports Provider "HOL-Library.List_Lexorder"
begin

text \<open>
  The vocabulary of \<open>modules/identity\<close>: errors (\<open>error.rs\<close>) and their relation to Cryptography's
  (\<open>crypto.rs\<close>), budgets (\<open>config.rs\<close>), public snapshots (\<open>api.rs\<close>), and the canonical text of an
  identity (\<open>text.rs\<close>).

  The text codec is shown to be exact: parsing accepts the canonical text of an identity up to the
  case of its Base32 letters, and nothing else.
\<close>

unbundle bit_operations_syntax

section \<open>Errors and budgets\<close>

datatype IdentityError =
    Iy_InvalidInput | Iy_Unsupported | Iy_IdentityMismatch | Iy_InvalidProof | Iy_AccessDenied
  | Iy_Unavailable | Iy_ResourceLimit | Iy_Conflict | Iy_OutcomeUnknown

definition identity_error :: "CryptoError \<Rightarrow> IdentityError" where
  "identity_error e =
     (case e of
        Ce_InvalidInput \<Rightarrow> Iy_InvalidInput
      | Ce_AuthenticationFailed \<Rightarrow> Iy_InvalidProof
      | Ce_AccessDenied \<Rightarrow> Iy_AccessDenied
      | Ce_Unavailable \<Rightarrow> Iy_Unavailable
      | Ce_ResourceLimit \<Rightarrow> Iy_ResourceLimit)"

text \<open>The \<open>?\<close> operator on a Cryptography result in an Identity operation.\<close>

abbreviation lifted :: "(CryptoError, 'a) result \<Rightarrow> (IdentityError, 'a) result" where
  "lifted \<equiv> map_err identity_error"

record Limits =
  lm_text_bytes :: usize
  lm_contacts :: usize
  lm_signing_bytes :: usize
  lm_envelope_bytes :: usize
  lm_record_bytes :: usize

definition limits_new :: "usize \<Rightarrow> usize \<Rightarrow> usize \<Rightarrow> usize \<Rightarrow> usize \<Rightarrow> (IdentityError, Limits) result" where
  "limits_new text_bytes contacts signing_bytes envelope_bytes record_bytes =
     (if text_bytes < 58 \<or> contacts = 0 \<or> signing_bytes = 0 \<or> envelope_bytes < 148 \<or> record_bytes = 0
      then Inl Iy_InvalidInput
      else Inr \<lparr>lm_text_bytes = text_bytes, lm_contacts = contacts, lm_signing_bytes = signing_bytes,
                lm_envelope_bytes = envelope_bytes, lm_record_bytes = record_bytes\<rparr>)"

section \<open>Public snapshots\<close>

text \<open>The binary identifier, ordered as its bytes are.\<close>

datatype Identity_Id = Identity_Id (id_bytes: bytes)

instantiation Identity_Id :: linorder
begin
definition less_eq_Identity_Id :: "Identity_Id \<Rightarrow> Identity_Id \<Rightarrow> bool" where
  "less_eq_Identity_Id a b \<longleftrightarrow> id_bytes a \<le> id_bytes b"
definition less_Identity_Id :: "Identity_Id \<Rightarrow> Identity_Id \<Rightarrow> bool" where
  "less_Identity_Id a b \<longleftrightarrow> id_bytes a < id_bytes b"
instance
  by standard (auto simp: less_eq_Identity_Id_def less_Identity_Id_def Identity_Id.expand)
end

record LocalIdentity =
  li_id :: Identity_Id
  li_signing_public_key :: bytes

record PublicCredential =
  pc_identity :: LocalIdentity
  pc_encryption_public_key :: bytes
  pc_binding_signature :: bytes

definition CONTRACT_VERSION :: u16 where
  "CONTRACT_VERSION = 1"

definition validate_contract :: "u16 \<Rightarrow> (IdentityError, unit) result" where
  "validate_contract version = (if version \<noteq> CONTRACT_VERSION then Inl Iy_Unsupported else Inr ())"

section \<open>Identity text\<close>

definition ALPHABET :: bytes where
  "ALPHABET = ascii ''ABCDEFGHIJKLMNOPQRSTUVWXYZ234567''"

text \<open>The inner loop of the formatter: symbols of five bits while there are five.\<close>

fun format_symbols :: "u16 \<Rightarrow> nat \<Rightarrow> bytes \<Rightarrow> bytes \<times> nat" where
  "format_symbols accumulator bits out =
     (if bits \<ge> 5
      then format_symbols accumulator (bits - 5)
             (out @ [ALPHABET ! unat (drop_bit (bits - 5) accumulator AND 31)])
      else (out, bits))"

declare format_symbols.simps [simp del]

definition format_byte :: "byte \<Rightarrow> bytes \<times> u16 \<times> nat \<Rightarrow> bytes \<times> u16 \<times> nat" where
  "format_byte b = (\<lambda>(out, accumulator, bits).
     let accumulator = push_bit 8 accumulator OR ucast b;
         (out, bits) = format_symbols accumulator (bits + 8) out
     in (out, accumulator AND (push_bit bits 1 - 1), bits))"

definition text_format :: "Identity_Id \<Rightarrow> bytes" where
  "text_format i =
     (let (out, accumulator, bits) = fold format_byte (id_bytes i) (ascii ''cr2se:'', 0, 0)
      in if bits \<noteq> 0 then out @ [ALPHABET ! unat (push_bit (5 - bits) accumulator)] else out)"

definition base32_value :: "byte \<Rightarrow> byte option" where
  "base32_value b =
     (if in_range 65 90 b then Some (b - 65)
      else if in_range 97 122 b then Some (b - 97)
      else if in_range 50 55 b then Some (b - 50 + 26)
      else None)"

definition parse_symbol ::
    "byte \<Rightarrow> bytes \<times> nat \<times> u16 \<times> nat \<Rightarrow> (IdentityError, bytes \<times> nat \<times> u16 \<times> nat) result" where
  "parse_symbol b = (\<lambda>(bs, offset, accumulator, bits).
     and_then (ok_or Iy_InvalidInput (base32_value b)) (\<lambda>v.
     let accumulator = push_bit 5 accumulator OR ucast v; bits = bits + 5
     in if bits \<ge> 8
        then let bits = bits - 8
             in Inr (bs[offset := ucast (drop_bit bits accumulator)], offset + 1,
                     accumulator AND (push_bit bits 1 - 1), bits)
        else Inr (bs, offset, accumulator, bits)))"

fun parse_symbols ::
    "bytes \<Rightarrow> bytes \<times> nat \<times> u16 \<times> nat \<Rightarrow> (IdentityError, bytes \<times> nat \<times> u16 \<times> nat) result" where
  "parse_symbols [] st = Inr st"
| "parse_symbols (b # rest) st = and_then (parse_symbol b st) (parse_symbols rest)"

definition text_parse :: "bytes \<Rightarrow> (IdentityError, Identity_Id) result" where
  "text_parse t =
     (if length t \<noteq> 58 \<or> take 6 t \<noteq> ascii ''cr2se:'' then Inl Iy_InvalidInput else
      and_then (parse_symbols (drop 6 t) (replicate 32 0, 0, 0, 0)) (\<lambda>(bs, offset, accumulator, bits).
      if accumulator \<noteq> 0 then Inl Iy_InvalidInput else Inr (Identity_Id bs)))"

definition text_normalize :: "bytes \<Rightarrow> (IdentityError, bytes) result" where
  "text_normalize t = and_then (text_parse t) (\<lambda>i. Inr (text_format i))"

subsection \<open>The arithmetic of the codec\<close>

text \<open>The number a list of symbol values denotes.\<close>

definition val32 :: "nat list \<Rightarrow> nat" where
  "val32 vs = fold (\<lambda>v n. n * 32 + v) vs 0"

lemma val32_simps [simp]: "val32 [] = 0" "val32 (vs @ [v]) = val32 vs * 32 + v"
  by (simp_all add: val32_def)

lemma val32_bound: "\<forall>v \<in> set vs. v < 32 \<Longrightarrow> val32 vs < 32 ^ length vs"
  by (induction vs rule: rev_induct) auto

lemma val32_inject:
  "length vs = length ws \<Longrightarrow> \<forall>v \<in> set vs. v < 32 \<Longrightarrow> \<forall>w \<in> set ws. w < 32 \<Longrightarrow> val32 vs = val32 ws \<Longrightarrow> vs = ws"
proof (induction vs arbitrary: ws rule: rev_induct)
  case (snoc v vs)
  obtain w ws' where ws: "ws = ws' @ [w]" using snoc.prems(1) by (cases ws rule: rev_cases) auto
  have "(val32 vs * 32 + v) div 32 = (val32 ws' * 32 + w) div 32"
    "(val32 vs * 32 + v) mod 32 = (val32 ws' * 32 + w) mod 32" using snoc.prems(4) ws by simp_all
  then have "val32 vs = val32 ws'" "v = w" using snoc.prems(2,3) ws by auto
  with snoc.IH [of ws'] snoc.prems ws show ?case by auto
qed simp

lemma or_is_add:
  assumes "b < 2 ^ n"
  shows "push_bit n a OR b = a * 2 ^ n + (b :: nat)"
proof -
  have "\<not> bit (push_bit n a) i \<or> \<not> bit b i" for i
  proof (cases "i < n")
    case False
    then have "b < 2 ^ i" using assms by (meson less_le_trans not_less one_le_numeral power_increasing)
    then show ?thesis by (simp add: bit_iff_odd)
  qed (simp add: bit_push_bit_iff_nat)
  from disjunctive_add [OF this] show ?thesis by (simp add: push_bit_eq_mult)
qed

lemma unat_shift_in:
  assumes "unat a < 256" "k \<le> 8" "unat (b :: byte) < 2 ^ k"
  shows "unat (push_bit k a OR ucast b :: u16) = unat a * 2 ^ k + unat b"
proof -
  have "(2 :: nat) ^ k \<le> 2 ^ 8" using assms(2) by (intro power_increasing) simp_all
  then have "unat a * 2 ^ k \<le> 255 * 2 ^ 8" using assms(1) by (intro mult_le_mono) simp_all
  then have "unat (push_bit k a) = push_bit k (unat a)"
    unfolding unsigned_push_bit_eq by (simp add: take_bit_eq_mod push_bit_eq_mult)
  moreover have "unat (ucast b :: u16) = unat b"
    using unat_byte_less [of b] by (simp add: unsigned_ucast_eq take_bit_eq_mod)
  ultimately show ?thesis using or_is_add [OF assms(3), of "unat a"] by (simp only: unsigned_or_eq)
qed

lemma unat_low_bits: "unat ((a :: u16) AND (2 ^ k - 1)) = unat a mod 2 ^ k"
proof -
  have "2 ^ k - 1 = (mask k :: u16)" by (simp add: mask_eq_exp_minus_1)
  then have "a AND (2 ^ k - 1) = take_bit k a" by (simp only: take_bit_eq_mask)
  then have "unat (a AND (2 ^ k - 1)) = take_bit k (unat a)" by (simp only: unsigned_take_bit_eq)
  then show ?thesis by (simp add: take_bit_eq_mod)
qed

lemma unat_five_bits: "unat (drop_bit k (a :: u16) AND 31) = unat a div 2 ^ k mod 32"
proof -
  have "(31 :: u16) = mask 5" by (simp add: mask_eq_exp_minus_1)
  then have "drop_bit k a AND 31 = take_bit 5 (drop_bit k a)" by (simp only: take_bit_eq_mask)
  then have "unat (drop_bit k a AND 31) = take_bit 5 (drop_bit k (unat a))"
    by (simp only: unsigned_take_bit_eq unat_drop_bit_eq)
  then show ?thesis by (simp add: take_bit_eq_mod drop_bit_eq_div)
qed

subsection \<open>Formatting writes the digits\<close>

text \<open>
  What the formatter has written after some bytes: the symbols \<open>vs\<close>, and the bits still to be written
  in the accumulator.
\<close>

definition formatted :: "nat \<Rightarrow> nat \<Rightarrow> bytes \<Rightarrow> nat \<Rightarrow> nat \<Rightarrow> bool" where
  "formatted n count out rest bits \<longleftrightarrow>
     (\<exists>vs. out = ascii ''cr2se:'' @ map ((!) ALPHABET) vs \<and> (\<forall>v \<in> set vs. v < 32) \<and>
        n = val32 vs * 2 ^ bits + rest \<and> rest < 2 ^ bits \<and> count = 5 * length vs + bits)"

lemma formatted_symbols:
  "formatted n count out (unat acc mod 2 ^ bits) bits \<Longrightarrow> format_symbols acc bits out = (out', bits') \<Longrightarrow>
     formatted n count out' (unat acc mod 2 ^ bits') bits' \<and> bits' < 5"
proof (induction acc bits out rule: format_symbols.induct)
  case (1 acc bits out)
  show ?case
  proof (cases "bits \<ge> 5")
    case True
    define v where "v = unat acc div 2 ^ (bits - 5) mod 32"
    have "(2 :: nat) ^ bits = 2 ^ (bits - 5) * 32"
      using True power_add [of "2 :: nat" "bits - 5" 5] by simp
    then have split: "unat acc mod 2 ^ bits = v * 2 ^ (bits - 5) + unat acc mod 2 ^ (bits - 5)"
      and pow: "(2 :: nat) ^ bits = 32 * 2 ^ (bits - 5)"
      by (simp_all add: v_def mod_mult2_eq)
    from 1(2) obtain vs where vs: "out = ascii ''cr2se:'' @ map ((!) ALPHABET) vs" "\<forall>v \<in> set vs. v < 32"
      "n = val32 vs * 2 ^ bits + unat acc mod 2 ^ bits" "count = 5 * length vs + bits"
      unfolding formatted_def by blast
    have "n = val32 vs * 2 ^ bits + (v * 2 ^ (bits - 5) + unat acc mod 2 ^ (bits - 5))"
      using vs(3) by (simp only: split)
    then have "n = val32 (vs @ [v]) * 2 ^ (bits - 5) + unat acc mod 2 ^ (bits - 5)"
      by (simp add: pow algebra_simps)
    moreover have "v < 32" by (simp add: v_def)
    ultimately have "formatted n count (out @ [ALPHABET ! v]) (unat acc mod 2 ^ (bits - 5)) (bits - 5)"
      using vs(1,2,4) True unfolding formatted_def by (intro exI [of _ "vs @ [v]"]) auto
    then show ?thesis
      using 1(1) True 1(3) by (simp add: format_symbols.simps [of acc bits] unat_five_bits v_def)
  next
    case False
    then show ?thesis using 1(2,3) by (simp add: format_symbols.simps)
  qed
qed

lemma formatted_byte:
  assumes "formatted n count out (unat acc) bits" "bits < 5" "format_byte b (out, acc, bits) = (out', acc', bits')"
  shows "formatted (n * 256 + unat b) (count + 8) out' (unat acc') bits' \<and> bits' < 5"
proof -
  let ?acc = "push_bit 8 acc OR ucast b"
  from assms(1) obtain vs where vs: "out = ascii ''cr2se:'' @ map ((!) ALPHABET) vs" "\<forall>v \<in> set vs. v < 32"
    "n = val32 vs * 2 ^ bits + unat acc" "unat acc < 2 ^ bits" "count = 5 * length vs + bits"
    unfolding formatted_def by blast
  have "(2 :: nat) ^ bits \<le> 2 ^ 5" using assms(2) by (intro power_increasing) simp_all
  then have acc: "unat ?acc = unat acc * 256 + unat b"
    using unat_shift_in [of acc 8 b] vs(4) unat_byte_less [of b] by simp
  then have less: "unat ?acc < 2 ^ (bits + 8)" using vs(4) unat_byte_less [of b] by (simp add: power_add)
  then have "formatted (n * 256 + unat b) (count + 8) out (unat ?acc mod 2 ^ (bits + 8)) (bits + 8)"
    unfolding formatted_def acc using vs by (intro exI [of _ vs]) (auto simp: power_add algebra_simps)
  then show ?thesis
    using assms(3) formatted_symbols [of "n * 256 + unat b" "count + 8" out ?acc "bits + 8"]
    by (auto simp: format_byte_def unat_low_bits Let_def split: prod.splits)
qed

lemma formatted_bytes:
  "formatted n count out (unat acc) bits \<Longrightarrow> bits < 5 \<Longrightarrow> fold format_byte bs (out, acc, bits) = (out', acc', bits') \<Longrightarrow>
     formatted (fold (\<lambda>b n. n * 256 + unat b) bs n) (count + 8 * length bs) out' (unat acc') bits' \<and> bits' < 5"
proof (induction bs arbitrary: n count out acc bits)
  case (Cons b bs)
  obtain o1 a1 b1 where step: "format_byte b (out, acc, bits) = (o1, a1, b1)" by (cases "format_byte b (out, acc, bits)") auto
  with Cons.IH [of "n * 256 + unat b" "count + 8" o1 a1 b1] formatted_byte [OF Cons.prems(1,2) step] Cons.prems(3)
  show ?case by (simp add: add.assoc)
qed simp

text \<open>The text of an identity: its 52 symbols denote sixteen times the number its bytes denote.\<close>

lemma text_format_symbols:
  assumes "length bs = 32"
  obtains vs where "text_format (Identity_Id bs) = ascii ''cr2se:'' @ map ((!) ALPHABET) vs"
    "length vs = 52" "\<forall>v \<in> set vs. v < 32" "val32 vs = be_val bs * 16"
proof -
  obtain out acc bits where f: "fold format_byte bs (ascii ''cr2se:'', 0, 0) = (out, acc, bits)"
    by (cases "fold format_byte bs (ascii ''cr2se:'', 0, 0)") auto
  have "formatted 0 0 (ascii ''cr2se:'') (unat 0) 0" by (simp add: formatted_def)
  from formatted_bytes [OF this _ f] assms
  obtain vs where vs: "out = ascii ''cr2se:'' @ map ((!) ALPHABET) vs" "\<forall>v \<in> set vs. v < 32"
      "be_val bs = val32 vs * 2 ^ bits + unat acc" "unat acc < 2 ^ bits" "256 = 5 * length vs + bits" "bits < 5"
    unfolding formatted_def be_val_def foldl_conv_fold by auto
  then have n: "bits = 1" "length vs = 51" by presburger+
  then have acc: "unat acc < 2" using vs(4) by simp
  have "unat (push_bit 4 acc) = unat acc * 16"
    unfolding unsigned_push_bit_eq using acc by (simp add: take_bit_eq_mod push_bit_eq_mult)
  then have "text_format (Identity_Id bs) = ascii ''cr2se:'' @ map ((!) ALPHABET) (vs @ [unat acc * 16])"
    using f n vs(1) by (simp add: text_format_def)
  then show ?thesis by (rule that) (use vs n acc in auto)
qed

subsection \<open>Parsing reads them\<close>

definition ascii_upper :: "byte \<Rightarrow> byte" where
  "ascii_upper b = (if in_range 97 122 b then b - 32 else b)"

lemma alphabet_letters: "v < 26 \<Longrightarrow> ALPHABET ! v = of_nat (65 + v)"
proof -
  have "\<forall>v \<in> set [0..<26]. ALPHABET ! v = of_nat (65 + v)" by code_simp
  then show "v < 26 \<Longrightarrow> ?thesis" by (rule bspec) simp
qed

lemma alphabet_digits: "26 \<le> v \<Longrightarrow> v < 32 \<Longrightarrow> ALPHABET ! v = of_nat (24 + v)"
proof -
  have "\<forall>v \<in> set [26..<32]. ALPHABET ! v = of_nat (24 + v)" by code_simp
  then show "26 \<le> v \<Longrightarrow> v < 32 \<Longrightarrow> ?thesis" by (rule bspec) (simp only: set_upt atLeastLessThan_iff)
qed

lemma base32_alphabet:
  assumes "v < 32"
  shows "base32_value (ALPHABET ! v) = Some (of_nat v)" "ascii_upper (ALPHABET ! v) = ALPHABET ! v"
proof -
  have "unat (ALPHABET ! v) = (if v < 26 then 65 + v else 24 + v)"
    using assms alphabet_letters [of v] alphabet_digits [of v] by (simp add: unat_of_nat del: of_nat_add)
  then show "ascii_upper (ALPHABET ! v) = ALPHABET ! v"
    using assms by (simp add: ascii_upper_def in_range_def split: if_splits)
  show "base32_value (ALPHABET ! v) = Some (of_nat v)"
  proof (cases "v < 26")
    case True
    then show ?thesis by (simp add: alphabet_letters base32_value_def in_range_def unat_of_nat del: of_nat_add) simp
  next
    case False
    then show ?thesis using assms
      by (simp add: alphabet_digits base32_value_def in_range_def unat_of_nat del: of_nat_add) simp
  qed
qed

lemma byte_minus: "k \<le> unat b \<Longrightarrow> k < 256 \<Longrightarrow> unat (b - of_nat k :: byte) = unat b - k"
  by (simp add: unat_sub word_le_nat_alt unat_of_nat)

lemma base32_value_upper:
  assumes "base32_value b = Some v"
  shows "unat v < 32" "ascii_upper b = ALPHABET ! unat v"
proof -
  consider (upper) "v = b - of_nat 65" "65 \<le> unat b" "unat b \<le> 90"
    | (lower) "v = b - of_nat 97" "97 \<le> unat b" "unat b \<le> 122"
    | (digit) "v = b - of_nat 24" "50 \<le> unat b" "unat b \<le> 55"
    using assms by (auto simp: base32_value_def in_range_def split: if_splits)
  then have "unat v < 32 \<and> ascii_upper b = ALPHABET ! unat v"
  proof cases
    case upper
    then have u: "unat v = unat b - 65" using byte_minus [of 65 b] by simp
    then have "ALPHABET ! unat v = of_nat (unat b)" using upper(2,3) alphabet_letters [of "unat v"] by simp
    then show ?thesis using u upper(2,3) by (simp add: ascii_upper_def in_range_def)
  next
    case lower
    then have u: "unat v = unat b - 97" using byte_minus [of 97 b] by simp
    moreover have sub: "unat (b - 32) = unat b - 32" using lower(2) byte_minus [of 32 b] by simp
    ultimately have "unat (ALPHABET ! unat v) = unat (b - 32)"
      using lower(2,3) alphabet_letters [of "unat v"] by (simp add: unat_of_nat)
    then have "ALPHABET ! unat v = b - 32" by (simp only: word_unat_eq_iff)
    then show ?thesis using u lower(2,3) by (simp add: ascii_upper_def in_range_def)
  next
    case digit
    then have u: "unat v = unat b - 24" using byte_minus [of 24 b] by simp
    then have "ALPHABET ! unat v = of_nat (unat b)" using digit(2,3) alphabet_digits [of "unat v"] by simp
    then show ?thesis using u digit(2,3) by (simp add: ascii_upper_def in_range_def)
  qed
  then show "unat v < 32" "ascii_upper b = ALPHABET ! unat v" by simp_all
qed

text \<open>
  What the parser holds after some symbols: the bytes written so far and the bits read beyond them.
\<close>

definition parsed :: "nat list \<Rightarrow> bytes \<times> nat \<times> u16 \<times> nat \<Rightarrow> bool" where
  "parsed vs = (\<lambda>(bs, offset, acc, bits).
     length bs = 32 \<and> val32 vs = be_val (take offset bs) * 2 ^ bits + unat acc \<and> unat acc < 2 ^ bits \<and>
     5 * length vs = 8 * offset + bits \<and> bits < 8)"

lemma parsed_symbol:
  assumes "parsed vs st" "length vs < 52" "base32_value b = Some v"
  obtains st' where "parse_symbol b st = Inr st'" "parsed (vs @ [unat v]) st'"
proof -
  obtain bs offset acc bits where st: "st = (bs, offset, acc, bits)" by (cases st) auto
  from assms(1) have p: "length bs = 32" "val32 vs = be_val (take offset bs) * 2 ^ bits + unat acc"
    "unat acc < 2 ^ bits" "5 * length vs = 8 * offset + bits" "bits < 8" by (simp_all add: parsed_def st)
  let ?acc = "push_bit 5 acc OR ucast v"
  have "(2 :: nat) ^ bits \<le> 2 ^ 7" using p(5) by (intro power_increasing) simp_all
  then have acc: "unat ?acc = unat acc * 32 + unat v"
    using unat_shift_in [of acc 5 v] p(3) base32_value_upper(1) [OF assms(3)] by simp
  have all: "val32 (vs @ [unat v]) = be_val (take offset bs) * 2 ^ (bits + 5) + unat ?acc"
    "unat ?acc < 2 ^ (bits + 5)"
    using p(2,3) acc base32_value_upper(1) [OF assms(3)] by (simp_all add: power_add algebra_simps)
  show ?thesis
  proof (cases "bits + 5 \<ge> 8")
    case False
    then have "parse_symbol b st = Inr (bs, offset, ?acc, bits + 5)"
      using assms(3) by (simp add: parse_symbol_def st Let_def)
    then show ?thesis by (rule that) (use p all False in \<open>simp add: parsed_def\<close>)
  next
    case True
    define k where "k = bits + 5 - 8"
    have k: "bits + 5 = k + 8" "k < 8" using True p(5) by (simp_all add: k_def)
    have offset: "offset < 32" using p(4) assms(2) k by simp
    let ?b = "ucast (drop_bit k ?acc) :: byte"
    have small: "unat ?acc div 2 ^ k < 256" using all(2) k by (simp add: power_add less_mult_imp_div_less mult.commute)
    have b: "unat ?b = unat ?acc div 2 ^ k"
      using small unfolding unsigned_ucast_eq unat_drop_bit_eq by (simp add: drop_bit_eq_div take_bit_eq_mod)
    have "take (offset + 1) (bs[offset := ?b]) = take offset bs @ [?b]"
      using offset p(1) by (simp add: take_Suc_conv_app_nth)
    moreover have "unat (?acc AND (2 ^ k - 1)) = unat ?acc mod 2 ^ k" by (rule unat_low_bits)
    moreover have "val32 (vs @ [unat v]) = (be_val (take offset bs) * 256 + unat ?acc div 2 ^ k) * 2 ^ k + unat ?acc mod 2 ^ k"
      using all(1) k(1) div_mult_mod_eq [of "unat ?acc" "2 ^ k"] by (simp add: power_add algebra_simps)
    ultimately have "parsed (vs @ [unat v]) (bs[offset := ?b], offset + 1, ?acc AND (2 ^ k - 1), k)"
      using p(1,4) k b by (simp add: parsed_def)
    moreover have "parse_symbol b st = Inr (bs[offset := ?b], offset + 1, ?acc AND (2 ^ k - 1), k)"
      using assms(3) True by (simp add: parse_symbol_def st Let_def k_def)
    ultimately show ?thesis by (intro that)
  qed
qed

lemma parsed_symbols:
  "parsed vs st \<Longrightarrow> length vs + length ws \<le> 52 \<Longrightarrow> list_all2 (\<lambda>b w. map_option unat (base32_value b) = Some w) bs ws \<Longrightarrow>
     \<exists>st'. parse_symbols bs st = Inr st' \<and> parsed (vs @ ws) st'"
proof (induction bs arbitrary: vs ws st)
  case (Cons b bs)
  then obtain w ws' v where w: "ws = w # ws'" "base32_value b = Some v" "w = unat v"
      "list_all2 (\<lambda>b w. map_option unat (base32_value b) = Some w) bs ws'"
    by (auto simp: list_all2_Cons1)
  obtain st' where "parse_symbol b st = Inr st'" "parsed (vs @ [unat v]) st'"
    using Cons.prems w by (auto elim: parsed_symbol)
  with Cons.IH [of "vs @ [unat v]" st' ws'] Cons.prems(2) w show ?case by simp
qed simp

lemma parse_symbols_values:
  "parse_symbols bs st = Inr st' \<Longrightarrow> \<exists>ws. list_all2 (\<lambda>b w. map_option unat (base32_value b) = Some w) bs ws"
proof (induction bs arbitrary: st)
  case (Cons b bs)
  then obtain st1 where "parse_symbol b st = Inr st1" "parse_symbols bs st1 = Inr st'"
    by (auto simp: and_then_eq_Inr)
  moreover from this(1) obtain v where "base32_value b = Some v"
    by (auto simp: parse_symbol_def and_then_eq_Inr split: prod.splits)
  ultimately show ?case using Cons.IH [of st1] by (auto simp: list_all2_Cons1)
qed auto

lemma symbols_upper:
  "list_all2 (\<lambda>b w. map_option unat (base32_value b) = Some w) bs ws \<Longrightarrow>
     map ascii_upper bs = map ((!) ALPHABET) ws \<and> (\<forall>w \<in> set ws. w < 32)"
  by (induction rule: list_all2_induct) (auto dest: base32_value_upper)

lemma parse_all:
  assumes "list_all2 (\<lambda>b w. map_option unat (base32_value b) = Some w) bs ws" "length ws = 52"
  obtains out acc where "parse_symbols bs (replicate 32 0, 0, 0, 0) = Inr (out, 32, acc, 4)"
    "length out = 32" "val32 ws = be_val out * 16 + unat acc" "unat acc < 16"
proof -
  have "parsed [] (replicate 32 0, 0, 0, 0)" by (simp add: parsed_def)
  from parsed_symbols [OF this _ assms(1)] assms(2)
  obtain out offset acc bits where out: "parse_symbols bs (replicate 32 0, 0, 0, 0) = Inr (out, offset, acc, bits)"
      "parsed ws (out, offset, acc, bits)" by auto
  then have "260 = 8 * offset + bits" "bits < 8" using assms(2) by (simp_all add: parsed_def)
  then have "offset = 32" "bits = 4" by presburger+
  with out show ?thesis using that by (simp add: parsed_def)
qed

lemma format_values:
  assumes "length out = 32" "length ws = 52" "\<forall>w \<in> set ws. w < 32" "val32 ws = be_val out * 16"
  shows "text_format (Identity_Id out) = ascii ''cr2se:'' @ map ((!) ALPHABET) ws"
proof -
  obtain vs where vs: "text_format (Identity_Id out) = ascii ''cr2se:'' @ map ((!) ALPHABET) vs"
    "length vs = 52" "\<forall>v \<in> set vs. v < 32" "val32 vs = be_val out * 16"
    using assms(1) by (rule text_format_symbols)
  then have "ws = vs" using assms by (intro val32_inject) simp_all
  with vs(1) show ?thesis by simp
qed

lemma base32_value_lower: "base32_value (ascii_upper b) = base32_value b"
proof (cases "in_range 97 122 b")
  case True
  then have "unat (b - 32) = unat b - 32" using byte_minus [of 32 b] by (simp add: in_range_def)
  with True have "in_range 65 90 (b - 32)" by (auto simp: in_range_def)
  moreover have "\<not> in_range 65 90 b" "ascii_upper b = b - 32"
    using True by (auto simp: in_range_def ascii_upper_def)
  ultimately show ?thesis using True by (simp add: base32_value_def)
qed (simp add: ascii_upper_def)

lemma upper_symbols:
  assumes "map ascii_upper bs = map ((!) ALPHABET) vs" "\<forall>v \<in> set vs. v < 32"
  shows "list_all2 (\<lambda>b w. map_option unat (base32_value b) = Some w) bs vs"
proof (rule list_all2_all_nthI)
  show "length bs = length vs" using assms(1) map_eq_imp_length_eq by blast
  fix n assume n: "n < length bs"
  then have "ascii_upper (bs ! n) = ALPHABET ! (vs ! n)" "vs ! n < 32"
    using assms \<open>length bs = length vs\<close> by (metis nth_map, auto)
  then have "base32_value (bs ! n) = Some (of_nat (vs ! n))"
    using base32_value_lower [of "bs ! n"] base32_alphabet(1) [of "vs ! n"] by simp
  then show "map_option unat (base32_value (bs ! n)) = Some (vs ! n)"
    using \<open>vs ! n < 32\<close> by (simp add: unat_of_nat)
qed

section \<open>Properties\<close>

text \<open>
  C29: The text of an identity is exact: a text parses to an identity if and only if it is the
  canonical text of that identity, up to the case of the letters after the prefix. Formatting and
  parsing are therefore inverse, and no two identities share a text.
\<close>

theorem identity_text_exact:
  "text_parse t = Inr i \<longleftrightarrow>
     length (id_bytes i) = 32 \<and> take 6 t = ascii ''cr2se:'' \<and>
     take 6 t @ map ascii_upper (drop 6 t) = text_format i"
proof (cases i)
  case (Identity_Id out)
  show ?thesis (is "?l \<longleftrightarrow> ?r")
  proof
    assume ?l
    then obtain offset bits where t: "length t = 58" "take 6 t = ascii ''cr2se:''"
        and p: "parse_symbols (drop 6 t) (replicate 32 0, 0, 0, 0) = Inr (out, offset, 0, bits)"
      by (auto simp: text_parse_def and_then_eq_Inr Identity_Id split: if_splits)
    from parse_symbols_values [OF p] obtain ws where
      ws: "list_all2 (\<lambda>b w. map_option unat (base32_value b) = Some w) (drop 6 t) ws" by blast
    then have len: "length ws = 52" using t(1) list_all2_lengthD by fastforce
    obtain out' acc where "parse_symbols (drop 6 t) (replicate 32 0, 0, 0, 0) = Inr (out', 32, acc, 4)"
      "length out' = 32" "val32 ws = be_val out' * 16 + unat acc" using ws len by (rule parse_all)
    then have "length out = 32" "val32 ws = be_val out * 16" using p by auto
    with format_values [of out ws] len symbols_upper [OF ws] t(2) show ?r by (simp add: Identity_Id)
  next
    assume r: ?r
    then have out: "length out = 32" by (simp add: Identity_Id)
    obtain vs where vs: "text_format (Identity_Id out) = ascii ''cr2se:'' @ map ((!) ALPHABET) vs"
      "length vs = 52" "\<forall>v \<in> set vs. v < 32" "val32 vs = be_val out * 16"
      using out by (rule text_format_symbols)
    then have up: "map ascii_upper (drop 6 t) = map ((!) ALPHABET) vs" using r by (auto simp: Identity_Id)
    then have "length (drop 6 t) = 52" using vs(2) map_eq_imp_length_eq by metis
    then have len: "length t = 58" by simp
    obtain out' acc where p: "parse_symbols (drop 6 t) (replicate 32 0, 0, 0, 0) = Inr (out', 32, acc, 4)"
        "length out' = 32" "val32 vs = be_val out' * 16 + unat acc" "unat acc < 16"
      using upper_symbols [OF up vs(3)] vs(2) by (rule parse_all)
    then have zero: "unat acc = 0" and same: "be_val out' = be_val out" using vs(4) by presburger+
    have "acc = 0" using zero by (simp add: unat_eq_zero)
    moreover have "out' = out" using be_bytes_be_val [OF p(2)] be_bytes_be_val [OF out] unfolding same by (rule trans [OF sym])
    ultimately have "parse_symbols (drop 6 t) (replicate 32 0, 0, 0, 0) = Inr (out, 32, 0, 4)"
      using p(1) by simp
    moreover have "take 6 t = ascii ''cr2se:''" using r by blast
    ultimately show ?l using len by (simp add: text_parse_def Identity_Id del: parse_symbols.simps)
  qed
qed

end
