(* ===== verification/Identity_Authority.thy ===== *)
theory Identity_Authority
  imports Identity_Api
begin

text \<open>
  Local authority and the checked forms of identity data: purpose-scoped capabilities
  (\<open>authority.rs\<close>), identifiers and proofs validated through the cryptographic port (\<open>ports.rs\<close>,
  \<open>crypto.rs\<close>, \<open>id.rs\<close>, \<open>proof.rs\<close>), and the protected credential record (\<open>record.rs\<close>).

  The lemmas show what each check accepts, and that the record of a pair of keys decodes to
  exactly that pair, while a decoded record carries the credential of the keys in it.
\<close>

section \<open>Capabilities\<close>

text \<open>
  The purposes are type arguments, as for secrets. A shared flag is a number that identifies it and its
  value, held by the authority; a capability refers to it by the number. A capability of an
  authority that was dropped refers to a number no authority has.
\<close>

datatype Administration = Administration
datatype ReadPublic = ReadPublic
datatype SignPurpose = SignPurpose
datatype DecryptPurpose = DecryptPurpose
datatype Backup = Backup
datatype Import = Import

datatype 'p Capability =
  Capability (cp_owner: nat) (cp_identity: "Identity_Id option") (cp_maximum_bytes: usize)

record Authority =
  au_owner :: nat
  au_live :: bool

definition authority_new :: "nat \<Rightarrow> Authority" where
  "authority_new fresh = \<lparr>au_owner = fresh, au_live = True\<rparr>"

definition authority_issue :: "Authority \<Rightarrow> Identity_Id option \<Rightarrow> usize \<Rightarrow> (IdentityError, 'p Capability) result" where
  "authority_issue au identity maximum_bytes =
     (if \<not> au_live au then Inl Iy_AccessDenied
      else if maximum_bytes = 0 then Inl Iy_InvalidInput
      else Inr (Capability (au_owner au) identity maximum_bytes))"

definition authority_grant :: "Authority \<Rightarrow> Identity_Id \<Rightarrow> usize \<Rightarrow> (IdentityError, 'p Capability) result" where
  "authority_grant au identity maximum_bytes = authority_issue au (Some identity) maximum_bytes"

definition authority_administration :: "Authority \<Rightarrow> usize \<Rightarrow> (IdentityError, Administration Capability) result" where
  "authority_administration au maximum_bytes = authority_issue au None maximum_bytes"

definition authority_revoke :: "Authority \<Rightarrow> Authority" where
  "authority_revoke au = au\<lparr>au_live := False\<rparr>"

definition check_scope :: "Authority \<Rightarrow> 'p Capability \<Rightarrow> Identity_Id option \<Rightarrow> usize \<Rightarrow> (IdentityError, unit) result" where
  "check_scope au cap identity n =
     (if cp_owner cap \<noteq> au_owner au \<or> \<not> au_live au \<or> cp_identity cap \<noteq> identity then Inl Iy_AccessDenied
      else if n > cp_maximum_bytes cap then Inl Iy_ResourceLimit
      else Inr ())"

definition authority_check :: "Authority \<Rightarrow> 'p Capability \<Rightarrow> Identity_Id \<Rightarrow> usize \<Rightarrow> (IdentityError, unit) result" where
  "authority_check au cap identity n = check_scope au cap (Some identity) n"

definition check_administration :: "Authority \<Rightarrow> Administration Capability \<Rightarrow> usize \<Rightarrow> (IdentityError, unit) result" where
  "check_administration au cap n = check_scope au cap None n"

lemma check_scope_eq_Inr:
  "check_scope au cap identity n = Inr () \<longleftrightarrow>
     au_live au \<and> cp_owner cap = au_owner au \<and> cp_identity cap = identity \<and> n \<le> cp_maximum_bytes cap"
  by (auto simp: check_scope_def)

lemmas authority_simps = authority_issue_def authority_grant_def authority_administration_def
  authority_check_def check_administration_def check_scope_eq_Inr

text \<open>A granted capability passes for its identity and budget, until revocation, and for nothing else.\<close>

lemma grant_check:
  assumes "authority_grant au i m = Inr (cap :: 'p Capability)"
  shows "authority_check au' cap j n = Inr () \<longleftrightarrow> au_live au' \<and> au_owner au' = au_owner au \<and> j = i \<and> n \<le> m"
  using assms by (auto simp: authority_simps split: if_splits)

lemma revoke_denies: "authority_check (authority_revoke au) cap i n = Inl Iy_AccessDenied"
  "check_administration (authority_revoke au) admin n = Inl Iy_AccessDenied"
  "authority_issue (authority_revoke au) identity m = Inl Iy_AccessDenied"
  by (simp_all add: authority_check_def check_administration_def check_scope_def authority_issue_def authority_revoke_def)

section \<open>The cryptographic port and identifiers\<close>

record IdentityCryptography =
  ic_sha256 :: "bytes \<Rightarrow> (IdentityError, bytes) result"
  ic_validate_signing_key :: "bytes \<Rightarrow> (IdentityError, unit) result"
  ic_verify :: "bytes \<Rightarrow> bytes \<Rightarrow> bytes \<Rightarrow> (IdentityError, unit) result"

definition identity_cryptography :: "Backend \<Rightarrow> 'n Provider \<Rightarrow> IdentityCryptography" where
  "identity_cryptography bk p =
     \<lparr>ic_sha256 = (\<lambda>bs. lifted (provider_sha256 bk p bs)),
      ic_validate_signing_key = (\<lambda>bs. lifted (and_then (verification_key_parse bk bs) (\<lambda>_. Inr ()))),
      ic_verify = (\<lambda>key message proof'. lifted (verify bk key message proof' (pv_maximum_bytes p)))\<rparr>"

definition id_derive :: "IdentityCryptography \<Rightarrow> byte \<Rightarrow> byte \<Rightarrow> bytes \<Rightarrow> (IdentityError, Identity_Id) result" where
  "id_derive ic version algorithm key =
     (if version \<noteq> 1 \<or> algorithm \<noteq> 1 then Inl Iy_Unsupported else
      and_then (fixed 32 Iy_InvalidInput key) (\<lambda>key.
      and_then (ic_sha256 ic ([1, 1] @ key)) (\<lambda>d. Inr (Identity_Id d))))"

definition id_validate ::
    "IdentityCryptography \<Rightarrow> byte \<Rightarrow> byte \<Rightarrow> bytes \<Rightarrow> bytes \<Rightarrow> (IdentityError, LocalIdentity) result" where
  "id_validate ic version algorithm key claimed =
     and_then (fixed 32 Iy_InvalidInput claimed) (\<lambda>expected.
     and_then (id_derive ic version algorithm key) (\<lambda>i.
     if id_bytes i \<noteq> expected then Inl Iy_IdentityMismatch else
     and_then (ic_validate_signing_key ic key) (\<lambda>_.
     and_then (fixed 32 Iy_InvalidInput key) (\<lambda>k.
     Inr \<lparr>li_id = i, li_signing_public_key = k\<rparr>))))"

record Proof =
  pr_version :: byte
  pr_algorithm :: byte
  pr_claimed_id :: bytes
  pr_public_key :: bytes
  pr_message :: bytes
  pr_signature :: bytes

definition proof_verify :: "IdentityCryptography \<Rightarrow> Proof \<Rightarrow> usize \<Rightarrow> (IdentityError, LocalIdentity) result" where
  "proof_verify ic pr maximum_bytes =
     (if length (pr_message pr) > maximum_bytes then Inl Iy_ResourceLimit else
      if length (pr_signature pr) \<noteq> 64 then Inl Iy_InvalidInput else
      and_then (id_validate ic (pr_version pr) (pr_algorithm pr) (pr_public_key pr) (pr_claimed_id pr)) (\<lambda>identity.
      and_then (ic_verify ic (pr_public_key pr) (pr_message pr) (pr_signature pr)) (\<lambda>_. Inr identity)))"

lemma id_validate_eq_Inr:
  "id_validate (identity_cryptography bk p) version algorithm key claimed = Inr i \<longleftrightarrow>
     version = 1 \<and> algorithm = 1 \<and> length key = 32 \<and> length claimed = 32 \<and> 34 \<le> pv_maximum_bytes p \<and>
     canonical_point bk key \<and> claimed = bk_sha256 bk ([1, 1] @ key) \<and>
     i = \<lparr>li_id = Identity_Id claimed, li_signing_public_key = key\<rparr>"
  by (auto simp: id_validate_def id_derive_def identity_cryptography_def and_then_eq_Inr provider_sha256_def
      sha256_eq verification_key_parse_eq_Inr split: if_splits)

lemma proof_verify_eq_Inr:
  "proof_verify (identity_cryptography bk p) pr m = Inr i \<longleftrightarrow>
     length (pr_message pr) \<le> m \<and>
     id_validate (identity_cryptography bk p) (pr_version pr) (pr_algorithm pr) (pr_public_key pr) (pr_claimed_id pr) = Inr i \<and>
     verify bk (pr_public_key pr) (pr_message pr) (pr_signature pr) (pv_maximum_bytes p) = Inr ()"
proof -
  have "length (pr_signature pr) = 64"
    if "verify bk (pr_public_key pr) (pr_message pr) (pr_signature pr) (pv_maximum_bytes p) = Inr ()"
    using that by (simp add: verify_eq_Inr)
  then show ?thesis
    by (auto simp: proof_verify_def and_then_eq_Inr identity_cryptography_def not_less split: if_splits)
qed

section \<open>The credential record\<close>

definition MAGIC :: bytes where
  "MAGIC = ascii ''TSID0001''"

definition RECORD_BYTES :: usize where
  "RECORD_BYTES = 232"

datatype CredentialRecord = CredentialRecord (protected_bytes: bytes)

definition from_protected_bytes :: "bytes \<Rightarrow> Limits \<Rightarrow> (IdentityError, CredentialRecord) result" where
  "from_protected_bytes bs limits =
     (if length bs > lm_record_bytes limits then Inl Iy_ResourceLimit
      else if length bs \<noteq> RECORD_BYTES then Inl Iy_InvalidInput
      else if take 8 bs \<noteq> MAGIC then Inl Iy_Unsupported
      else Inr (CredentialRecord bs))"

text \<open>The staging buffer accepts both private inputs together, always.\<close>

definition record_sink :: "bytes ProtectedKeySink" where
  "record_sink =
     \<lparr>ps_authorize = (\<lambda>_. Inr ()),
      ps_store_pair = (\<lambda>signing encryption bs. (Inr (), bs @ signing @ encryption))\<rparr>"

definition record_encode :: "Backend \<Rightarrow> IdentityKeys \<Rightarrow> Limits \<Rightarrow> (IdentityError, CredentialRecord) result" where
  "record_encode bk keys limits =
     (if lm_record_bytes limits < RECORD_BYTES then Inl Iy_ResourceLimit else
      and_then (lifted (identity_keys_credential bk keys)) (\<lambda>public.
      case identity_keys_store record_sink keys MAGIC of
        (Inl e, _) \<Rightarrow> Inl (identity_error e)
      | (Inr _, sink) \<Rightarrow>
          from_protected_bytes
            (sink @ rc_identity_id public @ rc_signing_public_key public @ rc_encryption_public_key public
               @ rc_binding_signature public) limits))"

definition record_decode :: "Backend \<Rightarrow> CredentialRecord \<Rightarrow> (IdentityError, IdentityKeys) result" where
  "record_decode bk r =
     (let bs = protected_bytes r in
      and_then (lifted (identity_keys_import (subslice 8 40 bs) (subslice 40 72 bs))) (\<lambda>keys.
      and_then (lifted (identity_keys_credential bk keys)) (\<lambda>public.
      if subslice 72 104 bs \<noteq> rc_identity_id public \<or> subslice 104 136 bs \<noteq> rc_signing_public_key public
        \<or> subslice 136 168 bs \<noteq> rc_encryption_public_key public \<or> subslice 168 232 bs \<noteq> rc_binding_signature public
      then Inl Iy_IdentityMismatch
      else Inr keys)))"

definition record_len :: "CredentialRecord \<Rightarrow> usize" where
  "record_len r = length (protected_bytes r)"

text \<open>What every constructed record is.\<close>

definition record_valid :: "CredentialRecord \<Rightarrow> bool" where
  "record_valid r \<longleftrightarrow> length (protected_bytes r) = 232 \<and> take 8 (protected_bytes r) = MAGIC"

text \<open>The record of a pair of keys.\<close>

definition record_of :: "Backend \<Rightarrow> IdentityKeys \<Rightarrow> CredentialRecord" where
  "record_of bk keys =
     (let c = credential_of bk keys in
      CredentialRecord (MAGIC @ secret_bytes (ik_signing keys) @ secret_bytes (ik_encryption keys)
        @ rc_identity_id c @ rc_signing_public_key c @ rc_encryption_public_key c @ rc_binding_signature c))"

lemma from_protected_bytes_eq_Inr:
  "from_protected_bytes bs limits = Inr r \<longleftrightarrow>
     length bs \<le> lm_record_bytes limits \<and> record_valid r \<and> protected_bytes r = bs"
  by (cases r) (auto simp: from_protected_bytes_def record_valid_def RECORD_BYTES_def)

lemma length_MAGIC [simp]: "length MAGIC = 8"
  by (simp add: MAGIC_def)

lemma record_of_valid: "sized_backend bk \<Longrightarrow> keys_sized keys \<Longrightarrow> record_valid (record_of bk keys)"
  using credential_of_sized [of bk keys]
  by (simp add: record_valid_def record_of_def keys_sized_def credential_sized_def Let_def)

lemma record_encode_eq:
  assumes "sized_backend bk" "keys_sized keys"
  shows "record_encode bk keys limits =
    (if lm_record_bytes limits < RECORD_BYTES then Inl Iy_ResourceLimit else Inr (record_of bk keys))"
  using record_of_valid [OF assms] assms
  by (simp add: record_encode_def identity_keys_credential_eq identity_keys_store_def record_sink_def
      from_protected_bytes_eq_Inr record_of_def RECORD_BYTES_def record_valid_def Let_def)

lemma record_decode_eq_Inr:
  assumes "sized_backend bk" "record_valid r"
  shows "record_decode bk r = Inr keys \<longleftrightarrow> keys_sized keys \<and> r = record_of bk keys"
proof
  obtain bs where r: "r = CredentialRecord bs" by (cases r)
  have len: "length bs = 232" and magic: "take 8 bs = MAGIC" using assms(2) by (simp_all add: r record_valid_def)
  have whole: "bs = subslice 0 8 bs @ subslice 8 40 bs @ subslice 40 72 bs @ subslice 72 104 bs @ subslice 104 136 bs
      @ subslice 136 168 bs @ subslice 168 232 bs"
    using len by (simp add: subslice_glue subslice_all)
  {
    assume "record_decode bk r = Inr keys"
    then have k: "identity_keys_import (subslice 8 40 bs) (subslice 40 72 bs) = Inr keys"
      and c: "subslice 72 104 bs = rc_identity_id (credential_of bk keys)"
        "subslice 104 136 bs = rc_signing_public_key (credential_of bk keys)"
        "subslice 136 168 bs = rc_encryption_public_key (credential_of bk keys)"
        "subslice 168 232 bs = rc_binding_signature (credential_of bk keys)"
      using assms(1) by (auto simp: record_decode_def r and_then_eq_Inr identity_keys_credential_eq Let_def split: if_splits)
    have "subslice 8 40 bs = secret_bytes (ik_signing keys)" "subslice 40 72 bs = secret_bytes (ik_encryption keys)"
      using k by (auto simp: identity_keys_import_def split: if_splits)
    moreover have "subslice 0 8 bs = MAGIC" using magic by (simp add: subslice_def)
    ultimately have "r = record_of bk keys" using whole c by (simp add: r record_of_def Let_def)
    with import_sized [OF k] show "keys_sized keys \<and> r = record_of bk keys" by blast
  }
  assume k: "keys_sized keys \<and> r = record_of bk keys"
  then show "record_decode bk r = Inr keys"
    using credential_of_sized [OF assms(1), of keys] import_keys [of keys]
    by (simp add: record_decode_def record_of_def identity_keys_credential_eq [OF assms(1)] subslice_def
        keys_sized_def credential_sized_def Let_def)
qed

lemma record_round_trip:
  assumes "sized_backend bk" "keys_sized keys"
  shows "record_decode bk (record_of bk keys) = Inr keys"
  using record_decode_eq_Inr [OF assms(1) record_of_valid [OF assms]] assms(2) by simp

end
