(* ===== verification/Identity_Store.thy ===== *)
theory Identity_Store
  imports Identity_Authority
begin

text \<open>
  The protected key store: the port of \<open>ports.rs\<close> with its contract as a locale, and the file store of
  \<open>storage/file.rs\<close> and \<open>storage/atomic.rs\<close> over a model of its directory.

  The store's directory is a map from names to files, used under the exclusive lock. System calls
  answer from a list of faults, so that every error at every point is covered: a call with a fault
  fails, a failing write leaves a prefix behind, and calls beyond the list succeed. A symbolic link or
  an unreadable entry appears as a fault. Walking to the directory (\<open>open_directory\<close>) is not modelled;
  opening the store starts with the directory.
\<close>

section \<open>The directory\<close>

datatype Errno = En_ACCESS | En_PERM | En_LOOP | En_NOENT | En_EXIST | En_Other

record File =
  fl_bytes :: bytes
  fl_uid :: nat
  fl_mode :: nat
  fl_nlink :: nat

record Fs =
  fs_files :: "string \<Rightarrow> File option"
  fs_directory :: File
  fs_euid :: nat
  fs_created_mode :: nat
  fs_faults :: "(Errno \<times> nat) option list"

text \<open>The next fault, if any, and what a call does when it has none.\<close>

definition call_fault :: "Fs \<Rightarrow> (Errno \<times> nat) option \<times> Fs" where
  "call_fault fs =
     (case fs_faults fs of [] \<Rightarrow> (None, fs) | f # rest \<Rightarrow> (f, fs\<lparr>fs_faults := rest\<rparr>))"

definition call :: "(Fs \<Rightarrow> (Errno, 'a) result \<times> Fs) \<Rightarrow> Fs \<Rightarrow> (Errno, 'a) result \<times> Fs" where
  "call f fs = (case call_fault fs of (Some (e, _), fs) \<Rightarrow> (Inl e, fs) | (None, fs) \<Rightarrow> f fs)"

definition set_file :: "string \<Rightarrow> File option \<Rightarrow> Fs \<Rightarrow> Fs" where
  "set_file name f fs = fs\<lparr>fs_files := (fs_files fs)(name := f)\<rparr>"

definition new_file :: "Fs \<Rightarrow> File" where
  "new_file fs = \<lparr>fl_bytes = [], fl_uid = fs_euid fs, fl_mode = fs_created_mode fs, fl_nlink = 1\<rparr>"

definition sys_create :: "string \<Rightarrow> Fs \<Rightarrow> (Errno, unit) result \<times> Fs" where
  "sys_create name = call (\<lambda>fs.
     if fs_files fs name \<noteq> None then (Inl En_EXIST, fs) else (Inr (), set_file name (Some (new_file fs)) fs))"

definition sys_open_or_create :: "string \<Rightarrow> Fs \<Rightarrow> (Errno, unit) result \<times> Fs" where
  "sys_open_or_create name = call (\<lambda>fs.
     (Inr (), if fs_files fs name \<noteq> None then fs else set_file name (Some (new_file fs)) fs))"

definition sys_open :: "string \<Rightarrow> Fs \<Rightarrow> (Errno, unit) result \<times> Fs" where
  "sys_open name = call (\<lambda>fs. (if fs_files fs name = None then Inl En_NOENT else Inr (), fs))"

definition sys_stat :: "string \<Rightarrow> Fs \<Rightarrow> (Errno, File) result \<times> Fs" where
  "sys_stat name = call (\<lambda>fs. (ok_or En_NOENT (fs_files fs name), fs))"

definition sys_write :: "string \<Rightarrow> bytes \<Rightarrow> Fs \<Rightarrow> (Errno, unit) result \<times> Fs" where
  "sys_write name bs fs =
     (let append = (\<lambda>bs fs. set_file name (map_option (\<lambda>f. f\<lparr>fl_bytes := fl_bytes f @ bs\<rparr>) (fs_files fs name)) fs)
      in case call_fault fs of
           (Some (e, n), fs) \<Rightarrow> (Inl e, append (take n bs) fs)
         | (None, fs) \<Rightarrow> (Inr (), append bs fs))"

definition sys_sync :: "Fs \<Rightarrow> (Errno, unit) result \<times> Fs" where
  "sys_sync = call (\<lambda>fs. (Inr (), fs))"

definition sys_flock :: "Fs \<Rightarrow> (Errno, unit) result \<times> Fs" where
  "sys_flock = call (\<lambda>fs. (Inr (), fs))"

definition sys_rename :: "string \<Rightarrow> string \<Rightarrow> bool \<Rightarrow> Fs \<Rightarrow> (Errno, unit) result \<times> Fs" where
  "sys_rename old new replace = call (\<lambda>fs.
     if fs_files fs old = None then (Inl En_NOENT, fs)
     else if \<not> replace \<and> fs_files fs new \<noteq> None then (Inl En_EXIST, fs)
     else (Inr (), set_file old None (set_file new (fs_files fs old) fs)))"

definition sys_unlink :: "string \<Rightarrow> Fs \<Rightarrow> (Errno, unit) result \<times> Fs" where
  "sys_unlink name = call (\<lambda>fs.
     if fs_files fs name = None then (Inl En_NOENT, fs) else (Inr (), set_file name None fs))"

definition failing :: "(Errno \<Rightarrow> 'e) \<Rightarrow> (Errno, 'a) result \<times> Fs \<Rightarrow> ('e, 'a) result \<times> Fs" where
  "failing h out = (case out of (r, fs) \<Rightarrow> (map_err h r, fs))"

definition io_error :: "Errno \<Rightarrow> IdentityError" where
  "io_error e = (case e of En_ACCESS \<Rightarrow> Iy_AccessDenied | En_PERM \<Rightarrow> Iy_AccessDenied | En_LOOP \<Rightarrow> Iy_AccessDenied
     | _ \<Rightarrow> Iy_Unavailable)"

text \<open>Modes are compared in full: \<open>0o040700\<close> for the directory, \<open>0o100600\<close> for a file.\<close>

definition check_metadata :: "Fs \<Rightarrow> bool \<Rightarrow> File \<Rightarrow> (IdentityError, unit) result" where
  "check_metadata fs directory meta =
     (if fl_uid meta \<noteq> fs_euid fs \<or> fl_mode meta mod 65536 \<noteq> (if directory then 16832 else 33152)
        \<or> \<not> directory \<and> fl_nlink meta \<noteq> 1
      then Inl Iy_AccessDenied else Inr ())"

definition validate_metadata :: "string \<Rightarrow> Fs \<Rightarrow> (IdentityError, unit) result \<times> Fs" where
  "validate_metadata name fs =
     and_thread (failing io_error (sys_stat name fs)) (\<lambda>meta fs. (check_metadata fs False meta, fs))"

definition validate_directory :: "Fs \<Rightarrow> (IdentityError, unit) result \<times> Fs" where
  "validate_directory fs =
     and_thread (failing io_error (call (\<lambda>fs. (Inr (fs_directory fs), fs)) fs))
       (\<lambda>meta fs. (check_metadata fs True meta, fs))"

section \<open>The file store\<close>

record FileStore =
  st_directory :: Fs
  st_authority :: Authority
  st_limits :: Limits

definition read_bytes :: "string \<Rightarrow> usize \<Rightarrow> Fs \<Rightarrow> (IdentityError, bytes) result \<times> Fs" where
  "read_bytes name maximum fs =
     and_thread (failing io_error (sys_open name fs)) (\<lambda>_ fs.
     and_thread (validate_metadata name fs) (\<lambda>_ fs.
     and_thread (failing (\<lambda>_. Iy_Unavailable) (sys_stat name fs)) (\<lambda>meta fs.
     if length (fl_bytes meta) > usize_max \<or> length (fl_bytes meta) > maximum then (Inl Iy_ResourceLimit, fs) else
     if maximum + 1 \<ge> 2 ^ 64 then (Inl Iy_ResourceLimit, fs) else
     and_thread (failing (\<lambda>_. Iy_Unavailable) (sys_stat name fs)) (\<lambda>file fs.
     let bs = take (maximum + 1) (fl_bytes file)
     in if length bs > maximum then (Inl Iy_ResourceLimit, fs) else (Inr bs, fs)))))"

definition with_directory :: "(Fs \<Rightarrow> 'a \<times> Fs) \<Rightarrow> FileStore \<Rightarrow> 'a \<times> FileStore" where
  "with_directory f st = (case f (st_directory st) of (r, fs) \<Rightarrow> (r, st\<lparr>st_directory := fs\<rparr>))"

definition file_store_read ::
    "Administration Capability \<Rightarrow> FileStore \<Rightarrow> (IdentityError, CredentialRecord) result \<times> FileStore" where
  "file_store_read admin st =
     and_thread (check_administration (st_authority st) admin RECORD_BYTES, st) (\<lambda>_ st.
     and_thread (with_directory (read_bytes ''identity.bin'' (lm_record_bytes (st_limits st))) st) (\<lambda>bs st.
     (from_protected_bytes bs (st_limits st), st)))"

text \<open>The guard of the staging file: dropped before installation it removes the file, if it can.\<close>

definition staging_drop :: "string \<Rightarrow> bool \<Rightarrow> Fs \<Rightarrow> Fs" where
  "staging_drop name installed fs = (if installed then fs else snd (sys_unlink name fs))"

definition write_staged :: "string \<Rightarrow> string \<Rightarrow> bytes \<Rightarrow> bool \<Rightarrow> Fs \<Rightarrow> (IdentityError, unit) result \<times> Fs" where
  "write_staged pending name bs replace fs =
     and_thread (validate_metadata pending fs) (\<lambda>_ fs.
     and_thread (failing (\<lambda>_. Iy_Unavailable) (sys_write pending bs fs)) (\<lambda>_ fs.
     and_thread (failing (\<lambda>_. Iy_Unavailable) (sys_sync fs)) (\<lambda>_ fs.
     failing (\<lambda>e. if e = En_EXIST then Iy_Conflict else io_error e) (sys_rename pending name replace fs))))"

definition write_record :: "Limits \<Rightarrow> string \<Rightarrow> bytes \<Rightarrow> bool \<Rightarrow> Fs \<Rightarrow> (IdentityError, unit) result \<times> Fs" where
  "write_record limits name bs replace fs =
     (if (name, replace) \<notin> {(''identity.bin'', False), (''contacts.bin'', True)} then (Inl Iy_InvalidInput, fs) else
      if length bs > lm_record_bytes limits then (Inl Iy_ResourceLimit, fs) else
      let pending = (if name = ''identity.bin'' then ''identity.pending'' else ''contacts.pending'') in
      and_thread (failing io_error (sys_create pending fs)) (\<lambda>_ fs.
      case write_staged pending name bs replace fs of
        (Inl e, fs) \<Rightarrow> (Inl e, staging_drop pending False fs)
      | (Inr _, fs) \<Rightarrow> failing (\<lambda>_. Iy_OutcomeUnknown) (sys_sync (staging_drop pending True fs))))"

definition cleanup_name :: "string \<Rightarrow> Fs \<Rightarrow> (IdentityError, unit) result \<times> Fs" where
  "cleanup_name name fs =
     (case sys_open name fs of
        (Inl e, fs) \<Rightarrow> if e = En_NOENT then (Inr (), fs) else (Inl (io_error e), fs)
      | (Inr _, fs) \<Rightarrow>
          and_thread (validate_metadata name fs) (\<lambda>_ fs.
          and_thread (failing io_error (sys_unlink name fs)) (\<lambda>_ fs.
          failing (\<lambda>_. Iy_Unavailable) (sys_sync fs))))"

definition cleanup_staging :: "Fs \<Rightarrow> (IdentityError, unit) result \<times> Fs" where
  "cleanup_staging fs =
     and_thread (cleanup_name ''identity.pending'' fs) (\<lambda>_ fs. cleanup_name ''contacts.pending'' fs)"

definition file_store_open ::
    "Limits \<Rightarrow> nat \<Rightarrow> Fs \<Rightarrow> (IdentityError, FileStore \<times> Administration Capability) result \<times> Fs" where
  "file_store_open limits fresh fs =
     and_thread (validate_directory fs) (\<lambda>_ fs.
     and_thread (failing io_error (sys_open_or_create ''writer.lock'' fs)) (\<lambda>_ fs.
     and_thread (validate_metadata ''writer.lock'' fs) (\<lambda>_ fs.
     and_thread (failing (\<lambda>_. Iy_Conflict) (sys_flock fs)) (\<lambda>_ fs.
     and_thread (cleanup_staging fs) (\<lambda>_ fs.
     let authority = authority_new fresh
     in (and_then (authority_administration authority (lm_record_bytes limits)) (\<lambda>admin.
         Inr (\<lparr>st_directory = fs, st_authority = authority, st_limits = limits\<rparr>, admin)), fs))))))"

definition file_store_authorize ::
    "Administration Capability \<Rightarrow> usize \<Rightarrow> FileStore \<Rightarrow> (IdentityError, unit) result" where
  "file_store_authorize admin n st = check_administration (st_authority st) admin n"

definition file_store_install ::
    "Backend \<Rightarrow> Administration Capability \<Rightarrow> CredentialRecord \<Rightarrow> FileStore
      \<Rightarrow> (IdentityError, unit) result \<times> FileStore" where
  "file_store_install bk admin r st =
     and_thread (check_administration (st_authority st) admin (record_len r), st) (\<lambda>_ st.
     and_thread (record_decode bk r, st) (\<lambda>_ st.
     with_directory (write_record (st_limits st) ''identity.bin'' (protected_bytes r) False) st))"

definition file_store_reconcile ::
    "Backend \<Rightarrow> Administration Capability \<Rightarrow> FileStore \<Rightarrow> (IdentityError, CredentialRecord) result \<times> FileStore" where
  "file_store_reconcile bk admin st =
     and_thread (file_store_read admin st) (\<lambda>r st.
     and_thread (record_decode bk r, st) (\<lambda>_ st.
     and_thread (with_directory (\<lambda>fs. failing (\<lambda>_. Iy_OutcomeUnknown) (sys_sync fs)) st) (\<lambda>_ st.
     (Inr r, st))))"

section \<open>The contract of a key store\<close>

text \<open>
  What \<open>KeyStore\<close> documents: a record is installed once, never replaced, and an installation that
  failed left the store as it was, unless its outcome is reported as unknown; opening reads the
  record that is stored and changes nothing.
\<close>

record ('s, 'a) KeyStore =
  ks_authorize :: "'a \<Rightarrow> usize \<Rightarrow> 's \<Rightarrow> (IdentityError, unit) result"
  ks_install :: "'a \<Rightarrow> CredentialRecord \<Rightarrow> 's \<Rightarrow> (IdentityError, unit) result \<times> 's"
  ks_open :: "'a \<Rightarrow> 's \<Rightarrow> (IdentityError, CredentialRecord) result \<times> 's"

locale key_store =
  fixes ks :: "('s, 'a) KeyStore" and stored :: "'s \<Rightarrow> CredentialRecord option"
  assumes install_ok: "ks_install ks a r s = (Inr (), s') \<Longrightarrow> stored s = None \<and> stored s' = Some r"
    and install_error: "ks_install ks a r s = (Inl e, s') \<Longrightarrow>
      stored s' = stored s \<or> e = Iy_OutcomeUnknown \<and> stored s = None \<and> stored s' = Some r"
    and open_ok: "ks_open ks a s = (Inr r, s') \<Longrightarrow> stored s = Some r \<and> record_valid r"
    and open_keeps: "ks_open ks a s = (res, s') \<Longrightarrow> stored s' = stored s"
begin

lemma install_keeps: "stored s = Some r \<Longrightarrow> ks_install ks a r' s = (res, s') \<Longrightarrow> stored s' = Some r \<and> \<not> is_ok res"
  using install_ok [of a r' s s'] install_error [of a r' s _ s'] by (cases res) auto

end

definition file_key_store :: "Backend \<Rightarrow> (FileStore, Administration Capability) KeyStore" where
  "file_key_store bk =
     \<lparr>ks_authorize = file_store_authorize, ks_install = file_store_install bk, ks_open = file_store_read\<rparr>"

definition stored_record :: "FileStore \<Rightarrow> CredentialRecord option" where
  "stored_record st = map_option (CredentialRecord \<circ> fl_bytes) (fs_files (st_directory st) ''identity.bin'')"

section \<open>The file store meets it\<close>

lemma call_fault_files: "call_fault fs = (x, fs') \<Longrightarrow> fs_files fs' = fs_files fs"
  by (auto simp: call_fault_def split: list.splits)

lemma call_cases:
  assumes "call f fs = (res, fs')"
  obtains (fault) e where "res = Inl e" "fs_files fs' = fs_files fs"
  | (acted) fs1 where "f fs1 = (res, fs')" "fs_files fs1 = fs_files fs"
proof -
  obtain x fs1 where c: "call_fault fs = (x, fs1)" by (cases "call_fault fs")
  then have "fs_files fs1 = fs_files fs" by (rule call_fault_files)
  with assms c show thesis
    by (cases x) (auto simp: call_def intro: that)
qed

text \<open>Calls that only look.\<close>

lemma looking:
  "sys_open name fs = (o1, fs') \<Longrightarrow> fs_files fs' = fs_files fs"
  "sys_stat name fs = (o2, fs') \<Longrightarrow> fs_files fs' = fs_files fs"
  "sys_sync fs = (o3, fs') \<Longrightarrow> fs_files fs' = fs_files fs"
  "sys_flock fs = (o3, fs') \<Longrightarrow> fs_files fs' = fs_files fs"
  unfolding sys_open_def sys_stat_def sys_sync_def sys_flock_def by (erule call_cases; auto)+

lemma failing_eq: "failing h out = (res, fs) \<longleftrightarrow> (\<exists>r. out = (r, fs) \<and> map_err h r = res)"
  by (cases out) (auto simp: failing_def)

lemma and_thread_cases:
  assumes "and_thread out f = (res, g)"
  obtains (failed) e where "out = (Inl e, g)" "res = Inl e"
  | (went) a g1 where "out = (Inr a, g1)" "f a g1 = (res, g)"
  using assms by (cases out; cases "fst out") (auto simp: and_thread_def intro: that)

lemma validate_files: "validate_metadata name fs = (res, fs') \<Longrightarrow> fs_files fs' = fs_files fs"
  unfolding validate_metadata_def by (erule and_thread_cases) (auto simp: failing_eq dest: looking)

lemma stat_file:
  "sys_stat name fs = (res, fs') \<Longrightarrow> fs_files fs' = fs_files fs \<and> (\<forall>f. res = Inr f \<longrightarrow> fs_files fs name = Some f)"
  unfolding sys_stat_def by (erule call_cases) auto

lemma read_bytes_files:
  assumes "read_bytes name m fs = (res, fs')"
  shows "fs_files fs' = fs_files fs" "res = Inr bs \<Longrightarrow> \<exists>f. fs_files fs name = Some f \<and> fl_bytes f = bs"
proof -
  have *: "fs_files fs' = fs_files fs \<and> (\<forall>bs. res = Inr bs \<longrightarrow> (\<exists>f. fs_files fs name = Some f \<and> fl_bytes f = bs))"
    using assms unfolding read_bytes_def
    by (elim and_thread_cases)
       (auto simp: failing_eq Let_def split: if_splits elim!: and_thread_cases dest!: looking(1) stat_file validate_files)
  then show "fs_files fs' = fs_files fs" "res = Inr bs \<Longrightarrow> \<exists>f. fs_files fs name = Some f \<and> fl_bytes f = bs"
    by auto
qed

text \<open>
  Writing a record touches its staging name and its own, and its own only by the renaming, which
  makes it hold exactly the bytes.
\<close>

lemma write_files:
  assumes "sys_write pending bs g1 = (r, g2)" "fs_files g1 = fs_files fs" "fs_files fs pending = Some f" "fl_bytes f = []"
  shows "(\<forall>other. other \<noteq> pending \<longrightarrow> fs_files g2 other = fs_files fs other) \<and>
    (r = Inr () \<longrightarrow> fs_files g2 = (fs_files fs)(pending := Some (f\<lparr>fl_bytes := bs\<rparr>)))"
  using assms
  by (auto simp: sys_write_def set_file_def Let_def split: prod.splits option.splits dest!: call_fault_files)

lemma rename_files:
  assumes "sys_rename pending name replace g3 = (r, fs')"
  shows "(\<not> is_ok r \<longrightarrow> fs_files fs' = fs_files g3) \<and>
    (r = Inr () \<longrightarrow> (replace \<or> fs_files g3 name = None) \<and>
      fs_files fs' = (fs_files g3)(name := fs_files g3 pending, pending := None))"
  using assms unfolding sys_rename_def
  by (rule call_cases) (auto simp: set_file_def split: if_splits)

lemma write_staged_files:
  assumes "write_staged pending name bs replace fs = (res, fs')" "pending \<noteq> name"
    "fs_files fs pending = Some f" "fl_bytes f = []"
  shows "\<not> is_ok res \<Longrightarrow> \<forall>other. other \<noteq> pending \<longrightarrow> fs_files fs' other = fs_files fs other"
    and "res = Inr () \<Longrightarrow> (replace \<or> fs_files fs name = None) \<and>
      fs_files fs' = (fs_files fs)(name := Some (f\<lparr>fl_bytes := bs\<rparr>), pending := None)"
proof -
  consider (metadata) e where "res = Inl e" "fs_files fs' = fs_files fs"
    | (writing) e g1 g2 where "res = Inl e" "fs_files g1 = fs_files fs" "sys_write pending bs g1 = (Inl g2, fs')"
    | (sync) e g1 g2 g3 where "res = Inl e" "fs_files g1 = fs_files fs" "sys_write pending bs g1 = (Inr (), g2)"
        "sys_sync g2 = (Inl g3, fs')"
    | (renaming) g1 g2 g3 r where "fs_files g1 = fs_files fs" "sys_write pending bs g1 = (Inr (), g2)"
        "sys_sync g2 = (Inr (), g3)" "sys_rename pending name replace g3 = (r, fs')"
        "map_err (\<lambda>e. if e = En_EXIST then Iy_Conflict else io_error e) r = res"
    using assms(1) unfolding write_staged_def
    by (auto simp: failing_eq map_err_eq_Inl elim!: and_thread_cases dest!: validate_files)
  note cases = this
  note wrote = write_files [OF _ _ assms(3,4)] and rename = rename_files
  from cases show "\<not> is_ok res \<Longrightarrow> \<forall>other. other \<noteq> pending \<longrightarrow> fs_files fs' other = fs_files fs other"
  proof cases
    case (renaming g1 g2 g3 r)
    then have "\<not> is_ok r" if "\<not> is_ok res" using that by (cases r) auto
    with renaming wrote rename looking(3) show "\<not> is_ok res \<Longrightarrow> ?thesis" by metis
  qed (use wrote looking(3) in metis)+
  from cases show "res = Inr () \<Longrightarrow> (replace \<or> fs_files fs name = None) \<and>
      fs_files fs' = (fs_files fs)(name := Some (f\<lparr>fl_bytes := bs\<rparr>), pending := None)"
  proof cases
    case (renaming g1 g2 g3 r)
    moreover assume "res = Inr ()"
    ultimately show ?thesis
      using wrote [OF renaming(2,1)] rename [OF renaming(4)] looking(3) [OF renaming(3)] assms(2) by auto
  qed simp_all
qed

lemma create_files:
  assumes "sys_create name fs = (res, fs')"
  shows "res = Inr () \<and> fs_files fs' = (fs_files fs)(name := Some (new_file fs)) \<or>
    \<not> is_ok res \<and> fs_files fs' = fs_files fs"
proof -
  have "new_file fs1 = new_file fs" if "call_fault fs = (None, fs1)" for fs1
    using that by (auto simp: call_fault_def new_file_def split: list.splits)
  then show ?thesis
    using assms by (auto simp: sys_create_def call_def set_file_def split: prod.splits option.splits if_splits
        dest: call_fault_files)
qed

lemma unlink_files:
  "sys_unlink name fs = (res, fs') \<Longrightarrow> other \<noteq> name \<Longrightarrow> fs_files fs' other = fs_files fs other"
  unfolding sys_unlink_def by (erule call_cases) (auto simp: set_file_def split: if_splits)

text \<open>The part of writing after the staging file was created.\<close>

definition publish :: "string \<Rightarrow> string \<Rightarrow> bytes \<Rightarrow> bool \<Rightarrow> Fs \<Rightarrow> (IdentityError, unit) result \<times> Fs" where
  "publish pending name bs replace fs =
     (case write_staged pending name bs replace fs of
        (Inl e, fs) \<Rightarrow> (Inl e, staging_drop pending False fs)
      | (Inr _, fs) \<Rightarrow> failing (\<lambda>_. Iy_OutcomeUnknown) (sys_sync (staging_drop pending True fs)))"

lemma publish_files:
  assumes "publish pending name bs replace g = (res, fs')" "pending \<noteq> name"
    "fs_files g pending = Some f" "fl_bytes f = []"
  shows "(\<forall>other. other \<noteq> name \<longrightarrow> other \<noteq> pending \<longrightarrow> fs_files fs' other = fs_files g other) \<and>
    (fs_files fs' name = fs_files g name \<and> res \<noteq> Inr () \<or>
     (res = Inr () \<or> res = Inl Iy_OutcomeUnknown) \<and> (replace \<or> fs_files g name = None) \<and>
       map_option fl_bytes (fs_files fs' name) = Some bs)"
proof -
  obtain r g' where w: "write_staged pending name bs replace g = (r, g')" by (cases "write_staged pending name bs replace g")
  note files = write_staged_files [OF w assms(2-4)]
  show ?thesis
  proof (cases r)
    case (Inl e)
    then have res: "res = Inl e" "fs' = snd (sys_unlink pending g')"
      using assms(1) w by (simp_all add: publish_def staging_drop_def)
    then have "\<forall>other. other \<noteq> pending \<longrightarrow> fs_files fs' other = fs_files g' other"
      using unlink_files [of pending g'] by (metis prod.collapse)
    with files(1) Inl assms(2) res(1) show ?thesis by simp
  next
    case (Inr u)
    then have "failing (\<lambda>_. Iy_OutcomeUnknown) (sys_sync g') = (res, fs')"
      using assms(1) w by (simp add: publish_def staging_drop_def)
    then obtain q where q: "sys_sync g' = (q, fs')" "map_err (\<lambda>_. Iy_OutcomeUnknown) q = res" by (auto simp: failing_eq)
    have "fs_files fs' = fs_files g'" using q(1) by (rule looking(3))
    moreover have "res = Inr () \<or> res = Inl Iy_OutcomeUnknown" using q(2) by (cases q) auto
    ultimately show ?thesis using files(2) Inr assms(2) by auto
  qed
qed

lemma write_record_files:
  assumes "write_record limits name bs replace fs = (res, fs')"
  defines "pending \<equiv> if name = ''identity.bin'' then ''identity.pending'' else ''contacts.pending''"
  shows "(\<forall>other. other \<noteq> name \<longrightarrow> other \<noteq> pending \<longrightarrow> fs_files fs' other = fs_files fs other) \<and>
    (fs_files fs' name = fs_files fs name \<and> res \<noteq> Inr () \<or>
     (res = Inr () \<or> res = Inl Iy_OutcomeUnknown) \<and> (replace \<or> fs_files fs name = None) \<and>
       map_option fl_bytes (fs_files fs' name) = Some bs)"
proof (cases "(name, replace) \<notin> {(''identity.bin'', False), (''contacts.bin'', True)} \<or> length bs > lm_record_bytes limits")
  case True
  then show ?thesis using assms(1) by (auto simp: write_record_def split: if_splits)
next
  case False
  then have other: "pending \<noteq> name" by (auto simp: pending_def)
  have w: "and_thread (failing io_error (sys_create pending fs)) (\<lambda>_. publish pending name bs replace) = (res, fs')"
    using assms(1) False unfolding write_record_def publish_def pending_def Let_def by (simp only: if_False de_Morgan_disj)
  obtain c g where c: "sys_create pending fs = (c, g)" by (cases "sys_create pending fs")
  note created = create_files [OF c]
  show ?thesis
  proof (cases c)
    case (Inl e)
    then show ?thesis using w c created by (auto simp: failing_def)
  next
    case (Inr u)
    then have p: "publish pending name bs replace g = (res, fs')" using w c by (simp add: failing_def)
    have g: "fs_files g = (fs_files fs)(pending := Some (new_file fs))" using created Inr by simp
    then have "fs_files g pending = Some (new_file fs)" "fl_bytes (new_file fs) = []" by (simp_all add: new_file_def)
    from publish_files [OF p other this] g other show ?thesis by auto
  qed
qed

lemma with_directory_eq:
  "with_directory f st = (res, st') \<longleftrightarrow> (\<exists>fs. f (st_directory st) = (res, fs) \<and> st' = st\<lparr>st_directory := fs\<rparr>)"
  by (cases "f (st_directory st)") (simp add: with_directory_def, blast)

lemma install_record:
  assumes "file_store_install bk admin r st = (res, st')"
  shows "stored_record st' = stored_record st \<and> res \<noteq> Inr () \<or>
    (res = Inr () \<or> res = Inl Iy_OutcomeUnknown) \<and> stored_record st = None \<and> stored_record st' = Some r"
proof (cases "check_administration (st_authority st) admin (record_len r)")
  case (Inl e)
  then show ?thesis using assms by (auto simp: file_store_install_def)
next
  case allowed: (Inr u)
  show ?thesis
  proof (cases "record_decode bk r")
    case (Inl e)
    then show ?thesis using assms allowed by (auto simp: file_store_install_def)
  next
    case (Inr keys)
    obtain out fs where w: "write_record (st_limits st) ''identity.bin'' (protected_bytes r) False (st_directory st) = (out, fs)"
      by (cases "write_record (st_limits st) ''identity.bin'' (protected_bytes r) False (st_directory st)")
    then have st': "st' = st\<lparr>st_directory := fs\<rparr>" "res = out"
      using assms allowed Inr by (simp_all add: file_store_install_def with_directory_def)
    have some: "stored_record st' = Some r" if "map_option fl_bytes (fs_files fs ''identity.bin'') = Some (protected_bytes r)"
      using that by (auto simp: stored_record_def st')
    have same: "stored_record st' = stored_record st"
      if "fs_files fs ''identity.bin'' = fs_files (st_directory st) ''identity.bin''"
      using that by (simp add: stored_record_def st')
    have none: "stored_record st = None" if "fs_files (st_directory st) ''identity.bin'' = None"
      using that by (simp add: stored_record_def)
    from write_record_files [OF w, THEN conjunct2] st'(2) show ?thesis
      by (elim disjE conjE) (simp_all add: some same none)
  qed
qed

lemma read_record:
  assumes "file_store_read admin st = (res, st')"
  shows "stored_record st' = stored_record st \<and> (\<forall>r. res = Inr r \<longrightarrow> stored_record st = Some r \<and> record_valid r)"
proof (cases "check_administration (st_authority st) admin RECORD_BYTES")
  case (Inl e)
  then show ?thesis using assms by (auto simp: file_store_read_def)
next
  case allowed: (Inr u)
  obtain out fs where w: "read_bytes ''identity.bin'' (lm_record_bytes (st_limits st)) (st_directory st) = (out, fs)"
    by (cases "read_bytes ''identity.bin'' (lm_record_bytes (st_limits st)) (st_directory st)")
  then have st': "st' = st\<lparr>st_directory := fs\<rparr>" and res: "res = and_then out (\<lambda>bs. from_protected_bytes bs (st_limits st))"
    using assms allowed by (cases out; simp add: file_store_read_def with_directory_def)+
  have "stored_record st' = stored_record st"
    using read_bytes_files(1) [OF w] by (simp add: stored_record_def st')
  moreover have "stored_record st = Some r \<and> record_valid r" if ok: "res = Inr r" for r
  proof -
    obtain bs where "out = Inr bs" and r: "record_valid r" "protected_bytes r = bs"
      using ok res by (auto simp: and_then_eq_Inr from_protected_bytes_eq_Inr)
    with read_bytes_files(2) [OF w] obtain f where
      "fs_files (st_directory st) ''identity.bin'' = Some f" "fl_bytes f = bs" by blast
    with r show ?thesis by (auto simp: stored_record_def)
  qed
  ultimately show ?thesis by simp
qed

interpretation file_store: key_store "file_key_store bk" stored_record
proof unfold_locales
  fix a r s s' e res
  show "ks_install (file_key_store bk) a r s = (Inr (), s') \<Longrightarrow> stored_record s = None \<and> stored_record s' = Some r"
    using install_record [of bk a r s "Inr ()" s'] by (auto simp: file_key_store_def)
  show "ks_install (file_key_store bk) a r s = (Inl e, s') \<Longrightarrow>
      stored_record s' = stored_record s \<or> e = Iy_OutcomeUnknown \<and> stored_record s = None \<and> stored_record s' = Some r"
    using install_record [of bk a r s "Inl e" s'] by (auto simp: file_key_store_def)
  show "ks_open (file_key_store bk) a s = (Inr r, s') \<Longrightarrow> stored_record s = Some r \<and> record_valid r"
    using read_record [of a s "Inr r" s'] by (simp add: file_key_store_def)
  show "ks_open (file_key_store bk) a s = (res, s') \<Longrightarrow> stored_record s' = stored_record s"
    using read_record [of a s res s'] by (simp add: file_key_store_def)
qed

end
