(* ===== verification/Identity_Provider.thy ===== *)
theory Identity_Provider
  imports Identity_Store
begin

text \<open>
  The local identity: creation and loading (\<open>provider.rs\<close>), scoped private operations
  (\<open>operations.rs\<close>), and protected backup and restoration (\<open>recovery.rs\<close>), over any key store.

  The lemmas are proved once from the contract of a key store and used through its interpretation
  by the file store. The property is that a stored identity is never replaced and that every handle
  ever issued stands for it.
\<close>

section \<open>The provider\<close>

record IdentityHandle =
  ih_keys :: IdentityKeys
  ih_public :: PublicCredential
  ih_domain :: nat

record ('s, 'n) IdentityProvider =
  ip_store :: 's
  ip_entropy :: 'n
  ip_limits :: Limits
  ip_authority :: Authority
  ip_domain :: nat

text \<open>The two fresh numbers identify the authority's flag and the provider's domain.\<close>

definition identity_new ::
    "'s \<Rightarrow> 'n \<Rightarrow> Limits \<Rightarrow> u16 \<Rightarrow> nat \<Rightarrow> nat \<Rightarrow> (IdentityError, ('s, 'n) IdentityProvider) result" where
  "identity_new store entropy limits version fresh domain =
     and_then (validate_contract version) (\<lambda>_.
     if lm_record_bytes limits < RECORD_BYTES then Inl Iy_ResourceLimit
     else Inr \<lparr>ip_store = store, ip_entropy = entropy, ip_limits = limits, ip_authority = authority_new fresh,
               ip_domain = domain\<rparr>)"

definition check_handle :: "('s, 'n) IdentityProvider \<Rightarrow> IdentityHandle \<Rightarrow> (IdentityError, unit) result" where
  "check_handle p h = (if ip_domain p \<noteq> ih_domain h then Inl Iy_AccessDenied else Inr ())"

definition identity_grant ::
    "('s, 'a) KeyStore \<Rightarrow> ('s, 'n) IdentityProvider \<Rightarrow> 'a \<Rightarrow> IdentityHandle \<Rightarrow> usize
      \<Rightarrow> (IdentityError, 'p Capability) result" where
  "identity_grant ks p admin h maximum_bytes =
     and_then (ks_authorize ks admin 0 (ip_store p)) (\<lambda>_.
     and_then (check_handle p h) (\<lambda>_.
     authority_grant (ip_authority p) (li_id (pc_identity (ih_public h))) maximum_bytes))"

definition identity_public ::
    "Backend \<Rightarrow> ('s, 'n) IdentityProvider \<Rightarrow> IdentityHandle \<Rightarrow> ReadPublic Capability
      \<Rightarrow> (IdentityError, PublicCredential) result" where
  "identity_public bk p h cap =
     and_then (check_handle p h) (\<lambda>_.
     and_then (authority_check (ip_authority p) cap (li_id (pc_identity (ih_public h))) 0) (\<lambda>_.
     and_then (lifted (identity_keys_credential bk (ih_keys h))) (\<lambda>c.
     if rc_identity_id c \<noteq> id_bytes (li_id (pc_identity (ih_public h)))
       \<or> rc_encryption_public_key c \<noteq> pc_encryption_public_key (ih_public h)
     then Inl Iy_IdentityMismatch else Inr (ih_public h))))"

definition public_credential :: "RecipientCredential \<Rightarrow> PublicCredential" where
  "public_credential c =
     \<lparr>pc_identity = \<lparr>li_id = Identity_Id (rc_identity_id c), li_signing_public_key = rc_signing_public_key c\<rparr>,
      pc_encryption_public_key = rc_encryption_public_key c, pc_binding_signature = rc_binding_signature c\<rparr>"

definition identity_handle ::
    "Backend \<Rightarrow> ('s, 'n) IdentityProvider \<Rightarrow> IdentityKeys \<Rightarrow> (IdentityError, IdentityHandle \<times> PublicCredential) result" where
  "identity_handle bk p keys =
     and_then (lifted (identity_keys_credential bk keys)) (\<lambda>c.
     let public = public_credential c
     in Inr (\<lparr>ih_keys = keys, ih_public = public, ih_domain = ip_domain p\<rparr>, public))"

text \<open>A store operation of the provider.\<close>

definition with_store ::
    "('s \<Rightarrow> 'b \<times> 's) \<Rightarrow> ('s, 'n) IdentityProvider \<Rightarrow> 'b \<times> ('s, 'n) IdentityProvider" where
  "with_store f p = (case f (ip_store p) of (r, s) \<Rightarrow> (r, p\<lparr>ip_store := s\<rparr>))"

definition identity_load ::
    "('s, 'a) KeyStore \<Rightarrow> Backend \<Rightarrow> 'a \<Rightarrow> ('s, 'n) IdentityProvider
      \<Rightarrow> (IdentityError, IdentityHandle \<times> PublicCredential) result \<times> ('s, 'n) IdentityProvider" where
  "identity_load ks bk admin p =
     and_thread (ks_authorize ks admin RECORD_BYTES (ip_store p), p) (\<lambda>_ p.
     and_thread (with_store (ks_open ks admin) p) (\<lambda>r p.
     (and_then (record_decode bk r) (identity_handle bk p), p)))"

definition identity_create ::
    "('s, 'a) KeyStore \<Rightarrow> Backend \<Rightarrow> 'n entropy \<Rightarrow> 'a \<Rightarrow> ('s, 'n) IdentityProvider
      \<Rightarrow> (IdentityError, IdentityHandle \<times> PublicCredential) result \<times> ('s, 'n) IdentityProvider" where
  "identity_create ks bk fill admin p =
     and_thread (ks_authorize ks admin RECORD_BYTES (ip_store p), p) (\<lambda>_ p.
     and_thread (case identity_keys_generate bk fill (ip_entropy p) of
         (r, g) \<Rightarrow> (lifted r, p\<lparr>ip_entropy := g\<rparr>)) (\<lambda>keys p.
     and_thread (record_encode bk keys (ip_limits p), p) (\<lambda>r p.
     and_thread (identity_handle bk p keys, p) (\<lambda>result p.
     and_thread (with_store (ks_install ks admin r) p) (\<lambda>_ p.
     (Inr result, p))))))"

section \<open>Private operations\<close>

datatype EnvelopeFormat = GenericV1 | ServiceSpecific

definition identity_decrypt ::
    "Backend \<Rightarrow> ('s, 'n) IdentityProvider \<Rightarrow> IdentityHandle \<Rightarrow> DecryptPurpose Capability \<Rightarrow> EnvelopeFormat \<Rightarrow> bytes
      \<Rightarrow> (IdentityError, bytes) result" where
  "identity_decrypt bk p h cap format object =
     and_then (check_handle p h) (\<lambda>_.
     and_then (authority_check (ip_authority p) cap (li_id (pc_identity (ih_public h))) (length object)) (\<lambda>_.
     if format \<noteq> GenericV1 then Inl Iy_Unsupported else
     and_then (lifted (object_limits_new (lm_envelope_bytes (ip_limits p)) (lm_envelope_bytes (ip_limits p)))) (\<lambda>limits.
     lifted (decrypt bk
       \<lparr>dq_object = object, dq_identity_id = id_bytes (li_id (pc_identity (ih_public h))),
        dq_encryption_public_key = pc_encryption_public_key (ih_public h),
        dq_private_key = ik_encryption (ih_keys h), dq_limits = limits\<rparr>))))"

definition identity_sign ::
    "Backend \<Rightarrow> ('s, 'n) IdentityProvider \<Rightarrow> IdentityHandle \<Rightarrow> SignPurpose Capability \<Rightarrow> bytes
      \<Rightarrow> (IdentityError, bytes) result" where
  "identity_sign bk p h cap message =
     and_then (check_handle p h) (\<lambda>_.
     and_then (authority_check (ip_authority p) cap (li_id (pc_identity (ih_public h))) (length message)) (\<lambda>_.
     lifted (sign bk (ik_signing (ih_keys h)) message (lm_signing_bytes (ip_limits p)))))"

section \<open>Backup and restoration\<close>

definition identity_grant_import ::
    "('s, 'a) KeyStore \<Rightarrow> ('s, 'n) IdentityProvider \<Rightarrow> 'a \<Rightarrow> Identity_Id \<Rightarrow> usize
      \<Rightarrow> (IdentityError, Import Capability) result" where
  "identity_grant_import ks p admin expected maximum_bytes =
     and_then (ks_authorize ks admin RECORD_BYTES (ip_store p)) (\<lambda>_.
     authority_grant (ip_authority p) expected maximum_bytes)"

text \<open>The source and the destination are other stores; what the operation leaves of them is returned.\<close>

definition identity_restore ::
    "('s, 'a) KeyStore \<Rightarrow> ('d, 'b) KeyStore \<Rightarrow> Backend \<Rightarrow> 'a \<Rightarrow> Import Capability \<Rightarrow> Identity_Id \<Rightarrow> 'd \<Rightarrow> 'b
      \<Rightarrow> ('s, 'n) IdentityProvider
      \<Rightarrow> (IdentityError, IdentityHandle \<times> PublicCredential) result \<times> 'd \<times> ('s, 'n) IdentityProvider" where
  "identity_restore ks source_ks bk admin cap expected source source_admin p =
     and_thread (ks_authorize ks admin RECORD_BYTES (ip_store p), source, p) (\<lambda>_ (source, p).
     and_thread (authority_check (ip_authority p) cap expected RECORD_BYTES, source, p) (\<lambda>_ (source, p).
     and_thread (ks_authorize source_ks source_admin RECORD_BYTES source, source, p) (\<lambda>_ (source, p).
     and_thread (case ks_open source_ks source_admin source of (r, source) \<Rightarrow> (r, source, p)) (\<lambda>r (source, p).
     if record_len r > lm_record_bytes (ip_limits p) then (Inl Iy_ResourceLimit, source, p) else
     and_thread (and_then (record_decode bk r) (identity_handle bk p), source, p) (\<lambda>result (source, p).
     if li_id (pc_identity (snd result)) \<noteq> expected then (Inl Iy_IdentityMismatch, source, p) else
     and_thread (case with_store (ks_install ks admin r) p of (o1, p) \<Rightarrow> (o1, source, p)) (\<lambda>_ (source, p).
     (Inr result, source, p)))))))"

definition identity_backup ::
    "('d, 'b) KeyStore \<Rightarrow> Backend \<Rightarrow> ('s, 'n) IdentityProvider \<Rightarrow> IdentityHandle \<Rightarrow> Backup Capability \<Rightarrow> 'b \<Rightarrow> 'd
      \<Rightarrow> (IdentityError, unit) result \<times> 'd" where
  "identity_backup destination_ks bk p h cap destination_admin destination =
     and_thread (check_handle p h, destination) (\<lambda>_ destination.
     and_thread (authority_check (ip_authority p) cap (li_id (pc_identity (ih_public h))) RECORD_BYTES, destination) (\<lambda>_ destination.
     and_thread (ks_authorize destination_ks destination_admin RECORD_BYTES destination, destination) (\<lambda>_ destination.
     and_thread (record_encode bk (ih_keys h) (ip_limits p), destination) (\<lambda>r destination.
     ks_install destination_ks destination_admin r destination))))"

section \<open>What the operations leave\<close>

text \<open>A handle that stands for a stored record: the record of its keys, with their credential.\<close>

definition handle_for :: "Backend \<Rightarrow> CredentialRecord option \<Rightarrow> IdentityHandle \<Rightarrow> bool" where
  "handle_for bk r h \<longleftrightarrow>
     keys_sized (ih_keys h) \<and> r = Some (record_of bk (ih_keys h)) \<and>
     ih_public h = public_credential (credential_of bk (ih_keys h))"

lemma identity_handle_eq:
  assumes "sized_backend bk"
  shows "identity_handle bk p keys =
    Inr (\<lparr>ih_keys = keys, ih_public = public_credential (credential_of bk keys), ih_domain = ip_domain p\<rparr>,
         public_credential (credential_of bk keys))"
  by (simp add: identity_handle_def identity_keys_credential_eq [OF assms] Let_def)

lemma with_store_eq:
  "with_store f p = (res, p') \<longleftrightarrow> (\<exists>s. f (ip_store p) = (res, s) \<and> p' = p\<lparr>ip_store := s\<rparr>)"
  by (cases "f (ip_store p)") (simp add: with_store_def, blast)

context key_store
begin

lemma load_handle:
  assumes "sized_backend bk" "identity_load ks bk a p = (res, p')"
  shows "stored (ip_store p') = stored (ip_store p)"
    and "res = Inr (h, public) \<Longrightarrow> handle_for bk (stored (ip_store p)) h \<and> public = ih_public h \<and> ih_domain h = ip_domain p"
proof -
  obtain out s where o: "ks_open ks a (ip_store p) = (out, s)" by (cases "ks_open ks a (ip_store p)")
  have res: "res = and_then (ks_authorize ks a RECORD_BYTES (ip_store p)) (\<lambda>_. and_then out (\<lambda>r.
      and_then (record_decode bk r) (identity_handle bk (p\<lparr>ip_store := s\<rparr>))))"
    and p': "p' = p \<or> p' = p\<lparr>ip_store := s\<rparr>"
    using assms(2) o by (cases "ks_authorize ks a RECORD_BYTES (ip_store p)"; cases out;
        auto simp: identity_load_def with_store_def)+
  then show "stored (ip_store p') = stored (ip_store p)" using open_keeps [OF o] by auto
  assume "res = Inr (h, public)"
  then obtain r keys where r: "out = Inr r" "record_decode bk r = Inr keys"
      "identity_handle bk (p\<lparr>ip_store := s\<rparr>) keys = Inr (h, public)"
    unfolding res by (auto simp: and_then_eq_Inr)
  have "stored (ip_store p) = Some r" "record_valid r" using open_ok o r(1) by auto
  with record_decode_eq_Inr [OF assms(1), of r keys] r(2,3)
  show "handle_for bk (stored (ip_store p)) h \<and> public = ih_public h \<and> ih_domain h = ip_domain p"
    by (auto simp: identity_handle_eq [OF assms(1)] handle_for_def)
qed

lemma create_handle:
  assumes "sized_backend bk" "sized_entropy fill" "identity_create ks bk fill a p = (res, p')"
  shows "stored (ip_store p') = stored (ip_store p) \<and> \<not> is_ok res \<or>
    stored (ip_store p) = None \<and> (\<exists>keys. keys_sized keys \<and> stored (ip_store p') = Some (record_of bk keys)) \<and>
    (\<forall>h public. res = Inr (h, public) \<longrightarrow>
       handle_for bk (stored (ip_store p')) h \<and> public = ih_public h \<and> ih_domain h = ip_domain p)"
proof -
  obtain out g where g: "identity_keys_generate bk fill (ip_entropy p) = (out, g)"
    by (cases "identity_keys_generate bk fill (ip_entropy p)")
  show ?thesis
  proof (cases "is_ok (ks_authorize ks a RECORD_BYTES (ip_store p)) \<and> is_ok out \<and> \<not> lm_record_bytes (ip_limits p) < RECORD_BYTES")
    case False
    then show ?thesis
      using assms(3) g generate_sized [OF assms(2), of bk "ip_entropy p"]
      by (cases "ks_authorize ks a RECORD_BYTES (ip_store p)"; cases out)
         (auto simp: identity_create_def record_encode_eq [OF assms(1)])
  next
    case True
    then obtain keys where keys: "out = Inr keys" "keys_sized keys"
      using g generate_sized [OF assms(2), of bk "ip_entropy p"] by (auto simp: is_ok_iff)
    obtain o1 s where i: "ks_install ks a (record_of bk keys) (ip_store p) = (o1, s)"
      by (cases "ks_install ks a (record_of bk keys) (ip_store p)")
    have p': "ip_store p' = s" and res: "res = and_then o1 (\<lambda>_.
        Inr (\<lparr>ih_keys = keys, ih_public = public_credential (credential_of bk keys), ih_domain = ip_domain p\<rparr>,
             public_credential (credential_of bk keys)))"
      using assms(3) True keys g i
      by (cases o1; auto simp: identity_create_def record_encode_eq [OF assms(1)] identity_handle_eq [OF assms(1)]
          with_store_def is_ok_iff)+
    show ?thesis
    proof (cases o1)
      case (Inl e')
      with install_error [of a "record_of bk keys" "ip_store p" e' s] i p' res keys(2) show ?thesis by auto
    next
      case (Inr u)
      with install_ok [of a "record_of bk keys" "ip_store p" s] i p' res keys(2) show ?thesis
        by (auto simp: handle_for_def)
    qed
  qed
qed

lemma restore_handle:
  assumes "sized_backend bk" "identity_restore ks source_ks bk a cap i source sa p = (res, source', p')"
    and source: "\<And>r d'. ks_open source_ks sa source = (Inr r, d') \<Longrightarrow> record_valid r"
  shows "stored (ip_store p') = stored (ip_store p) \<and> \<not> is_ok res \<or>
    stored (ip_store p) = None \<and> (\<exists>keys. keys_sized keys \<and> stored (ip_store p') = Some (record_of bk keys)) \<and>
    (\<forall>h public. res = Inr (h, public) \<longrightarrow>
       handle_for bk (stored (ip_store p')) h \<and> public = ih_public h \<and> ih_domain h = ip_domain p)"
proof -
  obtain out d where d: "ks_open source_ks sa source = (out, d)" by (cases "ks_open source_ks sa source")
  show ?thesis
  proof (cases "is_ok (ks_authorize ks a RECORD_BYTES (ip_store p)) \<and> is_ok (authority_check (ip_authority p) cap i RECORD_BYTES)
      \<and> is_ok (ks_authorize source_ks sa RECORD_BYTES source) \<and>
      (\<exists>r keys. out = Inr r \<and> record_len r \<le> lm_record_bytes (ip_limits p) \<and> record_decode bk r = Inr keys \<and>
         Identity_Id (rc_identity_id (credential_of bk keys)) = i)")
    case False
    then show ?thesis
      using assms(2) d
      by (cases "ks_authorize ks a RECORD_BYTES (ip_store p)"; cases "authority_check (ip_authority p) cap i RECORD_BYTES";
          cases "ks_authorize source_ks sa RECORD_BYTES source"; cases out; cases "record_decode bk (projr out)")
         (auto simp: identity_restore_def identity_handle_eq [OF assms(1)] public_credential_def split: if_splits)
  next
    case True
    then obtain r keys where r: "out = Inr r" "record_len r \<le> lm_record_bytes (ip_limits p)" "record_decode bk r = Inr keys"
        "Identity_Id (rc_identity_id (credential_of bk keys)) = i" by blast
    have keys: "keys_sized keys" "r = record_of bk keys"
      using record_decode_eq_Inr [OF assms(1) source, of r d keys] d r(1,3) by auto
    obtain o1 s where i: "ks_install ks a r (ip_store p) = (o1, s)" by (cases "ks_install ks a r (ip_store p)")
    have p': "ip_store p' = s" and res: "res = and_then o1 (\<lambda>_.
        Inr (\<lparr>ih_keys = keys, ih_public = public_credential (credential_of bk keys), ih_domain = ip_domain p\<rparr>,
             public_credential (credential_of bk keys)))"
      using assms(2) True r d i
      by (cases o1; auto simp: identity_restore_def identity_handle_eq [OF assms(1)] public_credential_def
          with_store_def is_ok_iff)+
    show ?thesis
    proof (cases o1)
      case (Inl e')
      with install_error [of a r "ip_store p" e' s] i p' res keys show ?thesis by auto
    next
      case (Inr u)
      with install_ok [of a r "ip_store p" s] i p' res keys show ?thesis by (auto simp: handle_for_def)
    qed
  qed
qed

end

section \<open>All executions\<close>

text \<open>
  Every sequence of operations on one provider over a file store, whatever the file system answers.
  The list holds the handles issued, the latest first. Backups read the provider and change only
  their destination, which is another store.
\<close>

definition issued :: "(IdentityError, IdentityHandle \<times> PublicCredential) result \<Rightarrow> IdentityHandle list" where
  "issued res = (case res of Inl _ \<Rightarrow> [] | Inr (h, _) \<Rightarrow> [h])"

inductive identity_run ::
    "Backend \<Rightarrow> 'n entropy \<Rightarrow> (FileStore, 'n) IdentityProvider \<Rightarrow> IdentityHandle list
      \<Rightarrow> (FileStore, 'n) IdentityProvider \<Rightarrow> bool"
  for bk :: Backend and fill :: "'n entropy" and start :: "(FileStore, 'n) IdentityProvider" where
  run_start: "identity_run bk fill start [] start"
| run_load: "identity_run bk fill start hs p \<Longrightarrow> identity_load (file_key_store bk) bk admin p = (res, p') \<Longrightarrow>
     identity_run bk fill start (issued res @ hs) p'"
| run_create: "identity_run bk fill start hs p \<Longrightarrow> identity_create (file_key_store bk) bk fill admin p = (res, p') \<Longrightarrow>
     identity_run bk fill start (issued res @ hs) p'"
| run_restore: "identity_run bk fill start hs p \<Longrightarrow>
     identity_restore (file_key_store bk) (file_key_store bk) bk admin cap i source source_admin p = (res, source', p') \<Longrightarrow>
     identity_run bk fill start (issued res @ hs) p'"
| run_reconcile: "identity_run bk fill start hs p \<Longrightarrow> with_store (file_store_reconcile bk admin) p = (out, p') \<Longrightarrow>
     identity_run bk fill start hs p'"

lemma reconcile_keeps:
  assumes "file_store_reconcile bk admin st = (res, st')"
  shows "stored_record st' = stored_record st"
proof -
  obtain out st1 where o: "file_store_read admin st = (out, st1)" by (cases "file_store_read admin st")
  obtain q fs where q: "sys_sync (st_directory st1) = (q, fs)" by (cases "sys_sync (st_directory st1)")
  have "stored_record st1 = stored_record st" using read_record [OF o] by simp
  moreover have "st' = st1 \<or> st' = st1\<lparr>st_directory := fs\<rparr>"
    using assms o q by (cases out; cases "record_decode bk (projr out)"; cases q;
        auto simp: file_store_reconcile_def with_directory_def failing_def)
  ultimately show ?thesis using looking(3) [OF q] by (auto simp: stored_record_def)
qed

definition identity_inv :: "Backend \<Rightarrow> CredentialRecord option \<Rightarrow> IdentityHandle list \<Rightarrow> FileStore \<Rightarrow> bool" where
  "identity_inv bk r0 hs st \<longleftrightarrow>
     (\<forall>h \<in> set hs. handle_for bk (stored_record st) h) \<and> (r0 = None \<or> stored_record st = r0)"

lemma identity_inv_add:
  assumes "identity_inv bk r0 hs st"
    "stored_record st' = stored_record st \<and> \<not> is_ok res \<or>
     stored_record st = None \<and> (\<exists>keys. keys_sized keys \<and> stored_record st' = Some (record_of bk keys)) \<and>
     (\<forall>h public. res = Inr (h, public) \<longrightarrow>
        handle_for bk (stored_record st') h \<and> public = ih_public h \<and> ih_domain h = d)"
  shows "identity_inv bk r0 (issued res @ hs) st'"
  using assms unfolding identity_inv_def issued_def
  by (cases res) (auto simp: handle_for_def)

lemma identity_run_inv:
  assumes "identity_run bk fill start hs p" "sized_backend bk" "sized_entropy fill"
  shows "identity_inv bk (stored_record (ip_store start)) hs (ip_store p)"
  using assms(1)
proof induction
  case run_start
  then show ?case by (simp add: identity_inv_def)
next
  case (run_load hs p admin res p')
  note handle = file_store.load_handle [OF assms(2) run_load.hyps(2)]
  show ?case
  proof (cases res)
    case (Inl e)
    then show ?thesis using run_load.IH handle(1) by (simp add: identity_inv_def issued_def)
  next
    case (Inr hp)
    then show ?thesis using run_load.IH handle(1) handle(2) [of "fst hp" "snd hp"]
      by (cases hp) (simp add: identity_inv_def issued_def)
  qed
next
  case (run_create hs p admin res p')
  show ?case by (rule identity_inv_add [OF run_create.IH file_store.create_handle [OF assms(2,3) run_create.hyps(2)]])
next
  case (run_restore hs p admin cap i source source_admin res source' p')
  show ?case
    by (rule identity_inv_add [OF run_restore.IH file_store.restore_handle [OF assms(2) run_restore.hyps(2)]])
       (use file_store.open_ok in blast)
next
  case (run_reconcile hs p admin res p')
  then obtain st where "file_store_reconcile bk admin (ip_store p) = (res, st)" "p' = p\<lparr>ip_store := st\<rparr>"
    by (auto simp: with_store_eq)
  with reconcile_keeps run_reconcile.IH show ?case by (fastforce simp: identity_inv_def)
qed

section \<open>Properties\<close>

definition sample_identity_limits :: Limits where
  "sample_identity_limits = \<lparr>lm_text_bytes = 200, lm_contacts = 4, lm_signing_bytes = 300, lm_envelope_bytes = 400,
     lm_record_bytes = 500\<rparr>"

definition sample_directory :: Fs where
  "sample_directory =
     \<lparr>fs_files = (\<lambda>_. None), fs_directory = \<lparr>fl_bytes = [], fl_uid = 7, fl_mode = 16832, fl_nlink = 2\<rparr>,
      fs_euid = 7, fs_created_mode = 33152, fs_faults = []\<rparr>"

definition sample_store :: FileStore where
  "sample_store = \<lparr>st_directory = sample_directory, st_authority = authority_new 0, st_limits = sample_identity_limits\<rparr>"

definition sample_admin :: "Administration Capability" where
  "sample_admin = Capability 0 None 500"

definition sample_provider :: "(FileStore, nat) IdentityProvider" where
  "sample_provider =
     \<lparr>ip_store = sample_store, ip_entropy = 3, ip_limits = sample_identity_limits, ip_authority = authority_new 1,
      ip_domain = 2\<rparr>"

definition sample_identity_keys :: IdentityKeys where
  "sample_identity_keys = \<lparr>ik_signing = Secret (pad 32 [3]), ik_encryption = Secret (pad 32 [4])\<rparr>"

lemma sample_create:
  "\<exists>p. identity_create (file_key_store sample_backend) sample_backend sample_fill sample_admin sample_provider =
     (Inr (\<lparr>ih_keys = sample_identity_keys,
            ih_public = public_credential (credential_of sample_backend sample_identity_keys), ih_domain = 2\<rparr>,
           public_credential (credential_of sample_backend sample_identity_keys)), p)"
proof -
  have sized: "keys_sized sample_identity_keys" by (simp add: keys_sized_def sample_identity_keys_def)
  have keys: "identity_keys_generate sample_backend sample_fill 3 = (Inr sample_identity_keys, 5)"
    by (simp add: identity_keys_generate_def signing_key_def persistent_key_def agreement_key_def random_bytes_def
        sample_fill_def MAX_RANDOM_BYTES_def sample_identity_keys_def)
  have len: "length (protected_bytes (record_of sample_backend sample_identity_keys)) = 232"
    using record_of_valid [OF sample_backend_laws(1) sized] by (simp add: record_valid_def)
  have decode: "record_decode sample_backend (record_of sample_backend sample_identity_keys) = Inr sample_identity_keys"
    by (rule record_round_trip [OF sample_backend_laws(1) sized])
  obtain fs where written: "write_record sample_identity_limits ''identity.bin''
      (protected_bytes (record_of sample_backend sample_identity_keys)) False sample_directory = (Inr (), fs)"
    using len
    by (simp add: write_record_def write_staged_def validate_metadata_def sys_create_def sys_stat_def sys_write_def
        sys_sync_def sys_rename_def call_def call_fault_def set_file_def new_file_def check_metadata_def failing_def
        staging_drop_def sample_directory_def sample_identity_limits_def Let_def)
  then have "file_store_install sample_backend sample_admin (record_of sample_backend sample_identity_keys) sample_store
      = (Inr (), sample_store\<lparr>st_directory := fs\<rparr>)"
    by (simp add: file_store_install_def check_administration_def check_scope_def sample_admin_def sample_store_def
        authority_new_def record_len_def len decode with_directory_def)
  then show ?thesis
    by (simp add: identity_create_def file_key_store_def file_store_authorize_def check_administration_def
        check_scope_def sample_admin_def sample_store_def authority_new_def sample_provider_def keys
        record_encode_eq [OF sample_backend_laws(1) sized] identity_handle_eq [OF sample_backend_laws(1)]
        sample_identity_limits_def RECORD_BYTES_def with_store_def)
qed

text \<open>
  C27: A local identity is never replaced: whatever sequence of creations, loads, restorations and
  reconciliations runs, and wherever the file system fails, a record that was stored stays the
  stored record, and every handle ever issued holds the keys of the record now stored and the public
  credential derived from them, so that all handles agree.
\<close>

theorem identity_never_replaced:
  assumes "identity_run bk fill start hs p" "sized_backend bk" "sized_entropy fill"
  shows "(\<forall>h \<in> set hs. keys_sized (ih_keys h) \<and> stored_record (ip_store p) = Some (record_of bk (ih_keys h)) \<and>
      record_decode bk (record_of bk (ih_keys h)) = Inr (ih_keys h) \<and>
      ih_public h = public_credential (credential_of bk (ih_keys h))) \<and>
    (stored_record (ip_store start) = None \<or> stored_record (ip_store p) = stored_record (ip_store start))"
  using identity_run_inv [OF assms] record_round_trip [OF assms(2)]
  by (auto simp: identity_inv_def handle_for_def)

theorem identity_never_replaced_witness:
  "\<exists>h p. identity_run sample_backend sample_fill sample_provider [h] p \<and> ih_keys h = sample_identity_keys \<and>
     stored_record (ip_store p) = Some (record_of sample_backend sample_identity_keys)"
proof -
  obtain h p where "identity_create (file_key_store sample_backend) sample_backend sample_fill sample_admin sample_provider
      = (Inr (h, ih_public h), p)" and h: "ih_keys h = sample_identity_keys"
    using sample_create by fastforce
  from run_create [OF run_start this(1)] have run: "identity_run sample_backend sample_fill sample_provider [h] p"
    by (simp add: issued_def)
  from identity_never_replaced [OF run sample_backend_laws(1) sample_fill_sized] run h show ?thesis by auto
qed

end
