(* ===== verification/Transport_Identity.thy ===== *)
theory Transport_Identity
  imports Transport_Crypto Identity_Provider
begin

text \<open>
  The adapter of \<open>composition/identity.rs\<close>, which gives Transport the local identity, and what the two
  real adapters achieve together: the handshake of theory Handshake, run by two nodes with loaded
  identities and the real provider, establishes a connection on the laws of the third-party
  algorithms alone.
\<close>

section \<open>The adapter\<close>

record ('s, 'n) TransportIdentity =
  ti_provider :: "('s, 'n) IdentityProvider"
  ti_handle :: IdentityHandle
  ti_read :: "ReadPublic Capability"
  ti_sign :: "SignPurpose Capability"

definition transport_identity_new ::
    "Backend \<Rightarrow> ('s, 'n) IdentityProvider \<Rightarrow> IdentityHandle \<Rightarrow> ReadPublic Capability \<Rightarrow> SignPurpose Capability
      \<Rightarrow> (IdentityError, ('s, 'n) TransportIdentity) result" where
  "transport_identity_new bk provider handle read_cap sign_cap =
     and_then (identity_public bk provider handle read_cap) (\<lambda>_.
     Inr \<lparr>ti_provider = provider, ti_handle = handle, ti_read = read_cap, ti_sign = sign_cap\<rparr>)"

definition identity_dependency_error :: "IdentityError \<Rightarrow> DependencyError" where
  "identity_dependency_error e =
     (case e of
        Iy_AccessDenied \<Rightarrow> De_Denied
      | Iy_IdentityMismatch \<Rightarrow> De_VerificationFailed
      | Iy_InvalidProof \<Rightarrow> De_VerificationFailed
      | Iy_InvalidInput \<Rightarrow> De_InvalidInput
      | Iy_Unsupported \<Rightarrow> De_InvalidInput
      | Iy_ResourceLimit \<Rightarrow> De_InvalidInput
      | Iy_Unavailable \<Rightarrow> De_Unavailable
      | Iy_Conflict \<Rightarrow> De_Unavailable
      | Iy_OutcomeUnknown \<Rightarrow> De_Unavailable)"

definition ti_public_identity :: "Backend \<Rightarrow> ('s, 'n) TransportIdentity \<Rightarrow> (DependencyError, PublicIdentity) result" where
  "ti_public_identity bk t =
     and_then (map_err identity_dependency_error (identity_public bk (ti_provider t) (ti_handle t) (ti_read t))) (\<lambda>public.
     Inr \<lparr>pi_id = IdentityId (id_bytes (li_id (pc_identity public))),
          pi_signing_public_key = li_signing_public_key (pc_identity public)\<rparr>)"

definition ti_identify :: "Backend \<Rightarrow> bytes \<Rightarrow> (DependencyError, IdentityId) result" where
  "ti_identify bk key =
     map_err (identity_dependency_error \<circ> identity_error) (and_then (identity_id bk key) (\<lambda>i. Inr (IdentityId i)))"

definition ti_sign_authentication ::
    "Backend \<Rightarrow> ('s, 'n) TransportIdentity \<Rightarrow> bytes \<Rightarrow> (DependencyError, bytes) result" where
  "ti_sign_authentication bk t message =
     map_err identity_dependency_error (identity_sign bk (ti_provider t) (ti_handle t) (ti_sign t) message)"

text \<open>No method changes the adapter, so the port has no state to thread.\<close>

definition transport_identity :: "Backend \<Rightarrow> ('s, 'n) TransportIdentity \<Rightarrow> unit Identity" where
  "transport_identity bk t =
     \<lparr>id_public_identity = (\<lambda>_. ti_public_identity bk t),
      id_identify = ti_identify bk,
      id_sign_authentication = (\<lambda>message u. (ti_sign_authentication bk t message, u))\<rparr>"

section \<open>A node ready to authenticate\<close>

text \<open>
  An adapter over a handle as the provider issues them, whose signing capability is good for an
  authentication message of 231 bytes.
\<close>

definition node_ready :: "Backend \<Rightarrow> ('s, 'n) TransportIdentity \<Rightarrow> bool" where
  "node_ready bk t \<longleftrightarrow>
     keys_sized (ih_keys (ti_handle t)) \<and>
     ih_public (ti_handle t) = public_credential (credential_of bk (ih_keys (ti_handle t))) \<and>
     transport_identity_new bk (ti_provider t) (ti_handle t) (ti_read t) (ti_sign t) = Inr t \<and>
     authority_check (ip_authority (ti_provider t)) (ti_sign t) (li_id (pc_identity (ih_public (ti_handle t)))) 231 = Inr () \<and>
     231 \<le> lm_signing_bytes (ip_limits (ti_provider t))"

definition node_id :: "Backend \<Rightarrow> ('s, 'n) TransportIdentity \<Rightarrow> IdentityId" where
  "node_id bk t = IdentityId (rc_identity_id (credential_of bk (ih_keys (ti_handle t))))"

definition node_key :: "Backend \<Rightarrow> ('s, 'n) TransportIdentity \<Rightarrow> bytes" where
  "node_key bk t = rc_signing_public_key (credential_of bk (ih_keys (ti_handle t)))"

lemma node_public:
  assumes "node_ready bk t" "sized_backend bk"
  shows "ti_public_identity bk t = Inr \<lparr>pi_id = node_id bk t, pi_signing_public_key = node_key bk t\<rparr>"
proof -
  have "identity_public bk (ti_provider t) (ti_handle t) (ti_read t) = Inr (ih_public (ti_handle t))"
    using assms
    by (auto simp: node_ready_def transport_identity_new_def and_then_eq_Inr identity_public_def split: if_splits)
  then show ?thesis
    using assms(1) by (simp add: ti_public_identity_def node_ready_def node_id_def node_key_def public_credential_def)
qed

lemma node_identify:
  "sized_backend bk \<Longrightarrow> ti_identify bk (node_key bk t) = Inr (node_id bk t)"
  by (simp add: ti_identify_def node_key_def node_id_def credential_of_def identity_id_eq sized_backend_def)

lemma node_sign:
  assumes "node_ready bk t" "length m = 231"
  shows "ti_sign_authentication bk t m = Inr (bk_sign bk (secret_bytes (ik_signing (ih_keys (ti_handle t)))) m)"
proof -
  have "check_handle (ti_provider t) (ti_handle t) = Inr ()"
    using assms(1) by (auto simp: node_ready_def transport_identity_new_def and_then_eq_Inr identity_public_def)
  moreover have "authority_check (ip_authority (ti_provider t)) (ti_sign t) (li_id (pc_identity (ih_public (ti_handle t)))) 231 = Inr ()"
    "231 \<le> lm_signing_bytes (ip_limits (ti_provider t))"
    using assms(1) unfolding node_ready_def by blast+
  ultimately show ?thesis
    using assms(2) by (simp add: ti_sign_authentication_def identity_sign_def sign_def)
qed

lemma node_sized:
  assumes "node_ready bk t" "sized_backend bk"
  shows "sized_identity (transport_identity bk t)"
proof -
  have "length s = 64" if "identity_sign bk p h cap m = Inr s" for p h cap m s
    using that assms(2) by (auto simp: identity_sign_def and_then_eq_Inr sign_def sized_backend_def split: if_splits)
  then show ?thesis
    using assms by (auto simp: sized_identity_def transport_identity_def node_public ti_sign_authentication_def
        node_key_def credential_of_def sized_backend_def)
qed

lemma node_signs:
  assumes "node_ready bk t" "sized_backend bk" "verifying bk" "231 \<le> pv_maximum_bytes p"
  shows "signs_for (transport_identity bk t) u (transport_crypto bk fill p) (node_key bk t)"
proof -
  have "verify bk (bk_signing_public bk s) m (bk_sign bk s m) (pv_maximum_bytes p) = Inr ()" if "length m = 231" for s m
    using verify_sign [OF assms(3,2), of s m 231 "bk_sign bk s m" "pv_maximum_bytes p"] that assms(4)
    by (simp add: sign_def)
  then show ?thesis
    using node_sign [OF assms(1)]
    by (simp add: signs_for_def transport_identity_def transport_crypto_def tc_verify_signature_def
        provider_verify_def node_key_def credential_of_def)
qed

section \<open>Key derivation over the real provider\<close>

text \<open>HKDF accepts an extracted key and expands it to the lengths within its documented bound.\<close>

definition deriving :: "Backend \<Rightarrow> bool" where
  "deriving bk \<longleftrightarrow>
     (\<forall>p. length p = 32 \<longrightarrow> bk_hkdf_prk bk p) \<and>
     (\<forall>p i n. length p = 32 \<longrightarrow> n \<le> 255 * 32 \<longrightarrow> bk_hkdf_expand bk p i n \<noteq> None)"

lemma transport_derives:
  assumes "sized_backend bk" "deriving bk" "231 \<le> pv_maximum_bytes p" "length t = 208"
    "length remote = 32" "bk_contributory bk (bk_diffie_hellman bk (secret_bytes s) remote)"
  shows "is_ok (fst (derive_keys role s remote t (transport_crypto bk fill p) g))"
proof -
  define prk where "prk = bk_hkdf_extract bk (bk_sha256 bk (ascii ''CR2SE-NETWORK-KEYS-V1'' @ 0 # t))
    (bk_diffie_hellman bk (secret_bytes s) remote)"
  have "length prk = 32" using assms(1) by (simp add: prk_def sized_backend_def)
  then have exp: "is_ok (expand bk (Secret prk) info n (pv_maximum_bytes p))" if "length info \<le> 40" "n \<le> 32" for info n
    using that assms(2,3) by (auto simp: expand_def deriving_def is_ok_iff)
  have agree: "agree bk (secret_bytes s) remote = Inr (Secret (bk_diffie_hellman bk (secret_bytes s) remote))"
    using assms(5,6) by (simp add: agree_def fixed_def Let_def)
  have len: "length (bk_sha256 bk m) = 32" for m using assms(1) by (simp add: sized_backend_def)
  obtain k1 where k1: "expand bk (Secret prk) (ascii ''CR2SE-NETWORK-V1-I2A-KEY'') 32 (pv_maximum_bytes p) = Inr k1"
    using exp [of "ascii ''CR2SE-NETWORK-V1-I2A-KEY''" 32] by (auto simp: is_ok_iff)
  obtain k2 where k2: "expand bk (Secret prk) (ascii ''CR2SE-NETWORK-V1-A2I-KEY'') 32 (pv_maximum_bytes p) = Inr k2"
    using exp [of "ascii ''CR2SE-NETWORK-V1-A2I-KEY''" 32] by (auto simp: is_ok_iff)
  obtain n1 where n1: "expand bk (Secret prk) (ascii ''CR2SE-NETWORK-V1-I2A-NONCE'') 16 (pv_maximum_bytes p) = Inr n1"
    using exp [of "ascii ''CR2SE-NETWORK-V1-I2A-NONCE''" 16] by (auto simp: is_ok_iff)
  obtain n2 where n2: "expand bk (Secret prk) (ascii ''CR2SE-NETWORK-V1-A2I-NONCE'') 16 (pv_maximum_bytes p) = Inr n2"
    using exp [of "ascii ''CR2SE-NETWORK-V1-A2I-NONCE''" 16] by (auto simp: is_ok_iff)
  show ?thesis
    using assms(3,4) len k1 k2 n1 n2
    by (simp add: derive_keys_def transport_crypto_def tc_defs agree_ephemeral_def agree provider_sha256_def sha256_eq
        kdf_extract_def expand_key_def expand_nonce_prefix_def Let_def flip: prk_def)
qed

section \<open>Properties\<close>

lemma begin_ephemeral:
  assumes "handshake_begin role expected idn i cy g = (Inr (h, hello), g')"
  obtains s g1 where "hs_private h = Some s" "cy_ephemeral_key cy g = (Inr (hl_ephemeral_public_key (hs_local h), s), g1)"
  using assms by (auto simp: handshake_begin_def and_thread_eq_Inr Let_def map_prod_def split: prod.splits)

lemma node_begin:
  assumes "node_ready bk t" "sized_backend bk" "sized_entropy fill"
    "handshake_begin role expected (transport_identity bk t) () (transport_crypto bk fill p) g = (Inr (h, hello), g')"
  obtains own s g1 where "hello_valid own" "hl_identity_public_key own = node_key bk t"
    "h = fresh_end role expected (node_id bk t) own s" "hello = hello_frame own"
    "cy_ephemeral_key (transport_crypto bk fill p) g = (Inr (hl_ephemeral_public_key own, s), g1)"
proof -
  note sized = transport_crypto_sized [OF assms(2,3)] node_sized [OF assms(1,2)]
  obtain public own s where public: "id_public_identity (transport_identity bk t) () = Inr public"
      and own: "hello_valid own" "hl_identity_public_key own = pi_signing_public_key public"
        "h = fresh_end role expected (pi_id public) own s" "hello = hello_frame own"
    using sized assms(4) by (rule begin_fresh)
  obtain s' g1 where "hs_private h = Some s'"
      "cy_ephemeral_key (transport_crypto bk fill p) g = (Inr (hl_ephemeral_public_key (hs_local h), s'), g1)"
    using assms(4) by (rule begin_ephemeral)
  moreover have "public = \<lparr>pi_id = node_id bk t, pi_signing_public_key = node_key bk t\<rparr>"
    using public node_public [OF assms(1,2)] by (simp add: transport_identity_def)
  ultimately show ?thesis
    using own by (intro that [of own s g1]) (simp_all add: fresh_end_def)
qed

text \<open>
  C28: Two nodes connect: if both hold a loaded identity with a signing capability for an
  authentication message, share a provider ceiling of at least 231 bytes, accept each other's
  identity and their ephemeral keys contribute, then the handshake over the real cryptography and
  identity adapters ends with both established, each with the other's identity and with mirrored
  keys. The algorithms are assumed to have their documented laws and nothing more.
\<close>

theorem nodes_connect:
  assumes "sized_backend bk" "commuting bk" "verifying bk" "deriving bk" "sized_entropy fill"
    "node_ready bk ta" "node_ready bk tb" "231 \<le> pv_maximum_bytes p"
    "handshake_begin Initiator exp_a (transport_identity bk ta) () (transport_crypto bk fill p) g = (Inr (a, hello_a), ga)"
    "handshake_begin Acceptor exp_b (transport_identity bk tb) () (transport_crypto bk fill p) g' = (Inr (b, hello_b), gb)"
    "accepts exp_a (node_id bk tb)" "accepts exp_b (node_id bk ta)"
    "bk_contributory bk (bk_diffie_hellman bk (secret_bytes (the (hs_private a))) (hl_ephemeral_public_key (hs_local b)))"
  shows "\<exists>auth_a auth_b est_a est_b.
    fst (handshake_drive (transport_identity bk ta) (transport_crypto bk fill p) hello_b auth_b (a, (), ga))
      = Inr (Some auth_a, Some est_a) \<and>
    fst (handshake_drive (transport_identity bk tb) (transport_crypto bk fill p) hello_a auth_a (b, (), gb))
      = Inr (Some auth_b, Some est_b) \<and>
    es_keys est_a = mirror (es_keys est_b) \<and>
    es_peer_identity est_a = node_id bk tb \<and> es_peer_identity est_b = node_id bk ta"
proof -
  let ?cy = "transport_crypto bk fill p"
  obtain own_a sa g1 where a: "hello_valid own_a" "hl_identity_public_key own_a = node_key bk ta"
      "a = fresh_end Initiator exp_a (node_id bk ta) own_a sa" "hello_a = hello_frame own_a"
      "cy_ephemeral_key ?cy g = (Inr (hl_ephemeral_public_key own_a, sa), g1)"
    using assms(6,1,5,9) by (rule node_begin)
  obtain own_b sb g2 where b: "hello_valid own_b" "hl_identity_public_key own_b = node_key bk tb"
      "b = fresh_end Acceptor exp_b (node_id bk tb) own_b sb" "hello_b = hello_frame own_b"
      "cy_ephemeral_key ?cy g' = (Inr (hl_ephemeral_public_key own_b, sb), g2)"
    using assms(7,1,5,10) by (rule node_begin)
  have agree: "agreement ?cy sa (hl_ephemeral_public_key own_a) sb (hl_ephemeral_public_key own_b)"
    using assms(1,2) a(5) b(5) by (rule transport_crypto_agreement)
  have signs: "signs_for (transport_identity bk ta) () ?cy (hl_identity_public_key own_a)"
    "signs_for (transport_identity bk tb) () ?cy (hl_identity_public_key own_b)"
    unfolding a(2) b(2) by (rule node_signs; fact assms)+
  have known: "id_identify (transport_identity bk ta) (hl_identity_public_key own_b) = Inr (node_id bk tb)"
    "id_identify (transport_identity bk tb) (hl_identity_public_key own_a) = Inr (node_id bk ta)"
    using node_identify [OF assms(1)] by (simp_all add: transport_identity_def a(2) b(2))
  have keys: "is_ok (fst (derive_keys Initiator sa (hl_ephemeral_public_key own_b) (transcript_new own_a own_b) ?cy ga))"
    using assms(13) transport_derives [OF assms(1,4,8) transcript_length [OF a(1) b(1)]] b(1)
    by (simp add: a(3) b(3) fresh_end_def hello_valid_def)
  show ?thesis
    unfolding a(3,4) b(3,4)
    by (rule exchange_agrees [OF a(1) b(1) node_sized [OF assms(6,1)] node_sized [OF assms(7,1)] signs
        known(1) assms(11) known(2) assms(12) transport_crypto_deterministic agree keys])
qed

subsection \<open>Two sample nodes\<close>

definition sample_node_keys :: "byte \<Rightarrow> IdentityKeys" where
  "sample_node_keys n = \<lparr>ik_signing = Secret (pad 32 [n]), ik_encryption = Secret (pad 32 [n, 1])\<rparr>"

definition sample_node :: "byte \<Rightarrow> (FileStore, nat) TransportIdentity" where
  "sample_node n =
     (let public = public_credential (credential_of sample_backend (sample_node_keys n)) in
      \<lparr>ti_provider = sample_provider,
       ti_handle = \<lparr>ih_keys = sample_node_keys n, ih_public = public, ih_domain = 2\<rparr>,
       ti_read = Capability 1 (Some (li_id (pc_identity public))) 1,
       ti_sign = Capability 1 (Some (li_id (pc_identity public))) 231\<rparr>)"

lemma sample_node_ready: "node_ready sample_backend (sample_node n)"
  by (simp add: node_ready_def sample_node_def transport_identity_new_def identity_public_def check_handle_def
      sample_provider_def authority_check_def check_scope_def authority_new_def sample_identity_limits_def
      identity_keys_credential_eq [OF sample_backend_laws(1)] public_credential_def keys_sized_def
      sample_node_keys_def Let_def)

definition sample_ceiling :: "nat Provider" where
  "sample_ceiling = \<lparr>pv_entropy = 0, pv_maximum_bytes = 70000\<rparr>"

lemma sample_node_begin:
  "\<exists>h hello g'. handshake_begin role Unpinned (transport_identity sample_backend (sample_node n)) ()
     (transport_crypto sample_backend sample_fill sample_ceiling) g = (Inr (h, hello), g')"
proof -
  let ?own = "\<lparr>hl_identity_public_key = node_key sample_backend (sample_node n),
    hl_ephemeral_public_key = pad 32 (pad 32 [of_nat g]), hl_nonce = pad 32 [of_nat (Suc g)]\<rparr>"
  have "hello_valid ?own"
    by (simp add: hello_valid_def node_key_def credential_of_def sample_backend_simps)
  from raw_hello [OF this] show ?thesis
    by (simp add: handshake_begin_def transport_identity_def node_public [OF sample_node_ready sample_backend_laws(1)]
        transport_crypto_def on_entropy_def tc_ephemeral_key_def tc_random_nonce_def provider_ephemeral_key_def
        provider_hello_nonce_def with_entropy_def ephemeral_key_def agreement_key_def random_bytes_def
        sample_fill_def MAX_RANDOM_BYTES_def sample_backend_simps Let_def)
qed

theorem nodes_connect_witness:
  "\<exists>a hello_a ga b hello_b gb auth_a auth_b est_a est_b.
    handshake_begin Initiator Unpinned (transport_identity sample_backend (sample_node 1)) ()
      (transport_crypto sample_backend sample_fill sample_ceiling) 3 = (Inr (a, hello_a), ga) \<and>
    fst (handshake_drive (transport_identity sample_backend (sample_node 1))
      (transport_crypto sample_backend sample_fill sample_ceiling) hello_b auth_b (a, (), ga)) = Inr (Some auth_a, Some est_a) \<and>
    fst (handshake_drive (transport_identity sample_backend (sample_node 2))
      (transport_crypto sample_backend sample_fill sample_ceiling) hello_a auth_a (b, (), gb)) = Inr (Some auth_b, Some est_b) \<and>
    es_keys est_a = mirror (es_keys est_b) \<and> es_peer_identity est_a = node_id sample_backend (sample_node 2)"
proof -
  obtain a hello_a ga where a: "handshake_begin Initiator Unpinned (transport_identity sample_backend (sample_node 1)) ()
      (transport_crypto sample_backend sample_fill sample_ceiling) 3 = (Inr (a, hello_a), ga)"
    using sample_node_begin by blast
  obtain b hello_b gb where b: "handshake_begin Acceptor Unpinned (transport_identity sample_backend (sample_node 2)) ()
      (transport_crypto sample_backend sample_fill sample_ceiling) 8 = (Inr (b, hello_b), gb)"
    using sample_node_begin by blast
  have derive: "deriving sample_backend" by (simp add: deriving_def sample_backend_simps)
  have ceiling: "231 \<le> pv_maximum_bytes sample_ceiling" by (simp add: sample_ceiling_def)
  have accept: "accepts Unpinned i" for i by (simp add: accepts_def)
  from nodes_connect [OF sample_backend_laws(1,3,4) derive sample_fill_sized sample_node_ready sample_node_ready ceiling
      a b accept accept sample_backend_simps(6)] a show ?thesis by blast
qed

end
