(* ===== verification/Json_Document.thy ===== *)
theory Json_Document
  imports Btree_Map Session_Keys "HOL-Library.List_Lexorder"
begin

text \<open>
  The bounded documents of the board (\<open>src/src/modules/board/config.rs\<close> and \<open>document.rs\<close>, with the
  error type of \<open>board/mod.rs\<close>): the resource policy and its validation, and the structural preflight
  that looks at every byte of a document before a tree is built from it.

  The JSON library is external. Its tree type is the datatype \<open>Json\<close>, with a number kept as its text
  and an object as a map in key order; its functions are the fields of the record \<open>Serde\<close>, a
  parameter of everything below: the tree of a text, the string of a quoted text, and the text of a
  tree. No property of them is assumed here.

  The preflight is recursive descent with a loop inside a recursive call. It is written with fuel, one
  unit per call and iteration; \<open>scan_total\<close> shows that twice the length of the input and one more is
  always enough, so that no document is refused for lack of it. The section on the grammar defines the
  texts within the budgets, and the property of this theory shows that the preflight accepts exactly
  these.
\<close>

section \<open>Errors and limits\<close>

datatype BoardError =
  Be_Invalid | Be_Unsupported | Be_Denied | Be_Limit | Be_Missing | Be_Stale | Be_Cancelled | Be_Storage | Be_Unknown

definition checked_mul_usize :: "usize \<Rightarrow> usize \<Rightarrow> usize option" where
  "checked_mul_usize a b = (if a * b \<le> usize_max then Some (a * b) else None)"

definition RECORD_FIXED_BYTES :: usize where
  "RECORD_FIXED_BYTES = 64"

definition RECORD_ENTRY_BYTES :: usize where
  "RECORD_ENTRY_BYTES = 12"

record BoardLimits =
  bl_document_bytes :: usize
  bl_depth :: usize
  bl_nodes :: usize
  bl_string_bytes :: usize
  bl_array_elements :: usize
  bl_definitions :: usize
  bl_publication_bytes :: usize
  bl_cache_entries :: usize
  bl_snapshots :: usize
  bl_cache_seconds :: u64

definition board_limits_default :: BoardLimits where
  "board_limits_default =
     \<lparr>bl_document_bytes = 1048576, bl_depth = 31, bl_nodes = 65536, bl_string_bytes = 1048576,
      bl_array_elements = 4096, bl_definitions = 1024, bl_publication_bytes = 16777216,
      bl_cache_entries = 64, bl_snapshots = 128, bl_cache_seconds = 300\<rparr>"

definition board_limits_validate :: "BoardLimits \<Rightarrow> (BoardError, unit) result" where
  "board_limits_validate l =
     (let values = [bl_document_bytes l, bl_depth l, bl_nodes l, bl_string_bytes l, bl_array_elements l,
            bl_definitions l, bl_publication_bytes l, bl_cache_entries l, bl_snapshots l];
          envelope = Option.bind (Option.bind (checked_mul_usize (bl_publication_bytes l) 2) (\<lambda>n.
              Option.bind (checked_mul_usize (bl_definitions l) RECORD_ENTRY_BYTES) (\<lambda>d. checked_add_usize n d)))
            (\<lambda>n. checked_add_usize n RECORD_FIXED_BYTES)
      in if envelope = None \<or> 0 \<in> set values \<or> bl_cache_seconds l = 0 \<or> bl_depth l > 31
           \<or> bl_document_bytes l > 1048576 \<or> bl_string_bytes l > bl_document_bytes l
           \<or> bl_publication_bytes l < bl_document_bytes l
         then Inl Be_Invalid else Inr ())"

lemma board_limits_validate_eq:
  "board_limits_validate l = Inr () \<longleftrightarrow>
     0 < bl_document_bytes l \<and> 0 < bl_depth l \<and> 0 < bl_nodes l \<and> 0 < bl_string_bytes l \<and>
     0 < bl_array_elements l \<and> 0 < bl_definitions l \<and> 0 < bl_cache_entries l \<and> 0 < bl_snapshots l \<and>
     bl_cache_seconds l \<noteq> 0 \<and> bl_depth l \<le> 31 \<and> bl_document_bytes l \<le> 1048576 \<and>
     bl_string_bytes l \<le> bl_document_bytes l \<and> bl_document_bytes l \<le> bl_publication_bytes l \<and>
     bl_publication_bytes l * 2 + bl_definitions l * 12 + 64 \<le> usize_max"
  by (auto simp: board_limits_validate_def checked_mul_usize_def checked_add_usize_def Let_def
      RECORD_ENTRY_BYTES_def RECORD_FIXED_BYTES_def)

lemma board_limits_default_valid: "board_limits_validate board_limits_default = Inr ()"
  by (simp add: board_limits_validate_eq board_limits_default_def usize_max_def)

section \<open>Trees and the JSON library\<close>

datatype Json =
  Json_Null | Json_Bool bool | Json_Number bytes | Json_String bytes | Json_Array "Json list"
  | Json_Object "(bytes, Json) btree_map"

record Serde =
  sj_value :: "bytes \<Rightarrow> Json option"
  sj_text :: "bytes \<Rightarrow> bytes option"
  sj_print :: "Json \<Rightarrow> bytes"

record Document =
  dc_source :: bytes
  dc_value :: Json

section \<open>The preflight\<close>

record Scan =
  sc_pos :: usize
  sc_nodes :: usize

definition byte_at :: "bytes \<Rightarrow> usize \<Rightarrow> byte option" where
  "byte_at bs i = (if i < length bs then Some (bs ! i) else None)"

definition is_space :: "byte \<Rightarrow> bool" where
  "is_space b \<longleftrightarrow> b = 32 \<or> b = 9 \<or> b = 13 \<or> b = 10"

definition advance :: "usize \<Rightarrow> Scan \<Rightarrow> Scan" where
  "advance n s = s\<lparr>sc_pos := sc_pos s + n\<rparr>"

definition scan_space :: "bytes \<Rightarrow> Scan \<Rightarrow> Scan" where
  "scan_space bs s = advance (length (takeWhile is_space (drop (sc_pos s) bs))) s"

definition scan_node :: "BoardLimits \<Rightarrow> Scan \<Rightarrow> (BoardError, Scan) result" where
  "scan_node l s =
     (let s = s\<lparr>sc_nodes := sc_nodes s + 1\<rparr> in if sc_nodes s > bl_nodes l then Inl Be_Limit else Inr s)"

text \<open>
  The loop to the closing quote, over the bytes after the opening one: how many bytes it reads. A
  backslash takes the byte after it along.
\<close>

fun close_quote :: "bytes \<Rightarrow> usize option" where
  "close_quote [] = None"
| "close_quote (b # rest) =
     (if b = 34 then Some 1
      else if b = 92 then (case rest of [] \<Rightarrow> None | _ # rest \<Rightarrow> map_option (\<lambda>n. n + 2) (close_quote rest))
      else map_option Suc (close_quote rest))"

definition scan_string :: "Serde \<Rightarrow> BoardLimits \<Rightarrow> bytes \<Rightarrow> Scan \<Rightarrow> (BoardError, bytes \<times> Scan) result" where
  "scan_string js l bs s =
     and_then (ok_or Be_Invalid (close_quote (drop (sc_pos s + 1) bs))) (\<lambda>n.
     and_then (ok_or Be_Invalid (sj_text js (subslice (sc_pos s) (sc_pos s + 1 + n) bs))) (\<lambda>value.
     if length value > bl_string_bytes l then Inl Be_Limit else Inr (value, advance (1 + n) s)))"

definition in_scalar :: "byte \<Rightarrow> bool" where
  "in_scalar b \<longleftrightarrow> \<not> is_space b \<and> b \<noteq> 44 \<and> b \<noteq> 93 \<and> b \<noteq> 125"

definition scan_scalar :: "Serde \<Rightarrow> bytes \<Rightarrow> Scan \<Rightarrow> (BoardError, Scan) result" where
  "scan_scalar js bs s =
     (let token = takeWhile in_scalar (drop (sc_pos s) bs)
      in if token = [] then Inl Be_Invalid
         else and_then (ok_or Be_Invalid (sj_value js token)) (\<lambda>_. Inr (advance (length token) s)))"

definition scan_key ::
    "Serde \<Rightarrow> BoardLimits \<Rightarrow> bytes \<Rightarrow> bytes list \<Rightarrow> Scan \<Rightarrow> (BoardError, bytes list \<times> Scan) result" where
  "scan_key js l bs keys s =
     and_then (scan_node l (scan_space bs s)) (\<lambda>s.
     if byte_at bs (sc_pos s) \<noteq> Some 34 then Inl Be_Invalid else
     and_then (scan_string js l bs s) (\<lambda>(key, s).
     if key \<in> set keys then Inl Be_Invalid else
     let s = scan_space bs s
     in if byte_at bs (sc_pos s) \<noteq> Some 58 then Inl Be_Invalid else Inr (key # keys, advance 1 s)))"

definition scan_element :: "BoardLimits \<Rightarrow> usize \<Rightarrow> (BoardError, usize) result" where
  "scan_element l count = (if count + 1 > bl_array_elements l then Inl Be_Limit else Inr (count + 1))"

text \<open>What precedes a member of a container: its key, or its place in the count of the elements.\<close>

definition scan_head ::
    "Serde \<Rightarrow> BoardLimits \<Rightarrow> bytes \<Rightarrow> bool \<Rightarrow> bytes list \<Rightarrow> usize \<Rightarrow> Scan
      \<Rightarrow> (BoardError, bytes list \<times> usize \<times> Scan) result" where
  "scan_head js l bs object keys count s =
     (if object then and_then (scan_key js l bs keys s) (\<lambda>(keys, s). Inr (keys, count, s))
      else and_then (scan_element l count) (\<lambda>count. Inr (keys, count, s)))"

fun scan_value :: "nat \<Rightarrow> Serde \<Rightarrow> BoardLimits \<Rightarrow> bytes \<Rightarrow> usize \<Rightarrow> Scan \<Rightarrow> (BoardError, Scan) result option"
and scan_items ::
    "nat \<Rightarrow> Serde \<Rightarrow> BoardLimits \<Rightarrow> bytes \<Rightarrow> usize \<Rightarrow> bool \<Rightarrow> byte \<Rightarrow> bytes list \<Rightarrow> usize \<Rightarrow> Scan
      \<Rightarrow> (BoardError, Scan) result option" where
  "scan_value 0 js l bs depth s = None"
| "scan_value (Suc fuel) js l bs depth s =
     (case scan_node l (scan_space bs s) of Inl e \<Rightarrow> Some (Inl e) | Inr s \<Rightarrow>
      case byte_at bs (sc_pos s) of None \<Rightarrow> Some (Inl Be_Invalid) | Some b \<Rightarrow>
      if b = 123 \<or> b = 91 then
        if depth \<ge> bl_depth l then Some (Inl Be_Limit) else
        let object = (b = 123); close = (if object then 125 else 93); s = scan_space bs (advance 1 s)
        in if byte_at bs (sc_pos s) = Some close then Some (Inr (advance 1 s))
           else scan_items fuel js l bs depth object close [] 0 s
      else if b = 34 then Some (and_then (scan_string js l bs s) (\<lambda>(_, s). Inr s))
      else Some (scan_scalar js bs s))"
| "scan_items 0 js l bs depth object close keys count s = None"
| "scan_items (Suc fuel) js l bs depth object close keys count s =
     (case scan_head js l bs object keys count s of Inl e \<Rightarrow> Some (Inl e) | Inr (keys, count, s) \<Rightarrow>
      case scan_value fuel js l bs (depth + 1) s of None \<Rightarrow> None | Some (Inl e) \<Rightarrow> Some (Inl e) | Some (Inr s) \<Rightarrow>
      let s = scan_space bs s
      in case byte_at bs (sc_pos s) of None \<Rightarrow> Some (Inl Be_Invalid) | Some b \<Rightarrow>
         if b = close then Some (Inr (advance 1 s))
         else if b = 44 then scan_items fuel js l bs depth object close keys count (advance 1 s)
         else Some (Inl Be_Invalid))"

definition scan_fuel :: "bytes \<Rightarrow> nat" where
  "scan_fuel bs = 2 * length bs + 1"

definition document_parse :: "Serde \<Rightarrow> bytes \<Rightarrow> BoardLimits \<Rightarrow> (BoardError, Document) result" where
  "document_parse js bs l =
     and_then (board_limits_validate l) (\<lambda>_.
     if length bs > bl_document_bytes l then Inl Be_Limit else
     if \<not> utf8_valid bs then Inl Be_Invalid else
     case scan_value (scan_fuel bs) js l bs 0 \<lparr>sc_pos = 0, sc_nodes = 0\<rparr> of
       None \<Rightarrow> Inl Be_Invalid
     | Some (Inl e) \<Rightarrow> Inl e
     | Some (Inr s) \<Rightarrow>
         if sc_pos (scan_space bs s) \<noteq> length bs then Inl Be_Invalid else
         and_then (ok_or Be_Invalid (sj_value js bs)) (\<lambda>value. Inr \<lparr>dc_source = bs, dc_value = value\<rparr>))"

section \<open>The texts within the budgets\<close>

abbreviation spaces :: "bytes \<Rightarrow> bool" where
  "spaces w \<equiv> list_all is_space w"

definition quoted :: "Serde \<Rightarrow> BoardLimits \<Rightarrow> bytes \<Rightarrow> bytes \<Rightarrow> bool" where
  "quoted js l body value \<longleftrightarrow> close_quote body = Some (length body) \<and> sj_text js (34 # body) = Some value \<and>
     length value \<le> bl_string_bytes l"

text \<open>
  What may precede a member: the key of an object with its colon, different from the keys before it,
  or nothing in an array that is not full. The last argument counts the nodes.
\<close>

definition head_text ::
    "Serde \<Rightarrow> BoardLimits \<Rightarrow> bool \<Rightarrow> bytes list \<Rightarrow> usize \<Rightarrow> bytes \<Rightarrow> bytes list \<Rightarrow> usize \<Rightarrow> nat \<Rightarrow> bool" where
  "head_text js l object keys count h keys' count' n \<longleftrightarrow>
     (if object then n = 1 \<and> count' = count \<and>
        (\<exists>w body key w'. spaces w \<and> spaces w' \<and> quoted js l body key \<and> key \<notin> set keys \<and> keys' = key # keys \<and>
           h = w @ 34 # body @ w' @ [58])
      else n = 0 \<and> h = [] \<and> keys' = keys \<and> count' = count + 1 \<and> count' \<le> bl_array_elements l)"

text \<open>
  A value at a depth, with the spaces before it, and the members of a container up to its closing
  byte. The first argument list is the policy, the last counts the values and members.
\<close>

inductive json_text :: "Serde \<Rightarrow> BoardLimits \<Rightarrow> nat \<Rightarrow> bytes \<Rightarrow> nat \<Rightarrow> bool"
and json_items :: "Serde \<Rightarrow> BoardLimits \<Rightarrow> nat \<Rightarrow> bool \<Rightarrow> byte \<Rightarrow> bytes list \<Rightarrow> usize \<Rightarrow> bytes \<Rightarrow> nat \<Rightarrow> bool"
for js :: Serde and l :: BoardLimits where
  text_scalar: "spaces w \<Longrightarrow> b \<notin> {123, 91, 34} \<Longrightarrow> list_all in_scalar (b # token) \<Longrightarrow>
     sj_value js (b # token) \<noteq> None \<Longrightarrow> json_text js l d (w @ b # token) 1"
| text_string: "spaces w \<Longrightarrow> quoted js l body value \<Longrightarrow> json_text js l d (w @ 34 # body) 1"
| text_empty: "spaces w \<Longrightarrow> d < bl_depth l \<Longrightarrow> spaces w' \<Longrightarrow>
     json_text js l d (w @ (if object then 123 else 91) # w' @ [if object then 125 else 93]) 1"
| text_items: "spaces w \<Longrightarrow> d < bl_depth l \<Longrightarrow>
     json_items js l d object (if object then 125 else 93) [] 0 items n \<Longrightarrow>
     json_text js l d (w @ (if object then 123 else 91) # items) (Suc n)"
| items_last: "head_text js l object keys count h keys' count' n \<Longrightarrow> json_text js l (d + 1) v m \<Longrightarrow> spaces w \<Longrightarrow>
     json_items js l d object close keys count (h @ v @ w @ [close]) (n + m)"
| items_more: "head_text js l object keys count h keys' count' n \<Longrightarrow> json_text js l (d + 1) v m \<Longrightarrow> spaces w \<Longrightarrow>
     json_items js l d object close keys' count' rest k \<Longrightarrow>
     json_items js l d object close keys count (h @ v @ w @ 44 # rest) (n + m + k)"

section \<open>The preflight is exact\<close>

text \<open>The input that is left.\<close>

definition left :: "bytes \<Rightarrow> Scan \<Rightarrow> bytes" where
  "left bs s = drop (sc_pos s) bs"

text \<open>\<open>reads bs s w n s'\<close>: the scan went over exactly \<open>w\<close> and counted \<open>n\<close> nodes.\<close>

definition reads :: "bytes \<Rightarrow> Scan \<Rightarrow> bytes \<Rightarrow> nat \<Rightarrow> Scan \<Rightarrow> bool" where
  "reads bs s w n s' \<longleftrightarrow> left bs s = w @ left bs s' \<and>
     s' = \<lparr>sc_pos = sc_pos s + length w, sc_nodes = sc_nodes s + n\<rparr>"

lemma left_advance: "left bs (advance n s) = drop n (left bs s)"
  by (simp add: left_def advance_def add.commute)

lemma byte_at_left: "byte_at bs (sc_pos s) = (case left bs s of [] \<Rightarrow> None | b # _ \<Rightarrow> Some b)"
  by (cases "left bs s") (auto simp: byte_at_def left_def Cons_nth_drop_Suc [symmetric] hd_drop_conv_nth
      dest: arg_cong [of _ _ length] arg_cong [of _ _ hd])

lemma byte_at_eq_Some: "byte_at bs (sc_pos s) = Some b \<longleftrightarrow> (\<exists>rest. left bs s = b # rest)"
  by (auto simp: byte_at_left split: list.splits)

lemma advance_eq: "advance n s = \<lparr>sc_pos = sc_pos s + n, sc_nodes = sc_nodes s\<rparr>"
  by (cases s) (simp add: advance_def)

lemma reads_advance: "left bs s = w @ rest \<Longrightarrow> reads bs s w 0 (advance (length w) s)"
  unfolding reads_def by (simp add: left_advance) (simp add: advance_eq)

lemma reads_trans: "reads bs s w n s1 \<Longrightarrow> reads bs s1 w' n' s' \<Longrightarrow> reads bs s (w @ w') (n + n') s'"
  by (auto simp: reads_def)

lemma reads_unique: "reads bs s w n s' \<Longrightarrow> reads bs s w n s'' \<Longrightarrow> s' = s''"
  by (simp add: reads_def)

lemma reads_space: "reads bs s (takeWhile is_space (left bs s)) 0 (scan_space bs s)"
  using reads_advance [of bs s "takeWhile is_space (left bs s)" "dropWhile is_space (left bs s)"]
  by (simp add: scan_space_def left_def)

lemma left_space: "left bs (scan_space bs s) = dropWhile is_space (left bs s)"
  using reads_space [of bs s] by (simp add: reads_def) (metis append_same_eq same_append_eq takeWhile_dropWhile_id)

lemma spaces_takeWhile: "spaces (takeWhile is_space w)"
  by (simp add: list_all_iff) (metis set_takeWhileD)

lemma scan_space_idem [simp]: "scan_space bs (scan_space bs s) = scan_space bs s"
  using reads_space [of bs "scan_space bs s"] by (simp add: left_space reads_def)


lemma scan_node_eq_Inr:
  "scan_node l s = Inr s' \<longleftrightarrow> s' = \<lparr>sc_pos = sc_pos s, sc_nodes = Suc (sc_nodes s)\<rparr> \<and> sc_nodes s' \<le> bl_nodes l"
  by (cases s) (auto simp: scan_node_def Let_def)

lemma close_quote_cases:
  assumes "close_quote xs = Some n"
  obtains (quote) rest where "xs = 34 # rest" "n = 1"
    | (escape) c rest m where "xs = 92 # c # rest" "n = Suc (Suc m)" "close_quote rest = Some m"
    | (other) b rest m where "xs = b # rest" "b \<noteq> 34" "b \<noteq> 92" "n = Suc m" "close_quote rest = Some m"
  using assms by (cases xs) (auto split: if_splits list.splits)

lemma close_quote_split:
  "close_quote xs = Some n \<Longrightarrow> n \<le> length xs \<and> close_quote (take n xs @ ys) = Some n"
proof (induction xs arbitrary: n rule: length_induct)
  case (1 xs)
  from "1.prems" show ?case
  proof (cases rule: close_quote_cases)
    case (escape c rest m)
    then have "m \<le> length rest \<and> close_quote (take m rest @ ys) = Some m" using "1.IH" by auto
    with escape show ?thesis by simp
  next
    case (other b rest m)
    then have "m \<le> length rest \<and> close_quote (take m rest @ ys) = Some m" using "1.IH" by auto
    with other show ?thesis by simp
  qed simp
qed

lemmas close_quote_take = close_quote_split [where ys = "[]", simplified]

lemma close_quote_append: "close_quote xs = Some (length xs) \<Longrightarrow> close_quote (xs @ ys) = Some (length xs)"
  using close_quote_split [of xs "length xs" ys] by simp

lemma left_Cons: "left bs s = b # rest \<Longrightarrow> drop (sc_pos s + 1) bs = rest"
  unfolding left_def by (metis Suc_eq_plus1 drop_Suc list.sel(3) tl_drop)

lemma scan_string_eq_Inr:
  "scan_string js l bs s = Inr (value, s') \<and> byte_at bs (sc_pos s) = Some 34 \<longleftrightarrow>
     (\<exists>body. quoted js l body value \<and> reads bs s (34 # body) 0 s')" (is "?l \<longleftrightarrow> ?r")
proof
  assume a: ?l
  then obtain rest where rest: "left bs s = 34 # rest" by (auto simp: byte_at_eq_Some)
  then have d: "drop (sc_pos s + 1) bs = rest" by (rule left_Cons)
  with a obtain n where n: "close_quote rest = Some n" "sj_text js (subslice (sc_pos s) (sc_pos s + 1 + n) bs) = Some value"
      "length value \<le> bl_string_bytes l" "s' = advance (1 + n) s"
    by (auto simp: scan_string_def and_then_eq_Inr split: if_splits)
  have "subslice (sc_pos s) (sc_pos s + 1 + n) bs = 34 # take n rest"
    using rest by (simp add: subslice_def left_def)
  moreover have "reads bs s (34 # take n rest) 0 s'"
    using reads_advance [of bs s "34 # take n rest" "drop n rest"] rest n close_quote_take [OF n(1)] by simp
  ultimately show ?r
    using n close_quote_take [OF n(1)] by (intro exI [of _ "take n rest"]) (simp add: quoted_def)
next
  assume ?r
  then obtain body where b: "quoted js l body value" "reads bs s (34 # body) 0 s'" by blast
  then have rest: "left bs s = 34 # body @ left bs s'" by (simp add: reads_def)
  then have d: "drop (sc_pos s + 1) bs = body @ left bs s'" by (rule left_Cons)
  have "subslice (sc_pos s) (sc_pos s + 1 + length body) bs = 34 # body"
    using rest by (simp add: subslice_def left_def)
  moreover have "s' = advance (1 + length body) s" using b(2) by (simp add: reads_def advance_eq)
  moreover have "close_quote (body @ left bs s') = Some (length body)"
    using b(1) by (simp add: quoted_def close_quote_append)
  ultimately show ?l
    using b(1) d rest by (simp add: scan_string_def quoted_def byte_at_eq_Some)
qed


lemma scan_scalar_sound:
  assumes "scan_scalar js bs s = Inr s'" "left bs s = b # rest"
  obtains token where "list_all in_scalar (b # token)" "sj_value js (b # token) \<noteq> None" "reads bs s (b # token) 0 s'"
proof -
  let ?t = "takeWhile in_scalar (left bs s)"
  have t: "?t \<noteq> []" "sj_value js ?t \<noteq> None" "s' = advance (length ?t) s"
    using assms(1) by (auto simp: scan_scalar_def Let_def left_def and_then_eq_Inr split: if_splits)
  then obtain token where token: "?t = b # token" using assms(2) by (auto split: if_splits)
  have "reads bs s ?t 0 s'" using reads_advance [of bs s ?t "dropWhile in_scalar (left bs s)"] t(3) by simp
  moreover have "list_all in_scalar ?t" by (auto simp: list_all_iff dest: set_takeWhileD)
  ultimately show thesis using t(2) token by (intro that [of token]) simp_all
qed

lemma reads_node:
  assumes "reads bs s w n s1" "scan_node l s1 = Inr s'"
  shows "reads bs s w (Suc n) s'" "sc_nodes s' \<le> bl_nodes l"
  using assms by (auto simp: reads_def scan_node_eq_Inr left_def)

lemma scan_key_sound:
  assumes "scan_key js l bs keys s = Inr (keys', s')"
  obtains h where "head_text js l True keys count h keys' count 1" "reads bs s h 1 s'" "sc_nodes s' \<le> bl_nodes l"
proof -
  from assms obtain s1 key s2 where s1: "scan_node l (scan_space bs s) = Inr s1" "byte_at bs (sc_pos s1) = Some 34"
      and s2: "scan_string js l bs s1 = Inr (key, s2)" "key \<notin> set keys" "byte_at bs (sc_pos (scan_space bs s2)) = Some 58"
      and s': "keys' = key # keys" "s' = advance 1 (scan_space bs s2)"
    by (auto simp: scan_key_def and_then_eq_Inr Let_def split: if_splits)
  obtain body where body: "quoted js l body key" "reads bs s1 (34 # body) 0 s2"
    using s1(2) s2(1) scan_string_eq_Inr by blast
  obtain rest where "left bs (scan_space bs s2) = [58] @ rest" using s2(3) by (auto simp: byte_at_eq_Some)
  from reads_advance [OF this] have last: "reads bs (scan_space bs s2) [58] 0 s'" by (simp add: s'(2))
  let ?w = "takeWhile is_space (left bs s)" and ?w' = "takeWhile is_space (left bs s2)"
  note r = reads_node [OF reads_space s1(1)]
  have "reads bs s (?w @ (34 # body) @ ?w' @ [58]) 1 s'"
    using reads_trans [OF r(1) reads_trans [OF body(2) reads_trans [OF reads_space last]]] by simp
  moreover have "sc_nodes s' \<le> bl_nodes l" using r(2) body(2) s'(2) reads_space [of bs s2] by (auto simp: reads_def advance_eq)
  ultimately show thesis
    using that [of "?w @ (34 # body) @ ?w' @ [58]"] spaces_takeWhile body(1) s2(2) s'(1) unfolding head_text_def by fastforce
qed

lemma scan_head_sound:
  assumes "scan_head js l bs object keys count s = Inr (keys', count', s')"
  obtains h n where "head_text js l object keys count h keys' count' n" "reads bs s h n s'"
proof (cases object)
  case True
  with assms obtain k: "scan_key js l bs keys s = Inr (keys', s')" "count' = count"
    by (auto simp: scan_head_def and_then_eq_Inr)
  from scan_key_sound [OF k(1), of count] show thesis using that True k(2) by metis
next
  case False
  with assms have "head_text js l object keys count [] keys' count' 0" "s' = s"
    by (auto simp: scan_head_def scan_element_def head_text_def and_then_eq_Inr split: if_splits)
  then show thesis using that [of "[]" 0] by (simp add: reads_def)
qed

lemma scan_value_space: "scan_value fuel js l bs d (scan_space bs s) = scan_value fuel js l bs d s"
  by (cases fuel) simp_all

lemma scan_head_space:
  assumes "object"
  shows "scan_head js l bs object keys count (scan_space bs s) = scan_head js l bs object keys count s"
  using assms by (simp add: scan_head_def scan_key_def)

lemma scan_items_space:
  "scan_items fuel js l bs d object close keys count (scan_space bs s) = scan_items fuel js l bs d object close keys count s"
proof (cases fuel)
  case (Suc f)
  show ?thesis
  proof (cases object)
    case True
    with Suc show ?thesis by (simp add: scan_head_space)
  next
    case False
    then have "scan_head js l bs object keys count r =
        (case scan_element l count of Inl e \<Rightarrow> Inl e | Inr count \<Rightarrow> Inr (keys, count, r))" for r
      by (auto simp: scan_head_def and_then_def split: sum.splits)
    with Suc show ?thesis by (simp add: scan_value_space split: sum.split)
  qed
qed simp

definition scanned :: "(bytes \<Rightarrow> nat \<Rightarrow> bool) \<Rightarrow> BoardLimits \<Rightarrow> bytes \<Rightarrow> Scan \<Rightarrow> Scan \<Rightarrow> bool" where
  "scanned P l bs s s' \<longleftrightarrow> (\<exists>w n. P w n \<and> reads bs s w n s' \<and> sc_nodes s' \<le> bl_nodes l)"

lemma scan_value_sound_step:
  assumes items: "\<And>object close s s'. scan_items fuel js l bs d object close [] 0 s = Some (Inr s') \<Longrightarrow>
      scanned (json_items js l d object close [] 0) l bs s s'"
    and v: "scan_value (Suc fuel) js l bs d s = Some (Inr s')"
  shows "scanned (json_text js l d) l bs s s'"
proof -
  let ?w = "takeWhile is_space (left bs s)"
  from v obtain s1 b rest where s1: "scan_node l (scan_space bs s) = Inr s1" and b: "left bs s1 = b # rest"
    by (auto simp: byte_at_left split: sum.splits list.splits)
  note r = reads_node [OF reads_space s1]
  note eqs = v scan_value.simps(2) s1 byte_at_left b
  consider (container) "b = 123 \<or> b = 91" | (string) "b = 34" | (scalar) "b \<notin> {123, 91, 34}" by blast
  then show ?thesis
  proof cases
    case container
    define object where "object = (b = 123)"
    define close :: byte where "close = (if object then 125 else 93)"
    have ob: "b = (if object then 123 else 91)" using container by (auto simp: object_def)
    have d: "d < bl_depth l" using container eqs by (auto split: if_splits)
    let ?s = "advance 1 s1"
    have open_r: "reads bs s (?w @ [b]) 1 ?s"
      using reads_trans [OF r(1) reads_advance [of bs s1 "[b]" rest]] b by simp
    have res: "(if byte_at bs (sc_pos (scan_space bs ?s)) = Some close then Some (Inr (advance 1 (scan_space bs ?s)))
        else scan_items fuel js l bs d object close [] 0 ?s) = Some (Inr s')"
      using container d v s1 b by (auto simp: byte_at_left Let_def object_def close_def scan_items_space split: if_splits)
    show ?thesis
    proof (cases "byte_at bs (sc_pos (scan_space bs ?s)) = Some close")
      case True
      then obtain rest' where "left bs (scan_space bs ?s) = [close] @ rest'" by (auto simp: byte_at_eq_Some)
      from reads_advance [OF this] have "reads bs (scan_space bs ?s) [close] 0 s'" using res True by simp
      from reads_trans [OF open_r reads_trans [OF reads_space this]]
      have "reads bs s (?w @ b # takeWhile is_space (left bs ?s) @ [close]) 1 s'" by simp
      moreover from this have "sc_nodes s' \<le> bl_nodes l" using r by (simp add: reads_def)
      ultimately show ?thesis
        using text_empty [where object = object, OF spaces_takeWhile d spaces_takeWhile] unfolding scanned_def ob close_def by metis
    next
      case False
      with res items obtain w n where w: "json_items js l d object close [] 0 w n" "reads bs ?s w n s'" "sc_nodes s' \<le> bl_nodes l"
        unfolding scanned_def by fastforce
      have "reads bs s (?w @ b # w) (Suc n) s'" using reads_trans [OF open_r w(2)] by simp
      then show ?thesis
        using text_items [OF spaces_takeWhile d w(1) [unfolded close_def]] w(3) unfolding scanned_def ob by metis
    qed
  next
    case string
    then obtain t where "scan_string js l bs s1 = Inr (t, s')" using eqs by (auto simp: and_then_eq_Inr)
    then obtain body where body: "quoted js l body t" "reads bs s1 (34 # body) 0 s'"
      using scan_string_eq_Inr [of js l bs s1 t s'] string b by (auto simp: byte_at_left)
    have "reads bs s (?w @ 34 # body) 1 s'" using reads_trans [OF r(1) body(2)] by simp
    moreover from this have "sc_nodes s' \<le> bl_nodes l" using r by (simp add: reads_def)
    ultimately show ?thesis using text_string [OF spaces_takeWhile body(1)] unfolding scanned_def by metis
  next
    case scalar
    then have "scan_scalar js bs s1 = Inr s'" using eqs by (auto split: if_splits)
    then obtain token where t: "list_all in_scalar (b # token)" "sj_value js (b # token) \<noteq> None" "reads bs s1 (b # token) 0 s'"
      using b by (rule scan_scalar_sound)
    have "reads bs s (?w @ b # token) 1 s'" using reads_trans [OF r(1) t(3)] by simp
    moreover from this have "sc_nodes s' \<le> bl_nodes l" using r by (simp add: reads_def)
    ultimately show ?thesis using text_scalar [OF spaces_takeWhile scalar t(1,2)] unfolding scanned_def by metis
  qed
qed

lemma scan_items_sound_step:
  assumes vals: "\<And>s s'. scan_value fuel js l bs (d + 1) s = Some (Inr s') \<Longrightarrow> scanned (json_text js l (d + 1)) l bs s s'"
    and items: "\<And>keys count s s'. scan_items fuel js l bs d object close keys count s = Some (Inr s') \<Longrightarrow>
      scanned (json_items js l d object close keys count) l bs s s'"
    and v: "scan_items (Suc fuel) js l bs d object close keys count s = Some (Inr s')"
  shows "scanned (json_items js l d object close keys count) l bs s s'"
proof -
  from v obtain keys' count' s1 s2 where head: "scan_head js l bs object keys count s = Inr (keys', count', s1)"
      and val: "scan_value fuel js l bs (d + 1) s1 = Some (Inr s2)"
    by (auto split: sum.splits option.splits)
  obtain h n where h: "head_text js l object keys count h keys' count' n" "reads bs s h n s1"
    using head by (rule scan_head_sound)
  obtain w m where w: "json_text js l (d + 1) w m" "reads bs s1 w m s2" "sc_nodes s2 \<le> bl_nodes l"
    using vals [OF val] unfolding scanned_def by blast
  let ?w = "takeWhile is_space (left bs s2)" and ?s = "scan_space bs s2"
  have r: "reads bs s (h @ w @ ?w) (n + m) ?s"
    using reads_trans [OF h(2) reads_trans [OF w(2) reads_space]] by simp
  from v head val obtain b rest where b: "left bs ?s = [b] @ rest"
    by (auto simp: byte_at_left Let_def split: list.splits)
  note next_r = reads_trans [OF r reads_advance [OF b]]
  have res: "(if b = close then Some (Inr (advance 1 ?s))
       else if b = 44 then scan_items fuel js l bs d object close keys' count' (advance 1 ?s) else Some (Inl Be_Invalid))
      = Some (Inr s')"
    using v head val b by (simp add: byte_at_left Let_def)
  show ?thesis
  proof (cases "b = close")
    case True
    with res next_r have "reads bs s (h @ w @ ?w @ [close]) (n + m) s'" by simp
    moreover from this have "sc_nodes s' \<le> bl_nodes l" using w(2,3) h(2) by (simp add: reads_def)
    ultimately show ?thesis using items_last [OF h(1) w(1) spaces_takeWhile] unfolding scanned_def by metis
  next
    case False
    with res have b44: "b = 44" and more: "scan_items fuel js l bs d object close keys' count' (advance 1 ?s) = Some (Inr s')"
      by (auto split: if_splits)
    obtain w' k where w': "json_items js l d object close keys' count' w' k" "reads bs (advance 1 ?s) w' k s'" "sc_nodes s' \<le> bl_nodes l"
      using items [OF more] unfolding scanned_def by blast
    have "reads bs s (h @ w @ ?w @ 44 # w') (n + m + k) s'"
      using reads_trans [OF next_r, of w' k s'] w'(2) b44 by simp
    then show ?thesis
      using items_more [OF h(1) w(1) spaces_takeWhile w'(1)] w'(3) unfolding scanned_def by metis
  qed
qed

lemma scan_sound:
  "(\<forall>d s s'. scan_value fuel js l bs d s = Some (Inr s') \<longrightarrow> scanned (json_text js l d) l bs s s') \<and>
   (\<forall>d object close keys count s s'. scan_items fuel js l bs d object close keys count s = Some (Inr s') \<longrightarrow>
      scanned (json_items js l d object close keys count) l bs s s')"
proof (induction fuel)
  case (Suc fuel)
  then have v: "\<And>d s s'. scan_value fuel js l bs d s = Some (Inr s') \<Longrightarrow> scanned (json_text js l d) l bs s s'"
    and i: "\<And>d object close keys count s s'. scan_items fuel js l bs d object close keys count s = Some (Inr s') \<Longrightarrow>
      scanned (json_items js l d object close keys count) l bs s s'" by blast+
  show ?case
    using scan_value_sound_step [OF i] scan_items_sound_step [OF v i] by blast
qed simp


lemma json_text_nonempty: "json_text js l d w n \<Longrightarrow> w \<noteq> []"
  by (cases rule: json_text.cases) auto

lemma left_node: "scan_node l s = Inr s' \<Longrightarrow> left bs s' = left bs s"
  by (auto simp: scan_node_eq_Inr left_def)

lemma length_left_space: "length (left bs (scan_space bs s)) \<le> length (left bs s)"
  by (simp add: left_space length_dropWhile_le)

text \<open>The fuel is enough: every value and every member consumes at least one byte.\<close>

lemma scan_total:
  "(\<forall>d s. 2 * length (left bs s) + 1 \<le> fuel \<longrightarrow> scan_value fuel js l bs d s \<noteq> None) \<and>
   (\<forall>d object close keys count s. 2 * length (left bs s) + 2 \<le> fuel \<longrightarrow>
      scan_items fuel js l bs d object close keys count s \<noteq> None)"
proof (induction fuel)
  case (Suc fuel)
  have v: "scan_value (Suc fuel) js l bs d s \<noteq> None" if fuel: "2 * length (left bs s) + 1 \<le> Suc fuel" for d s
  proof -
    have "scan_items fuel js l bs d object close [] 0 (scan_space bs (advance 1 s1)) \<noteq> None"
      if "scan_node l (scan_space bs s) = Inr s1" "left bs s1 = b # rest" for s1 b rest object close
    proof -
      have "length (left bs (advance 1 s1)) < length (left bs s)"
        using that length_left_space [of bs s] left_node [OF that(1), of bs] by (simp add: left_advance)
      with length_left_space [of bs "advance 1 s1"] fuel Suc show ?thesis by simp
    qed
    then show ?thesis
      by (auto simp: byte_at_left Let_def split: sum.split list.split)
  qed
  have i: "scan_items (Suc fuel) js l bs d object close keys count s \<noteq> None"
    if fuel: "2 * length (left bs s) + 2 \<le> Suc fuel" for d object close keys count s
  proof -
    have "scan_value fuel js l bs (d + 1) s1 \<noteq> None \<and>
        (\<forall>s2. scan_value fuel js l bs (d + 1) s1 = Some (Inr s2) \<longrightarrow>
          scan_items fuel js l bs d object close keys' count' (advance 1 (scan_space bs s2)) \<noteq> None)"
      if head: "scan_head js l bs object keys count s = Inr (keys', count', s1)" for keys' count' s1
    proof -
      obtain h n where "reads bs s h n s1" using head by (rule scan_head_sound)
      then have s1: "length (left bs s1) \<le> length (left bs s)" by (simp add: reads_def)
      have "scan_items fuel js l bs d object close keys' count' (advance 1 (scan_space bs s2)) \<noteq> None"
        if two: "scan_value fuel js l bs (d + 1) s1 = Some (Inr s2)" for s2
      proof -
        from scan_sound [THEN conjunct1, rule_format, OF two] obtain w m where
          "json_text js l (d + 1) w m" "reads bs s1 w m s2" unfolding scanned_def by blast
        then have "length (left bs s2) < length (left bs s1)"
          using json_text_nonempty by (fastforce simp: reads_def)
        with s1 length_left_space [of bs s2] fuel Suc show ?thesis by (simp add: left_advance)
      qed
      with s1 fuel Suc show ?thesis by auto
    qed
    then show ?thesis
      by (auto simp: Let_def split: sum.split option.split)
  qed
  from v i show ?case by blast
qed simp

lemma scan_mono_Suc:
  "(\<forall>d s r. scan_value fuel js l bs d s = Some r \<longrightarrow> scan_value (Suc fuel) js l bs d s = Some r) \<and>
   (\<forall>d object close keys count s r. scan_items fuel js l bs d object close keys count s = Some r \<longrightarrow>
      scan_items (Suc fuel) js l bs d object close keys count s = Some r)"
proof (induction fuel)
  case (Suc fuel)
  then have v: "\<And>d s r. scan_value fuel js l bs d s = Some r \<Longrightarrow> scan_value (Suc fuel) js l bs d s = Some r"
    and i: "\<And>d object close keys count s r. scan_items fuel js l bs d object close keys count s = Some r \<Longrightarrow>
      scan_items (Suc fuel) js l bs d object close keys count s = Some r" by blast+
  have "scan_value (Suc (Suc fuel)) js l bs d s = Some r" if "scan_value (Suc fuel) js l bs d s = Some r" for d s r
    using that i by (subst scan_value.simps) (auto simp: Let_def split: sum.splits option.splits if_splits simp del: scan_items.simps)
  moreover have "scan_items (Suc (Suc fuel)) js l bs d object close keys count s = Some r"
    if "scan_items (Suc fuel) js l bs d object close keys count s = Some r" for d object close keys count s r
    using that [unfolded scan_items.simps(2) [of fuel]] i v unfolding scan_items.simps(2) [of "Suc fuel"]
    by (auto simp: Let_def split: sum.splits option.splits if_splits simp del: scan_items.simps(2) scan_value.simps(2))
  ultimately show ?case by blast
qed simp

lemma scan_mono:
  assumes "fuel \<le> fuel'"
  shows "scan_value fuel js l bs d s = Some r \<Longrightarrow> scan_value fuel' js l bs d s = Some r"
    and "scan_items fuel js l bs d object close keys count s = Some r \<Longrightarrow>
      scan_items fuel' js l bs d object close keys count s = Some r"
  using assms scan_mono_Suc by (induction rule: dec_induct) blast+


text \<open>Completeness: a text of the grammar followed by a byte that ends a scalar is read to its end.\<close>

definition delimited :: "bytes \<Rightarrow> bool" where
  "delimited rest \<longleftrightarrow> (case rest of [] \<Rightarrow> True | b # _ \<Rightarrow> \<not> in_scalar b)"

lemma in_scalar_bytes: "in_scalar 34" "in_scalar 91" "in_scalar 123" "\<not> in_scalar 44" "\<not> in_scalar 93" "\<not> in_scalar 125"
    "\<not> is_space 58" "\<not> is_space 44"
  by (simp_all add: in_scalar_def is_space_def)

lemma in_scalar_not_space: "in_scalar b \<Longrightarrow> \<not> is_space b"
  by (simp add: in_scalar_def)

lemma delimited_spaces: "spaces w \<Longrightarrow> \<not> in_scalar b \<Longrightarrow> delimited (w @ b # rest)"
  by (cases w) (auto simp: delimited_def dest: in_scalar_not_space)

lemma json_text_first:
  assumes "json_text js l d w n"
  obtains w' b rest where "w = w' @ b # rest" "spaces w'" "in_scalar b"
  using assms
proof (cases rule: json_text.cases)
  case (text_scalar w' b token)
  with that [of w' b token] show thesis by simp
next
  case (text_string w' body t)
  with that [of w' 34 body] show thesis by (simp add: in_scalar_bytes)
next
  case (text_empty w' w'' object)
  with that [of w' "if object then 123 else 91"] show thesis by (simp add: in_scalar_bytes)
next
  case (text_items w' object items m)
  with that [of w' "if object then 123 else 91" items] show thesis by (simp add: in_scalar_bytes)
qed

lemma json_items_first:
  assumes "json_items js l d object close keys count w n"
  obtains w' b rest where "w = w' @ b # rest" "spaces w'" "in_scalar b"
proof -
  from assms obtain h keys' count' n' v m rest where h: "head_text js l object keys count h keys' count' n'"
      and v: "json_text js l (d + 1) v m" and w: "w = h @ v @ rest"
    by (cases rule: json_items.cases) auto
  show thesis
  proof (cases object)
    case True
    with h obtain w' rest' where "h = w' @ 34 # rest'" "spaces w'" by (auto simp: head_text_def)
    with that w in_scalar_bytes(1) show thesis by simp
  next
    case False
    with h w have "w = v @ rest" by (simp add: head_text_def)
    moreover obtain w' b r where "v = w' @ b # r" "spaces w'" "in_scalar b" using v by (rule json_text_first)
    ultimately show thesis using that by simp
  qed
qed

lemma reads_space_exact:
  assumes "left bs s = w @ b # rest" "spaces w" "\<not> is_space b"
  shows "reads bs s w 0 (scan_space bs s)" "left bs (scan_space bs s) = b # rest"
proof -
  have "takeWhile is_space (left bs s) = w" using assms by (simp add: list_all_iff takeWhile_append)
  with reads_space [of bs s] show "reads bs s w 0 (scan_space bs s)" by simp
  with assms(1) show "left bs (scan_space bs s) = b # rest" by (simp add: reads_def)
qed

lemma reads_node_exact:
  assumes "reads bs s w n s1" "sc_nodes s + Suc n \<le> bl_nodes l"
  obtains s' where "scan_node l s1 = Inr s'" "reads bs s w (Suc n) s'" "left bs s' = left bs s1" "sc_nodes s' = sc_nodes s + Suc n"
  using assms by (auto simp: reads_def scan_node_eq_Inr left_def)

lemma reads_byte:
  assumes "left bs s = b # rest"
  shows "reads bs s [b] 0 (advance 1 s)" "left bs (advance 1 s) = rest"
  using reads_advance [of bs s "[b]" rest] assms by (simp_all add: left_advance)

lemma reads_left: "reads bs s w n s' \<Longrightarrow> left bs s = w @ rest \<Longrightarrow> left bs s' = rest"
  by (simp add: reads_def)

lemma reads_nodes: "reads bs s w n s' \<Longrightarrow> sc_nodes s' = sc_nodes s + n"
  by (simp add: reads_def)

lemma scan_key_complete:
  assumes "spaces w" "spaces w'" "quoted js l body key" "key \<notin> set keys"
    "left bs s = w @ 34 # body @ w' @ 58 # rest" "sc_nodes s < bl_nodes l"
  obtains s' where "scan_key js l bs keys s = Inr (key # keys, s')" "reads bs s (w @ 34 # body @ w' @ [58]) 1 s'"
proof -
  note sp = reads_space_exact [OF assms(5,1) in_scalar_not_space [OF in_scalar_bytes(1)]]
  have "sc_nodes s + Suc 0 \<le> bl_nodes l" using assms(6) by simp
  with sp(1) obtain s1 where s1: "scan_node l (scan_space bs s) = Inr s1" "reads bs s w (Suc 0) s1"
      "left bs s1 = left bs (scan_space bs s)" by (rule reads_node_exact)
  note s1 = s1(1,2) s1(3) [unfolded sp(2)]
  have "reads bs s1 (34 # body) 0 (advance (length (34 # body)) s1)"
    using reads_advance [of bs s1 "34 # body" "w' @ 58 # rest"] s1(3) by simp
  then obtain s2 where s2: "reads bs s1 (34 # body) 0 s2" by blast
  then have str: "scan_string js l bs s1 = Inr (key, s2) \<and> byte_at bs (sc_pos s1) = Some 34"
    using scan_string_eq_Inr assms(3) by blast
  have "left bs s2 = w' @ 58 # rest" using reads_left [OF s2] s1(3) by simp
  note sp2 = reads_space_exact [OF this assms(2) in_scalar_bytes(7)]
  note colon = reads_byte [OF sp2(2)]
  have "scan_key js l bs keys s = Inr (key # keys, advance 1 (scan_space bs s2))"
    using s1(1) str assms(4) sp2(2) by (simp add: scan_key_def Let_def byte_at_left)
  moreover have "reads bs s (w @ 34 # body @ w' @ [58]) 1 (advance 1 (scan_space bs s2))"
    using reads_trans [OF s1(2) reads_trans [OF s2 reads_trans [OF sp2(1) colon(1)]]] by simp
  ultimately show thesis using that by blast
qed

lemma scan_head_complete:
  assumes "head_text js l object keys count h keys' count' n" "left bs s = h @ rest" "sc_nodes s + n \<le> bl_nodes l"
  obtains s' where "scan_head js l bs object keys count s = Inr (keys', count', s')" "reads bs s h n s'"
proof (cases object)
  case True
  with assms obtain w body key w' where h: "spaces w" "spaces w'" "quoted js l body key" "key \<notin> set keys"
      "left bs s = w @ 34 # body @ w' @ 58 # rest" "sc_nodes s < bl_nodes l"
    and eqs: "n = 1" "count' = count" "keys' = key # keys" "h = w @ 34 # body @ w' @ [58]"
    by (auto simp: head_text_def)
  obtain s' where "scan_key js l bs keys s = Inr (key # keys, s')" "reads bs s (w @ 34 # body @ w' @ [58]) 1 s'"
    using h by (rule scan_key_complete)
  with that True eqs show thesis by (simp add: scan_head_def)
next
  case False
  with assms(1) show thesis
    by (intro that [of s]) (auto simp: head_text_def scan_head_def scan_element_def reads_def)
qed


lemma scan_value_start:
  assumes "left bs s = w @ b # rest" "spaces w" "in_scalar b" "sc_nodes s < bl_nodes l"
  obtains s1 where "scan_node l (scan_space bs s) = Inr s1" "reads bs s w 1 s1" "left bs s1 = b # rest"
    "byte_at bs (sc_pos s1) = Some b"
proof -
  note sp = reads_space_exact [OF assms(1,2) in_scalar_not_space [OF assms(3)]]
  have "sc_nodes s + Suc 0 \<le> bl_nodes l" using assms(4) by simp
  with sp(1) obtain s1 where s1: "scan_node l (scan_space bs s) = Inr s1" "reads bs s w (Suc 0) s1"
      "left bs s1 = left bs (scan_space bs s)" by (rule reads_node_exact)
  with that sp(2) show thesis by (simp add: byte_at_left)
qed

lemma scan_scalar_complete:
  assumes "left bs s = b # token @ rest" "list_all in_scalar (b # token)" "sj_value js (b # token) \<noteq> None" "delimited rest"
  obtains s' where "scan_scalar js bs s = Inr s'" "reads bs s (b # token) 0 s'"
proof -
  have "takeWhile in_scalar (token @ rest) = token"
    using assms(2,4) by (cases rest) (auto simp: delimited_def takeWhile_append list_all_iff)
  then have "takeWhile in_scalar (drop (sc_pos s) bs) = b # token"
    using assms(1,2) by (simp add: left_def)
  with assms(1,3) reads_advance [of bs s "b # token" rest] that show thesis
    by (fastforce simp: scan_scalar_def Let_def)
qed

lemma scan_member:
  assumes "head_text js l object keys count h keys' count' n" "left bs s = h @ v @ w @ b # rest" "spaces w"
    "\<not> in_scalar b" "\<not> is_space b" "sc_nodes s + (n + m) \<le> bl_nodes l"
    and v: "\<And>s rest. left bs s = v @ rest \<Longrightarrow> delimited rest \<Longrightarrow> sc_nodes s + m \<le> bl_nodes l \<Longrightarrow>
      \<exists>fuel s'. scan_value fuel js l bs (d + 1) s = Some (Inr s') \<and> reads bs s v m s'"
  obtains fuel s1 s2 where "scan_head js l bs object keys count s = Inr (keys', count', s1)"
    "scan_value fuel js l bs (d + 1) s1 = Some (Inr s2)" "byte_at bs (sc_pos (scan_space bs s2)) = Some b"
    "reads bs s (h @ v @ w @ [b]) (n + m) (advance 1 (scan_space bs s2))" "left bs (advance 1 (scan_space bs s2)) = rest"
proof -
  have "sc_nodes s + n \<le> bl_nodes l" using assms(6) by simp
  with assms(1,2) obtain s1 where s1: "scan_head js l bs object keys count s = Inr (keys', count', s1)" "reads bs s h n s1"
    by (rule scan_head_complete)
  have "left bs s1 = v @ w @ b # rest" using reads_left [OF s1(2) assms(2)] .
  moreover have "sc_nodes s1 + m \<le> bl_nodes l" using reads_nodes [OF s1(2)] assms(6) by simp
  ultimately obtain fuel s2 where s2: "scan_value fuel js l bs (d + 1) s1 = Some (Inr s2)" "reads bs s1 v m s2"
    using v delimited_spaces [OF assms(3,4)] by blast
  have "left bs s2 = w @ b # rest" using reads_left [OF s2(2) \<open>left bs s1 = _\<close>] .
  note s3 = reads_space_exact [OF this assms(3,5)]
  note s4 = reads_byte [OF s3(2)]
  have "reads bs s (h @ v @ w @ [b]) (n + m) (advance 1 (scan_space bs s2))"
    using reads_trans [OF s1(2) reads_trans [OF s2(2) reads_trans [OF s3(1) s4(1)]]] by simp
  with s1(1) s2(1) s3(2) s4(2) that show thesis by (simp add: byte_at_left)
qed

lemma scan_complete:
  "json_text js l d w n \<Longrightarrow> left bs s = w @ rest \<Longrightarrow> delimited rest \<Longrightarrow> sc_nodes s + n \<le> bl_nodes l \<Longrightarrow>
     \<exists>fuel s'. scan_value fuel js l bs d s = Some (Inr s') \<and> reads bs s w n s'"
  "json_items js l d object close keys count w n \<Longrightarrow> close \<in> {93, 125} \<Longrightarrow> left bs s = w @ rest \<Longrightarrow>
     sc_nodes s + n \<le> bl_nodes l \<Longrightarrow>
     \<exists>fuel s'. scan_items fuel js l bs d object close keys count s = Some (Inr s') \<and> reads bs s w n s'"
proof (induction arbitrary: s rest and s rest rule: json_text_json_items.inducts)
  case (text_scalar w b token d)
  then have "left bs s = w @ b # token @ rest" "in_scalar b" "sc_nodes s < bl_nodes l" by simp_all
  then obtain s1 where s1: "scan_node l (scan_space bs s) = Inr s1" "reads bs s w 1 s1" "left bs s1 = b # token @ rest"
      "byte_at bs (sc_pos s1) = Some b" using text_scalar(1) by (metis scan_value_start)
  obtain s' where "scan_scalar js bs s1 = Inr s'" "reads bs s1 (b # token) 0 s'"
    using s1(3) text_scalar(3,4,6) by (rule scan_scalar_complete)
  moreover from this have "reads bs s (w @ b # token) 1 s'" using reads_trans [OF s1(2), of "b # token" 0 s'] by simp
  ultimately show ?case
    using s1 text_scalar(2) by (intro exI [of _ "Suc 0"] exI [of _ s']) simp
next
  case (text_string w body t d)
  then have "left bs s = w @ 34 # body @ rest" "sc_nodes s < bl_nodes l" by simp_all
  then obtain s1 where s1: "scan_node l (scan_space bs s) = Inr s1" "reads bs s w 1 s1" "left bs s1 = 34 # body @ rest"
      "byte_at bs (sc_pos s1) = Some 34" using text_string(1) in_scalar_bytes(1) by (metis scan_value_start)
  obtain s' where s': "reads bs s1 (34 # body) 0 s'"
    using reads_advance [of bs s1 "34 # body" rest] s1(3) by auto
  then have "scan_string js l bs s1 = Inr (t, s')" using text_string(2) scan_string_eq_Inr by blast
  moreover have "reads bs s (w @ 34 # body) 1 s'" using reads_trans [OF s1(2) s'] by simp
  ultimately show ?case using s1 by (intro exI [of _ "Suc 0"] exI [of _ s']) simp
next
  case (text_empty w d w' object)
  define a :: byte where "a = (if object then 123 else 91)"
  define z :: byte where "z = (if object then 125 else 93)"
  have a: "a = 123 \<or> a = 91" "object = (a = 123)" "in_scalar a" "\<not> is_space z" "z = (if a = 123 then 125 else 93)"
    by (auto simp: a_def z_def in_scalar_bytes is_space_def)
  have "left bs s = w @ a # w' @ z # rest" "sc_nodes s < bl_nodes l" using text_empty by (simp_all add: a_def z_def)
  then obtain s1 where s1: "scan_node l (scan_space bs s) = Inr s1" "reads bs s w 1 s1" "left bs s1 = a # w' @ z # rest"
      "byte_at bs (sc_pos s1) = Some a" using text_empty(1) a(3) by (metis scan_value_start)
  note s2 = reads_byte [OF s1(3)]
  note s3 = reads_space_exact [OF s2(2) \<open>spaces w'\<close> a(4)]
  note s4 = reads_byte [OF s3(2)]
  have "reads bs s (w @ a # w' @ [z]) 1 (advance 1 (scan_space bs (advance 1 s1)))"
    using reads_trans [OF s1(2) reads_trans [OF s2(1) reads_trans [OF s3(1) s4(1)]]] by simp
  moreover have "scan_value (Suc 0) js l bs d s = Some (Inr (advance 1 (scan_space bs (advance 1 s1))))"
    using s1(1,4) s3(2) a \<open>d < bl_depth l\<close> by (simp add: byte_at_left Let_def)
  ultimately show ?case unfolding a_def [symmetric] z_def [symmetric] by blast
next
  case (text_items w d object items n)
  define a :: byte where "a = (if object then 123 else 91)"
  define z :: byte where "z = (if object then 125 else 93)"
  have a: "a = 123 \<or> a = 91" "object = (a = 123)" "in_scalar a" "\<not> in_scalar z" "z = (if a = 123 then 125 else 93)" "z \<in> {93, 125}"
    by (auto simp: a_def z_def in_scalar_bytes)
  have "left bs s = w @ a # items @ rest" "sc_nodes s < bl_nodes l" using text_items by (simp_all add: a_def)
  then obtain s1 where s1: "scan_node l (scan_space bs s) = Inr s1" "reads bs s w 1 s1" "left bs s1 = a # items @ rest"
      "byte_at bs (sc_pos s1) = Some a" using text_items(1) a(3) by (metis scan_value_start)
  note s2 = reads_byte [OF s1(3)]
  have nodes: "sc_nodes (advance 1 s1) + n \<le> bl_nodes l"
    using text_items(7) reads_nodes [OF s1(2)] by (simp add: advance_def)
  obtain fuel s' where items: "scan_items fuel js l bs d object z [] 0 (advance 1 s1) = Some (Inr s')" "reads bs (advance 1 s1) items n s'"
    using text_items.IH(3) [OF a(6) [unfolded z_def] s2(2) nodes] unfolding z_def by blast
  obtain w' b r where first: "items = w' @ b # r" "spaces w'" "in_scalar b"
    using text_items(3) by (rule json_items_first)
  have "left bs (advance 1 s1) = w' @ b # r @ rest" using s2(2) first(1) by simp
  from reads_space_exact(2) [OF this first(2) in_scalar_not_space [OF first(3)]]
  have "byte_at bs (sc_pos (scan_space bs (advance 1 s1))) \<noteq> Some z" using first(3) a(4) by (auto simp: byte_at_left)
  then have "scan_value (Suc fuel) js l bs d s = Some (Inr s')"
    using s1(1,4) a text_items(2) items(1) by (auto simp: Let_def scan_items_space)
  moreover have "reads bs s (w @ a # items) (Suc n) s'"
    using reads_trans [OF s1(2) reads_trans [OF s2(1) items(2)]] by simp
  ultimately show ?case unfolding a_def by blast
next
  case (items_last object keys count h keys' count' n d v m w close)
  then have c: "\<not> in_scalar close" "\<not> is_space close" by (auto simp: in_scalar_bytes is_space_def)
  have "left bs s = h @ v @ w @ close # rest" using items_last.prems by simp
  with items_last(1) obtain fuel s1 s2 where r: "scan_head js l bs object keys count s = Inr (keys', count', s1)"
    "scan_value fuel js l bs (d + 1) s1 = Some (Inr s2)" "byte_at bs (sc_pos (scan_space bs s2)) = Some close"
    "reads bs s (h @ v @ w @ [close]) (n + m) (advance 1 (scan_space bs s2))"
    using items_last(4) c items_last.prems(3) items_last.IH(3) by (rule scan_member)
  then have "scan_items (Suc fuel) js l bs d object close keys count s = Some (Inr (advance 1 (scan_space bs s2)))"
    by (simp add: Let_def)
  with r(4) show ?case by blast
next
  case (items_more object keys count h keys' count' n d v m w close items k)
  have left: "left bs s = h @ v @ w @ 44 # items @ rest" using items_more.prems by simp
  have nodes: "sc_nodes s + (n + m) \<le> bl_nodes l" using items_more.prems by simp
  obtain fuel s1 s2 where r: "scan_head js l bs object keys count s = Inr (keys', count', s1)"
    "scan_value fuel js l bs (d + 1) s1 = Some (Inr s2)" "byte_at bs (sc_pos (scan_space bs s2)) = Some 44"
    "reads bs s (h @ v @ w @ [44]) (n + m) (advance 1 (scan_space bs s2))" "left bs (advance 1 (scan_space bs s2)) = items @ rest"
    using items_more(1) left \<open>spaces w\<close> in_scalar_bytes(4,8) nodes items_more.IH(3) by (rule scan_member)
  have "sc_nodes (advance 1 (scan_space bs s2)) + k \<le> bl_nodes l"
    using reads_nodes [OF r(4)] items_more.prems(3) by simp
  then obtain fuel' s' where i: "scan_items fuel' js l bs d object close keys' count' (advance 1 (scan_space bs s2)) = Some (Inr s')"
      "reads bs (advance 1 (scan_space bs s2)) items k s'"
    using items_more.IH(5) [OF items_more.prems(1) r(5)] by blast
  have "scan_items (Suc (max fuel fuel')) js l bs d object close keys count s = Some (Inr s')"
    using items_more.prems(1) r(1,3) scan_mono(1) [OF max.cobounded1 r(2), of fuel'] scan_mono(2) [OF max.cobounded2 i(1), of fuel]
    by (auto simp: Let_def)
  moreover have "reads bs s (h @ v @ w @ 44 # items) (n + m + k) s'" using reads_trans [OF r(4) i(2)] by simp
  ultimately show ?case by blast
qed

lemma scan_fuel_enough:
  assumes "scan_value fuel js l bs d \<lparr>sc_pos = 0, sc_nodes = 0\<rparr> = Some r"
  shows "scan_value (scan_fuel bs) js l bs d \<lparr>sc_pos = 0, sc_nodes = 0\<rparr> = Some r"
proof -
  have "scan_value (scan_fuel bs) js l bs d \<lparr>sc_pos = 0, sc_nodes = 0\<rparr> \<noteq> None"
    by (rule scan_total [THEN conjunct1, rule_format]) (simp add: scan_fuel_def left_def)
  then obtain r' where r': "scan_value (scan_fuel bs) js l bs d \<lparr>sc_pos = 0, sc_nodes = 0\<rparr> = Some r'" by blast
  show ?thesis
    using scan_mono(1) [of "scan_fuel bs" "max (scan_fuel bs) fuel"] scan_mono(1) [of fuel "max (scan_fuel bs) fuel"]
      r' assms by fastforce
qed

lemma preflight_exact:
  "(\<exists>s. scan_value (scan_fuel bs) js l bs 0 \<lparr>sc_pos = 0, sc_nodes = 0\<rparr> = Some (Inr s) \<and>
      sc_pos (scan_space bs s) = length bs) \<longleftrightarrow>
    (\<exists>w w' n. bs = w @ w' \<and> json_text js l 0 w n \<and> n \<le> bl_nodes l \<and> spaces w')" (is "?l \<longleftrightarrow> ?r")
proof -
  let ?s = "\<lparr>sc_pos = 0, sc_nodes = 0\<rparr>"
  have end_of: "sc_pos (scan_space bs s) = length bs \<longleftrightarrow> spaces (left bs s)" if "sc_pos s \<le> length bs" for s
  proof -
    have "sc_pos (scan_space bs s) = sc_pos s + length (takeWhile is_space (left bs s))"
      by (simp add: scan_space_def advance_def left_def)
    moreover have "length bs = sc_pos s + length (left bs s)" using that by (simp add: left_def)
    ultimately show ?thesis by (auto simp: list_all_iff takeWhile_eq_all_conv [symmetric] simp del: takeWhile_eq_all_conv
          dest: arg_cong [of _ _ length]) (metis append_Nil2 append_eq_append_conv takeWhile_dropWhile_id)
  qed
  show ?thesis
  proof
    assume ?l
    then obtain s where s: "scan_value (scan_fuel bs) js l bs 0 ?s = Some (Inr s)" "sc_pos (scan_space bs s) = length bs" by blast
    from scan_sound [THEN conjunct1, rule_format, OF s(1)] obtain w n where
      w: "json_text js l 0 w n" "reads bs ?s w n s" "sc_nodes s \<le> bl_nodes l" unfolding scanned_def by blast
    then have "bs = w @ left bs s" "sc_pos s = length w" "sc_nodes s = n" by (auto simp: reads_def left_def)
    moreover from this have "sc_pos s \<le> length bs" by (metis le_add1 length_append)
    ultimately show ?r using w s(2) end_of by metis
  next
    assume ?r
    then obtain w w' n where w: "bs = w @ w'" "json_text js l 0 w n" "n \<le> bl_nodes l" "spaces w'" by blast
    have "delimited w'" using w(4) by (cases w') (auto simp: delimited_def dest: in_scalar_not_space)
    then obtain fuel s where s: "scan_value fuel js l bs 0 ?s = Some (Inr s)" "reads bs ?s w n s"
      using scan_complete(1) [OF w(2), of bs ?s w'] w by (auto simp: left_def)
    then have "left bs s = w'" "sc_pos s \<le> length bs" using w(1) by (auto simp: reads_def left_def)
    with s(1) w(4) end_of scan_fuel_enough show ?l by blast
  qed
qed

text \<open>What clients use of an accepted document.\<close>

lemma document_parse_facts:
  assumes "document_parse js bs l = Inr doc"
  shows "dc_source doc = bs" "sj_value js bs = Some (dc_value doc)" "length bs \<le> bl_document_bytes l"
    "board_limits_validate l = Inr ()"
  using assms by (auto simp: document_parse_def and_then_eq_Inr split: if_splits option.splits sum.splits)

text \<open>
  Printed trees. A tree is printed without spaces; \<open>fits\<close> are the budgets on it, and the conditions on
  the JSON library that its scalars and strings are read.
\<close>

fun join :: "bytes list \<Rightarrow> bytes" where
  "join [] = []"
| "join [x] = x"
| "join (x # xs) = x @ 44 # join xs"

fun json_print :: "Json \<Rightarrow> bytes" where
  "json_print Json_Null = ascii ''null''"
| "json_print (Json_Bool b) = (if b then ascii ''true'' else ascii ''false'')"
| "json_print (Json_Number token) = token"
| "json_print (Json_String s) = 34 # s @ [34]"
| "json_print (Json_Array vs) = 91 # join (map json_print vs) @ [93]"
| "json_print (Json_Object kvs) = 123 # join (map (\<lambda>(k, v). 34 # k @ 34 # 58 # json_print v) kvs) @ [125]"

fun json_nodes :: "Json \<Rightarrow> nat" where
  "json_nodes (Json_Array vs) = Suc (sum_list (map json_nodes vs))"
| "json_nodes (Json_Object kvs) = Suc (sum_list (map (\<lambda>(_, v). Suc (json_nodes v)) kvs))"
| "json_nodes _ = 1"

definition scalar_fits :: "Serde \<Rightarrow> bytes \<Rightarrow> bool" where
  "scalar_fits js token \<longleftrightarrow> token \<noteq> [] \<and> hd token \<notin> {123, 91, 34} \<and> list_all in_scalar token \<and> sj_value js token \<noteq> None"

definition string_fits :: "Serde \<Rightarrow> BoardLimits \<Rightarrow> bytes \<Rightarrow> bool" where
  "string_fits js l s \<longleftrightarrow> list_all (\<lambda>b. b \<noteq> 34 \<and> b \<noteq> 92) s \<and> sj_text js (34 # s @ [34]) = Some s \<and> length s \<le> bl_string_bytes l"

fun fits :: "Serde \<Rightarrow> BoardLimits \<Rightarrow> nat \<Rightarrow> Json \<Rightarrow> bool" where
  "fits js l d (Json_Array vs) \<longleftrightarrow> d < bl_depth l \<and> length vs \<le> bl_array_elements l \<and> list_all (fits js l (d + 1)) vs"
| "fits js l d (Json_Object kvs) \<longleftrightarrow> d < bl_depth l \<and> distinct (map fst kvs) \<and>
     list_all (\<lambda>(k, v). string_fits js l k \<and> fits js l (d + 1) v) kvs"
| "fits js l d (Json_String s) \<longleftrightarrow> string_fits js l s"
| "fits js l d v \<longleftrightarrow> scalar_fits js (json_print v)"

lemma string_fits_quoted: "string_fits js l s \<Longrightarrow> quoted js l (s @ [34]) s"
proof -
  have "list_all (\<lambda>b. b \<noteq> 34 \<and> b \<noteq> 92) s \<Longrightarrow> close_quote (s @ [34]) = Some (length (s @ [34]))" by (induction s) auto
  then show "string_fits js l s \<Longrightarrow> quoted js l (s @ [34]) s" by (simp add: string_fits_def quoted_def)
qed

lemma scalar_fits_text: "scalar_fits js token \<Longrightarrow> json_text js l d token 1"
  using text_scalar [of "[]" "hd token" "tl token" js l d] by (cases token) (auto simp: scalar_fits_def)

lemma array_items:
  "vs \<noteq> [] \<Longrightarrow> (\<And>v. v \<in> set vs \<Longrightarrow> json_text js l (d + 1) (json_print v) (json_nodes v)) \<Longrightarrow>
    count + length vs \<le> bl_array_elements l \<Longrightarrow>
    json_items js l d False close keys count (join (map json_print vs) @ [close]) (sum_list (map json_nodes vs))"
proof (induction vs arbitrary: count rule: list_nonempty_induct)
  case (single v)
  have "head_text js l False keys count [] keys (count + 1) 0" using single by (simp add: head_text_def)
  from items_last [OF this, of d "json_print v" "json_nodes v" "[]" close] single show ?case by simp
next
  case (cons v vs)
  have h: "head_text js l False keys count [] keys (count + 1) 0" using cons by (simp add: head_text_def)
  have "json_items js l d False close keys (count + 1) (join (map json_print vs) @ [close]) (sum_list (map json_nodes vs))"
    using cons by (intro cons.IH) auto
  from items_more [OF h _ _ this, of "json_print v" "json_nodes v" "[]"] cons show ?case by (cases vs) auto
qed

lemma key_head:
  assumes "string_fits js l k" "k \<notin> set keys"
  shows "head_text js l True keys count (34 # (k @ [34]) @ [] @ [58]) (k # keys) count 1"
proof -
  have "\<exists>w body key w'. spaces w \<and> spaces w' \<and> quoted js l body key \<and> key \<notin> set keys \<and> k # keys = key # keys \<and>
      34 # (k @ [34]) @ [] @ [58] = w @ 34 # body @ w' @ [58]"
    using assms string_fits_quoted by (intro exI [of _ "[]"] exI [of _ "k @ [34]"] exI [of _ k] exI [of _ "[]"]) simp
  then show ?thesis unfolding head_text_def by simp
qed

lemma object_items:
  "kvs \<noteq> [] \<Longrightarrow> (\<And>k v. (k, v) \<in> set kvs \<Longrightarrow> string_fits js l k \<and> json_text js l (d + 1) (json_print v) (json_nodes v)) \<Longrightarrow>
    distinct (map fst kvs) \<Longrightarrow> set keys \<inter> fst ` set kvs = {} \<Longrightarrow>
    json_items js l d True close keys count (join (map (\<lambda>(k, v). 34 # k @ 34 # 58 # json_print v) kvs) @ [close])
      (sum_list (map (\<lambda>(_, v). Suc (json_nodes v)) kvs))"
proof (induction kvs arbitrary: keys rule: list_nonempty_induct)
  case (single kv)
  obtain k v where kv: "kv = (k, v)" by (cases kv)
  have "head_text js l True keys count (34 # (k @ [34]) @ [] @ [58]) (k # keys) count 1"
    using single by (intro key_head) (auto simp: kv)
  from items_last [OF this, of d "json_print v" "json_nodes v" "[]" close] single show ?case by (simp add: kv)
next
  case (cons kv kvs)
  obtain k v where kv: "kv = (k, v)" by (cases kv)
  have h: "head_text js l True keys count (34 # (k @ [34]) @ [] @ [58]) (k # keys) count 1"
    using cons.prems by (intro key_head) (auto simp: kv)
  have "json_items js l d True close (k # keys) count (join (map (\<lambda>(k, v). 34 # k @ 34 # 58 # json_print v) kvs) @ [close])
      (sum_list (map (\<lambda>(_, v). Suc (json_nodes v)) kvs))"
    using cons.prems by (intro cons.IH) (auto simp: kv)
  from items_more [OF h _ _ this, of "json_print v" "json_nodes v" "[]"] cons show ?case by (cases kvs) (auto simp: kv)
qed

lemma printed_text: "fits js l d v \<Longrightarrow> json_text js l d (json_print v) (json_nodes v)"
proof (induction js l d v rule: fits.induct)
  case (1 js l d vs)
  show ?case
  proof (cases "vs = []")
    case True
    with 1 text_empty [of "[]" d l "[]" js False] show ?thesis by simp
  next
    case False
    have "json_items js l d False 93 [] 0 (join (map json_print vs) @ [93]) (sum_list (map json_nodes vs))"
      using 1 False by (intro array_items) (auto simp: list_all_iff)
    from text_items [of "[]" d l js False, simplified, OF _ this] 1 show ?thesis by simp
  qed
next
  case (2 js l d kvs)
  show ?case
  proof (cases "kvs = []")
    case True
    with 2 text_empty [of "[]" d l "[]" js True] show ?thesis by simp
  next
    case False
    have "json_items js l d True 125 [] 0 (join (map (\<lambda>(k, v). 34 # k @ 34 # 58 # json_print v) kvs) @ [125])
        (sum_list (map (\<lambda>(_, v). Suc (json_nodes v)) kvs))"
      using 2 False by (intro object_items) (auto simp: list_all_iff)
    from text_items [of "[]" d l js True, simplified, OF _ this] 2 show ?thesis by simp
  qed
next
  case (3 js l d s)
  then show ?case using text_string [of "[]" js l "s @ [34]" s d] string_fits_quoted [of js l s] by simp
qed (use scalar_fits_text in fastforce)+

lemma printed_document:
  assumes "fits js l 0 v" "json_nodes v \<le> bl_nodes l" "board_limits_validate l = Inr ()"
    "length (json_print v) \<le> bl_document_bytes l" "utf8_valid (json_print v)" "sj_value js (json_print v) = Some v"
  shows "document_parse js (json_print v) l = Inr \<lparr>dc_source = json_print v, dc_value = v\<rparr>"
proof -
  have "\<exists>w w' n. json_print v = w @ w' \<and> json_text js l 0 w n \<and> n \<le> bl_nodes l \<and> spaces w'"
    using printed_text [OF assms(1)] assms(2) by (intro exI [of _ "json_print v"] exI [of _ "[]"] exI [of _ "json_nodes v"]) simp
  then show ?thesis
    unfolding preflight_exact [symmetric] using assms(3-6) by (auto simp: document_parse_def simp del: scan_value.simps)
qed

section \<open>Properties\<close>

text \<open>
  C33: The preflight is exact: a document is accepted if and only if the policy is valid, the bytes are
  within its size and well-formed UTF-8, they are one value of the grammar within every budget (depth,
  number of nodes, elements of an array, length of a string, no key twice in an object) followed by
  spaces only, and the JSON library reads them; the document then holds exactly the given bytes.
\<close>

theorem document_exact:
  "document_parse js bs l = Inr doc \<longleftrightarrow>
     board_limits_validate l = Inr () \<and> length bs \<le> bl_document_bytes l \<and> utf8_valid bs \<and>
     (\<exists>w w' n. bs = w @ w' \<and> json_text js l 0 w n \<and> n \<le> bl_nodes l \<and> spaces w') \<and>
     sj_value js bs = Some (dc_value doc) \<and> dc_source doc = bs"
  unfolding preflight_exact [symmetric]
  by (cases doc) (auto simp: document_parse_def and_then_eq_Inr split: option.splits sum.splits if_splits)

end
