(* ===== verification/Board_Offering.thy ===== *)
theory Board_Offering
  imports Json_Document Identity_Api
begin

text \<open>
  Offerings and definitions of the board (\<open>src/src/modules/board/offering.rs\<close>, \<open>terms.rs\<close>,
  \<open>definition.rs\<close>, \<open>semantics.rs\<close> and \<open>response.rs\<close>) and the schema descriptions they use
  (\<open>src/src/modules/services/schema/mod.rs\<close>): exact integers, required strings, economic terms, the
  parser of a board, the definition of an offering and the comparison of contracts, the assessment of
  an offering by the capabilities of the node, and the size of a response.

  A signed 64-bit integer is an \<open>int\<close> with its range written out. The capabilities are a port and
  appear as the record \<open>Capabilities\<close>.
\<close>

section \<open>Access to trees\<close>

definition json_get :: "Json \<Rightarrow> bytes \<Rightarrow> Json option" where
  "json_get v key = (case v of Json_Object o' \<Rightarrow> bt_get key o' | _ \<Rightarrow> None)"

definition as_object :: "Json \<Rightarrow> (bytes, Json) btree_map option" where
  "as_object v = (case v of Json_Object o' \<Rightarrow> Some o' | _ \<Rightarrow> None)"

definition as_array :: "Json \<Rightarrow> Json list option" where
  "as_array v = (case v of Json_Array vs \<Rightarrow> Some vs | _ \<Rightarrow> None)"

definition as_str :: "Json \<Rightarrow> bytes option" where
  "as_str v = (case v of Json_String s \<Rightarrow> Some s | _ \<Rightarrow> None)"

definition as_bool :: "Json \<Rightarrow> bool option" where
  "as_bool v = (case v of Json_Bool b \<Rightarrow> Some b | _ \<Rightarrow> None)"

definition as_number :: "Json \<Rightarrow> bytes option" where
  "as_number v = (case v of Json_Number token \<Rightarrow> Some token | _ \<Rightarrow> None)"

definition option_filter :: "('a \<Rightarrow> bool) \<Rightarrow> 'a option \<Rightarrow> 'a option" where
  "option_filter P x = (case x of None \<Rightarrow> None | Some a \<Rightarrow> if P a then Some a else None)"

lemma option_filter_eq_Some [simp]: "option_filter P x = Some a \<longleftrightarrow> x = Some a \<and> P a"
  by (auto simp: option_filter_def split: option.splits)

section \<open>Exact integers\<close>

definition split_once :: "(byte \<Rightarrow> bool) \<Rightarrow> bytes \<Rightarrow> (bytes \<times> bytes) option" where
  "split_once P bs =
     (case dropWhile (\<lambda>b. \<not> P b) bs of [] \<Rightarrow> None | _ # rest \<Rightarrow> Some (takeWhile (\<lambda>b. \<not> P b) bs, rest))"

definition is_digit :: "byte \<Rightarrow> bool" where
  "is_digit b \<longleftrightarrow> 48 \<le> b \<and> b \<le> 57"

definition dec_val :: "bytes \<Rightarrow> nat" where
  "dec_val ds = foldl (\<lambda>a d. a * 10 + unat (d - 48)) 0 ds"

definition checked_i64 :: "int \<Rightarrow> int option" where
  "checked_i64 i = (if - (2 ^ 63) \<le> i \<and> i < 2 ^ 63 then Some i else None)"

text \<open>The integer of the standard library's \<open>i64::from_str\<close>: one optional sign and at least one digit.\<close>

definition parse_i64 :: "bytes \<Rightarrow> int option" where
  "parse_i64 s =
     (let negative = (s \<noteq> [] \<and> hd s = 45);
          digits = (if s \<noteq> [] \<and> (hd s = 45 \<or> hd s = 43) then tl s else s)
      in if digits = [] \<or> \<not> list_all is_digit digits then None
         else checked_i64 (if negative then - int (dec_val digits) else int (dec_val digits)))"

definition checked_mul :: "u64 \<Rightarrow> u64 \<Rightarrow> u64 option" where
  "checked_mul a b = (if unat a * unat b < 2 ^ 64 then Some (a * b) else None)"

fun amount_digits :: "bytes \<Rightarrow> u64 \<Rightarrow> u64 option" where
  "amount_digits [] amount = Some amount"
| "amount_digits (digit # digits) amount =
     Option.bind (checked_mul amount 10) (\<lambda>amount.
     Option.bind (checked_add amount (ucast (digit - 48))) (\<lambda>amount. amount_digits digits amount))"

fun amount_zeros :: "nat \<Rightarrow> u64 \<Rightarrow> u64 option" where
  "amount_zeros 0 amount = Some amount"
| "amount_zeros (Suc zeros) amount = Option.bind (checked_mul amount 10) (amount_zeros zeros)"

text \<open>The digits and the number of zeros after them, once the exponent is applied to the mantissa.\<close>

definition shift_digits :: "bytes \<Rightarrow> int \<Rightarrow> (bytes \<times> usize) option" where
  "shift_digits digits shift =
     (if shift < 0 then
        Option.bind (checked_i64 (- shift)) (\<lambda>remove.
        if nat remove > length digits then None else
        let keep = length digits - nat remove
        in if \<not> list_all (\<lambda>b. b = 48) (drop keep digits) then None else Some (take keep digits, 0))
      else Some (digits, nat shift))"

definition scaled_amount :: "bytes \<Rightarrow> int \<Rightarrow> u64 option" where
  "scaled_amount digits shift =
     Option.bind (shift_digits digits shift) (\<lambda>(digits, zeros).
     Option.bind (checked_add_usize (length digits) zeros) (\<lambda>n.
     if n > 20 then None else Option.bind (amount_digits digits 0) (amount_zeros zeros)))"

definition integer :: "Json \<Rightarrow> u64 option" where
  "integer v =
     Option.bind (as_number v) (\<lambda>token.
     let negative = (token \<noteq> [] \<and> hd token = 45);
         token = (if negative then tl token else token);
         (mantissa, exponent) = (case split_once (\<lambda>b. b = 101 \<or> b = 69) token of Some p \<Rightarrow> p | None \<Rightarrow> (token, [48]));
         digits = dropWhile (\<lambda>b. b = 48) (filter (\<lambda>b. b \<noteq> 46) mantissa)
     in if digits = [] then Some 0 else if negative then None else
        Option.bind (parse_i64 exponent) (\<lambda>exponent.
        let fraction = (case split_once (\<lambda>b. b = 46) mantissa of None \<Rightarrow> 0 | Some (_, f) \<Rightarrow> length f)
        in Option.bind (checked_i64 (exponent - int fraction)) (scaled_amount digits)))"

definition string :: "Json \<Rightarrow> bytes \<Rightarrow> (BoardError, bytes) result" where
  "string v key = ok_or Be_Invalid (option_filter (\<lambda>s. s \<noteq> []) (Option.bind (json_get v key) as_str))"

section \<open>Economic terms\<close>

definition positive :: "Json \<Rightarrow> (BoardError, u64) result" where
  "positive v = ok_or Be_Invalid (option_filter (\<lambda>n. n > 0) (integer v))"

fun check_each :: "('a \<Rightarrow> ('e, unit) result) \<Rightarrow> 'a list \<Rightarrow> ('e, unit) result" where
  "check_each f [] = Inr ()"
| "check_each f (x # xs) = and_then (f x) (\<lambda>_. check_each f xs)"

definition is_object :: "Json \<Rightarrow> bool" where
  "is_object v \<longleftrightarrow> as_object v \<noteq> None"

definition check_hint :: "Json \<Rightarrow> (BoardError, unit) result" where
  "check_hint hint =
     (if \<not> is_object hint then Inl Be_Invalid else
      and_then (string hint (ascii ''name'')) (\<lambda>_.
      check_each (\<lambda>f. case json_get hint f of None \<Rightarrow> Inr ()
          | Some v \<Rightarrow> if as_str v = None then Inl Be_Invalid else Inr ())
        [ascii ''version'', ascii ''uri'', ascii ''description'']))"

definition check_present :: "('a \<Rightarrow> ('e, unit) result) \<Rightarrow> 'a option \<Rightarrow> ('e, unit) result" where
  "check_present f x = (case x of None \<Rightarrow> Inr () | Some a \<Rightarrow> f a)"

definition terms_validate :: "Json \<Rightarrow> (BoardError, unit) result" where
  "terms_validate v =
     and_then (ok_or Be_Invalid (as_object v)) (\<lambda>o'.
     if list_ex (\<lambda>key. bt_get key o' \<noteq> None) [ascii ''input'', ascii ''output'', ascii ''check''] then Inl Be_Invalid else
     if (bt_get (ascii ''price'') o' \<noteq> None) = (bt_get (ascii ''pricing'') o' \<noteq> None) then Inl Be_Invalid else
     and_then (check_present (\<lambda>price. and_then (positive price) (\<lambda>_. Inr ())) (bt_get (ascii ''price'') o')) (\<lambda>_.
     and_then (check_present (\<lambda>price. and_then (positive price) (\<lambda>_. Inr ())) (bt_get (ascii ''checkPrice'') o')) (\<lambda>_.
     and_then (check_present (\<lambda>pricing. if \<not> is_object pricing then Inl Be_Invalid
         else and_then (string pricing (ascii ''model'')) (\<lambda>_. Inr ())) (bt_get (ascii ''pricing'') o')) (\<lambda>_.
     and_then (check_present (\<lambda>info. if \<not> is_object info then Inl Be_Invalid else Inr ()) (bt_get (ascii ''info'') o')) (\<lambda>_.
     and_then (check_present (\<lambda>preconditions. and_then (ok_or Be_Invalid (as_array preconditions)) (\<lambda>names.
         check_each (\<lambda>name. and_then (ok_or Be_Invalid (as_str name)) (\<lambda>name.
           if name = [] then Inl Be_Invalid else Inr ())) names)) (bt_get (ascii ''preconditions'') o')) (\<lambda>_.
     check_present (\<lambda>suggestions. and_then (ok_or Be_Invalid (as_array suggestions)) (check_each check_hint))
       (bt_get (ascii ''implementationSuggestions'') o')))))))"

section \<open>Boards\<close>

datatype Direction = Dn_Provided | Dn_Wanted

record Offering =
  of_id :: bytes
  of_service :: bytes
  of_version :: u32
  of_description :: bytes
  of_issuer :: Identity_Id
  of_direction :: Direction
  of_source :: Json

record Board =
  bd_document :: Document
  bd_offerings :: "(bytes, Offering) btree_map"

definition offering_parse :: "Direction \<Rightarrow> Json \<Rightarrow> (BoardError, Offering) result" where
  "offering_parse direction v =
     and_then (ok_or Be_Invalid (as_object v)) (\<lambda>o'.
     and_then (ok_or Be_Invalid (bt_get (ascii ''serviceVersion'') o')) (\<lambda>sv.
     and_then (ok_or Be_Invalid (option_filter (\<lambda>n. n > 0 \<and> unat n \<le> 2 ^ 32 - 1) (integer sv))) (\<lambda>version.
     and_then (terms_validate v) (\<lambda>_.
     and_then (string v (ascii ''id'')) (\<lambda>i.
     and_then (string v (ascii ''service'')) (\<lambda>service.
     and_then (string v (ascii ''description'')) (\<lambda>description.
     and_then (string v (ascii ''creditIssuer'')) (\<lambda>issuer.
     and_then (map_err (\<lambda>_. Be_Invalid) (text_parse issuer)) (\<lambda>issuer.
     Inr \<lparr>of_id = i, of_service = service, of_version = ucast version, of_description = description,
          of_issuer = issuer, of_direction = direction, of_source = v\<rparr>)))))))))"

fun board_offerings ::
    "BoardLimits \<Rightarrow> Direction \<Rightarrow> Json list \<Rightarrow> (bytes, Offering) btree_map
      \<Rightarrow> (BoardError, (bytes, Offering) btree_map) result" where
  "board_offerings l direction [] m = Inr m"
| "board_offerings l direction (v # vs) m =
     and_then (offering_parse direction v) (\<lambda>offering.
     if bt_get (of_id offering) m \<noteq> None then Inl Be_Invalid else
     let m = bt_insert (of_id offering) offering m
     in if length m > bl_definitions l then Inl Be_Limit else board_offerings l direction vs m)"

definition board_field ::
    "BoardLimits \<Rightarrow> (bytes, Json) btree_map \<Rightarrow> bytes \<Rightarrow> Direction \<Rightarrow> (bytes, Offering) btree_map
      \<Rightarrow> (BoardError, (bytes, Offering) btree_map) result" where
  "board_field l root field direction m =
     and_then (ok_or Be_Invalid (Option.bind (bt_get field root) as_array)) (\<lambda>vs. board_offerings l direction vs m)"

definition board_parse :: "Serde \<Rightarrow> bytes \<Rightarrow> BoardLimits \<Rightarrow> (BoardError, Board) result" where
  "board_parse js bs l =
     and_then (document_parse js bs l) (\<lambda>document.
     and_then (ok_or Be_Invalid (as_object (dc_value document))) (\<lambda>root.
     and_then (ok_or Be_Invalid (bt_get (ascii ''version'') root)) (\<lambda>v.
     and_then (ok_or Be_Invalid (integer v)) (\<lambda>version.
     if version \<noteq> 1 then Inl Be_Unsupported else
     and_then (board_field l root (ascii ''providedServices'') Dn_Provided []) (\<lambda>m.
     and_then (board_field l root (ascii ''wantedServices'') Dn_Wanted m) (\<lambda>m.
     Inr \<lparr>bd_document = document, bd_offerings = m\<rparr>))))))"

section \<open>Schema descriptions\<close>

datatype SchemaError = Se_Invalid | Se_Limit

datatype Support = Sp_Known | Sp_Unknown

definition board_error :: "SchemaError \<Rightarrow> BoardError" where
  "board_error e = (case e of Se_Invalid \<Rightarrow> Be_Invalid | Se_Limit \<Rightarrow> Be_Limit)"

definition schema_string :: "Json \<Rightarrow> bytes \<Rightarrow> (SchemaError, bytes) result" where
  "schema_string v key = ok_or Se_Invalid (option_filter (\<lambda>s. s \<noteq> []) (Option.bind (json_get v key) as_str))"

definition schema_scalars :: "bytes list" where
  "schema_scalars = map ascii [''bool'', ''int32'', ''int64'', ''uint32'', ''uint64'', ''float'', ''double'', ''string'', ''bytes'']"

function schema_walk :: "Json \<Rightarrow> bool \<Rightarrow> nat \<Rightarrow> nat \<Rightarrow> (SchemaError, Support) result \<times> nat"
and schema_fields ::
    "(bytes, Json) btree_map \<Rightarrow> nat \<Rightarrow> Support \<Rightarrow> nat \<Rightarrow> (SchemaError, Support) result \<times> nat" where
  "schema_walk v field depth remaining =
     (if depth > 31 \<or> remaining = 0 then (Inl Se_Limit, remaining) else
      let remaining = remaining - 1 in
      if \<not> is_object v then (Inl Se_Invalid, remaining) else
      if (case json_get v (ascii ''optional'') of None \<Rightarrow> False | Some opt \<Rightarrow> \<not> field \<or> as_bool opt = None)
      then (Inl Se_Invalid, remaining) else
      and_thread (if field then schema_string v (ascii ''description'') else Inr [], remaining) (\<lambda>_ remaining.
      and_thread (schema_string v (ascii ''type''), remaining) (\<lambda>ty remaining.
      if ty = ascii ''object'' then
        (case Option.bind (json_get v (ascii ''fields'')) as_object of
           None \<Rightarrow> (Inl Se_Invalid, remaining)
         | Some members \<Rightarrow> schema_fields members (depth + 1) Sp_Known remaining)
      else if ty = ascii ''array'' then
        (case json_get v (ascii ''items'') of
           None \<Rightarrow> (Inl Se_Invalid, remaining)
         | Some items \<Rightarrow> schema_walk items False (depth + 1) remaining)
      else if ty \<in> set schema_scalars then (Inr Sp_Known, remaining)
      else (Inr Sp_Unknown, remaining))))"
| "schema_fields [] depth support remaining = (Inr support, remaining)"
| "schema_fields ((name, child) # members) depth support remaining =
     (if name = [] then (Inl Se_Invalid, remaining) else
      and_thread (schema_walk child True depth remaining) (\<lambda>s remaining.
      schema_fields members depth (if s = Sp_Unknown then Sp_Unknown else support) remaining))"
  by pat_completeness auto

termination
  by (relation "measures [\<lambda>x. case x of Inl (_, _, depth, _) \<Rightarrow> 33 - depth | Inr (_, depth, _, _) \<Rightarrow> 33 - depth,
      \<lambda>x. case x of Inl _ \<Rightarrow> 0 | Inr (members, _, _, _) \<Rightarrow> Suc (length members)]") auto

definition schema_validate :: "Json \<Rightarrow> (SchemaError, Support) result" where
  "schema_validate v = fst (schema_walk v False 0 65536)"

definition schema_check :: "Json \<Rightarrow> (SchemaError, Support) result" where
  "schema_check v =
     and_then (schema_string v (ascii ''description'')) (\<lambda>_.
     and_then (ok_or Se_Invalid (json_get v (ascii ''input''))) (\<lambda>i.
     and_then (schema_validate i) (\<lambda>input.
     and_then (ok_or Se_Invalid (json_get v (ascii ''output''))) (\<lambda>out.
     and_then (schema_validate out) (\<lambda>res.
     Inr (if input = Sp_Known \<and> res = Sp_Known then Sp_Known else Sp_Unknown))))))"

section \<open>Definitions\<close>

record Definition =
  df_document :: Document
  df_support :: Support

definition definition_parse :: "Serde \<Rightarrow> bytes \<Rightarrow> Offering \<Rightarrow> BoardLimits \<Rightarrow> (BoardError, Definition) result" where
  "definition_parse js bs offering l =
     and_then (document_parse js bs l) (\<lambda>document.
     let v = dc_value document in
     and_then (string v (ascii ''id'')) (\<lambda>i. if i \<noteq> of_id offering then Inl Be_Invalid else
     and_then (string v (ascii ''service'')) (\<lambda>s. if s \<noteq> of_service offering then Inl Be_Invalid else
     and_then (string v (ascii ''description'')) (\<lambda>d. if d \<noteq> of_description offering then Inl Be_Invalid else
     if Option.bind (json_get v (ascii ''serviceVersion'')) integer \<noteq> Some (ucast (of_version offering))
       \<or> list_ex (\<lambda>f. json_get v f \<noteq> None)
           [ascii ''creditIssuer'', ascii ''price'', ascii ''pricing'', ascii ''checkPrice'', ascii ''info'']
     then Inl Be_Invalid else
     and_then (ok_or Be_Invalid (json_get v (ascii ''input''))) (\<lambda>i.
     and_then (map_err board_error (schema_validate i)) (\<lambda>input.
     and_then (ok_or Be_Invalid (json_get v (ascii ''output''))) (\<lambda>out.
     and_then (map_err board_error (schema_validate out)) (\<lambda>res.
     and_then (ok_or Be_Invalid (json_get v (ascii ''check''))) (\<lambda>c.
     and_then (map_err board_error (schema_check c)) (\<lambda>chk.
     Inr \<lparr>df_document = document,
          df_support = (if Sp_Unknown \<in> set [input, res, chk] then Sp_Unknown else Sp_Known)\<rparr>))))))))))"

definition equivalent :: "Json \<Rightarrow> Json \<Rightarrow> bool" where
  "equivalent l r =
     (case as_object l of None \<Rightarrow> False
      | Some o' \<Rightarrow> list_all (\<lambda>(key, v). json_get r key = Some v)
          (filter (\<lambda>(key, _). key \<noteq> ascii ''id'' \<and> key \<noteq> ascii ''serviceVersion'') o'))"

definition same_contract :: "Definition \<Rightarrow> Definition \<Rightarrow> bool" where
  "same_contract this other =
     (let a = dc_value (df_document this); b = dc_value (df_document other)
      in if Option.bind (json_get a (ascii ''serviceVersion'')) integer
             \<noteq> Option.bind (json_get b (ascii ''serviceVersion'')) integer
         then False else equivalent a b \<and> equivalent b a)"

section \<open>Capabilities\<close>

record Capabilities =
  ca_understands :: "Offering \<Rightarrow> bool"
  ca_contract :: "Offering \<Rightarrow> Definition \<Rightarrow> (BoardError, unit) result"
  ca_terms :: "Offering \<Rightarrow> (BoardError, unit) result"
  ca_precondition :: "bytes \<Rightarrow> bool \<Rightarrow> bool"
  ca_local :: "Offering \<Rightarrow> bool"

definition Unavailable :: Capabilities where
  "Unavailable =
     \<lparr>ca_understands = \<lambda>_. False, ca_contract = \<lambda>_ _. Inl Be_Unsupported, ca_terms = \<lambda>_. Inl Be_Unsupported,
      ca_precondition = \<lambda>name authenticated. name = ascii ''cr2se.identity'' \<and> authenticated,
      ca_local = \<lambda>_. False\<rparr>"

definition assess :: "Capabilities \<Rightarrow> Offering \<Rightarrow> Definition \<Rightarrow> bool \<Rightarrow> bool \<Rightarrow> (BoardError, unit) result" where
  "assess caps o' d authenticated loc =
     (if df_support d \<noteq> Sp_Known \<or> \<not> ca_understands caps o' \<or> loc \<and> \<not> ca_local caps o' then Inl Be_Unsupported else
      and_then (ca_contract caps o' d) (\<lambda>_.
      and_then (ca_terms caps o') (\<lambda>_.
      check_present (\<lambda>required. and_then (ok_or Be_Invalid (as_array required)) (\<lambda>names.
        check_each (\<lambda>name. and_then (ok_or Be_Invalid (as_str name)) (\<lambda>name.
          if ca_precondition caps name authenticated then Inr () else Inl Be_Unsupported)) names))
        (json_get (of_source o') (ascii ''preconditions'')))))"

section \<open>Responses\<close>

definition CONTROL_BYTES :: usize where
  "CONTROL_BYTES = 1048576"

definition response_prefix :: "string \<Rightarrow> bytes option" where
  "response_prefix kind =
     (if kind = ''board'' then Some (ascii ''{\"type\":\"board\",\"board\":'')
      else if kind = ''definition'' then Some (ascii ''{\"type\":\"definition\",\"definition\":'')
      else None)"

definition response_encode :: "string \<Rightarrow> Document \<Rightarrow> (BoardError, bytes) result" where
  "response_encode kind document =
     and_then (ok_or Be_Unsupported (response_prefix kind)) (\<lambda>prefix.
     and_then (ok_or Be_Limit (Option.bind (checked_add_usize (length prefix) (length (dc_source document)))
         (\<lambda>n. checked_add_usize n 1))) (\<lambda>whole.
     if whole > CONTROL_BYTES then Inl Be_Limit else Inr (prefix @ dc_source document @ [125])))"


section \<open>Integers are exact\<close>

lemma dec_val_Nil [simp]: "dec_val [] = 0"
  by (simp add: dec_val_def)

lemma dec_val_snoc [simp]: "dec_val (ds @ [d]) = dec_val ds * 10 + unat (d - 48)"
  by (simp add: dec_val_def)

lemma dec_val_append: "dec_val (xs @ ys) = dec_val xs * 10 ^ length ys + dec_val ys"
proof (induction ys rule: rev_induct)
  case (snoc y ys)
  then show ?case using dec_val_snoc [of "xs @ ys" y] by (simp add: algebra_simps)
qed simp

lemma dec_val_Cons: "dec_val (d # ds) = unat (d - 48) * 10 ^ length ds + dec_val ds"
  using dec_val_append [of "[d]" ds] dec_val_snoc [of "[]" d] by simp

lemma digit_unat:
  assumes "is_digit d"
  shows "unat (d - 48) = unat d - 48" "48 \<le> unat d" "unat d < 58"
proof -
  from assms have "48 \<le> d" "d \<le> 57" by (simp_all add: is_digit_def)
  then show "48 \<le> unat d" "unat d < 58" using word_le_nat_alt [of 48 d] word_le_nat_alt [of d 57] by simp_all
  then show "unat (d - 48) = unat d - 48" using \<open>48 \<le> d\<close> by (simp add: unat_sub)
qed

lemma dec_val_less: "list_all is_digit ds \<Longrightarrow> dec_val ds < 10 ^ length ds"
proof (induction ds)
  case (Cons d ds)
  then have "unat (d - 48) * 10 ^ length ds + dec_val ds < (unat (d - 48) + 1) * 10 ^ length ds" by simp
  also have "\<dots> \<le> 10 * 10 ^ length ds" using Cons.prems digit_unat [of d] by (intro mult_right_mono) simp_all
  finally show ?case by (simp add: dec_val_Cons)
qed simp

lemma digit_zero: "unat (d - 48 :: byte) = 0 \<longleftrightarrow> d = 48"
  by (simp add: unat_eq_0)

lemma dec_val_zero: "list_all is_digit ds \<Longrightarrow> dec_val ds = 0 \<longleftrightarrow> list_all (\<lambda>b. b = 48) ds"
  by (induction ds) (auto simp: dec_val_Cons digit_zero)

lemma dec_val_trim: "dec_val (dropWhile (\<lambda>b. b = 48) ds) = dec_val ds"
  by (induction ds) (auto simp: dec_val_Cons)

lemma dec_val_leading: "is_digit d \<Longrightarrow> d \<noteq> 48 \<Longrightarrow> 10 ^ length ds \<le> dec_val (d # ds)"
  using digit_zero [of d] by (simp add: dec_val_Cons trans_le_add1)

lemma checked_mul_10:
  "unat a * 10 < 2 ^ 64 \<Longrightarrow> checked_mul a 10 = Some (a * 10)"
  "unat a * 10 < 2 ^ 64 \<Longrightarrow> unat (a * 10) = unat a * 10"
  "2 ^ 64 \<le> unat a * 10 \<Longrightarrow> checked_mul a 10 = None"
  by (simp_all add: checked_mul_def unat_mult_lem [THEN iffD1])

lemma amount_digits_eq:
  "list_all is_digit ds \<Longrightarrow> amount_digits ds a = Some n \<longleftrightarrow> unat n = unat a * 10 ^ length ds + dec_val ds"
proof (induction ds arbitrary: a)
  case Nil
  then show ?case by (auto simp: word_unat_eq_iff)
next
  case (Cons d ds)
  have "unat (d - 48) < 2 ^ 64" using unat_byte_less [of "d - 48"] by simp
  then have d: "unat (ucast (d - 48) :: u64) = unat (d - 48)" by (simp add: unsigned_ucast_eq take_bit_nat_eq_self)
  let ?v = "unat a * 10 + unat (d - 48)"
  have goal: "unat a * 10 ^ length (d # ds) + dec_val (d # ds) = ?v * 10 ^ length ds + dec_val ds"
    by (simp add: dec_val_Cons algebra_simps)
  show ?case
  proof (cases "?v < 2 ^ 64")
    case True
    then have m: "unat a * 10 < 2 ^ 64" by linarith
    have c: "checked_add (a * 10) (ucast (d - 48)) = Some (a * 10 + ucast (d - 48))"
      using True by (simp add: checked_add_def checked_mul_10(2) [OF m] d)
    have "unat (a * 10 + ucast (d - 48)) = ?v" using checked_add_unat [OF c] by (simp add: checked_mul_10(2) [OF m] d)
    then show ?thesis using Cons unfolding goal by (simp add: checked_mul_10(1) [OF m] c)
  next
    case False
    have "unat n < 2 ^ 64" using unsigned_less [of n] by simp
    also have "2 ^ 64 \<le> ?v * 10 ^ length ds"
      using False mult_le_mono [of "2 ^ 64" ?v 1 "10 ^ length ds"] by simp
    finally have "unat n \<noteq> ?v * 10 ^ length ds + dec_val ds" by linarith
    moreover have "amount_digits (d # ds) a = None"
    proof (cases "unat a * 10 < 2 ^ 64")
      case True
      then show ?thesis using False by (simp add: checked_mul_10 checked_add_def d)
    qed (simp add: checked_mul_10(3))
    ultimately show ?thesis unfolding goal by simp
  qed
qed

lemma amount_zeros_eq: "amount_zeros z a = Some n \<longleftrightarrow> unat n = unat a * 10 ^ z"
proof (induction z arbitrary: a)
  case 0
  then show ?case by (auto simp: word_unat_eq_iff)
next
  case (Suc z)
  have goal: "unat a * 10 ^ Suc z = unat a * 10 * 10 ^ z" by simp
  show ?case
  proof (cases "unat a * 10 < 2 ^ 64")
    case True
    then show ?thesis unfolding goal by (simp add: checked_mul_10 Suc)
  next
    case False
    have "unat n < 2 ^ 64" using unsigned_less [of n] by simp
    also have "2 ^ 64 \<le> unat a * 10 * 10 ^ z" using False mult_le_mono [of "2 ^ 64" "unat a * 10" 1 "10 ^ z"] by simp
    finally show ?thesis using False unfolding goal by (simp add: checked_mul_10)
  qed
qed

text \<open>\<open>decimal D shift n\<close>: the number \<open>n\<close> is \<open>D\<close> times ten to the power \<open>shift\<close>, which may be negative.\<close>

definition decimal :: "nat \<Rightarrow> int \<Rightarrow> nat \<Rightarrow> bool" where
  "decimal D shift n \<longleftrightarrow> n * 10 ^ nat (- shift) = D * 10 ^ nat shift"

lemma unat_u64_digits: "unat (n :: u64) < 10 ^ 20"
  using unsigned_less [of n] by (rule order.strict_trans2) simp

lemma decimal_range:
  assumes "decimal D shift n" "0 < D" "D < 10 ^ L" "n < 10 ^ 20"
  shows "- int L < shift" "shift < 20"
proof -
  have n: "0 < n" using assms(1,2) by (auto simp: decimal_def intro: gr0I)
  show "shift < 20"
  proof (rule ccontr)
    assume "\<not> shift < 20"
    then have "n = D * 10 ^ nat shift" "20 \<le> nat shift" using assms(1) by (simp_all add: decimal_def)
    moreover from this have "10 ^ 20 \<le> D * 10 ^ nat shift"
      using assms(2) mult_le_mono [of 1 D "10 ^ 20" "10 ^ nat shift"] power_increasing [of 20 "nat shift" "10 :: nat"] by simp
    ultimately show False using assms(4) by linarith
  qed
  show "- int L < shift"
  proof (rule ccontr)
    assume "\<not> - int L < shift"
    then have k: "L \<le> nat (- shift)" "nat shift = 0" by simp_all
    have "(10 :: nat) ^ L \<le> 10 ^ nat (- shift)" using k(1) by (intro power_increasing) simp_all
    also have "\<dots> \<le> n * 10 ^ nat (- shift)" using n by simp
    also have "\<dots> = D" using assms(1) k(2) by (simp add: decimal_def)
    finally show False using assms(3) by linarith
  qed
qed

lemma scaled_amount_left:
  assumes "list_all is_digit digits" "digits \<noteq> []" "hd digits \<noteq> 48" "0 \<le> shift" "shift < 2 ^ 63" "length digits \<le> 1048576"
  shows "scaled_amount digits shift = Some n \<longleftrightarrow> unat n = dec_val digits * 10 ^ nat shift"
proof -
  have sum: "checked_add_usize (length digits) (nat shift) = Some (length digits + nat shift)"
    using assms(4-6) by (simp add: checked_add_usize_def usize_max_def)
  have lead: "10 ^ (length digits - 1) \<le> dec_val digits"
    using assms(1-3) dec_val_leading by (cases digits) auto
  show ?thesis
  proof (cases "length digits + nat shift > 20")
    case True
    then have "10 ^ 20 \<le> (10 :: nat) ^ (length digits - 1 + nat shift)" using assms(2) by (intro power_increasing) (cases digits; simp)+
    also have "\<dots> = 10 ^ (length digits - 1) * 10 ^ nat shift" by (rule power_add)
    also have "\<dots> \<le> dec_val digits * 10 ^ nat shift" using lead by simp
    finally have "unat n \<noteq> dec_val digits * 10 ^ nat shift" using unat_u64_digits [of n] by linarith
    then show ?thesis using True sum assms(4) by (simp add: scaled_amount_def shift_digits_def)
  next
    case False
    then have "scaled_amount digits shift = Option.bind (amount_digits digits 0) (amount_zeros (nat shift))"
      using sum assms(4) by (simp add: scaled_amount_def shift_digits_def)
    also have "\<dots> = Some n \<longleftrightarrow> (\<exists>a :: u64. unat a = dec_val digits \<and> unat n = unat a * 10 ^ nat shift)"
      using assms(1) by (simp add: bind_eq_Some_conv amount_digits_eq amount_zeros_eq)
    also have "\<dots> \<longleftrightarrow> unat n = dec_val digits * 10 ^ nat shift"
    proof
      assume n: "unat n = dec_val digits * 10 ^ nat shift"
      have "dec_val digits \<le> unat n" unfolding n by simp
      also have "unat n < 2 ^ 64" using unsigned_less [of n] by simp
      finally have "unat (of_nat (dec_val digits) :: u64) = dec_val digits" by (simp add: unat_of_nat)
      with n show "\<exists>a :: u64. unat a = dec_val digits \<and> unat n = unat a * 10 ^ nat shift" by metis
    qed auto
    finally show ?thesis .
  qed
qed

lemma scaled_amount_exact:
  assumes "list_all is_digit digits" "digits \<noteq> []" "hd digits \<noteq> 48" "length digits \<le> 1048576"
    and i64: "- (2 ^ 63) \<le> shift" "shift < 2 ^ 63"
  shows "Option.bind (checked_i64 shift) (scaled_amount digits) = Some n \<longleftrightarrow> decimal (dec_val digits) shift (unat n)"
proof -
  have c: "checked_i64 shift = Some shift" using i64 by (simp add: checked_i64_def)
  have pos: "0 < dec_val digits" using dec_val_zero [OF assms(1)] assms(2,3) by (cases digits) auto
  show ?thesis
  proof (cases "shift < 0")
    case False
    then show ?thesis
      using scaled_amount_left [OF assms(1-3) _ i64(2) assms(4)] by (simp add: c decimal_def)
  next
    case True
    define k where "k = nat (- shift)"
    have D: "decimal (dec_val digits) shift (unat n) \<longleftrightarrow> unat n * 10 ^ k = dec_val digits"
      using True by (simp add: decimal_def k_def)
    show ?thesis
    proof (cases "- shift < 2 ^ 63 \<and> k < length digits")
      case False
      moreover have "\<not> list_all (\<lambda>b. b = 48) digits" using assms(2,3) by (cases digits) auto
      ultimately have "scaled_amount digits shift = None"
        using \<open>shift < 0\<close> by (auto simp: scaled_amount_def shift_digits_def checked_i64_def Let_def k_def)
      moreover have "\<not> decimal (dec_val digits) shift (unat n)"
      proof
        assume "decimal (dec_val digits) shift (unat n)"
        from decimal_range(1) [OF this pos dec_val_less [OF assms(1)] unat_u64_digits] False assms(4) \<open>shift < 0\<close>
        show False by (auto simp: k_def nat_less_iff)
      qed
      ultimately show ?thesis by (simp add: c)
    next
      case True
      let ?t = "take (length digits - k) digits" and ?r = "drop (length digits - k) digits"
      have t: "list_all is_digit ?t" "?t \<noteq> []" "hd ?t \<noteq> 48" "length ?t \<le> 1048576" "length ?r = k" "list_all is_digit ?r"
        using True assms(1-4) by (auto simp: list_all_iff dest: in_set_takeD in_set_dropD)
      have val: "dec_val digits = dec_val ?t * 10 ^ k + dec_val ?r"
        using dec_val_append [of ?t ?r] t(5) by simp
      have less: "dec_val ?r < 10 ^ k" using dec_val_less [OF t(6)] t(5) by simp
      have eq: "unat n * 10 ^ k = dec_val digits \<longleftrightarrow> dec_val ?r = 0 \<and> unat n = dec_val ?t"
      proof
        assume "unat n * 10 ^ k = dec_val digits"
        then have e: "unat n * 10 ^ k = dec_val ?t * 10 ^ k + dec_val ?r" using val by simp
        have "unat n = dec_val ?t" using arg_cong [OF e, of "\<lambda>x. x div 10 ^ k"] less by simp
        with e show "dec_val ?r = 0 \<and> unat n = dec_val ?t" by simp
      qed (use val in simp)
      have "scaled_amount digits shift =
          (if list_all (\<lambda>b. b = 48) ?r then scaled_amount ?t 0 else None)"
        using \<open>shift < 0\<close> True i64 by (simp add: scaled_amount_def shift_digits_def checked_i64_def Let_def k_def)
      then show ?thesis
        using scaled_amount_left [OF t(1-3) _ _ t(4), of 0] dec_val_zero [OF t(6)] by (simp add: c D eq)
    qed
  qed
qed

text \<open>
  The text of a JSON number: a sign, the digits before and after the point, and an exponent with its
  marker, if there is one. Its value is the digits times ten to the exponent less the digits after the
  point.
\<close>

definition number_text :: "bool \<Rightarrow> bytes \<Rightarrow> bytes \<Rightarrow> (byte \<times> bytes) option \<Rightarrow> bytes" where
  "number_text negative whole fraction ex =
     (if negative then [45] else []) @ whole @ (if fraction = [] then [] else 46 # fraction) @
     (case ex of None \<Rightarrow> [] | Some (marker, e) \<Rightarrow> marker # e)"

definition exponent_form :: "bytes \<Rightarrow> bool" where
  "exponent_form e \<longleftrightarrow> (\<exists>s ds. e = s @ ds \<and> (s = [] \<or> s = [43] \<or> s = [45]) \<and> ds \<noteq> [] \<and> list_all is_digit ds)"

definition exponent_val :: "bytes \<Rightarrow> int" where
  "exponent_val e =
     (if e \<noteq> [] \<and> hd e = 45 then - int (dec_val (tl e)) else if e \<noteq> [] \<and> hd e = 43 then int (dec_val (tl e)) else int (dec_val e))"

definition number_form :: "bytes \<Rightarrow> bytes \<Rightarrow> (byte \<times> bytes) option \<Rightarrow> bool" where
  "number_form whole fraction ex \<longleftrightarrow> whole \<noteq> [] \<and> list_all is_digit whole \<and> list_all is_digit fraction \<and>
     (case ex of None \<Rightarrow> True | Some (marker, e) \<Rightarrow> (marker = 101 \<or> marker = 69) \<and> exponent_form e)"

lemma exponent_form_digits: "ds \<noteq> [] \<Longrightarrow> list_all is_digit ds \<Longrightarrow> exponent_form ds"
  unfolding exponent_form_def by (metis append_Nil)

lemma parse_i64_exponent: "exponent_form e \<Longrightarrow> parse_i64 e = checked_i64 (exponent_val e)"
proof -
  assume "exponent_form e"
  then obtain s ds where e: "e = s @ ds" "s = [] \<or> s = [43] \<or> s = [45]" "ds \<noteq> []" "list_all is_digit ds"
    by (auto simp: exponent_form_def)
  then have "hd ds \<noteq> 45 \<and> hd ds \<noteq> 43" by (cases ds) (auto simp: is_digit_def)
  with e show ?thesis by (auto simp: parse_i64_def exponent_val_def Let_def)
qed

lemma split_once_none: "list_all (\<lambda>b. \<not> P b) bs \<Longrightarrow> split_once P bs = None"
  by (simp add: split_once_def dropWhile_eq_Nil_conv [THEN iffD2] list_all_iff)

lemma split_once_some: "list_all (\<lambda>b. \<not> P b) bs \<Longrightarrow> P b \<Longrightarrow> split_once P (bs @ b # rest) = Some (bs, rest)"
  by (simp add: split_once_def list_all_iff dropWhile_append2 takeWhile_append2)

lemma digit_bytes:
  assumes "list_all is_digit ds"
  shows "list_all (\<lambda>b. \<not> (b = 101 \<or> b = 69)) ds" "list_all (\<lambda>b. \<not> b = 46) ds" "filter (\<lambda>b. b \<noteq> 46) ds = ds"
    "45 \<notin> set ds"
  using assms by (auto simp: list_all_iff is_digit_def filter_id_conv)

lemma integer_number:
  assumes "number_form whole fraction ex"
  defines "e \<equiv> (case ex of None \<Rightarrow> [48] | Some (_, e) \<Rightarrow> e)"
    and "digits \<equiv> dropWhile (\<lambda>b. b = 48) (whole @ fraction)"
  shows "integer (Json_Number (number_text negative whole fraction ex)) =
    (if digits = [] then Some 0 else if negative then None else
     Option.bind (checked_i64 (exponent_val e)) (\<lambda>exponent.
     Option.bind (checked_i64 (exponent - int (length fraction))) (scaled_amount digits)))"
proof -
  define mantissa where "mantissa = whole @ (if fraction = [] then [] else 46 # fraction)"
  define rest where "rest = mantissa @ (case ex of None \<Rightarrow> [] | Some (marker, e) \<Rightarrow> marker # e)"
  have form: "whole \<noteq> []" "list_all is_digit whole" "list_all is_digit fraction" "exponent_form e"
    using assms(1) exponent_form_digits [of "[48]"] by (auto simp: number_form_def e_def is_digit_def split: option.splits)
  have token: "number_text negative whole fraction ex = (if negative then [45] else []) @ rest"
    by (simp add: number_text_def rest_def mantissa_def)
  have "rest \<noteq> []" "hd rest \<noteq> 45"
    using form(1) digit_bytes(4) [OF form(2)] by (auto simp: rest_def mantissa_def hd_append) (metis hd_in_set)
  then have sign: "(number_text negative whole fraction ex \<noteq> [] \<and> hd (number_text negative whole fraction ex) = 45) = negative"
      "(if negative then tl (number_text negative whole fraction ex) else number_text negative whole fraction ex) = rest"
    unfolding token by simp_all
  have "list_all (\<lambda>b. \<not> (b = 101 \<or> b = 69)) mantissa"
    using digit_bytes(1) [OF form(2)] digit_bytes(1) [OF form(3)] by (simp add: mantissa_def)
  then have split: "(case split_once (\<lambda>b. b = 101 \<or> b = 69) rest of Some p \<Rightarrow> p | None \<Rightarrow> (rest, [48])) = (mantissa, e)"
    using assms(1) split_once_none [of "\<lambda>b. b = 101 \<or> b = 69" mantissa] split_once_some [of "\<lambda>b. b = 101 \<or> b = 69" mantissa]
    by (auto simp: rest_def e_def number_form_def split: option.splits)
  have filtered: "filter (\<lambda>b. b \<noteq> 46) mantissa = whole @ fraction"
    using digit_bytes(3) [OF form(2)] digit_bytes(3) [OF form(3)] by (simp add: mantissa_def)
  have point: "(case split_once (\<lambda>b. b = 46) mantissa of None \<Rightarrow> 0 | Some (_, f) \<Rightarrow> length f) = length fraction"
    using split_once_none [OF digit_bytes(2) [OF form(2)]] split_once_some [OF digit_bytes(2) [OF form(2)], of 46 fraction]
    by (simp add: mantissa_def)
  show ?thesis
    unfolding integer_def as_number_def Json.case bind.bind_lunit Let_def sign split prod.case filtered point
      digits_def [symmetric] parse_i64_exponent [OF form(4)] by (rule refl)
qed

text \<open>
  C35: Amounts and versions are read exactly: for every JSON number of at most a mebibyte, the largest
  document, the result is the number \<open>n\<close> if and only if the text denotes the integer \<open>n\<close> and \<open>n\<close> fits in
  64 bits, whatever spelling with fraction and exponent is used; nothing is rounded and no overflow of
  the exponent or of the amount goes unnoticed.
\<close>

theorem integer_exact:
  assumes "number_form whole fraction ex" "length (number_text negative whole fraction ex) \<le> 1048576"
  shows "integer (Json_Number (number_text negative whole fraction ex)) = Some n \<longleftrightarrow>
    (negative \<longrightarrow> dec_val (whole @ fraction) = 0) \<and>
    decimal (dec_val (whole @ fraction))
      ((case ex of None \<Rightarrow> 0 | Some (_, e) \<Rightarrow> exponent_val e) - int (length fraction)) (unat n)"
proof -
  let ?d = "dropWhile (\<lambda>b. b = 48) (whole @ fraction)" and ?D = "dec_val (whole @ fraction)"
  define e where "e = exponent_val (case ex of None \<Rightarrow> [48] | Some (_, e) \<Rightarrow> e)"
  have e: "(case ex of None \<Rightarrow> 0 | Some (_, e) \<Rightarrow> exponent_val e) = e"
    by (auto simp: e_def exponent_val_def dec_val_Cons split: option.splits)
  have digits: "list_all is_digit (whole @ fraction)" using assms(1) by (simp add: number_form_def)
  then have d: "list_all is_digit ?d" by (auto simp: list_all_iff dest: set_dropWhileD)
  have len: "length (whole @ fraction) \<le> 1048576" using assms(2) by (auto simp: number_text_def split: if_splits)
  have D: "dec_val ?d = ?D" by (rule dec_val_trim)
  show ?thesis
  proof (cases "?d = []")
    case True
    have "?D = 0" unfolding D [symmetric] True by (rule dec_val_Nil)
    then show ?thesis
      using True by (auto simp: integer_number [OF assms(1)] decimal_def word_unat_eq_iff)
  next
    case False
    have first: "hd ?d \<noteq> 48" using hd_dropWhile [OF False] by simp
    have dlen: "length ?d \<le> 1048576" using len length_dropWhile_le [of "\<lambda>b. b = 48" "whole @ fraction"] by linarith
    have pos: "0 < ?D" using dec_val_zero [OF d] False first D by (cases ?d) auto
    have range: "- (2 ^ 63) \<le> e \<and> e < 2 ^ 63 \<and> - (2 ^ 63) \<le> e - int (length fraction)"
      if "decimal ?D (e - int (length fraction)) (unat n)"
      using decimal_range [OF that pos dec_val_less [OF digits] unat_u64_digits] len by simp
    show ?thesis
    proof (cases "- (2 ^ 63) \<le> e \<and> e < 2 ^ 63 \<and> - (2 ^ 63) \<le> e - int (length fraction)")
      case True
      then show ?thesis
        using False pos scaled_amount_exact [OF d False first dlen, of "e - int (length fraction)" n]
        by (auto simp: integer_number [OF assms(1)] e_def [symmetric] e D checked_i64_def)
    next
      case out: False
      then have "\<not> decimal ?D (e - int (length fraction)) (unat n)" using range by blast
      then show ?thesis
        using False out by (auto simp: integer_number [OF assms(1)] e_def [symmetric] e checked_i64_def)
    qed
  qed
qed

theorem integer_exact_witness:
  "integer (Json_Number (number_text False (ascii ''184467440737095516'') (ascii ''150'') (Some (101, ascii ''2''))))
     = Some 18446744073709551615"
proof -
  have "number_form (ascii ''184467440737095516'') (ascii ''150'') (Some (101, ascii ''2''))"
    using exponent_form_digits [of "ascii ''2''"] by (simp add: number_form_def ascii_def is_digit_def)
  from integer_exact [OF this, of False 18446744073709551615] show ?thesis
    by (simp add: number_text_def ascii_def decimal_def dec_val_def exponent_val_def)
qed

end
