(* ===== verification/Board_Prepared.thy ===== *)
theory Board_Prepared
  imports Board_Offering "HOL-Library.Product_Lexorder"
begin

text \<open>
  Complete publications (\<open>src/src/modules/board/prepared.rs\<close>), the record that is made durable
  (\<open>src/src/modules/board/persistence.rs\<close>) and its private encoding (\<open>record_codec.rs\<close>). The port
  \<open>Persistence\<close> is the record of functions of that name, whose contract is the
  locale \<open>persistence\<close> of \<open>Board_Store\<close>.
\<close>

section \<open>Preparation\<close>

record Prepared =
  pp_publisher :: Identity_Id
  pp_board :: Board
  pp_definitions :: "(bytes, Definition) btree_map"
  pp_bytes :: usize

fun sum_bytes :: "usize \<Rightarrow> bytes list \<Rightarrow> (BoardError, usize) result" where
  "sum_bytes n [] = Inr n"
| "sum_bytes n (d # ds) = and_then (ok_or Be_Limit (checked_add_usize n (length d))) (\<lambda>n. sum_bytes n ds)"

fun prepare_definitions ::
    "Serde \<Rightarrow> BoardLimits \<Rightarrow> (bytes, bytes) btree_map \<Rightarrow> (bytes, Offering) btree_map
      \<Rightarrow> (bytes \<times> u32, bytes) btree_map \<Rightarrow> (bytes, Definition) btree_map
      \<Rightarrow> (BoardError, (bytes, Definition) btree_map) result" where
  "prepare_definitions js l definitions [] contracts validated = Inr validated"
| "prepare_definitions js l definitions ((i, o') # offerings) contracts validated =
     and_then (ok_or Be_Missing (bt_get i definitions)) (\<lambda>bs.
     and_then (definition_parse js bs o' l) (\<lambda>d.
     and_then (response_encode ''definition'' (df_document d)) (\<lambda>_.
     let contract = (of_service o', of_version o') in
     case bt_get contract contracts of
       Some prior_id \<Rightarrow>
         and_then (ok_or Be_Invalid (bt_get prior_id validated)) (\<lambda>prior.
         if \<not> same_contract d prior then Inl Be_Invalid
         else prepare_definitions js l definitions offerings contracts (bt_insert i d validated))
     | None \<Rightarrow> prepare_definitions js l definitions offerings (bt_insert contract i contracts) (bt_insert i d validated))))"

fun assess_offerings ::
    "Capabilities \<Rightarrow> (bytes, Definition) btree_map \<Rightarrow> (bytes, Offering) btree_map \<Rightarrow> (BoardError, unit) result" where
  "assess_offerings caps definitions [] = Inr ()"
| "assess_offerings caps definitions ((i, o') # offerings) =
     and_then (assess caps o' (the (bt_get i definitions)) True True) (\<lambda>_. assess_offerings caps definitions offerings)"

definition prepared_assess :: "Prepared \<Rightarrow> Capabilities \<Rightarrow> (BoardError, unit) result" where
  "prepared_assess p caps = assess_offerings caps (pp_definitions p) (bd_offerings (pp_board p))"

definition prepared_new ::
    "Serde \<Rightarrow> Identity_Id \<Rightarrow> bytes \<Rightarrow> (bytes, bytes) btree_map \<Rightarrow> BoardLimits \<Rightarrow> Capabilities \<Rightarrow> (BoardError, Prepared) result" where
  "prepared_new js publisher bs definitions l caps =
     and_then (board_limits_validate l) (\<lambda>_.
     if length definitions > bl_definitions l then Inl Be_Limit else
     and_then (sum_bytes (length bs) (map snd definitions)) (\<lambda>n.
     if n > bl_publication_bytes l then Inl Be_Limit else
     and_then (board_parse js bs l) (\<lambda>board.
     and_then (response_encode ''board'' (bd_document board)) (\<lambda>_.
     if length definitions \<noteq> length (bd_offerings board) then Inl Be_Invalid else
     and_then (prepare_definitions js l definitions (bd_offerings board) [] []) (\<lambda>validated.
     let p = \<lparr>pp_publisher = publisher, pp_board = board, pp_definitions = validated, pp_bytes = n\<rparr>
     in and_then (prepared_assess p caps) (\<lambda>_. Inr p))))))"

section \<open>Durable records\<close>

record BoardRecord =
  br_publisher :: Identity_Id
  br_board :: bytes
  br_definitions :: "(bytes, bytes) btree_map"

definition record_from_prepared :: "Prepared \<Rightarrow> BoardRecord" where
  "record_from_prepared p =
     \<lparr>br_publisher = pp_publisher p, br_board = dc_source (bd_document (pp_board p)),
      br_definitions = map (\<lambda>(i, d). (i, dc_source (df_document d))) (pp_definitions p)\<rparr>"

definition record_prepare :: "Serde \<Rightarrow> BoardRecord \<Rightarrow> BoardLimits \<Rightarrow> Capabilities \<Rightarrow> (BoardError, Prepared) result" where
  "record_prepare js r l caps = prepared_new js (br_publisher r) (br_board r) (br_definitions r) l caps"

record 's Persistence =
  ps_load :: "'s \<Rightarrow> (BoardError, BoardRecord option) result \<times> 's"
  ps_commit :: "BoardRecord \<Rightarrow> 's \<Rightarrow> (BoardError, unit) result \<times> 's"

definition memory :: "BoardRecord option Persistence" where
  "memory = \<lparr>ps_load = \<lambda>m. (Inr m, m), ps_commit = \<lambda>r m. (Inr (), Some r)\<rparr>"

section \<open>The private encoding\<close>

definition record_maximum :: "BoardLimits \<Rightarrow> (BoardError, usize) result" where
  "record_maximum l =
     ok_or Be_Limit (Option.bind (Option.bind (checked_mul_usize (bl_publication_bytes l) 2) (\<lambda>n.
       Option.bind (checked_mul_usize (bl_definitions l) RECORD_ENTRY_BYTES) (\<lambda>d. checked_add_usize n d)))
       (\<lambda>n. checked_add_usize n RECORD_FIXED_BYTES))"

definition put_number :: "usize \<Rightarrow> (BoardError, bytes) result" where
  "put_number n = (if n < 2 ^ 32 then Inr (be_bytes 4 n) else Inl Be_Limit)"

definition put_field :: "bytes \<Rightarrow> usize \<Rightarrow> (BoardError, bytes) result" where
  "put_field bs maximum =
     (if length bs > maximum then Inl Be_Limit else and_then (put_number (length bs)) (\<lambda>n. Inr (n @ bs)))"

fun put_definitions :: "BoardLimits \<Rightarrow> (bytes, bytes) btree_map \<Rightarrow> (BoardError, bytes) result" where
  "put_definitions l [] = Inr []"
| "put_definitions l ((i, d) # ds) =
     and_then (put_field i (bl_string_bytes l)) (\<lambda>a.
     and_then (put_field d (bl_document_bytes l)) (\<lambda>b.
     and_then (put_definitions l ds) (\<lambda>rest. Inr (a @ b @ rest))))"

definition board_record_encode :: "BoardRecord \<Rightarrow> BoardLimits \<Rightarrow> (BoardError, bytes) result" where
  "board_record_encode r l =
     and_then (board_limits_validate l) (\<lambda>_.
     if length (br_definitions r) > bl_definitions l then Inl Be_Limit else
     and_then (sum_bytes (length (br_board r)) (map snd (br_definitions r))) (\<lambda>n.
     if n > bl_publication_bytes l then Inl Be_Limit else
     and_then (put_field (br_board r) (bl_document_bytes l)) (\<lambda>board.
     and_then (put_number (length (br_definitions r))) (\<lambda>count.
     and_then (put_definitions l (br_definitions r)) (\<lambda>ds.
     let out = ascii ''TSBOARD1'' @ id_bytes (br_publisher r) @ board @ count @ ds
     in and_then (record_maximum l) (\<lambda>m. if length out > m then Inl Be_Limit else Inr out))))))"

definition take_bytes :: "usize \<Rightarrow> bytes \<Rightarrow> (BoardError, bytes) result \<times> bytes" where
  "take_bytes n rest = (if length rest < n then (Inl Be_Invalid, rest) else (Inr (take n rest), drop n rest))"

definition take_number :: "bytes \<Rightarrow> (BoardError, usize) result \<times> bytes" where
  "take_number rest = and_thread (take_bytes 4 rest) (\<lambda>bs rest. (Inr (be_val bs), rest))"

definition take_field :: "usize \<Rightarrow> bytes \<Rightarrow> (BoardError, bytes) result \<times> bytes" where
  "take_field maximum rest =
     and_thread (take_number rest) (\<lambda>n rest. if n > maximum then (Inl Be_Limit, rest) else take_bytes n rest)"

fun take_definitions ::
    "BoardLimits \<Rightarrow> nat \<Rightarrow> usize \<Rightarrow> (bytes, bytes) btree_map \<Rightarrow> bytes
      \<Rightarrow> (BoardError, (bytes, bytes) btree_map) result \<times> bytes" where
  "take_definitions l 0 used definitions rest = (Inr definitions, rest)"
| "take_definitions l (Suc count) used definitions rest =
     and_thread (take_field (bl_string_bytes l) rest) (\<lambda>i rest.
     if \<not> utf8_valid i then (Inl Be_Invalid, rest) else
     and_thread (take_field (bl_document_bytes l) rest) (\<lambda>d rest.
     and_thread (ok_or Be_Limit (checked_add_usize used (length d)), rest) (\<lambda>used rest.
     if used > bl_publication_bytes l then (Inl Be_Limit, rest) else
     if bt_get i definitions \<noteq> None then (Inl Be_Invalid, rest) else
     take_definitions l count used (bt_insert i d definitions) rest)))"

definition board_record_decode :: "bytes \<Rightarrow> BoardLimits \<Rightarrow> (BoardError, BoardRecord) result" where
  "board_record_decode bs l =
     and_then (board_limits_validate l) (\<lambda>_.
     and_then (record_maximum l) (\<lambda>m.
     if length bs > m then Inl Be_Limit else
     fst (and_thread (take_bytes 8 bs) (\<lambda>magic rest.
     if magic \<noteq> ascii ''TSBOARD1'' then (Inl Be_Invalid, rest) else
     and_thread (take_bytes 32 rest) (\<lambda>publisher rest.
     and_thread (take_field (bl_document_bytes l) rest) (\<lambda>board rest.
     and_thread (take_number rest) (\<lambda>count rest.
     if count > bl_definitions l then (Inl Be_Limit, rest) else
     and_thread (take_definitions l count (length board) [] rest) (\<lambda>definitions rest.
     if rest \<noteq> [] then (Inl Be_Invalid, rest) else
     (Inr \<lparr>br_publisher = Identity_Id publisher, br_board = board, br_definitions = definitions\<rparr>, rest)))))))))"


section \<open>The encoding is exact\<close>

text \<open>What the Rust types guarantee of a record: 32 bytes of identity, UTF-8 keys in a sorted map.\<close>

definition record_typed :: "BoardRecord \<Rightarrow> bool" where
  "record_typed r \<longleftrightarrow> length (id_bytes (br_publisher r)) = 32 \<and> bt_sorted (br_definitions r) \<and>
     (\<forall>(i, d) \<in> set (br_definitions r). utf8_valid i)"

lemma sum_bytes_eq_Inr: "sum_bytes n ds = Inr m \<longleftrightarrow> m = n + sum_list (map length ds) \<and> (ds = [] \<or> m \<le> usize_max)"
proof (induction ds arbitrary: n)
  case (Cons d ds)
  then show ?case by (cases ds) (auto simp: checked_add_usize_def and_then_eq_Inr)
qed auto

lemma take_bytes_append: "length a = n \<Longrightarrow> take_bytes n (a @ rest) = (Inr a, rest)"
  by (simp add: take_bytes_def)

lemma put_number_eq_Inr: "put_number n = Inr bs \<longleftrightarrow> n < 2 ^ 32 \<and> bs = be_bytes 4 n"
  by (auto simp: put_number_def)

lemma take_number_put: "n < 2 ^ 32 \<Longrightarrow> take_number (be_bytes 4 n @ rest) = (Inr n, rest)"
  by (simp add: take_number_def take_bytes_append be_val_be_bytes)

lemma put_field_eq_Inr:
  "put_field bs m = Inr out \<longleftrightarrow> length bs \<le> m \<and> length bs < 2 ^ 32 \<and> out = be_bytes 4 (length bs) @ bs"
  by (auto simp: put_field_def and_then_eq_Inr put_number_eq_Inr)

lemma take_field_put: "put_field bs m = Inr out \<Longrightarrow> take_field m (out @ rest) = (Inr bs, rest)"
  by (simp add: put_field_eq_Inr take_field_def take_number_put take_bytes_append)

lemma take_field_eq_Inr:
  "take_field m rest = (Inr bs, rest') \<longleftrightarrow> (\<exists>out. put_field bs m = Inr out \<and> rest = out @ rest')"
proof
  assume a: "take_field m rest = (Inr bs, rest')"
  define n where "n = be_val (take 4 rest)"
  from a have l: "4 \<le> length rest" "n \<le> m" "n \<le> length rest - 4" "bs = take n (drop 4 rest)" "rest' = drop n (drop 4 rest)"
    by (auto simp: take_field_def take_number_def take_bytes_def and_thread_def n_def split: if_splits)
  have t: "length (take 4 rest) = 4" using l(1) by simp
  have "be_bytes 4 n = take 4 rest" unfolding n_def using t by (rule be_bytes_be_val)
  moreover have "n < 2 ^ 32" using be_val_less [of "take 4 rest"] t by (simp add: n_def)
  moreover have "rest = take 4 rest @ bs @ rest'" unfolding l(4,5) by (simp del: drop_drop)
  ultimately show "\<exists>out. put_field bs m = Inr out \<and> rest = out @ rest'"
    using l by (intro exI [of _ "take 4 rest @ bs"]) (simp add: put_field_eq_Inr)
qed (auto simp: take_field_put)

lemma take_number_eq_Inr: "take_number rest = (Inr n, rest') \<longleftrightarrow> n < 2 ^ 32 \<and> rest = be_bytes 4 n @ rest'"
proof
  assume a: "take_number rest = (Inr n, rest')"
  then have l: "4 \<le> length rest" "n = be_val (take 4 rest)" "rest' = drop 4 rest"
    by (auto simp: take_number_def take_bytes_def and_thread_def split: if_splits)
  have t: "length (take 4 rest) = 4" using l(1) by simp
  show "n < 2 ^ 32 \<and> rest = be_bytes 4 n @ rest'"
    using be_val_less [of "take 4 rest"] be_bytes_be_val [OF t] t by (simp add: l(2,3))
qed (simp add: take_number_put)

lemma take_bytes_eq_Inr: "take_bytes n rest = (Inr a, rest') \<longleftrightarrow> length a = n \<and> rest = a @ rest'"
  by (auto simp: take_bytes_def)


definition fields_bounded :: "BoardLimits \<Rightarrow> (bytes, bytes) btree_map \<Rightarrow> bool" where
  "fields_bounded l ds \<longleftrightarrow> (\<forall>(i, d) \<in> set ds. length i \<le> bl_string_bytes l \<and> length i < 2 ^ 32 \<and>
     length d \<le> bl_document_bytes l \<and> length d < 2 ^ 32)"

definition encoded_size :: "(bytes, bytes) btree_map \<Rightarrow> nat" where
  "encoded_size ds = (\<Sum>(i, d) \<leftarrow> ds. 8 + length i + length d)"

definition data_size :: "(bytes, bytes) btree_map \<Rightarrow> nat" where
  "data_size ds = (\<Sum>(i, d) \<leftarrow> ds. length d)"

lemma sum_bytes_data: "sum_list (map length (map snd ds)) = data_size ds"
  by (induction ds) (auto simp: data_size_def)

lemma put_definitions_size: "put_definitions l ds = Inr out \<Longrightarrow> fields_bounded l ds \<and> length out = encoded_size ds"
  by (induction ds arbitrary: out)
    (auto simp: fields_bounded_def encoded_size_def and_then_eq_Inr put_field_eq_Inr, fastforce+)

lemma put_definitions_ok: "fields_bounded l ds \<Longrightarrow> \<exists>out. put_definitions l ds = Inr out"
  by (induction ds) (auto simp: fields_bounded_def put_field_def put_number_def)

lemma bt_insert_last: "\<forall>k' \<in> fst ` set m. k' < k \<Longrightarrow> bt_insert k v m = m @ [(k, v)]"
  by (induction m) (auto simp: less_le_not_le)

lemma take_put_definitions:
  assumes "bl_publication_bytes l \<le> usize_max"
  shows "put_definitions l ds = Inr out \<Longrightarrow> bt_sorted (m @ ds) \<Longrightarrow> (\<forall>(i, d) \<in> set ds. utf8_valid i) \<Longrightarrow>
    used + data_size ds \<le> bl_publication_bytes l \<Longrightarrow>
    take_definitions l (length ds) used m (out @ rest) = (Inr (m @ ds), rest)"
proof (induction ds arbitrary: m used out)
  case (Cons e ds)
  obtain i d where e: "e = (i, d)" by (cases e)
  from Cons.prems(1) obtain a b tail where put: "put_field i (bl_string_bytes l) = Inr a"
      "put_field d (bl_document_bytes l) = Inr b" "put_definitions l ds = Inr tail" and out: "out = a @ b @ tail"
    by (auto simp: e and_then_eq_Inr)
  have less: "\<forall>k \<in> fst ` set m. k < i" and sorted: "bt_sorted ((m @ [(i, d)]) @ ds)"
    using Cons.prems(2) by (auto simp: bt_sorted_def e sorted_wrt_append)
  have fresh: "bt_get i m = None" using less by (auto simp: bt_get_def map_of_eq_None_iff)
  have size: "used + length d + data_size ds \<le> bl_publication_bytes l" using Cons.prems(4) by (simp add: e data_size_def)
  then have total: "checked_add_usize used (length d) = Some (used + length d)"
    using assms by (simp add: checked_add_usize_def)
  have "take_definitions l (length ds) (used + length d) (m @ [(i, d)]) (tail @ rest) = (Inr ((m @ [(i, d)]) @ ds), rest)"
    using put(3) sorted Cons.prems(3) size by (intro Cons.IH) auto
  with size total fresh Cons.prems(3) show ?case
    by (simp add: e out take_field_put [OF put(1)] take_field_put [OF put(2)] bt_insert_last [OF less])
qed simp

lemma sum_bt_insert: "bt_get k m = None \<Longrightarrow> sum_list (map f (bt_insert k v m)) = f (k, v) + sum_list (map f m)"
  for f :: "_ \<Rightarrow> nat"
  by (induction m) (auto simp: bt_get_def split: if_splits)

lemma length_bt_insert: "bt_get k m = None \<Longrightarrow> length (bt_insert k v m) = Suc (length m)"
  using sum_bt_insert [of k m "\<lambda>_. 1" v] by (simp add: sum_list_triv)

lemma set_bt_insert: "set (bt_insert k v m) \<subseteq> insert (k, v) (set m)"
  by (induction m) (auto split: if_splits)

lemma take_definitions_sound:
  "take_definitions l count used m rest = (Inr m', rest') \<Longrightarrow> bt_sorted m \<Longrightarrow> fields_bounded l m \<Longrightarrow>
    (\<forall>(i, d) \<in> set m. utf8_valid i) \<Longrightarrow>
    bt_sorted m' \<and> fields_bounded l m' \<and> (\<forall>(i, d) \<in> set m'. utf8_valid i) \<and> length m' = length m + count \<and>
    encoded_size m' + length rest' = encoded_size m + length rest \<and>
    (\<exists>n. data_size m' + used = data_size m + n \<and> (count = 0 \<or> n \<le> bl_publication_bytes l))"
proof (induction count arbitrary: used m rest)
  case (Suc count)
  from Suc.prems(1) obtain i d rest1 rest2 where i: "take_field (bl_string_bytes l) rest = (Inr i, rest1)" "utf8_valid i"
      and d: "take_field (bl_document_bytes l) rest1 = (Inr d, rest2)"
      and ok: "used + length d \<le> bl_publication_bytes l" "bt_get i m = None"
      and tail: "take_definitions l count (used + length d) (bt_insert i d m) rest2 = (Inr m', rest')"
    by (auto simp: and_thread_eq_Inr checked_add_usize_eq_Some split: if_splits)
  from i d obtain a b where put: "put_field i (bl_string_bytes l) = Inr a" "put_field d (bl_document_bytes l) = Inr b"
      and rest: "rest = a @ b @ rest2"
    by (auto simp: take_field_eq_Inr)
  have sizes: "encoded_size (bt_insert i d m) = 8 + length i + length d + encoded_size m"
      "data_size (bt_insert i d m) = length d + data_size m"
    using ok(2) by (simp_all add: encoded_size_def data_size_def sum_bt_insert)
  have "fields_bounded l (bt_insert i d m)" "\<forall>(i, d) \<in> set (bt_insert i d m). utf8_valid i"
    using set_bt_insert [of i d m] put Suc.prems(3,4) i(2) unfolding fields_bounded_def by (fastforce simp: put_field_eq_Inr)+
  with Suc.IH [OF tail bt_sorted_insert [OF Suc.prems(2)]] obtain n where
    "bt_sorted m'" "fields_bounded l m'" "\<forall>(i, d) \<in> set m'. utf8_valid i" "length m' = length (bt_insert i d m) + count"
    "encoded_size m' + length rest' = encoded_size (bt_insert i d m) + length rest2"
    and n: "data_size m' + (used + length d) = data_size (bt_insert i d m) + n" "count = 0 \<or> n \<le> bl_publication_bytes l"
    by blast
  moreover have "count = 0 \<Longrightarrow> n = used + length d" using n(1) tail by simp
  ultimately show ?case
    using ok put sizes by (auto simp: rest put_field_eq_Inr length_bt_insert)
qed auto


lemma record_maximum_eq:
  "board_limits_validate l = Inr () \<Longrightarrow> record_maximum l = Inr (bl_publication_bytes l * 2 + bl_definitions l * 12 + 64)"
  by (auto simp: board_limits_validate_eq record_maximum_def checked_mul_usize_def checked_add_usize_def
      RECORD_ENTRY_BYTES_def RECORD_FIXED_BYTES_def)

lemma board_record_encode_eq_Inr:
  "board_record_encode r l = Inr bs \<longleftrightarrow>
     board_limits_validate l = Inr () \<and> length (br_definitions r) \<le> bl_definitions l \<and>
     length (br_board r) + data_size (br_definitions r) \<le> bl_publication_bytes l \<and> length (br_definitions r) < 2 ^ 32 \<and>
     (\<exists>board ds. put_field (br_board r) (bl_document_bytes l) = Inr board \<and> put_definitions l (br_definitions r) = Inr ds \<and>
        bs = ascii ''TSBOARD1'' @ id_bytes (br_publisher r) @ board @ be_bytes 4 (length (br_definitions r)) @ ds) \<and>
     length bs \<le> bl_publication_bytes l * 2 + bl_definitions l * 12 + 64"
proof (cases "board_limits_validate l")
  case (Inr u)
  then have "board_limits_validate l = Inr ()" by simp
  note m = record_maximum_eq [OF this] and v = this [unfolded board_limits_validate_eq]
  show ?thesis
    using v by (auto simp: board_record_encode_def and_then_eq_Inr sum_bytes_eq_Inr sum_bytes_data put_number_eq_Inr m Let_def not_less
        simp del: map_map split: if_splits)
qed (simp add: board_record_encode_def)

lemma board_record_decode_encode:
  assumes "board_record_encode r l = Inr bs" "record_typed r"
  shows "board_record_decode bs l = Inr r"
proof -
  from assms(1) obtain board ds where e: "board_limits_validate l = Inr ()" "length (br_definitions r) \<le> bl_definitions l"
      "length (br_board r) + data_size (br_definitions r) \<le> bl_publication_bytes l" "length (br_definitions r) < 2 ^ 32"
      and put: "put_field (br_board r) (bl_document_bytes l) = Inr board" "put_definitions l (br_definitions r) = Inr ds"
      and bs: "bs = ascii ''TSBOARD1'' @ id_bytes (br_publisher r) @ board @ be_bytes 4 (length (br_definitions r)) @ ds"
      and len: "length bs \<le> bl_publication_bytes l * 2 + bl_definitions l * 12 + 64"
    unfolding board_record_encode_eq_Inr by blast
  have "bl_publication_bytes l \<le> usize_max" using e(1) by (simp add: board_limits_validate_eq)
  from take_put_definitions [OF this put(2), of "[]" "length (br_board r)" "[]"]
  have ds: "take_definitions l (length (br_definitions r)) (length (br_board r)) [] ds = (Inr (br_definitions r), [])"
    using assms(2) e(3) by (simp add: record_typed_def)
  have id: "length (id_bytes (br_publisher r)) = 32" "Identity_Id (id_bytes (br_publisher r)) = br_publisher r"
    using assms(2) by (simp_all add: record_typed_def)
  have magic: "length (ascii ''TSBOARD1'') = 8" by (simp add: ascii_def)
  have "take_bytes 8 bs = (Inr (ascii ''TSBOARD1''), id_bytes (br_publisher r) @ board @ be_bytes 4 (length (br_definitions r)) @ ds)"
    unfolding bs by (rule take_bytes_append [OF magic])
  then show ?thesis
    using e len id ds
    by (simp add: board_record_decode_def record_maximum_eq take_bytes_append take_field_put [OF put(1)] take_number_put)
qed

text \<open>
  Decoding is canonical up to the order of the definitions: what is accepted is a record of the right
  shape whose own encoding has the same length, and decodes to it again.
\<close>

lemma fst_eq_iff: "fst p = a \<longleftrightarrow> (\<exists>b. p = (a, b))"
  by (cases p) auto

lemma board_record_decode_sound:
  assumes "board_record_decode bs l = Inr r"
  obtains out where "record_typed r" "board_record_encode r l = Inr out" "length out = length bs"
proof -
  have v: "board_limits_validate l = Inr ()" using assms by (auto simp: board_record_decode_def and_then_eq_Inr)
  from assms obtain publisher board count rest1 rest2 rest3 defs where
      bs: "bs = ascii ''TSBOARD1'' @ publisher @ rest1" "length publisher = 32"
      and len: "length bs \<le> bl_publication_bytes l * 2 + bl_definitions l * 12 + 64"
      and board: "take_field (bl_document_bytes l) rest1 = (Inr board, rest2)"
      and count: "take_number rest2 = (Inr count, rest3)" "count \<le> bl_definitions l"
      and defs: "take_definitions l count (length board) [] rest3 = (Inr defs, [])"
      and r: "r = \<lparr>br_publisher = Identity_Id publisher, br_board = board, br_definitions = defs\<rparr>"
    using v unfolding board_record_decode_def
    by (simp only: and_then_simps record_maximum_eq [OF v] split: if_splits)
      (simp_all add: fst_eq_iff and_thread_eq_Inr take_bytes_eq_Inr split: if_splits, blast+)
  from board obtain field where field: "put_field board (bl_document_bytes l) = Inr field" "rest1 = field @ rest2"
    by (auto simp: take_field_eq_Inr)
  from count(1) have c: "count < 2 ^ 32" "rest2 = be_bytes 4 count @ rest3" by (simp_all add: take_number_eq_Inr)
  have empty: "fields_bounded l []" "\<forall>(i, d) \<in> set ([] :: (bytes, bytes) btree_map). utf8_valid i"
      "encoded_size [] = 0" "data_size [] = 0"
    by (simp_all add: fields_bounded_def encoded_size_def data_size_def)
  from take_definitions_sound [OF defs bt_sorted_Nil empty(1,2)] obtain n where
    d: "bt_sorted defs" "fields_bounded l defs" "\<forall>(i, d) \<in> set defs. utf8_valid i" "length defs = count"
      "encoded_size defs = length rest3"
      and n: "data_size defs + length board = n" "count = 0 \<or> n \<le> bl_publication_bytes l"
    by (simp only: empty(3,4) list.size add_0 add_0_right) blast
  obtain ds where ds: "put_definitions l defs = Inr ds" using put_definitions_ok [OF d(2)] by blast
  have size: "length ds = length rest3" using put_definitions_size [OF ds] d(5) by simp
  let ?out = "ascii ''TSBOARD1'' @ publisher @ field @ be_bytes 4 count @ ds"
  have "length board \<le> bl_publication_bytes l" using v field(1) by (simp add: board_limits_validate_eq put_field_eq_Inr)
  then have fits: "length board + data_size defs \<le> bl_publication_bytes l"
    using n d(4) empty(4) by (cases "count = 0") simp_all
  have same: "length ?out = length bs" using bs field(2) c(2) size by simp
  have "board_record_encode r l = Inr ?out"
    unfolding board_record_encode_eq_Inr same
    using v len c(1) count(2) field(1) ds d(4) fits by (simp add: r)
  moreover have "record_typed r" using d(1,3) bs(2) by (simp add: record_typed_def r)
  ultimately show thesis using that same by blast
qed


section \<open>What a preparation guarantees\<close>

lemma equivalent_trans:
  assumes "equivalent a b" "equivalent b c"
  shows "equivalent a c"
proof -
  obtain x y where xy: "a = Json_Object x" "b = Json_Object y"
    using assms by (auto simp: equivalent_def as_object_def split: Json.splits)
  have "json_get c k = Some v" if kv: "(k, v) \<in> set x" "k \<noteq> ascii ''id''" "k \<noteq> ascii ''serviceVersion''" for k v
  proof -
    have "json_get b k = Some v" using assms(1) kv by (auto simp: equivalent_def xy as_object_def list_all_iff)
    then have "(k, v) \<in> set y" by (auto simp: json_get_def xy bt_get_def dest: map_of_SomeD)
    then show ?thesis using assms(2) kv(2,3) by (auto simp: equivalent_def xy as_object_def list_all_iff)
  qed
  then show ?thesis by (auto simp: equivalent_def xy as_object_def list_all_iff)
qed

lemma same_contract_sym: "same_contract d e \<Longrightarrow> same_contract e d"
  by (auto simp: same_contract_def Let_def split: if_splits)

lemma same_contract_trans: "same_contract d e \<Longrightarrow> same_contract e f \<Longrightarrow> same_contract d f"
  by (auto simp: same_contract_def Let_def split: if_splits intro: equivalent_trans)

text \<open>The identity fields of a definition are those of its offering.\<close>

definition definition_bound :: "Definition \<Rightarrow> Offering \<Rightarrow> bool" where
  "definition_bound d o' \<longleftrightarrow>
     (let v = dc_value (df_document d) in
      string v (ascii ''id'') = Inr (of_id o') \<and> string v (ascii ''service'') = Inr (of_service o') \<and>
      string v (ascii ''description'') = Inr (of_description o') \<and>
      Option.bind (json_get v (ascii ''serviceVersion'')) integer = Some (ucast (of_version o')))"

lemma definition_parse_bound:
  assumes "definition_parse js bs o' l = Inr d"
  shows "definition_bound d o'" "dc_source (df_document d) = bs" "length bs \<le> bl_document_bytes l"
    "document_parse js bs l = Inr (df_document d)"
  using assms
  by (auto simp: definition_parse_def definition_bound_def Let_def and_then_eq_Inr dest: document_parse_facts split: if_splits)

text \<open>The offerings of a parsed board are in order, under their own identifiers, with valid terms.\<close>

definition offerings_valid :: "(bytes, Offering) btree_map \<Rightarrow> bool" where
  "offerings_valid m \<longleftrightarrow> bt_sorted m \<and>
     (\<forall>(i, o') \<in> set m. of_id o' = i \<and> of_version o' \<noteq> 0 \<and> terms_validate (of_source o') = Inr ())"

lemma offering_parse_valid:
  assumes "offering_parse dir v = Inr o'"
  shows "of_version o' \<noteq> 0" "terms_validate (of_source o') = Inr ()" "of_direction o' = dir"
proof -
  from assms obtain version :: u64 where v: "0 < version" "unat version \<le> 2 ^ 32 - 1" "of_version o' = ucast version"
    by (auto simp: offering_parse_def and_then_eq_Inr)
  have "unat (ucast version :: u32) = unat version"
    using v(2) by (simp add: unsigned_ucast_eq take_bit_nat_eq_self)
  moreover have "unat version \<noteq> 0" using v(1) by (simp add: unat_eq_0)
  ultimately show "of_version o' \<noteq> 0" using v(3) by (metis unat_0)
qed (use assms in \<open>auto simp: offering_parse_def and_then_eq_Inr\<close>)

lemma board_offerings_valid:
  "board_offerings l dir vs m = Inr m' \<Longrightarrow> offerings_valid m \<Longrightarrow> offerings_valid m' \<and> (length m \<le> bl_definitions l \<longrightarrow> length m' \<le> bl_definitions l)"
proof (induction vs arbitrary: m)
  case (Cons v vs)
  then obtain o' where o': "offering_parse dir v = Inr o'" "board_offerings l dir vs (bt_insert (of_id o') o' m) = Inr m'"
      "length (bt_insert (of_id o') o' m) \<le> bl_definitions l"
    by (auto simp: and_then_eq_Inr Let_def split: if_splits)
  have "offerings_valid (bt_insert (of_id o') o' m)"
    using Cons.prems(2) set_bt_insert [of "of_id o'" o' m] offering_parse_valid [OF o'(1)]
    unfolding offerings_valid_def by (fastforce simp: bt_sorted_insert)
  from Cons.IH [OF o'(2) this] o'(3) show ?case by simp
qed simp

lemma board_parse_valid:
  assumes "board_parse js bs l = Inr b"
  shows "offerings_valid (bd_offerings b)" "length (bd_offerings b) \<le> bl_definitions l"
    "document_parse js bs l = Inr (bd_document b)"
proof -
  from assms obtain m root vs ws where m: "board_offerings l Dn_Provided vs [] = Inr m" "board_offerings l Dn_Wanted ws m = Inr (bd_offerings b)"
      and "document_parse js bs l = Inr (bd_document b)"
    by (auto simp: board_parse_def board_field_def and_then_eq_Inr split: if_splits)
  then show "document_parse js bs l = Inr (bd_document b)" by simp
  have "offerings_valid []" by (simp add: offerings_valid_def)
  with m board_offerings_valid show "offerings_valid (bd_offerings b)" "length (bd_offerings b) \<le> bl_definitions l"
    by (metis le0 list.size(3))+
qed

text \<open>What the loop over the offerings has established for those it has gone through.\<close>

definition prepared_part ::
    "Serde \<Rightarrow> BoardLimits \<Rightarrow> (bytes, bytes) btree_map \<Rightarrow> (bytes, Offering) btree_map \<Rightarrow> (bytes \<times> u32, bytes) btree_map
      \<Rightarrow> (bytes, Definition) btree_map \<Rightarrow> bool" where
  "prepared_part js l definitions processed contracts validated \<longleftrightarrow>
     map fst validated = map fst processed \<and>
     (\<forall>(i, o') \<in> set processed. \<exists>bs d k e.
        bt_get i definitions = Some bs \<and> bt_get i validated = Some d \<and> definition_parse js bs o' l = Inr d \<and>
        bt_get (of_service o', of_version o') contracts = Some k \<and> bt_get k validated = Some e \<and>
        (k = i \<or> same_contract d e))"

lemma prepared_partD:
  assumes "prepared_part js l definitions processed contracts validated" "(i, o') \<in> set processed"
  obtains bs d k e where "bt_get i definitions = Some bs" "bt_get i validated = Some d" "definition_parse js bs o' l = Inr d"
    "bt_get (of_service o', of_version o') contracts = Some k" "bt_get k validated = Some e" "k = i \<or> same_contract d e"
  using bspec [OF conjunct2 [OF assms(1) [unfolded prepared_part_def]] assms(2)] that unfolding prod.case by blast

lemma bt_get_insert_old: "bt_get k m = Some v \<Longrightarrow> bt_get i m = None \<Longrightarrow> bt_get k (bt_insert i w m) = Some v"
  by (auto simp: bt_get_insert)

lemma prepared_part_step:
  assumes part: "prepared_part js l definitions processed contracts validated"
    and d: "bt_get i definitions = Some bs" "definition_parse js bs o' l = Inr d"
    and fresh: "bt_get i validated = None" "\<forall>k \<in> fst ` set validated. k < i"
    and c: "(contracts' = contracts \<and> bt_get (of_service o', of_version o') contracts = Some k \<and>
        bt_get k validated = Some e \<and> same_contract d e) \<or>
      (bt_get (of_service o', of_version o') contracts = None \<and> contracts' = bt_insert (of_service o', of_version o') i contracts)"
  shows "prepared_part js l definitions (processed @ [(i, o')]) contracts' (bt_insert i d validated)"
proof -
  let ?c = "(of_service o', of_version o')"
  have keep: "bt_get k' contracts' = Some v" if "bt_get k' contracts = Some v" for k' v
    using c that by (auto simp: bt_get_insert)
  have old: "bt_get k' (bt_insert i d validated) = Some v" if "bt_get k' validated = Some v" for k' v
    using bt_get_insert_old [OF that fresh(1)] .
  have "\<exists>bs d' k e. bt_get j definitions = Some bs \<and> bt_get j (bt_insert i d validated) = Some d' \<and>
      definition_parse js bs p l = Inr d' \<and> bt_get (of_service p, of_version p) contracts' = Some k \<and>
      bt_get k (bt_insert i d validated) = Some e \<and> (k = j \<or> same_contract d' e)"
    if "(j, p) \<in> set processed" for j p
    using part that keep old unfolding prepared_part_def by fast
  moreover have "\<exists>bs d' k e. bt_get i definitions = Some bs \<and> bt_get i (bt_insert i d validated) = Some d' \<and>
      definition_parse js bs o' l = Inr d' \<and> bt_get ?c contracts' = Some k \<and>
      bt_get k (bt_insert i d validated) = Some e \<and> (k = i \<or> same_contract d' e)"
    using c d old by (auto simp: bt_get_insert)
  ultimately show ?thesis
    using part by (auto simp: prepared_part_def bt_insert_last [OF fresh(2)])
qed

lemma prepare_definitions_sound:
  "prepare_definitions js l definitions offerings contracts validated = Inr result \<Longrightarrow>
    bt_sorted (processed @ offerings) \<Longrightarrow> prepared_part js l definitions processed contracts validated \<Longrightarrow>
    \<exists>contracts'. prepared_part js l definitions (processed @ offerings) contracts' result"
proof (induction offerings arbitrary: processed contracts validated)
  case Nil
  then show ?case by auto
next
  case (Cons e offerings)
  obtain i o' where e: "e = (i, o')" by (cases e)
  from Cons.prems(1) obtain bs d where d: "bt_get i definitions = Some bs" "definition_parse js bs o' l = Inr d"
      and step: "(case bt_get (of_service o', of_version o') contracts of
        Some prior_id \<Rightarrow> and_then (ok_or Be_Invalid (bt_get prior_id validated)) (\<lambda>prior.
          if \<not> same_contract d prior then Inl Be_Invalid
          else prepare_definitions js l definitions offerings contracts (bt_insert i d validated))
      | None \<Rightarrow> prepare_definitions js l definitions offerings (bt_insert (of_service o', of_version o') i contracts)
          (bt_insert i d validated)) = Inr result"
    by (auto simp: e and_then_eq_Inr Let_def)
  obtain contracts' where rest: "prepare_definitions js l definitions offerings contracts' (bt_insert i d validated) = Inr result"
      and c: "(\<exists>k e. contracts' = contracts \<and> bt_get (of_service o', of_version o') contracts = Some k \<and>
          bt_get k validated = Some e \<and> same_contract d e) \<or>
        (bt_get (of_service o', of_version o') contracts = None \<and> contracts' = bt_insert (of_service o', of_version o') i contracts)"
  proof (cases "bt_get (of_service o', of_version o') contracts")
    case None
    with step that show thesis by simp
  next
    case (Some k)
    with step that [of contracts] show thesis by (auto simp: and_then_eq_Inr split: if_splits)
  qed
  have keys: "map fst validated = map fst processed" using Cons.prems(3) by (simp add: prepared_part_def)
  have less: "\<forall>k \<in> fst ` set validated. k < i"
    using Cons.prems(2) keys by (auto simp: bt_sorted_def e sorted_wrt_append simp flip: set_map)
  then have fresh: "bt_get i validated = None" by (auto simp: bt_get_def map_of_eq_None_iff)
  have "prepared_part js l definitions (processed @ [(i, o')]) contracts' (bt_insert i d validated)"
    using c prepared_part_step [OF Cons.prems(3) d fresh less] by blast
  from Cons.IH [OF rest _ this] Cons.prems(2) show ?case by (simp add: e)
qed

lemma prepared_new_eq_Inr:
  "prepared_new js publisher bs definitions l caps = Inr p \<longleftrightarrow>
     board_limits_validate l = Inr () \<and> length definitions \<le> bl_definitions l \<and>
     length bs + data_size definitions \<le> bl_publication_bytes l \<and> board_parse js bs l = Inr (pp_board p) \<and>
     is_ok (response_encode ''board'' (bd_document (pp_board p))) \<and>
     length definitions = length (bd_offerings (pp_board p)) \<and>
     prepare_definitions js l definitions (bd_offerings (pp_board p)) [] [] = Inr (pp_definitions p) \<and>
     pp_publisher p = publisher \<and> pp_bytes p = length bs + data_size definitions \<and> prepared_assess p caps = Inr ()"
proof (cases "board_limits_validate l")
  case (Inr u)
  then have v: "bl_publication_bytes l \<le> usize_max" using board_limits_validate_eq [of l] by simp
  show ?thesis
    using Inr v by (cases p) (auto simp: prepared_new_def and_then_eq_Inr sum_bytes_eq_Inr sum_bytes_data is_ok_iff Let_def
        simp del: map_map split: if_splits)
qed (simp add: prepared_new_def)

lemma prepared_sound_part:
  assumes "prepared_new js publisher bs definitions l caps = Inr p"
  obtains contracts where "prepared_part js l definitions (bd_offerings (pp_board p)) contracts (pp_definitions p)"
    "offerings_valid (bd_offerings (pp_board p))"
proof -
  from assms have p: "board_parse js bs l = Inr (pp_board p)"
      "prepare_definitions js l definitions (bd_offerings (pp_board p)) [] [] = Inr (pp_definitions p)"
    by (simp_all add: prepared_new_eq_Inr)
  note valid = board_parse_valid [OF p(1)]
  have "prepared_part js l definitions [] [] []" by (simp add: prepared_part_def)
  from prepare_definitions_sound [OF p(2) _ this] valid(1) that show thesis by (auto simp: offerings_valid_def)
qed

text \<open>The record made from a preparation holds exactly the bytes it was prepared from.\<close>

lemma prepared_record:
  assumes "prepared_new js publisher bs definitions l caps = Inr p" "bt_sorted definitions"
  shows "record_from_prepared p = \<lparr>br_publisher = publisher, br_board = bs, br_definitions = definitions\<rparr>"
proof -
  obtain contracts where part: "prepared_part js l definitions (bd_offerings (pp_board p)) contracts (pp_definitions p)"
      "offerings_valid (bd_offerings (pp_board p))"
    using assms(1) by (rule prepared_sound_part)
  let ?o = "bd_offerings (pp_board p)" and ?v = "pp_definitions p"
  have keys: "map fst ?v = map fst ?o" using part(1) by (simp add: prepared_part_def)
  have sorted: "bt_sorted ?o" "bt_sorted ?v" using part(2) keys by (simp_all add: offerings_valid_def bt_sorted_def)
  have get: "\<exists>bs. bt_get i definitions = Some bs \<and> dc_source (df_document d) = bs" if "(i, d) \<in> set ?v" for i d
  proof -
    have "i \<in> set (map fst ?o)" using that unfolding keys [symmetric] by force
    then obtain o' where "(i, o') \<in> set ?o" by auto
    moreover have "bt_get i ?v = Some d" using that sorted(2) by (simp add: bt_get_iff)
    ultimately show ?thesis using part(1) definition_parse_bound(2) unfolding prepared_part_def by fastforce
  qed
  have "set (map fst ?v) \<subseteq> set (map fst definitions)"
  proof
    fix i
    assume "i \<in> set (map fst ?v)"
    then obtain d where "(i, d) \<in> set ?v" by auto
    with get obtain bs where "bt_get i definitions = Some bs" by blast
    then show "i \<in> set (map fst definitions)" using map_of_SomeD [of definitions i bs] by (force simp: bt_get_def)
  qed
  moreover have "card (set (map fst definitions)) = card (set (map fst ?v))"
    using assms bt_sorted_distinct [OF sorted(2)] bt_sorted_distinct [OF assms(2)] arg_cong [OF keys, of length]
    by (simp add: distinct_card prepared_new_eq_Inr del: set_map)
  ultimately have "set (map fst ?v) = set (map fst definitions)" by (intro card_subset_eq) simp_all
  then have same: "map fst ?v = map fst definitions"
    using sorted(2) assms(2) unfolding bt_sorted_def by (metis strict_sorted_equal)
  have "map (\<lambda>(i, d). (i, dc_source (df_document d))) ?v = definitions"
  proof (rule nth_equalityI)
    show len: "length (map (\<lambda>(i, d). (i, dc_source (df_document d))) ?v) = length definitions"
      using arg_cong [OF same, of length] by simp
    fix n
    assume "n < length (map (\<lambda>(i, d). (i, dc_source (df_document d))) ?v)"
    then have n: "n < length ?v" "n < length definitions" using len by simp_all
    obtain i d where v: "?v ! n = (i, d)" by (cases "?v ! n")
    have "fst (definitions ! n) = i" using arg_cong [OF same, of "\<lambda>xs. xs ! n"] n v by simp
    then have "bt_get i definitions = Some (snd (definitions ! n))"
      using n(2) assms(2) by (simp add: bt_get_iff) (metis nth_mem prod.collapse)
    moreover have "(i, d) \<in> set ?v" using v n(1) by (metis nth_mem)
    ultimately have "definitions ! n = (i, dc_source (df_document d))"
      using get \<open>fst (definitions ! n) = i\<close> by (metis option.inject prod.collapse)
    then show "map (\<lambda>(i, d). (i, dc_source (df_document d))) ?v ! n = definitions ! n" using n v by simp
  qed
  moreover have "dc_source (bd_document (pp_board p)) = bs"
    using assms(1) board_parse_valid(3) document_parse_facts(1) by (metis prepared_new_eq_Inr)
  ultimately show ?thesis using assms(1) by (simp add: record_from_prepared_def prepared_new_eq_Inr)
qed

text \<open>Preparing the record again under the same policy asks the capabilities only.\<close>

lemma record_prepare_again:
  assumes "prepared_new js publisher bs definitions l caps = Inr p" "bt_sorted definitions"
  shows "record_prepare js (record_from_prepared p) l caps' = and_then (prepared_assess p caps') (\<lambda>_. Inr p)"
proof -
  have "prepared_new js publisher bs definitions l caps' = and_then (prepared_assess p caps') (\<lambda>_. Inr p)"
  proof (cases "prepared_assess p caps'")
    case (Inr u)
    then show ?thesis using assms(1) prepared_new_eq_Inr [of js publisher bs definitions l caps' p] by (simp add: prepared_new_eq_Inr)
  next
    case (Inl e)
    from assms(1) have "board_limits_validate l = Inr () \<and> length definitions \<le> bl_definitions l \<and>
        sum_bytes (length bs) (map snd definitions) = Inr (pp_bytes p) \<and> pp_bytes p \<le> bl_publication_bytes l \<and>
        board_parse js bs l = Inr (pp_board p) \<and> is_ok (response_encode ''board'' (bd_document (pp_board p))) \<and>
        length definitions = length (bd_offerings (pp_board p)) \<and>
        prepare_definitions js l definitions (bd_offerings (pp_board p)) [] [] = Inr (pp_definitions p) \<and> pp_publisher p = publisher"
      by (cases p) (auto simp: prepared_new_def and_then_eq_Inr is_ok_iff Let_def split: if_splits)
    with Inl show ?thesis by (cases p) (auto simp: prepared_new_def is_ok_iff Let_def prepared_assess_def)
  qed
  then show ?thesis using prepared_record [OF assms] by (simp add: record_prepare_def)
qed

lemma assess_offerings_eq_Inr:
  "assess_offerings caps definitions offerings = Inr () \<longleftrightarrow>
     (\<forall>(i, o') \<in> set offerings. assess caps o' (the (bt_get i definitions)) True True = Inr ())"
  by (induction caps definitions offerings rule: assess_offerings.induct) (auto simp: and_then_eq_Inr)

section \<open>Properties\<close>

text \<open>
  C34: A prepared publication is complete and consistent: every offering has a definition that repeats
  its identifier, service, version and description, there are no other definitions, the node can serve
  every one of them, any two offerings of one service version describe the same contract, and what is
  stored and served are exactly the bytes that were given, within the size of a publication.
\<close>

theorem prepared_sound:
  assumes "prepared_new js publisher bs definitions l caps = Inr p" "bt_sorted definitions"
  shows "map fst (pp_definitions p) = map fst (bd_offerings (pp_board p)) \<and>
    (\<forall>(i, o') \<in> set (bd_offerings (pp_board p)). \<exists>d. bt_get i (pp_definitions p) = Some d \<and> of_id o' = i \<and>
       of_version o' \<noteq> 0 \<and> terms_validate (of_source o') = Inr () \<and>
       definition_bound d o' \<and> assess caps o' d True True = Inr ()) \<and>
    (\<forall>(i, o') \<in> set (bd_offerings (pp_board p)). \<forall>(j, q) \<in> set (bd_offerings (pp_board p)).
       i \<noteq> j \<longrightarrow> of_service o' = of_service q \<longrightarrow> of_version o' = of_version q \<longrightarrow>
       same_contract (the (bt_get i (pp_definitions p))) (the (bt_get j (pp_definitions p)))) \<and>
    record_from_prepared p = \<lparr>br_publisher = publisher, br_board = bs, br_definitions = definitions\<rparr> \<and>
    pp_bytes p = length bs + data_size definitions \<and> pp_bytes p \<le> bl_publication_bytes l"
proof -
  obtain contracts where part: "prepared_part js l definitions (bd_offerings (pp_board p)) contracts (pp_definitions p)"
      "offerings_valid (bd_offerings (pp_board p))"
    using assms(1) by (rule prepared_sound_part)
  have assessed: "\<forall>(i, o') \<in> set (bd_offerings (pp_board p)). assess caps o' (the (bt_get i (pp_definitions p))) True True = Inr ()"
    using assms(1) by (simp add: prepared_new_eq_Inr prepared_assess_def assess_offerings_eq_Inr)
  have "same_contract (the (bt_get i (pp_definitions p))) (the (bt_get j (pp_definitions p)))"
    if pair: "(i, o') \<in> set (bd_offerings (pp_board p))" "(j, q) \<in> set (bd_offerings (pp_board p))" "i \<noteq> j"
      "of_service o' = of_service q" "of_version o' = of_version q" for i o' j q
  proof -
    obtain b d k e where d: "bt_get i (pp_definitions p) = Some d" "bt_get (of_service o', of_version o') contracts = Some k"
        "bt_get k (pp_definitions p) = Some e" "k = i \<or> same_contract d e"
      using part(1) pair(1) by (rule prepared_partD)
    obtain b' d' k' e' where d': "bt_get j (pp_definitions p) = Some d'" "bt_get (of_service q, of_version q) contracts = Some k'"
        "bt_get k' (pp_definitions p) = Some e'" "k' = j \<or> same_contract d' e'"
      using part(1) pair(2) by (rule prepared_partD)
    have same: "k' = k" "e' = e" using d(2,3) d'(2,3) pair(4,5) by simp_all
    have "same_contract d d'"
    proof (cases "k = i")
      case True
      then have "e = d" "same_contract d' e" using d d' same pair(3) by simp_all
      then show ?thesis using same_contract_sym by simp
    next
      case False
      then have "same_contract d e" using d(4) by simp
      moreover have "d' = e \<or> same_contract d' e" using d' same d(3) by auto
      ultimately show ?thesis using same_contract_sym same_contract_trans by blast
    qed
    then show ?thesis using d(1) d'(1) by simp
  qed
  then have contracts: "\<forall>(i, o') \<in> set (bd_offerings (pp_board p)). \<forall>(j, q) \<in> set (bd_offerings (pp_board p)).
       i \<noteq> j \<longrightarrow> of_service o' = of_service q \<longrightarrow> of_version o' = of_version q \<longrightarrow>
       same_contract (the (bt_get i (pp_definitions p))) (the (bt_get j (pp_definitions p)))" by blast
  have "\<exists>d. bt_get i (pp_definitions p) = Some d \<and> of_id o' = i \<and> of_version o' \<noteq> 0 \<and>
      terms_validate (of_source o') = Inr () \<and> definition_bound d o' \<and> assess caps o' d True True = Inr ()"
    if o': "(i, o') \<in> set (bd_offerings (pp_board p))" for i o'
  proof -
    obtain bs' d where d: "bt_get i (pp_definitions p) = Some d" "definition_parse js bs' o' l = Inr d"
      using part(1) o' by (rule prepared_partD)
    have "of_id o' = i \<and> of_version o' \<noteq> 0 \<and> terms_validate (of_source o') = Inr ()"
      using bspec [OF conjunct2 [OF part(2) [unfolded offerings_valid_def]] o'] by simp
    moreover have "assess caps o' d True True = Inr ()" using bspec [OF assessed o'] d(1) by simp
    ultimately show ?thesis using d(1) definition_parse_bound(1) [OF d(2)] by simp
  qed
  then have each: "\<forall>(i, o') \<in> set (bd_offerings (pp_board p)). \<exists>d. bt_get i (pp_definitions p) = Some d \<and> of_id o' = i \<and>
       of_version o' \<noteq> 0 \<and> terms_validate (of_source o') = Inr () \<and>
       definition_bound d o' \<and> assess caps o' d True True = Inr ()" by blast
  have keys: "map fst (pp_definitions p) = map fst (bd_offerings (pp_board p))"
    using part(1) by (simp add: prepared_part_def)
  have size: "pp_bytes p = length bs + data_size definitions \<and> pp_bytes p \<le> bl_publication_bytes l"
    using assms(1) by (simp add: prepared_new_eq_Inr)
  from keys each contracts prepared_record [OF assms] size show ?thesis by (intro conjI) (assumption | simp)+
qed

end
