(* ===== verification/Board_Store.thy ===== *)
theory Board_Store
  imports Board_Prepared Identity_Store
begin

text \<open>
  Durable publications: the contract of \<open>Persistence\<close> (\<open>board/persistence.rs\<close>) as the locale
  \<open>persistence\<close>, and the file store of \<open>board/linux.rs\<close> over the directory of Identity\_Store, whose
  every system call may fail. Both the in-memory store and the file store meet the contract. Walking
  to the directory (\<open>directory\<close>) and the cut points of the tests (\<open>cut\<close>) are not modelled; a fault at
  a cut point is a fault of the next call.
\<close>

section \<open>The file store\<close>

record BoardStore =
  bf_directory :: Fs
  bf_limits :: BoardLimits

definition protected_metadata :: "Fs \<Rightarrow> bool \<Rightarrow> File \<Rightarrow> (BoardError, unit) result" where
  "protected_metadata fs directory meta =
     (if fl_uid meta \<noteq> fs_euid fs \<or> fl_mode meta mod 65536 \<noteq> (if directory then 16832 else 33152)
        \<or> \<not> directory \<and> fl_nlink meta \<noteq> 1
      then Inl Be_Denied else Inr ())"

definition protected :: "string \<Rightarrow> Fs \<Rightarrow> (BoardError, unit) result \<times> Fs" where
  "protected name fs =
     and_thread (failing (\<lambda>_. Be_Storage) (sys_stat name fs)) (\<lambda>meta fs. (protected_metadata fs False meta, fs))"

definition protected_directory :: "Fs \<Rightarrow> (BoardError, unit) result \<times> Fs" where
  "protected_directory fs =
     and_thread (failing (\<lambda>_. Be_Storage) (call (\<lambda>fs. (Inr (fs_directory fs), fs)) fs))
       (\<lambda>meta fs. (protected_metadata fs True meta, fs))"

definition discard_pending :: "Fs \<Rightarrow> (BoardError, unit) result \<times> Fs" where
  "discard_pending fs =
     (case sys_open ''board.pending'' fs of
        (Inr _, fs) \<Rightarrow>
          and_thread (protected ''board.pending'' fs) (\<lambda>_ fs.
          and_thread (failing (\<lambda>_. Be_Storage) (sys_unlink ''board.pending'' fs)) (\<lambda>_ fs.
          failing (\<lambda>_. Be_Unknown) (sys_sync fs)))
      | (Inl e, fs) \<Rightarrow> if e = En_NOENT then (Inr (), fs) else (Inl Be_Storage, fs))"

definition board_store_open :: "BoardLimits \<Rightarrow> Fs \<Rightarrow> (BoardError, BoardStore) result \<times> Fs" where
  "board_store_open limits fs =
     and_thread (board_limits_validate limits, fs) (\<lambda>_ fs.
     and_thread (protected_directory fs) (\<lambda>_ fs.
     and_thread (failing (\<lambda>_. Be_Storage) (sys_open_or_create ''writer.lock'' fs)) (\<lambda>_ fs.
     and_thread (protected ''writer.lock'' fs) (\<lambda>_ fs.
     and_thread (failing (\<lambda>_. Be_Denied) (sys_flock fs)) (\<lambda>_ fs.
     and_thread (discard_pending fs) (\<lambda>_ fs.
     (Inr \<lparr>bf_directory = fs, bf_limits = limits\<rparr>, fs)))))))"

definition load_file :: "BoardLimits \<Rightarrow> Fs \<Rightarrow> (BoardError, BoardRecord option) result \<times> Fs" where
  "load_file limits fs =
     (case sys_open ''board.bin'' fs of
        (Inl e, fs) \<Rightarrow> if e = En_NOENT then (Inr None, fs) else (Inl Be_Storage, fs)
      | (Inr _, fs) \<Rightarrow>
          and_thread (protected ''board.bin'' fs) (\<lambda>_ fs.
          and_thread (record_maximum limits, fs) (\<lambda>maximum fs.
          and_thread (failing (\<lambda>_. Be_Storage) (sys_stat ''board.bin'' fs)) (\<lambda>meta fs.
          if length (fl_bytes meta) > maximum then (Inl Be_Limit, fs) else
          and_thread (failing (\<lambda>_. Be_Storage) (sys_stat ''board.bin'' fs)) (\<lambda>file fs.
          and_thread (board_record_decode (take ((maximum + 1) mod 2 ^ 64) (fl_bytes file)) limits, fs) (\<lambda>record fs.
          and_thread (failing (\<lambda>_. Be_Unknown) (sys_sync fs)) (\<lambda>_ fs.
          (Inr (Some record), fs))))))))"

definition stage_board :: "bytes \<Rightarrow> Fs \<Rightarrow> (BoardError, unit) result \<times> Fs" where
  "stage_board bs fs =
     and_thread (protected ''board.pending'' fs) (\<lambda>_ fs.
     and_thread (failing (\<lambda>_. Be_Storage) (sys_write ''board.pending'' bs fs)) (\<lambda>_ fs.
     and_thread (failing (\<lambda>_. Be_Storage) (sys_sync fs)) (\<lambda>_ fs.
     failing (\<lambda>_. Be_Storage) (sys_rename ''board.pending'' ''board.bin'' True fs))))"

definition publish_board :: "bytes \<Rightarrow> Fs \<Rightarrow> (BoardError, unit) result \<times> Fs" where
  "publish_board bs fs =
     (case stage_board bs fs of
        (Inl e, fs) \<Rightarrow> (Inl e, snd (sys_unlink ''board.pending'' fs))
      | (Inr _, fs) \<Rightarrow> failing (\<lambda>_. Be_Unknown) (sys_sync fs))"

definition commit_file :: "BoardLimits \<Rightarrow> BoardRecord \<Rightarrow> Fs \<Rightarrow> (BoardError, unit) result \<times> Fs" where
  "commit_file limits record fs =
     and_thread (board_record_encode record limits, fs) (\<lambda>bs fs.
     and_thread (failing (\<lambda>_. Be_Storage) (sys_create ''board.pending'' fs)) (\<lambda>_ fs. publish_board bs fs))"

definition on_directory :: "(Fs \<Rightarrow> 'a \<times> Fs) \<Rightarrow> BoardStore \<Rightarrow> 'a \<times> BoardStore" where
  "on_directory f st = (case f (bf_directory st) of (r, fs) \<Rightarrow> (r, st\<lparr>bf_directory := fs\<rparr>))"

definition board_file_store :: "BoardStore Persistence" where
  "board_file_store =
     \<lparr>ps_load = \<lambda>st. on_directory (load_file (bf_limits st)) st,
      ps_commit = \<lambda>record st. on_directory (commit_file (bf_limits st) record) st\<rparr>"

section \<open>The contract of persistence\<close>

text \<open>
  A store is one register for a complete publication: loading changes nothing and gives what is
  stored, an acknowledged commitment is stored, a refused one leaves the register as it was, and after
  an unknown outcome the register holds the old or the new publication, never a mixture.
\<close>

locale persistence =
  fixes ps :: "'s Persistence" and stored :: "'s \<Rightarrow> BoardRecord option" and sound :: "'s \<Rightarrow> bool"
  assumes load_sound: "sound s \<Longrightarrow> ps_load ps s = (res, s') \<Longrightarrow> sound s' \<and> stored s' = stored s"
    and load_result: "sound s \<Longrightarrow> ps_load ps s = (Inr r, s') \<Longrightarrow> r = stored s"
    and stored_typed: "sound s \<Longrightarrow> stored s = Some record \<Longrightarrow> record_typed record"
    and commit_sound: "sound s \<Longrightarrow> record_typed record \<Longrightarrow> ps_commit ps record s = (out, s') \<Longrightarrow> sound s'"
    and commit_ok: "sound s \<Longrightarrow> record_typed record \<Longrightarrow> ps_commit ps record s = (Inr (), s') \<Longrightarrow> stored s' = Some record"
    and commit_error: "sound s \<Longrightarrow> record_typed record \<Longrightarrow> ps_commit ps record s = (Inl e, s') \<Longrightarrow>
      stored s' = stored s \<or> e = Be_Unknown \<and> stored s' = Some record"
begin

lemma load_after_commit:
  assumes "sound s" "record_typed record" "ps_commit ps record s = (Inr (), s1)" "ps_load ps s1 = (Inr r, s2)"
  shows "r = Some record"
  using load_result [OF commit_sound [OF assms(1-3)] assms(4)] commit_ok [OF assms(1-3)] by simp

lemma commit_cases:
  assumes "sound s" "record_typed record" "ps_commit ps record s = (res, s')"
  obtains (stored) "res = Inr ()" "stored s' = Some record"
  | (unknown) "res = Inl Be_Unknown" "stored s' = Some record"
  | (kept) e where "res = Inl e" "stored s' = stored s"
  using commit_ok [OF assms(1,2)] commit_error [OF assms(1,2)] assms(3) by (cases res) (auto intro: that)

end

interpretation in_memory: persistence memory "\<lambda>m. m" "\<lambda>m. \<forall>r. m = Some r \<longrightarrow> record_typed r"
  by unfold_locales (auto simp: memory_def)

section \<open>The file store meets it\<close>

text \<open>
  What the store holds: the publication its file decodes to. The operating system is taken to report
  a missing file only for a file that is missing (\<open>honest\<close>).
\<close>

definition honest :: "Fs \<Rightarrow> bool" where
  "honest fs \<longleftrightarrow> (\<forall>n. Some (En_NOENT, n) \<notin> set (fs_faults fs))"

definition board_stored :: "BoardStore \<Rightarrow> BoardRecord option" where
  "board_stored st =
     Option.bind (fs_files (bf_directory st) ''board.bin'') (\<lambda>f.
     case board_record_decode (fl_bytes f) (bf_limits st) of Inl _ \<Rightarrow> None | Inr record \<Rightarrow> Some record)"

text \<open>The file, if there is one, passes the checks of its metadata and decodes.\<close>

definition intact :: "BoardLimits \<Rightarrow> Fs \<Rightarrow> bool" where
  "intact limits fs \<longleftrightarrow>
     (\<forall>f. fs_files fs ''board.bin'' = Some f \<longrightarrow>
        protected_metadata fs False f = Inr () \<and> is_ok (board_record_decode (fl_bytes f) limits))"

text \<open>Facts that a computation keeps, step by step.\<close>

lemma failing_snd [simp]: "snd (failing h out) = snd out"
  by (cases out) (simp add: failing_def)

lemma and_thread_keeps:
  "P (snd out) \<Longrightarrow> (\<And>a g. P g \<Longrightarrow> P (snd (f a g))) \<Longrightarrow> P (snd (and_thread out f))"
  by (cases out; cases "fst out") (auto simp: and_thread_def)

lemma case_keeps:
  "P (snd out) \<Longrightarrow> (\<And>e g. P g \<Longrightarrow> P (snd (f e g))) \<Longrightarrow> (\<And>a g. P g \<Longrightarrow> P (snd (h a g))) \<Longrightarrow>
   P (snd (case out of (Inl e, g) \<Rightarrow> f e g | (Inr a, g) \<Rightarrow> h a g))"
  by (cases out; cases "fst out") auto

lemma case_keeps':
  "P (snd out) \<Longrightarrow> (\<And>e g. P g \<Longrightarrow> P (snd (f e g))) \<Longrightarrow> (\<And>a g. P g \<Longrightarrow> P (snd (h a g))) \<Longrightarrow>
   P (snd (case out of (Inr a, g) \<Rightarrow> h a g | (Inl e, g) \<Rightarrow> f e g))"
  by (cases out; cases "fst out") auto

text \<open>The process and its directory, and that errors stay honest, through every call.\<close>

definition same_process :: "Fs \<Rightarrow> Fs \<Rightarrow> bool" where
  "same_process fs g \<longleftrightarrow> fs_euid g = fs_euid fs \<and> fs_directory g = fs_directory fs \<and>
     fs_created_mode g = fs_created_mode fs \<and> set (fs_faults g) \<subseteq> set (fs_faults fs)"

lemma same_process_refl [simp]: "same_process fs fs"
  by (simp add: same_process_def)

lemma same_process_honest: "same_process fs g \<Longrightarrow> honest fs \<Longrightarrow> honest g"
  by (auto simp: same_process_def honest_def)

lemma call_fault_process: "same_process fs g \<Longrightarrow> same_process fs (snd (call_fault g))"
  by (auto simp: call_fault_def same_process_def split: list.split)

lemma call_keeps:
  assumes "P (snd (call_fault g))" "\<And>g. P g \<Longrightarrow> P (snd (f g))"
  shows "P (snd (call f g))"
  using assms by (auto simp: call_def split: prod.split option.split)

lemma set_file_process [simp]: "same_process fs (set_file name f g) = same_process fs g"
  by (simp add: same_process_def set_file_def)

lemma sys_process:
  assumes "same_process fs g"
  shows "same_process fs (snd (sys_open name g))" "same_process fs (snd (sys_stat name g))"
    "same_process fs (snd (sys_sync g))" "same_process fs (snd (sys_flock g))"
    "same_process fs (snd (sys_unlink name g))" "same_process fs (snd (sys_rename name other replace g))"
    "same_process fs (snd (sys_create name g))" "same_process fs (snd (sys_open_or_create name g))"
    "same_process fs (snd (sys_write name bs g))"
  unfolding sys_open_def sys_stat_def sys_sync_def sys_flock_def sys_unlink_def sys_rename_def sys_create_def
    sys_open_or_create_def
  using call_fault_process [OF assms]
  by (simp_all add: call_keeps [where P = "same_process fs"] sys_write_def Let_def split: prod.split option.split) auto

lemmas process_keeps =
  and_thread_keeps [where P = "same_process fs" for fs] case_keeps [where P = "same_process fs" for fs]

lemma protected_process: "same_process fs g \<Longrightarrow> same_process fs (snd (protected name g))"
  unfolding protected_def by (rule process_keeps) (simp_all add: sys_process)

lemma load_process: "same_process fs g \<Longrightarrow> same_process fs (snd (load_file limits g))"
  unfolding load_file_def by (auto simp: sys_process protected_process intro!: process_keeps)

lemma stage_process: "same_process fs g \<Longrightarrow> same_process fs (snd (stage_board bs g))"
  unfolding stage_board_def by (intro process_keeps) (simp_all add: sys_process protected_process)

lemma publish_process: "same_process fs g \<Longrightarrow> same_process fs (snd (publish_board bs g))"
  unfolding publish_board_def by (intro process_keeps) (simp_all add: sys_process stage_process)

lemma commit_process: "same_process fs g \<Longrightarrow> same_process fs (snd (commit_file limits record g))"
  unfolding commit_file_def
  by (intro process_keeps) (simp_all add: sys_process publish_process)

text \<open>Loading.\<close>

lemma protected_files:
  "protected name fs = (res, fs') \<Longrightarrow> fs_files fs' = fs_files fs \<and>
     (res = Inr () \<longrightarrow> (\<exists>f. fs_files fs name = Some f \<and> protected_metadata fs' False f = Inr ()))"
  unfolding protected_def by (erule and_thread_cases) (auto simp: failing_eq dest: stat_file)

lemma open_file:
  assumes "sys_open name fs = (res, fs')" "honest fs"
  shows "fs_files fs' = fs_files fs \<and> (res = Inl En_NOENT \<longrightarrow> fs_files fs name = None)"
proof -
  obtain x g where c: "call_fault fs = (x, g)" by (cases "call_fault fs")
  then have "fs_files g = fs_files fs" "\<And>n. x \<noteq> Some (En_NOENT, n)"
    using assms(2) by (auto simp: call_fault_files) (auto simp: call_fault_def honest_def split: list.splits)
  with assms(1) c show ?thesis by (auto simp: sys_open_def call_def split: option.splits if_splits)
qed

text \<open>The largest record has an even size, so the bound on reading, one more, does not wrap.\<close>

lemma read_whole:
  assumes "record_maximum limits = Inr n" "length bs \<le> n"
  shows "take (Suc n mod 18446744073709551616) bs = bs"
proof -
  have "n \<le> usize_max" "even n"
    using assms(1) by (auto simp: record_maximum_def RECORD_ENTRY_BYTES_def RECORD_FIXED_BYTES_def checked_mul_usize_def
        checked_add_usize_eq_Some bind_eq_Some_conv split: if_splits)
  moreover have "odd usize_max" by (simp add: usize_max_def)
  ultimately have "Suc n mod 18446744073709551616 = Suc n" by (cases "n = usize_max") (auto simp: usize_max_def)
  with assms(2) show ?thesis by simp
qed

lemma load_files:
  assumes "load_file limits fs = (res, fs')" "honest fs"
  shows "fs_files fs' = fs_files fs"
    and "res = Inr record \<Longrightarrow>
      (case fs_files fs ''board.bin'' of None \<Rightarrow> record = None
       | Some f \<Rightarrow> \<exists>r. board_record_decode (fl_bytes f) limits = Inr r \<and> record = Some r)"
proof -
  obtain o' g where o': "sys_open ''board.bin'' fs = (o', g)" by (cases "sys_open ''board.bin'' fs")
  note g = open_file [OF o' assms(2)]
  have "fs_files fs' = fs_files fs \<and> (\<forall>record. res = Inr record \<longrightarrow>
      (case fs_files fs ''board.bin'' of None \<Rightarrow> record = None
       | Some f \<Rightarrow> \<exists>r. board_record_decode (fl_bytes f) limits = Inr r \<and> record = Some r))"
  proof (cases o')
    case (Inl e)
    with assms(1) o' g show ?thesis by (auto simp: load_file_def split: if_splits)
  next
    case (Inr u)
    show ?thesis
      using assms(1) o' g Inr unfolding load_file_def
      by (auto simp: failing_eq read_whole not_less split: if_splits option.split elim!: and_thread_cases
          dest!: protected_files stat_file looking(3))
  qed
  then show "fs_files fs' = fs_files fs"
    "res = Inr record \<Longrightarrow>
      (case fs_files fs ''board.bin'' of None \<Rightarrow> record = None
       | Some f \<Rightarrow> \<exists>r. board_record_decode (fl_bytes f) limits = Inr r \<and> record = Some r)" by auto
qed

lemma protected_metadata_process: "same_process fs g \<Longrightarrow> protected_metadata g directory f = protected_metadata fs directory f"
  by (simp add: protected_metadata_def same_process_def)

lemma protected_metadata_bytes [simp]: "protected_metadata fs directory (f\<lparr>fl_bytes := bs\<rparr>) = protected_metadata fs directory f"
  by (simp add: protected_metadata_def)

lemma call_faultless: "fs_faults fs = [] \<Longrightarrow> call f fs = f fs"
  by (simp add: call_def call_fault_def)

text \<open>Without a fault an intact store is read.\<close>

lemma load_faultless:
  assumes "fs_faults fs = []" "intact limits fs"
  shows "\<exists>record. load_file limits fs = (Inr record, fs)"
proof (cases "fs_files fs ''board.bin''")
  case None
  then show ?thesis using assms(1) by (simp add: load_file_def sys_open_def call_faultless)
next
  case (Some f)
  then obtain r where r: "board_record_decode (fl_bytes f) limits = Inr r" and meta: "protected_metadata fs False f = Inr ()"
    using assms(2) by (auto simp: intact_def is_ok_iff)
  then obtain n where n: "record_maximum limits = Inr n" "length (fl_bytes f) \<le> n"
    by (auto simp: board_record_decode_def and_then_eq_Inr not_less split: if_splits)
  then show ?thesis
    using assms(1) Some r meta
    by (simp add: load_file_def sys_open_def sys_stat_def sys_sync_def protected_def call_faultless failing_def read_whole)
qed

text \<open>Committing.\<close>

lemma stage_files:
  assumes "stage_board bs fs = (res, fs')" "fs_files fs ''board.pending'' = Some f" "fl_bytes f = []"
  shows "\<not> is_ok res \<Longrightarrow> \<forall>other. other \<noteq> ''board.pending'' \<longrightarrow> fs_files fs' other = fs_files fs other"
    and "res = Inr () \<Longrightarrow> protected_metadata fs False f = Inr () \<and>
      fs_files fs' = (fs_files fs)(''board.bin'' := Some (f\<lparr>fl_bytes := bs\<rparr>), ''board.pending'' := None)"
proof -
  obtain p g0 where p: "protected ''board.pending'' fs = (p, g0)" by (cases "protected ''board.pending'' fs")
  have g0: "fs_files g0 = fs_files fs" using protected_files [OF p] by simp
  consider (metadata) e where "res = Inl e" "fs_files fs' = fs_files fs"
    | (writing) e g1 g2 where "res = Inl e" "fs_files g1 = fs_files fs" "sys_write ''board.pending'' bs g1 = (Inl g2, fs')"
    | (sync) e g1 g2 g3 where "res = Inl e" "fs_files g1 = fs_files fs" "sys_write ''board.pending'' bs g1 = (Inr (), g2)"
        "sys_sync g2 = (Inl g3, fs')"
    | (renaming) g1 g2 g3 r where "protected ''board.pending'' fs = (Inr (), g1)" "fs_files g1 = fs_files fs"
        "sys_write ''board.pending'' bs g1 = (Inr (), g2)"
        "sys_sync g2 = (Inr (), g3)" "sys_rename ''board.pending'' ''board.bin'' True g3 = (r, fs')"
        "map_err (\<lambda>_. Be_Storage) r = res"
    using assms(1) g0 unfolding stage_board_def p
    by (cases p) (auto simp: failing_eq map_err_eq_Inl elim!: and_thread_cases)
  note cases = this
  note wrote = write_files [OF _ _ assms(2,3)]
  from cases show "\<not> is_ok res \<Longrightarrow> \<forall>other. other \<noteq> ''board.pending'' \<longrightarrow> fs_files fs' other = fs_files fs other"
  proof cases
    case (renaming g1 g2 g3 r)
    then have "\<not> is_ok r" if "\<not> is_ok res" using that by (cases r) auto
    then show "\<not> is_ok res \<Longrightarrow> ?thesis"
      using wrote [OF renaming(3,2)] rename_files [OF renaming(5)] looking(3) [OF renaming(4)] by simp
  next
    case (writing e g1 g2)
    show "\<not> is_ok res \<Longrightarrow> ?thesis" using wrote [OF writing(3,2)] by simp
  next
    case (sync e g1 g2 g3)
    show "\<not> is_ok res \<Longrightarrow> ?thesis" using wrote [OF sync(3,2)] looking(3) [OF sync(4)] by simp
  qed simp
  from cases show "res = Inr () \<Longrightarrow> protected_metadata fs False f = Inr () \<and>
      fs_files fs' = (fs_files fs)(''board.bin'' := Some (f\<lparr>fl_bytes := bs\<rparr>), ''board.pending'' := None)"
  proof cases
    case (renaming g1 g2 g3 r)
    have "same_process fs g1" using protected_process [of fs fs "''board.pending''"] renaming(1) by simp
    then have "protected_metadata fs False f = Inr ()"
      using protected_files [OF renaming(1)] assms(2) by (auto simp: protected_metadata_process)
    moreover assume "res = Inr ()"
    ultimately show ?thesis
      using wrote [OF renaming(3,2)] rename_files [OF renaming(5)] looking(3) [OF renaming(4)] renaming(6) by auto
  qed simp_all
qed

lemma publish_board_files:
  assumes "publish_board bs g = (res, fs')" "fs_files g ''board.pending'' = Some f" "fl_bytes f = []"
  shows "fs_files fs' ''board.bin'' = fs_files g ''board.bin'' \<and> res \<noteq> Inr () \<or>
    (res = Inr () \<or> res = Inl Be_Unknown) \<and> protected_metadata g False f = Inr () \<and>
      fs_files fs' ''board.bin'' = Some (f\<lparr>fl_bytes := bs\<rparr>)"
proof -
  obtain r g' where w: "stage_board bs g = (r, g')" by (cases "stage_board bs g")
  note files = stage_files [OF w assms(2,3)]
  show ?thesis
  proof (cases r)
    case (Inl e)
    then have res: "res = Inl e" "fs' = snd (sys_unlink ''board.pending'' g')"
      using assms(1) w by (simp_all add: publish_board_def)
    obtain q where "sys_unlink ''board.pending'' g' = (q, fs')" using res(2) by (cases "sys_unlink ''board.pending'' g'") simp
    from unlink_files [OF this, of "''board.bin''"] files(1) Inl res(1) show ?thesis by simp
  next
    case (Inr u)
    then obtain q where q: "sys_sync g' = (q, fs')" "map_err (\<lambda>_. Be_Unknown) q = res"
      using assms(1) w by (auto simp: publish_board_def failing_eq)
    have "fs_files fs' = fs_files g'" using q(1) by (rule looking(3))
    moreover have "res = Inr () \<or> res = Inl Be_Unknown" using q(2) by (cases q) auto
    ultimately show ?thesis using files(2) Inr by auto
  qed
qed

lemma commit_files:
  assumes "commit_file limits record fs = (res, fs')"
  shows "fs_files fs' ''board.bin'' = fs_files fs ''board.bin'' \<and> res \<noteq> Inr () \<or>
    (res = Inr () \<or> res = Inl Be_Unknown) \<and> (\<exists>f. fs_files fs' ''board.bin'' = Some f \<and>
      board_record_encode record limits = Inr (fl_bytes f) \<and> protected_metadata fs' False f = Inr ())"
proof (cases "board_record_encode record limits")
  case (Inl e)
  then show ?thesis using assms by (auto simp: commit_file_def)
next
  case bs: (Inr bs)
  obtain c g where c: "sys_create ''board.pending'' fs = (c, g)" by (cases "sys_create ''board.pending'' fs")
  note created = create_files [OF c]
  show ?thesis
  proof (cases c)
    case (Inl e)
    then show ?thesis using assms bs c created by (auto simp: commit_file_def failing_def)
  next
    case (Inr u)
    then have p: "publish_board bs g = (res, fs')" using assms bs c by (simp add: commit_file_def failing_def)
    have g: "fs_files g = (fs_files fs)(''board.pending'' := Some (new_file fs))" using created Inr by simp
    have "same_process g fs'" using publish_process [of g g bs] p by simp
    note meta = protected_metadata_process [OF this]
    from g have "fs_files g ''board.pending'' = Some (new_file fs)" "fl_bytes (new_file fs) = []" by (simp_all add: new_file_def)
    from publish_board_files [OF p this] g bs show ?thesis by (auto simp: meta)
  qed
qed

lemma on_directory_eq:
  "on_directory f st = (res, st') \<longleftrightarrow> (\<exists>fs. f (bf_directory st) = (res, fs) \<and> st' = st\<lparr>bf_directory := fs\<rparr>)"
  by (cases "f (bf_directory st)") (simp add: on_directory_def, blast)

lemma board_stored_files:
  "board_stored st = (case fs_files (bf_directory st) ''board.bin'' of None \<Rightarrow> None
     | Some f \<Rightarrow> (case board_record_decode (fl_bytes f) (bf_limits st) of Inl _ \<Rightarrow> None | Inr r \<Rightarrow> Some r))"
  by (simp add: board_stored_def split: option.split)

lemma file_load:
  assumes "ps_load board_file_store st = (res, st')" "honest (bf_directory st)"
  shows "honest (bf_directory st') \<and> bf_limits st' = bf_limits st \<and> board_stored st' = board_stored st \<and>
    (intact limits (bf_directory st) \<longrightarrow> intact limits (bf_directory st')) \<and>
    (\<forall>r. res = Inr r \<longrightarrow> r = board_stored st)"
proof -
  obtain fs where fs: "load_file (bf_limits st) (bf_directory st) = (res, fs)" and st': "st' = st\<lparr>bf_directory := fs\<rparr>"
    using assms(1) by (auto simp: board_file_store_def on_directory_eq)
  have "same_process (bf_directory st) fs" using load_process [of "bf_directory st" "bf_directory st"] fs by (metis same_process_refl snd_conv)
  with load_files [OF fs assms(2)] assms(2) show ?thesis
    by (auto simp: st' board_stored_files intact_def same_process_honest protected_metadata_process split: option.splits)
qed

lemma file_commit:
  assumes "ps_commit board_file_store record st = (res, st')" "honest (bf_directory st)" "record_typed record"
  shows "honest (bf_directory st') \<and> bf_limits st' = bf_limits st \<and>
    (intact (bf_limits st) (bf_directory st) \<longrightarrow> intact (bf_limits st) (bf_directory st')) \<and>
    (board_stored st' = board_stored st \<and> res \<noteq> Inr () \<or>
     (res = Inr () \<or> res = Inl Be_Unknown) \<and> board_stored st' = Some record)"
proof -
  obtain fs where fs: "commit_file (bf_limits st) record (bf_directory st) = (res, fs)" and st': "st' = st\<lparr>bf_directory := fs\<rparr>"
    using assms(1) by (auto simp: board_file_store_def on_directory_eq)
  have "same_process (bf_directory st) fs"
    using commit_process [of "bf_directory st" "bf_directory st"] fs by (metis same_process_refl snd_conv)
  note process = this same_process_honest [OF this assms(2)] protected_metadata_process [OF this]
  from commit_files [OF fs] show ?thesis
  proof (rule disjE)
    assume "fs_files fs ''board.bin'' = fs_files (bf_directory st) ''board.bin'' \<and> res \<noteq> Inr ()"
    with process show ?thesis by (simp add: st' board_stored_files intact_def cong: option.case_cong)
  next
    assume "(res = Inr () \<or> res = Inl Be_Unknown) \<and> (\<exists>f. fs_files fs ''board.bin'' = Some f \<and>
      board_record_encode record (bf_limits st) = Inr (fl_bytes f) \<and> protected_metadata fs False f = Inr ())"
    then obtain f where f: "fs_files fs ''board.bin'' = Some f" "board_record_encode record (bf_limits st) = Inr (fl_bytes f)"
      "protected_metadata fs False f = Inr ()" and res: "res = Inr () \<or> res = Inl Be_Unknown" by blast
    from board_record_decode_encode [OF f(2) assms(3)] f(1,3) res process(2) show ?thesis
      by (simp add: st' board_stored_files intact_def)
  qed
qed

interpretation board_file: persistence board_file_store board_stored "\<lambda>st. honest (bf_directory st)"
proof unfold_locales
  fix s r e s'
  assume "honest (bf_directory s)" "record_typed r" "ps_commit board_file_store r s = (Inl e, s')"
  from file_commit [OF this(3,1,2)] show "board_stored s' = board_stored s \<or> e = Be_Unknown \<and> board_stored s' = Some r"
    by auto
next
  fix s r assume "board_stored s = Some r"
  then obtain bs where "board_record_decode bs (bf_limits s) = Inr r"
    by (auto simp: board_stored_files split: option.splits sum.splits)
  then show "record_typed r" by (rule board_record_decode_sound)
next
  fix s r out s'
  assume "honest (bf_directory s)" "ps_commit board_file_store r s = (out, s')"
  then show "honest (bf_directory s')"
    using commit_process [of "bf_directory s" "bf_directory s" "bf_limits s" r]
    by (auto simp: board_file_store_def on_directory_eq intro: same_process_honest)
qed (blast dest: file_load file_commit)+

text \<open>Opening leaves the publication alone.\<close>

lemma discard_pending_files:
  assumes "discard_pending fs = (res, fs')"
  shows "fs_files fs' ''board.bin'' = fs_files fs ''board.bin''"
proof -
  obtain r g where g: "sys_open ''board.pending'' fs = (r, g)" by (cases "sys_open ''board.pending'' fs")
  have files: "fs_files g = fs_files fs" using g by (rule looking(1))
  show ?thesis
  proof (cases r)
    case (Inl e)
    with assms g files show ?thesis by (auto simp: discard_pending_def split: if_splits)
  next
    case (Inr u)
    with assms g files show ?thesis
      by (auto simp: discard_pending_def failing_eq elim!: and_thread_cases
          dest!: protected_files looking(3) unlink_files [where other = "''board.bin''"])
  qed
qed

lemma open_or_create_files:
  "sys_open_or_create name fs = (res, fs') \<Longrightarrow> other \<noteq> name \<Longrightarrow> fs_files fs' other = fs_files fs other"
  unfolding sys_open_or_create_def by (erule call_cases) (auto simp: set_file_def split: if_splits)

lemma protected_directory_files: "protected_directory fs = (res, fs') \<Longrightarrow> fs_files fs' = fs_files fs"
  unfolding protected_directory_def
  by (erule and_thread_cases) (auto simp: failing_eq elim: call_cases)

lemma discard_process: "same_process fs g \<Longrightarrow> same_process fs (snd (discard_pending g))"
  unfolding discard_pending_def
  by (intro process_keeps case_keeps' [where P = "same_process fs"]) (simp_all add: sys_process protected_process)

lemma open_process: "same_process fs g \<Longrightarrow> same_process fs (snd (board_store_open limits g))"
  unfolding board_store_open_def protected_directory_def
  by (intro process_keeps)
     (simp_all add: sys_process protected_process discard_process call_keeps [where P = "same_process fs"] call_fault_process)

lemma open_store:
  assumes "board_store_open limits fs = (Inr st, fs')"
  shows "bf_limits st = limits \<and> bf_directory st = fs' \<and> same_process fs fs' \<and>
    fs_files fs' ''board.bin'' = fs_files fs ''board.bin''"
proof -
  have "bf_limits st = limits \<and> bf_directory st = fs' \<and> fs_files fs' ''board.bin'' = fs_files fs ''board.bin''"
    using assms unfolding board_store_open_def
    by (auto simp: failing_eq elim!: and_thread_cases dest!: protected_files protected_directory_files looking(4)
        discard_pending_files open_or_create_files [where other = "''board.bin''"])
  with open_process [of fs fs limits] assms show ?thesis by simp
qed

section \<open>Runs of the store\<close>

text \<open>
  Everything that is done with one directory over time, with any errors of the file system: the store
  is opened, commits, loads, and is opened again after the process ended, possibly in the middle of a
  commitment whose result nobody saw. With the store comes what its users may expect to find: after an
  acknowledged commitment that publication; after an unknown outcome also the earlier expectations;
  after loading what was loaded.
\<close>

definition committed :: "BoardRecord \<Rightarrow> (BoardError, unit) result \<Rightarrow> BoardRecord option set \<Rightarrow> BoardRecord option set" where
  "committed r res expected =
     (case res of Inr _ \<Rightarrow> {Some r} | Inl e \<Rightarrow> if e = Be_Unknown then insert (Some r) expected else expected)"

inductive store_run :: "BoardLimits \<Rightarrow> BoardStore \<Rightarrow> BoardRecord option set \<Rightarrow> bool" for limits where
  opened: "fs_files fs ''board.bin'' = None \<Longrightarrow> honest fs \<Longrightarrow> board_store_open limits fs = (Inr st, fs') \<Longrightarrow>
    store_run limits st {None}"
| commits: "store_run limits st expected \<Longrightarrow> record_typed r \<Longrightarrow> ps_commit board_file_store r st = (res, st') \<Longrightarrow>
    store_run limits st' (committed r res expected)"
| loads: "store_run limits st expected \<Longrightarrow> ps_load board_file_store st = (res, st') \<Longrightarrow>
    store_run limits st' (case res of Inr r \<Rightarrow> {r} | Inl _ \<Rightarrow> expected)"
| reopened: "store_run limits st expected \<Longrightarrow> fs = (bf_directory st)\<lparr>fs_faults := faults\<rparr> \<Longrightarrow> honest fs \<Longrightarrow>
    board_store_open limits fs = (Inr st', fs') \<Longrightarrow> store_run limits st' expected"

lemma store_run_inv:
  "store_run limits st expected \<Longrightarrow>
     bf_limits st = limits \<and> honest (bf_directory st) \<and> intact limits (bf_directory st) \<and> board_stored st \<in> expected"
proof (induction rule: store_run.induct)
  case (opened fs st fs')
  from open_store [OF opened(3)] opened(1,2) show ?case
    by (auto simp: intact_def board_stored_files same_process_honest)
next
  case (commits st expected r res st')
  from file_commit [OF commits(3) _ commits(2)] commits(4) show ?case
    by (auto simp: committed_def split: sum.split)
next
  case (loads st expected res st')
  from file_load [OF loads(2), of limits] loads(3) show ?case by (auto split: sum.split)
next
  case (reopened st expected fs faults st' fs')
  note st' = open_store [OF reopened(4)]
  have "protected_metadata fs' False f = protected_metadata (bf_directory st) False f" for f
    using st' reopened(2) by (simp add: protected_metadata_def same_process_def)
  with st' reopened(2,3,5) show ?case
    by (auto simp: intact_def board_stored_files same_process_honest cong: option.case_cong)
qed

section \<open>Properties\<close>

text \<open>
  C30: The file store is an atomic register for publications. Whatever was committed, loaded and
  reopened and wherever the file system failed, it holds one complete publication that its users have
  to expect, the last acknowledged one or one with an unknown outcome since; loading gives nothing else;
  and without a fault loading succeeds with what is held and changes nothing.
\<close>

theorem board_store_atomic:
  assumes "store_run limits st expected"
  shows "board_stored st \<in> expected \<and>
    (\<forall>r st'. ps_load board_file_store st = (Inr r, st') \<longrightarrow> r \<in> expected) \<and>
    (fs_faults (bf_directory st) = [] \<longrightarrow> ps_load board_file_store st = (Inr (board_stored st), st))"
proof -
  note inv = store_run_inv [OF assms]
  have found: "r = board_stored st" if "ps_load board_file_store st = (Inr r, st')" for r st'
    using that inv by (auto dest: board_file.load_result)
  have "ps_load board_file_store st = (Inr (board_stored st), st)" if faultless: "fs_faults (bf_directory st) = []"
  proof -
    obtain r where "load_file limits (bf_directory st) = (Inr r, bf_directory st)"
      using load_faultless [OF faultless] inv by auto
    then have load: "ps_load board_file_store st = (Inr r, st)"
      using inv by (simp add: board_file_store_def on_directory_def)
    from found [OF load] load show ?thesis by simp
  qed
  with found inv show ?thesis by blast
qed

text \<open>
  A commitment whose last synchronization fails has an unknown outcome, and the new publication is
  there.
\<close>

definition sample_record :: BoardRecord where
  "sample_record = \<lparr>br_publisher = Identity_Id (replicate 32 7), br_board = ascii ''{}'', br_definitions = []\<rparr>"

definition sample_directory :: Fs where
  "sample_directory =
     \<lparr>fs_files = (\<lambda>_. None), fs_directory = \<lparr>fl_bytes = [], fl_uid = 5, fl_mode = 16832, fl_nlink = 2\<rparr>,
      fs_euid = 5, fs_created_mode = 33152, fs_faults = [None, None, None, None, None, None, None, None, None, None, Some (En_Other, 0)]\<rparr>"

definition sample_board_store :: BoardStore where
  "sample_board_store = projr (fst (board_store_open board_limits_default sample_directory))"

definition sample_unsynced :: BoardStore where
  "sample_unsynced = snd (ps_commit board_file_store sample_record sample_board_store)"

lemmas sample_calls = sys_open_def sys_stat_def sys_sync_def sys_flock_def sys_unlink_def sys_rename_def sys_create_def
  sys_open_or_create_def sys_write_def call_def call_fault_def failing_def set_file_def new_file_def
  protected_def protected_directory_def protected_metadata_def

lemma sample_opens:
  "board_store_open board_limits_default sample_directory = (Inr sample_board_store, bf_directory sample_board_store)"
  by (simp add: sample_board_store_def board_store_open_def discard_pending_def board_limits_default_valid
      sample_directory_def sample_calls)

lemma sample_encodes: "\<exists>bs. board_record_encode sample_record board_limits_default = Inr bs"
  using board_limits_default_valid by (simp add: board_record_encode_eq_Inr sample_record_def put_field_eq_Inr
      data_size_def board_limits_default_def ascii_def)

lemma sample_unknown:
  "ps_commit board_file_store sample_record sample_board_store = (Inl Be_Unknown, sample_unsynced)"
  using sample_encodes
  by (auto simp: sample_unsynced_def sample_board_store_def board_store_open_def discard_pending_def board_limits_default_valid
      sample_directory_def sample_calls board_file_store_def on_directory_def commit_file_def publish_board_def stage_board_def)

theorem board_store_atomic_witness:
  "store_run board_limits_default sample_unsynced {Some sample_record, None} \<and>
   ps_load board_file_store sample_unsynced = (Inr (Some sample_record), sample_unsynced)"
proof -
  have "record_typed sample_record" by (simp add: record_typed_def sample_record_def bt_sorted_def)
  from store_run.commits [OF store_run.opened [OF _ _ sample_opens] this sample_unknown]
  have run: "store_run board_limits_default sample_unsynced {Some sample_record, None}"
    by (simp add: committed_def sample_directory_def honest_def)
  obtain bs where "board_record_encode sample_record board_limits_default = Inr bs" using sample_encodes by blast
  with run board_store_atomic [OF run] board_record_decode_encode [OF this \<open>record_typed sample_record\<close>] show ?thesis
    by (simp add: board_stored_files sample_unsynced_def sample_board_store_def board_store_open_def discard_pending_def
      board_limits_default_valid sample_directory_def sample_calls board_file_store_def on_directory_def commit_file_def
      publish_board_def stage_board_def)
qed

end
