(* ===== verification/Board_Authority.thy ===== *)
theory Board_Authority
  imports Board_Offering
begin

text \<open>
  Local authority of the board and of the ledger (\<open>src/src/modules/board/authority.rs\<close> and
  \<open>contract.rs\<close>, \<open>src/src/modules/ledger/authority.rs\<close>, \<open>contract.rs\<close> and \<open>mod.rs\<close>): grants that are
  bound to an issuer, an identity, an action and a number of bytes, the context of a call, and the
  limits of the ledger.

  The identity of an issuer is the allocation of its flag, a number here. A grant holds a weak
  reference to it: when the issuer is gone the upgrade fails, when it is another one the comparison
  fails, and both are the same refusal, so that comparing the numbers is exact. Both modules keep the
  contract of the locale \<open>grants\<close>, which is interpreted on the operations of each.
\<close>

section \<open>Board grants\<close>

datatype Action = Ac_Publish | Ac_Read | Ac_Cache | Ac_Select

record Grant =
  gr_domain :: nat
  gr_publisher :: Identity_Id
  gr_action :: Action
  gr_bytes :: usize

record BoardAuthority =
  ba_domain :: nat
  ba_live :: bool

definition board_authority_new :: "nat \<Rightarrow> BoardAuthority" where
  "board_authority_new fresh = \<lparr>ba_domain = fresh, ba_live = True\<rparr>"

definition board_grant :: "BoardAuthority \<Rightarrow> Identity_Id \<Rightarrow> Action \<Rightarrow> usize \<Rightarrow> (BoardError, Grant) result" where
  "board_grant a publisher action n =
     (if \<not> ba_live a then Inl Be_Denied else if n = 0 then Inl Be_Limit
      else Inr \<lparr>gr_domain = ba_domain a, gr_publisher = publisher, gr_action = action, gr_bytes = n\<rparr>)"

definition board_check :: "BoardAuthority \<Rightarrow> Grant \<Rightarrow> Identity_Id \<Rightarrow> Action \<Rightarrow> usize \<Rightarrow> (BoardError, unit) result" where
  "board_check a grant publisher action n =
     (if gr_domain grant \<noteq> ba_domain a \<or> \<not> ba_live a \<or> gr_publisher grant \<noteq> publisher \<or> gr_action grant \<noteq> action
      then Inl Be_Denied
      else if n > gr_bytes grant then Inl Be_Limit else Inr ())"

definition board_revoke :: "BoardAuthority \<Rightarrow> BoardAuthority" where
  "board_revoke a = a\<lparr>ba_live := False\<rparr>"

section \<open>The context of a call\<close>

record CallContext =
  cx_grant :: Grant
  cx_deadline :: nat
  cx_cancelled :: bool

text \<open>The clock is read at every check; the time read is an argument.\<close>

definition context_check ::
    "CallContext \<Rightarrow> nat \<Rightarrow> BoardAuthority \<Rightarrow> Identity_Id \<Rightarrow> Action \<Rightarrow> usize \<Rightarrow> (BoardError, unit) result" where
  "context_check c now a publisher action n =
     (if cx_cancelled c \<or> now \<ge> cx_deadline c then Inl Be_Cancelled else board_check a (cx_grant c) publisher action n)"

section \<open>Ledger grants\<close>

datatype LedgerError =
  Le_Invalid | Le_Unsupported | Le_Denied | Le_Limit | Le_Cancelled | Le_Conflict | Le_Insufficient | Le_Storage | Le_Unknown

datatype LedgerAction = La_Administer | La_Read | La_Coordinate | La_Control | La_Spend

record LedgerGrant =
  lg_domain :: nat
  lg_local_identity :: Identity_Id
  lg_action :: LedgerAction
  lg_bytes :: usize

record LedgerAuthority =
  la_domain :: nat
  la_live :: bool

definition ledger_authority_new :: "nat \<Rightarrow> LedgerAuthority" where
  "ledger_authority_new fresh = \<lparr>la_domain = fresh, la_live = True\<rparr>"

definition ledger_grant :: "LedgerAuthority \<Rightarrow> Identity_Id \<Rightarrow> LedgerAction \<Rightarrow> usize \<Rightarrow> (LedgerError, LedgerGrant) result" where
  "ledger_grant a i action n =
     (if \<not> la_live a then Inl Le_Denied else if n = 0 then Inl Le_Limit
      else Inr \<lparr>lg_domain = la_domain a, lg_local_identity = i, lg_action = action, lg_bytes = n\<rparr>)"

definition ledger_check ::
    "LedgerAuthority \<Rightarrow> LedgerGrant \<Rightarrow> Identity_Id \<Rightarrow> LedgerAction \<Rightarrow> usize \<Rightarrow> (LedgerError, unit) result" where
  "ledger_check a grant i action n =
     (if lg_domain grant \<noteq> la_domain a \<or> \<not> la_live a \<or> lg_local_identity grant \<noteq> i \<or> lg_action grant \<noteq> action
      then Inl Le_Denied
      else if n > lg_bytes grant then Inl Le_Limit else Inr ())"

definition ledger_revoke :: "LedgerAuthority \<Rightarrow> LedgerAuthority" where
  "ledger_revoke a = a\<lparr>la_live := False\<rparr>"

definition LEDGER_CONTRACT_VERSION :: u32 where
  "LEDGER_CONTRACT_VERSION = 1"

record OperationKey =
  ok_requester :: Identity_Id
  ok_connection :: bytes
  ok_stream :: u32

record LedgerContext =
  lx_version :: u32
  lx_grant :: LedgerGrant
  lx_deadline :: nat
  lx_cancelled :: bool

definition ledger_context_check ::
    "LedgerContext \<Rightarrow> nat \<Rightarrow> LedgerAuthority \<Rightarrow> Identity_Id \<Rightarrow> LedgerAction \<Rightarrow> usize \<Rightarrow> (LedgerError, unit) result" where
  "ledger_context_check c now a i action n =
     (if lx_version c \<noteq> LEDGER_CONTRACT_VERSION then Inl Le_Unsupported
      else if lx_cancelled c \<or> now \<ge> lx_deadline c then Inl Le_Cancelled
      else ledger_check a (lx_grant c) i action n)"

record LedgerLimits =
  ll_accounts :: usize
  ll_operations :: usize
  ll_transfers :: usize
  ll_claims :: usize
  ll_quotes :: usize
  ll_state_bytes :: usize

definition ledger_limits_validate :: "LedgerLimits \<Rightarrow> (LedgerError, unit) result" where
  "ledger_limits_validate l =
     (if 0 \<in> set [ll_accounts l, ll_operations l, ll_transfers l, ll_claims l, ll_quotes l, ll_state_bytes l]
        \<or> checked_add_usize (ll_state_bytes l) 64 = None
      then Inl Le_Invalid else Inr ())"

section \<open>The contract of the grants\<close>

text \<open>
  What both modules promise: a check by the issuer is decided by the identity, the action and the
  bytes of the grant alone; another issuer refuses; a revoked issuer neither grants nor accepts.
\<close>

locale grants =
  fixes issue :: "'a \<Rightarrow> 'i \<Rightarrow> 'act \<Rightarrow> usize \<Rightarrow> ('e, 'g) result"
    and check :: "'a \<Rightarrow> 'g \<Rightarrow> 'i \<Rightarrow> 'act \<Rightarrow> usize \<Rightarrow> ('e, unit) result"
    and revoke :: "'a \<Rightarrow> 'a"
    and domain :: "'a \<Rightarrow> nat"
    and denied limited :: 'e
  assumes issued_check: "issue a i act n = Inr g \<Longrightarrow>
      check a g i' act' m = (if i' \<noteq> i \<or> act' \<noteq> act then Inl denied else if m > n then Inl limited else Inr ())"
    and foreign_check: "issue a i act n = Inr g \<Longrightarrow> domain b \<noteq> domain a \<Longrightarrow> check b g i' act' m = Inl denied"
    and revoked_check: "check (revoke a) g i act m = Inl denied"
    and revoked_issue: "issue (revoke a) i act n = Inl denied"
    and issue_zero: "issue a i act 0 \<noteq> Inr g"
begin

text \<open>A grant never authorizes more bytes than it was issued for, and nothing after revocation.\<close>

lemma budget:
  assumes "issue a i act n = Inr g" "check a g i' act' m = Inr ()"
  shows "i' = i \<and> act' = act \<and> m \<le> n \<and> 0 < n"
  using assms issued_check [OF assms(1), of i' act' m] issue_zero [of a i act g]
  by (auto simp: not_less intro: gr0I split: if_splits)

lemma exact_budget: "issue a i act n = Inr g \<Longrightarrow> check a g i act m = Inr () \<longleftrightarrow> m \<le> n"
  using issued_check [of a i act n g i act m] by (simp add: not_less)

end

interpretation board: grants board_grant board_check board_revoke ba_domain Be_Denied Be_Limit
  by unfold_locales (auto simp: board_grant_def board_check_def board_revoke_def split: if_splits)

interpretation ledger: grants ledger_grant ledger_check ledger_revoke la_domain Le_Denied Le_Limit
  by unfold_locales (auto simp: ledger_grant_def ledger_check_def ledger_revoke_def split: if_splits)

lemma context_check_eq_Inr:
  "context_check c now a publisher action n = Inr () \<longleftrightarrow>
     \<not> cx_cancelled c \<and> now < cx_deadline c \<and> board_check a (cx_grant c) publisher action n = Inr ()"
  by (auto simp: context_check_def)

end
