(* ===== verification/Board_Sample.thy ===== *)
theory Board_Sample
  imports Board_Prepared
begin

text \<open>
  A publication with two offerings of one service, for the witnesses of the board theories: its
  documents, a JSON library that reads them, and capabilities that can serve them.
\<close>

definition sample_offering :: "string \<Rightarrow> Json" where
  "sample_offering i = Json_Object
     [(ascii ''creditIssuer'', Json_String (ascii ''cr2se:AAAAAAAAAAAAAAAAAAAAAAAAAAAAAAAAAAAAAAAAAAAAAAAAAAAA'')),
      (ascii ''description'', Json_String (ascii ''Echo.'')), (ascii ''id'', Json_String (ascii i)),
      (ascii ''price'', Json_Number (ascii ''7'')), (ascii ''service'', Json_String (ascii ''org.example.echo'')),
      (ascii ''serviceVersion'', Json_Number (ascii ''1''))]"

definition sample_tree :: Json where
  "sample_tree = Json_Object
     [(ascii ''providedServices'', Json_Array [sample_offering ''a'']), (ascii ''version'', Json_Number (ascii ''1'')),
      (ascii ''wantedServices'', Json_Array [sample_offering ''b''])]"

definition sample_schema :: "string \<Rightarrow> Json" where
  "sample_schema ty = Json_Object [(ascii ''type'', Json_String (ascii ty))]"

definition sample_definition :: "string \<Rightarrow> Json" where
  "sample_definition i = Json_Object
     [(ascii ''check'', Json_Object [(ascii ''description'', Json_String (ascii ''Echo.'')),
         (ascii ''input'', sample_schema ''bool''), (ascii ''output'', sample_schema ''bool'')]),
      (ascii ''description'', Json_String (ascii ''Echo.'')), (ascii ''id'', Json_String (ascii i)),
      (ascii ''input'', sample_schema ''string''), (ascii ''output'', sample_schema ''string''),
      (ascii ''service'', Json_String (ascii ''org.example.echo'')),
      (ascii ''serviceVersion'', Json_Number (ascii ''1''))]"

definition sample_serde :: Serde where
  "sample_serde =
     \<lparr>sj_value = \<lambda>bs. if bs = ascii ''1'' \<or> bs = ascii ''7'' then Some (Json_Number bs)
        else find (\<lambda>v. json_print v = bs) [sample_tree, sample_definition ''a'', sample_definition ''b''],
      sj_text = \<lambda>q. Some (tl (butlast q)), sj_print = json_print\<rparr>"

definition sample_entry :: "Direction \<Rightarrow> string \<Rightarrow> Offering" where
  "sample_entry dir i = \<lparr>of_id = ascii i, of_service = ascii ''org.example.echo'', of_version = 1, of_description = ascii ''Echo.'',
     of_issuer = Identity_Id (replicate 32 0), of_direction = dir, of_source = sample_offering i\<rparr>"

definition sample_validated :: "string \<Rightarrow> Definition" where
  "sample_validated i =
     \<lparr>df_document = \<lparr>dc_source = json_print (sample_definition i), dc_value = sample_definition i\<rparr>, df_support = Sp_Known\<rparr>"

definition sample_capabilities :: Capabilities where
  "sample_capabilities = Unavailable\<lparr>ca_understands := \<lambda>_. True, ca_contract := \<lambda>_ _. Inr (), ca_terms := \<lambda>_. Inr (),
     ca_local := \<lambda>_. True\<rparr>"

lemma sample_string: "list_all (\<lambda>b. b \<noteq> 34 \<and> b \<noteq> 92) s \<Longrightarrow> length s \<le> 1048576 \<Longrightarrow> string_fits sample_serde board_limits_default s"
  by (simp add: string_fits_def sample_serde_def board_limits_default_def butlast_append)

lemma sample_scalar: "scalar_fits sample_serde (ascii ''1'')" "scalar_fits sample_serde (ascii ''7'')"
  by (simp_all add: scalar_fits_def sample_serde_def ascii_def in_scalar_def is_space_def)

lemma sample_limits: "bl_depth board_limits_default = 31" "bl_array_elements board_limits_default = 4096"
    "bl_nodes board_limits_default = 65536" "bl_document_bytes board_limits_default = 1048576"
    "bl_definitions board_limits_default = 1024" "bl_publication_bytes board_limits_default = 16777216"
  by (simp_all add: board_limits_default_def)

lemma sample_fits:
  "fits sample_serde board_limits_default 0 sample_tree"
  "fits sample_serde board_limits_default 0 (sample_definition ''a'')"
  "fits sample_serde board_limits_default 0 (sample_definition ''b'')"
  by (simp_all add: sample_tree_def sample_offering_def sample_definition_def sample_schema_def sample_string sample_scalar sample_limits)
    (simp_all add: ascii_def sample_string)

lemma sample_value:
  "sj_value sample_serde (json_print sample_tree) = Some sample_tree"
  "sj_value sample_serde (json_print (sample_definition ''a'')) = Some (sample_definition ''a'')"
  "sj_value sample_serde (json_print (sample_definition ''b'')) = Some (sample_definition ''b'')"
  by (simp_all add: sample_serde_def) (simp_all add: sample_tree_def sample_definition_def sample_schema_def ascii_def)

lemma sample_utf8:
  "utf8_valid (json_print sample_tree)"
  "utf8_valid (json_print (sample_definition ''a''))"
  "utf8_valid (json_print (sample_definition ''b''))"
  by (rule utf8_valid_ascii; simp add: sample_tree_def sample_offering_def sample_definition_def sample_schema_def is_ascii_def ascii_def)+

lemma sample_lengths:
  "length (json_print sample_tree) = 387"
  "length (json_print (sample_definition ''a'')) = 214"
  "length (json_print (sample_definition ''b'')) = 214"
  by (simp_all add: sample_definition_def sample_schema_def sample_tree_def sample_offering_def)

lemma sample_nodes:
  "json_nodes sample_tree \<le> 65536" "json_nodes (sample_definition i) \<le> 65536"
  by (simp_all add: sample_definition_def sample_schema_def sample_tree_def sample_offering_def)

lemma sample_documents:
  "document_parse sample_serde (json_print sample_tree) board_limits_default
     = Inr \<lparr>dc_source = json_print sample_tree, dc_value = sample_tree\<rparr>"
  "document_parse sample_serde (json_print (sample_definition ''a'')) board_limits_default
     = Inr \<lparr>dc_source = json_print (sample_definition ''a''), dc_value = sample_definition ''a''\<rparr>"
  "document_parse sample_serde (json_print (sample_definition ''b'')) board_limits_default
     = Inr \<lparr>dc_source = json_print (sample_definition ''b''), dc_value = sample_definition ''b''\<rparr>"
  by (rule printed_document; simp add: sample_fits sample_value sample_utf8 sample_lengths sample_nodes sample_limits
      board_limits_default_valid)+

lemma sample_integers: "integer (Json_Number (ascii ''1'')) = Some 1" "integer (Json_Number (ascii ''7'')) = Some 7"
  by (simp_all add: integer_def as_number_def ascii_def split_once_def parse_i64_def is_digit_def dec_val_def checked_i64_def
    scaled_amount_def shift_digits_def checked_add_usize_def usize_max_def checked_mul_def checked_add_def)

lemma sample_issuer: "text_parse (ascii ''cr2se:AAAAAAAAAAAAAAAAAAAAAAAAAAAAAAAAAAAAAAAAAAAAAAAAAAAA'') = Inr (Identity_Id (replicate 32 0))"
  by code_simp

lemma of_char_byte: "(of_char c :: byte) = of_char d \<longleftrightarrow> c = d"
proof
  assume "(of_char c :: byte) = of_char d"
  then have "(of_nat (of_char c) :: byte) = of_nat (of_char d)" by (simp only: of_nat_of_char)
  from arg_cong [OF this, of unat] show "c = d" by (simp add: unat_of_nat)
qed simp

lemma ascii_inject: "ascii s = ascii t \<longleftrightarrow> s = t"
  unfolding ascii_def by (intro inj_map_eq_map injI) (simp add: of_char_byte)

lemma ascii_Nil: "ascii s = [] \<longleftrightarrow> s = []"
  by (simp add: ascii_def)

lemma sample_offering_parse: "i \<in> {''a'', ''b''} \<Longrightarrow> offering_parse dir (sample_offering i) = Inr (sample_entry dir i)"
  by (auto simp: offering_parse_def sample_offering_def sample_entry_def sample_issuer sample_integers as_object_def bt_get_def ascii_inject ascii_Nil string_def json_get_def as_str_def
   terms_validate_def check_present_def positive_def option_filter_def)

lemma sample_object: "as_object sample_tree = Some [(ascii ''providedServices'', Json_Array [sample_offering ''a'']), (ascii ''version'', Json_Number (ascii ''1'')),
      (ascii ''wantedServices'', Json_Array [sample_offering ''b''])]"
  by (simp add: sample_tree_def as_object_def)

lemma sample_order: "ascii ''a'' < ascii ''b''"
  by (simp add: ascii_def)

lemma sample_board_parse: "board_parse sample_serde (json_print sample_tree) board_limits_default =
   Inr \<lparr>bd_document = \<lparr>dc_source = json_print sample_tree, dc_value = sample_tree\<rparr>,
     bd_offerings = [(ascii ''a'', sample_entry Dn_Provided ''a''), (ascii ''b'', sample_entry Dn_Wanted ''b'')]\<rparr>"
  unfolding board_parse_def sample_documents(1) and_then_simps Document.simps sample_object ok_or_simps
  by (simp add: board_field_def sample_integers sample_offering_parse sample_limits as_array_def bt_get_def ascii_inject sample_entry_def sample_order less_not_sym [OF sample_order])

lemma sample_schemas: "schema_validate (sample_schema ''string'') = Inr Sp_Known" "schema_validate (sample_schema ''bool'') = Inr Sp_Known"
  by (simp_all add: schema_validate_def sample_schema_def is_object_def as_object_def json_get_def bt_get_def ascii_inject ascii_Nil schema_string_def
    as_str_def schema_scalars_def option_filter_def)

lemma sample_definition_parse:
  "definition_parse sample_serde (json_print (sample_definition ''a'')) (sample_entry dir ''a'') board_limits_default
     = Inr (sample_validated ''a'')"
  "definition_parse sample_serde (json_print (sample_definition ''b'')) (sample_entry dir ''b'') board_limits_default
     = Inr (sample_validated ''b'')"
  unfolding definition_parse_def sample_documents and_then_simps Document.simps Let_def sample_validated_def
  by (simp_all add: sample_definition_def sample_entry_def json_get_def bt_get_def ascii_inject ascii_Nil string_def as_str_def
      sample_integers sample_schemas schema_check_def schema_string_def option_filter_def)

lemma sample_entry_fields: "of_service (sample_entry dir i) = ascii ''org.example.echo''" "of_version (sample_entry dir i) = 1"
  by (simp_all add: sample_entry_def)

lemma sample_same_contract: "same_contract (sample_validated i) (sample_validated j)"
  by (simp add: same_contract_def Let_def equivalent_def sample_validated_def sample_definition_def json_get_def as_object_def
      bt_get_def ascii_inject)

lemma sample_assess: "assess sample_capabilities (sample_entry dir i) (sample_validated j) True True = Inr ()"
  by (simp add: assess_def sample_capabilities_def check_present_def sample_entry_def sample_offering_def sample_validated_def
      json_get_def bt_get_def ascii_inject)

definition sample_publisher :: Identity_Id where
  "sample_publisher = Identity_Id (replicate 32 1)"

definition sample_definitions :: "(bytes, bytes) btree_map" where
  "sample_definitions = map (\<lambda>i. (ascii i, json_print (sample_definition i))) [''a'', ''b'']"

definition sample_prepared :: Prepared where
  "sample_prepared =
     \<lparr>pp_publisher = sample_publisher,
      pp_board = \<lparr>bd_document = \<lparr>dc_source = json_print sample_tree, dc_value = sample_tree\<rparr>,
        bd_offerings = [(ascii ''a'', sample_entry Dn_Provided ''a''), (ascii ''b'', sample_entry Dn_Wanted ''b'')]\<rparr>,
      pp_definitions = map (\<lambda>i. (ascii i, sample_validated i)) [''a'', ''b''], pp_bytes = 815\<rparr>"

lemma sample_prepared_new:
  "prepared_new sample_serde sample_publisher (json_print sample_tree) sample_definitions board_limits_default sample_capabilities
     = Inr sample_prepared"
proof -
  have document: "df_document (sample_validated i) = \<lparr>dc_source = json_print (sample_definition i), dc_value = sample_definition i\<rparr>" for i
    by (simp add: sample_validated_def)
  show ?thesis
    unfolding prepared_new_def board_limits_default_valid sample_board_parse and_then_simps
    by (simp add: sample_lengths sample_limits checked_add_usize_def usize_max_def response_encode_def response_prefix_def CONTROL_BYTES_def
        bt_get_def ascii_inject sample_definition_parse sample_order less_not_sym [OF sample_order] sample_entry_fields
        sample_same_contract sample_assess prepared_assess_def Let_def sample_definitions_def sample_prepared_def document)
qed

lemma sample_definitions_sorted: "bt_sorted sample_definitions"
  by (simp add: bt_sorted_def sample_definitions_def sample_order)

theorem prepared_sound_witness:
  "prepared_new sample_serde sample_publisher (json_print sample_tree) sample_definitions board_limits_default sample_capabilities
     = Inr sample_prepared \<and>
   same_contract (the (bt_get (ascii ''a'') (pp_definitions sample_prepared))) (the (bt_get (ascii ''b'') (pp_definitions sample_prepared))) \<and>
   br_board (record_from_prepared sample_prepared) = json_print sample_tree"
proof -
  have "i \<in> {''a'', ''b''} \<Longrightarrow> (ascii ''a'', sample_entry Dn_Provided ''a'') \<in> set (bd_offerings (pp_board sample_prepared)) \<and>
      (ascii ''b'', sample_entry Dn_Wanted ''b'') \<in> set (bd_offerings (pp_board sample_prepared))" for i
    by (simp add: sample_prepared_def)
  with prepared_sound [OF sample_prepared_new sample_definitions_sorted] sample_prepared_new show ?thesis
    by (fastforce simp: ascii_inject sample_entry_fields)
qed

end
