(* ===== verification/Board_State.thy ===== *)
theory Board_State
  imports Board_Store Board_Authority Board_Sample
begin

text \<open>
  The owner of the local publication (\<open>src/src/modules/board/state.rs\<close>, with \<open>Snapshot\<close> of
  \<open>contract.rs\<close>): publishing, recovery, pinned snapshots and what they rest on.

  A call reads the clock, the liveness of the authority and the capabilities of the node several
  times, and other threads may change them in between; the \<open>n\<close>-th reading of a call is the \<open>n\<close>-th
  \<open>Moment\<close> of its environment. Allocating a publication gives it a revision, a number that was not used
  before; \<open>bp_held\<close> counts for each revision the snapshots that callers hold, so that the strong count of
  a revision is theirs plus the one of the owner. The lock is held for a whole operation; a panic of a
  dependency under the lock poisons it (\<open>bp_poisoned\<close>).
\<close>

section \<open>Owner and snapshots\<close>

definition BOARD_CONTRACT_VERSION :: u32 where
  "BOARD_CONTRACT_VERSION = 1"

record Snapshot =
  sn_publisher :: Identity_Id
  sn_board :: bytes
  sn_data :: "(nat \<times> Prepared) option"
  sn_domain :: nat

record 's BoardProvider =
  bp_limits :: BoardLimits
  bp_publisher :: Identity_Id
  bp_domain :: nat
  bp_storage :: 's
  bp_poisoned :: bool
  bp_uncertain :: bool
  bp_current :: "Snapshot option"
  bp_pins :: "nat list"
  bp_held :: "nat \<Rightarrow> nat"
  bp_fresh :: nat

record Moment =
  mo_now :: nat
  mo_authority :: BoardAuthority
  mo_caps :: Capabilities

abbreviation check_at :: "CallContext \<Rightarrow> Moment \<Rightarrow> Identity_Id \<Rightarrow> Action \<Rightarrow> usize \<Rightarrow> (BoardError, unit) result" where
  "check_at c m \<equiv> context_check c (mo_now m) (mo_authority m)"

text \<open>The storage is an argument: \<open>new\<close> starts with the volatile one, which \<open>open\<close> replaces.\<close>

definition board_provider_new :: "Identity_Id \<Rightarrow> BoardLimits \<Rightarrow> nat \<Rightarrow> 's \<Rightarrow> (BoardError, 's BoardProvider) result" where
  "board_provider_new publisher limits domain storage =
     and_then (board_limits_validate limits) (\<lambda>_.
     Inr \<lparr>bp_limits = limits, bp_publisher = publisher, bp_domain = domain, bp_storage = storage, bp_poisoned = False,
          bp_uncertain = False, bp_current = None, bp_pins = [], bp_held = (\<lambda>_. 0), bp_fresh = 0\<rparr>)"

section \<open>Revisions\<close>

definition current_revision :: "'s BoardProvider \<Rightarrow> nat option" where
  "current_revision p = map_option fst (Option.bind (bp_current p) sn_data)"

definition strong_count :: "'s BoardProvider \<Rightarrow> nat \<Rightarrow> nat" where
  "strong_count p revision = (if current_revision p = Some revision then 1 else 0) + bp_held p revision"

definition retain_pins :: "'s BoardProvider \<Rightarrow> 's BoardProvider" where
  "retain_pins p = p\<lparr>bp_pins := filter (\<lambda>revision. strong_count p revision > 0) (bp_pins p)\<rparr>"

definition releases_current :: "'s BoardProvider \<Rightarrow> bool" where
  "releases_current p \<longleftrightarrow> (case current_revision p of None \<Rightarrow> False | Some revision \<Rightarrow> strong_count p revision = 1)"

definition pins_full :: "'s BoardProvider \<Rightarrow> bool" where
  "pins_full p \<longleftrightarrow> length (bp_pins p) - (if releases_current p then 1 else 0) \<ge> bl_snapshots (bp_limits p)"

definition snapshot_of :: "'s BoardProvider \<Rightarrow> nat \<Rightarrow> Prepared \<Rightarrow> Snapshot" where
  "snapshot_of p revision data =
     \<lparr>sn_publisher = bp_publisher p, sn_board = dc_source (bd_document (pp_board data)), sn_data = Some (revision, data),
      sn_domain = bp_domain p\<rparr>"

text \<open>A new revision with its weak reference.\<close>

definition add_revision :: "Prepared \<Rightarrow> 's BoardProvider \<Rightarrow> Snapshot \<times> 's BoardProvider" where
  "add_revision data p =
     (snapshot_of p (bp_fresh p) data, p\<lparr>bp_pins := bp_pins p @ [bp_fresh p], bp_fresh := Suc (bp_fresh p)\<rparr>)"

text \<open>A caller gets one more snapshot.\<close>

definition hold :: "Snapshot \<Rightarrow> 's BoardProvider \<Rightarrow> 's BoardProvider" where
  "hold s p = (case sn_data s of None \<Rightarrow> p | Some (revision, _) \<Rightarrow>
     p\<lparr>bp_held := (bp_held p)(revision := Suc (bp_held p revision))\<rparr>)"

section \<open>Operations\<close>

definition provider_load ::
    "'s Persistence \<Rightarrow> 's BoardProvider \<Rightarrow> (BoardError, BoardRecord option) result \<times> 's BoardProvider" where
  "provider_load ps p = (case ps_load ps (bp_storage p) of (res, s) \<Rightarrow> (res, p\<lparr>bp_storage := s\<rparr>))"

definition provider_open ::
    "'s Persistence \<Rightarrow> Serde \<Rightarrow> Identity_Id \<Rightarrow> BoardLimits \<Rightarrow> Moment \<Rightarrow> nat \<Rightarrow> 's
      \<Rightarrow> (BoardError, 's BoardProvider) result" where
  "provider_open ps js publisher limits m domain storage =
     and_then (board_provider_new publisher limits domain storage) (\<lambda>p.
     case provider_load ps p of
       (Inl e, p) \<Rightarrow> Inl e
     | (Inr None, p) \<Rightarrow> Inr p
     | (Inr (Some r), p) \<Rightarrow>
         if br_publisher r \<noteq> publisher then Inl Be_Denied else
         and_then (record_prepare js r limits (mo_caps m)) (\<lambda>data.
         let (snapshot, p) = add_revision data p in Inr (p\<lparr>bp_current := Some snapshot\<rparr>)))"

definition recovered ::
    "Serde \<Rightarrow> Moment \<Rightarrow> BoardRecord option \<Rightarrow> 's BoardProvider \<Rightarrow> (BoardError, Snapshot option) result \<times> 's BoardProvider" where
  "recovered js m r p =
     (case r of
        None \<Rightarrow> (Inr None, p)
      | Some r \<Rightarrow>
          if br_publisher r \<noteq> bp_publisher p then (Inl Be_Denied, p) else
          and_thread (record_prepare js r (bp_limits p) (mo_caps m), p) (\<lambda>data p.
          let p = retain_pins p in
          if pins_full p then (Inl Be_Limit, p) else
          let (snapshot, p) = add_revision data p in (Inr (Some snapshot), p)))"

definition provider_recover ::
    "'s Persistence \<Rightarrow> Serde \<Rightarrow> CallContext \<Rightarrow> (nat \<Rightarrow> Moment) \<Rightarrow> 's BoardProvider
      \<Rightarrow> (BoardError, unit) result \<times> 's BoardProvider" where
  "provider_recover ps js c env p =
     and_thread (check_at c (env 0) (bp_publisher p) Ac_Publish 0, p) (\<lambda>_ p.
     if bp_poisoned p then (Inl Be_Unknown, p) else
     and_thread (provider_load ps p) (\<lambda>r p.
     and_thread (recovered js (env 1) r p) (\<lambda>current p.
     and_thread (check_at c (env 2) (bp_publisher p) Ac_Publish 0, p) (\<lambda>_ p.
     (Inr (), p\<lparr>bp_current := current, bp_uncertain := False\<rparr>)))))"

definition provider_commit ::
    "'s Persistence \<Rightarrow> BoardRecord \<Rightarrow> 's BoardProvider \<Rightarrow> (BoardError, unit) result \<times> 's BoardProvider" where
  "provider_commit ps r p =
     (case ps_commit ps r (bp_storage p) of
        (Inr _, s) \<Rightarrow> (Inr (), p\<lparr>bp_storage := s\<rparr>)
      | (Inl e, s) \<Rightarrow> (Inl e, p\<lparr>bp_storage := s, bp_uncertain := bp_uncertain p \<or> e = Be_Unknown\<rparr>))"

text \<open>The part of publishing under the lock.\<close>

definition publish_locked ::
    "'s Persistence \<Rightarrow> CallContext \<Rightarrow> (nat \<Rightarrow> Moment) \<Rightarrow> Prepared \<Rightarrow> 's BoardProvider
      \<Rightarrow> (BoardError, Snapshot) result \<times> 's BoardProvider" where
  "publish_locked ps c env candidate p =
     and_thread (check_at c (env 2) (bp_publisher p) Ac_Publish (pp_bytes candidate), p) (\<lambda>_ p.
     if bp_uncertain p then (Inl Be_Unknown, p) else
     let p = retain_pins p in
     if pins_full p then (Inl Be_Limit, p) else
     and_thread (prepared_assess candidate (mo_caps (env 3)), p) (\<lambda>_ p.
     and_thread (check_at c (env 4) (bp_publisher p) Ac_Publish (pp_bytes candidate), p) (\<lambda>_ p.
     and_thread (provider_commit ps (record_from_prepared candidate) p) (\<lambda>_ p.
     let (snapshot, p) = add_revision candidate p in
     (Inr snapshot, hold snapshot (p\<lparr>bp_current := Some snapshot\<rparr>))))))"

definition provider_publish ::
    "'s Persistence \<Rightarrow> Serde \<Rightarrow> CallContext \<Rightarrow> (nat \<Rightarrow> Moment) \<Rightarrow> Prepared \<Rightarrow> 's BoardProvider
      \<Rightarrow> (BoardError, Snapshot) result \<times> 's BoardProvider" where
  "provider_publish ps js c env candidate p =
     and_thread (check_at c (env 0) (bp_publisher p) Ac_Publish (pp_bytes candidate), p) (\<lambda>_ p.
     if pp_publisher candidate \<noteq> bp_publisher p then (Inl Be_Denied, p) else
     if pp_bytes candidate > bl_publication_bytes (bp_limits p) then (Inl Be_Limit, p) else
     let definitions = map (\<lambda>(i, d). (i, dc_source (df_document d))) (pp_definitions candidate) in
     and_thread (prepared_new js (bp_publisher p) (dc_source (bd_document (pp_board candidate))) definitions
         (bp_limits p) (mo_caps (env 1)), p) (\<lambda>candidate p.
     if bp_poisoned p then (Inl Be_Unknown, p) else publish_locked ps c env candidate p))"

definition provider_read ::
    "CallContext \<Rightarrow> (nat \<Rightarrow> Moment) \<Rightarrow> 's BoardProvider \<Rightarrow> (BoardError, Snapshot) result \<times> 's BoardProvider" where
  "provider_read c env p =
     and_thread (check_at c (env 0) (bp_publisher p) Ac_Read 0, p) (\<lambda>_ p.
     if bp_poisoned p then (Inl Be_Unknown, p) else
     if bp_uncertain p then (Inl Be_Unknown, p) else
     and_thread (ok_or Be_Missing (bp_current p), p) (\<lambda>snapshot p.
     and_thread (check_at c (env 1) (bp_publisher p) Ac_Read (length (sn_board snapshot)), p) (\<lambda>_ p.
     (Inr snapshot, hold snapshot p))))"

text \<open>A pin of a dropped owner has another domain than any owner that is alive.\<close>

definition check_snapshot :: "'s BoardProvider \<Rightarrow> Snapshot \<Rightarrow> (BoardError, unit) result" where
  "check_snapshot p snapshot =
     (if sn_domain snapshot \<noteq> bp_domain p \<or> sn_publisher snapshot \<noteq> bp_publisher p then Inl Be_Denied else Inr ())"

definition provider_definition ::
    "CallContext \<Rightarrow> Moment \<Rightarrow> Snapshot \<Rightarrow> bytes \<Rightarrow> 's BoardProvider \<Rightarrow> (BoardError, Definition) result" where
  "provider_definition c m snapshot i p =
     and_then (check_snapshot p snapshot) (\<lambda>_.
     and_then (ok_or Be_Missing (sn_data snapshot)) (\<lambda>(_, data).
     and_then (ok_or Be_Missing (bt_get i (pp_definitions data))) (\<lambda>d.
     and_then (check_at c m (bp_publisher p) Ac_Read (length (dc_source (df_document d)))) (\<lambda>_. Inr d))))"

section \<open>What the owner keeps\<close>

text \<open>A publication that the preparation accepted, made of typed parts.\<close>

definition published :: "Serde \<Rightarrow> BoardLimits \<Rightarrow> Identity_Id \<Rightarrow> Prepared \<Rightarrow> bool" where
  "published js l publisher data \<longleftrightarrow>
     record_typed (record_from_prepared data) \<and>
     (\<exists>caps. prepared_new js publisher (br_board (record_from_prepared data)) (br_definitions (record_from_prepared data)) l caps
        = Inr data)"

definition snapshot_complete :: "Serde \<Rightarrow> 's BoardProvider \<Rightarrow> Snapshot \<Rightarrow> bool" where
  "snapshot_complete js p s \<longleftrightarrow>
     (\<exists>revision data. s = snapshot_of p revision data \<and> revision < bp_fresh p \<and>
        published js (bp_limits p) (bp_publisher p) data)"

definition live :: "'s BoardProvider \<Rightarrow> nat set" where
  "live p = {revision. strong_count p revision > 0}"

definition pins_ok :: "'s BoardProvider \<Rightarrow> bool" where
  "pins_ok p \<longleftrightarrow> distinct (bp_pins p) \<and> (\<forall>revision \<in> set (bp_pins p). revision < bp_fresh p) \<and>
     live p \<subseteq> set (bp_pins p) \<and> card (live p) \<le> bl_snapshots (bp_limits p)"

definition snapshot_record :: "Snapshot \<Rightarrow> BoardRecord option" where
  "snapshot_record s = map_option (record_from_prepared \<circ> snd) (sn_data s)"

lemma published_new:
  assumes "prepared_new js publisher bs definitions l caps = Inr data"
    "record_typed \<lparr>br_publisher = publisher, br_board = bs, br_definitions = definitions\<rparr>"
  shows "published js l publisher data"
    "record_from_prepared data = \<lparr>br_publisher = publisher, br_board = bs, br_definitions = definitions\<rparr>"
proof -
  have "bt_sorted definitions" using assms(2) by (simp add: record_typed_def)
  from prepared_record [OF assms(1) this]
  show r: "record_from_prepared data = \<lparr>br_publisher = publisher, br_board = bs, br_definitions = definitions\<rparr>" .
  show "published js l publisher data" using assms unfolding published_def r by auto
qed

lemma published_record:
  assumes "record_prepare js r l caps = Inr data" "record_typed r"
  shows "published js l (br_publisher r) data" "record_from_prepared data = r"
  using published_new [of js "br_publisher r" "br_board r" "br_definitions r" l caps data] assms
  by (cases r; simp add: record_prepare_def)+

section \<open>Revisions in use\<close>

lemma live_retain [simp]: "live (retain_pins p) = live p"
  by (simp add: live_def retain_pins_def strong_count_def current_revision_def)

lemma retain_pins_ok: "pins_ok p \<Longrightarrow> pins_ok (retain_pins p)"
  unfolding pins_ok_def live_retain by (auto simp: retain_pins_def live_def)

lemma retain_pins_live: "pins_ok p \<Longrightarrow> set (bp_pins (retain_pins p)) = live p"
  by (auto simp: pins_ok_def retain_pins_def live_def)

lemma pins_full_retain:
  assumes "pins_ok p"
  shows "pins_full (retain_pins p) \<longleftrightarrow> bl_snapshots (bp_limits p) \<le> card (live p) - (if releases_current p then 1 else 0)"
proof -
  have "length (bp_pins (retain_pins p)) = card (live p)"
    using retain_pins_ok [OF assms] retain_pins_live [OF assms] distinct_card [of "bp_pins (retain_pins p)"]
    by (simp add: pins_ok_def)
  then show ?thesis
    by (simp add: pins_full_def releases_current_def retain_pins_def current_revision_def strong_count_def cong: option.case_cong)
qed

text \<open>Room for a new revision: it takes the place of the current one if nobody else holds that.\<close>

lemma install_pins_ok:
  assumes ok: "pins_ok p" and room: "\<not> pins_full p" and all: "set (bp_pins p) = live p"
    and q: "add_revision data p = (s, q)"
  shows "pins_ok (q\<lparr>bp_current := Some s\<rparr>)" "pins_ok (hold s (q\<lparr>bp_current := Some s\<rparr>))"
proof -
  let ?f = "bp_fresh p"
  have s: "s = snapshot_of p ?f data" and q': "q = p\<lparr>bp_pins := bp_pins p @ [?f], bp_fresh := Suc ?f\<rparr>"
    using q by (simp_all add: add_revision_def)
  have fin: "finite (live p)" using all [symmetric] by simp
  have old: "r < ?f" if "r \<in> live p" for r using that ok all by (auto simp: pins_ok_def)
  have new: "live (q\<lparr>bp_current := Some s\<rparr>) = insert ?f {r. bp_held p r > 0}"
      "live (hold s (q\<lparr>bp_current := Some s\<rparr>)) = insert ?f {r. bp_held p r > 0}"
    by (auto simp: live_def strong_count_def current_revision_def s q' snapshot_of_def hold_def)
  have held: "{r. bp_held p r > 0} = live p - (if releases_current p then set_option (current_revision p) else {})"
    by (auto simp: live_def strong_count_def releases_current_def split: option.splits if_splits)
  have len: "length (bp_pins p) = card (live p)" using ok all distinct_card [of "bp_pins p"] by (simp add: pins_ok_def)
  have "card {r. bp_held p r > 0} < bl_snapshots (bp_limits p)"
  proof (cases "releases_current p")
    case True
    then obtain r where r: "current_revision p = Some r" by (auto simp: releases_current_def split: option.splits)
    then have "r \<in> live p" by (simp add: live_def strong_count_def)
    then show ?thesis using True r room fin unfolding held pins_full_def by (simp add: len)
  next
    case False
    then show ?thesis using room unfolding held pins_full_def by (simp add: len)
  qed
  moreover have "finite {r. bp_held p r > 0}" unfolding held using fin by simp
  moreover have "?f \<notin> {r. bp_held p r > 0}" using old unfolding held by auto
  ultimately have card: "card (insert ?f {r. bp_held p r > 0}) \<le> bl_snapshots (bp_limits p)" by simp
  have sub: "insert ?f {r. bp_held p r > 0} \<subseteq> set (bp_pins p @ [?f])" using all unfolding held by auto
  have pins: "distinct (bp_pins p @ [?f])" "\<forall>r \<in> set (bp_pins p @ [?f]). r < Suc ?f"
    using ok by (auto simp: pins_ok_def)
  from card sub pins show "pins_ok (q\<lparr>bp_current := Some s\<rparr>)" "pins_ok (hold s (q\<lparr>bp_current := Some s\<rparr>))"
    unfolding pins_ok_def new by (simp_all add: q' s hold_def snapshot_of_def)
qed

lemma hold_pins_ok:
  assumes "pins_ok p" "bp_current p = Some s"
  shows "pins_ok (hold s p)"
proof -
  have "live (hold s p) = live p"
    using assms(2) by (auto simp: live_def strong_count_def current_revision_def hold_def split: option.split)
  with assms(1) show ?thesis by (simp add: pins_ok_def hold_def split: option.split)
qed

section \<open>Executions\<close>

text \<open>
  Everything that happens to one owner: calls in any order, in any environment; callers copy and drop
  the snapshots they hold; a dependency panics under the lock, which leaves the storage in any state.
  The set collects the snapshots handed out. A candidate is made of typed parts: its keys are strings
  in order and its publisher has 32 bytes.
\<close>

definition handed_out :: "('e, Snapshot) result \<Rightarrow> Snapshot set" where
  "handed_out res = (case res of Inl _ \<Rightarrow> {} | Inr s \<Rightarrow> {s})"

inductive provider_run ::
    "'s Persistence \<Rightarrow> ('s \<Rightarrow> bool) \<Rightarrow> Serde \<Rightarrow> 's BoardProvider \<Rightarrow> Snapshot set \<Rightarrow> bool" for ps sound js where
  opens: "sound s \<Longrightarrow> length (id_bytes publisher) = 32 \<Longrightarrow> provider_open ps js publisher limits m domain s = Inr p \<Longrightarrow>
    provider_run ps sound js p {}"
| publishes: "provider_run ps sound js p issued \<Longrightarrow> record_typed (record_from_prepared candidate) \<Longrightarrow>
    provider_publish ps js c env candidate p = (res, q) \<Longrightarrow> provider_run ps sound js q (issued \<union> handed_out res)"
| recovers: "provider_run ps sound js p issued \<Longrightarrow> provider_recover ps js c env p = (out, q) \<Longrightarrow> provider_run ps sound js q issued"
| reads: "provider_run ps sound js p issued \<Longrightarrow> provider_read c env p = (res, q) \<Longrightarrow>
    provider_run ps sound js q (issued \<union> handed_out res)"
| copies: "provider_run ps sound js p issued \<Longrightarrow> 0 < bp_held p revision \<Longrightarrow>
    provider_run ps sound js (p\<lparr>bp_held := (bp_held p)(revision := n)\<rparr>) issued"
| panics: "provider_run ps sound js p issued \<Longrightarrow>
    provider_run ps sound js (p\<lparr>bp_poisoned := True, bp_storage := s\<rparr>) issued"

definition snapshots_ok :: "Serde \<Rightarrow> 's BoardProvider \<Rightarrow> Snapshot set \<Rightarrow> bool" where
  "snapshots_ok js p snapshots \<longleftrightarrow>
     (\<forall>s \<in> snapshots. snapshot_complete js p s) \<and>
     (\<forall>s \<in> snapshots. \<forall>t \<in> snapshots. map_option fst (sn_data s) = map_option fst (sn_data t) \<longrightarrow> s = t)"

definition provider_inv ::
    "('s \<Rightarrow> BoardRecord option) \<Rightarrow> ('s \<Rightarrow> bool) \<Rightarrow> Serde \<Rightarrow> 's BoardProvider \<Rightarrow> Snapshot set \<Rightarrow> bool" where
  "provider_inv stored sound js p issued \<longleftrightarrow>
     snapshots_ok js p (issued \<union> set_option (bp_current p)) \<and> pins_ok p \<and> length (id_bytes (bp_publisher p)) = 32 \<and>
     (\<not> bp_poisoned p \<longrightarrow> sound (bp_storage p) \<and>
        (\<not> bp_uncertain p \<longrightarrow> stored (bp_storage p) = Option.bind (bp_current p) snapshot_record))"

lemma snapshot_complete_owner:
  assumes "snapshot_complete js p s" "bp_limits q = bp_limits p" "bp_publisher q = bp_publisher p"
    "bp_domain q = bp_domain p" "bp_fresh p \<le> bp_fresh q"
  shows "snapshot_complete js q s"
  using assms unfolding snapshot_complete_def snapshot_of_def by (metis order.strict_trans2)

lemma snapshots_ok_owner:
  assumes "snapshots_ok js p A" "B \<subseteq> A" "bp_limits q = bp_limits p" "bp_publisher q = bp_publisher p"
    "bp_domain q = bp_domain p" "bp_fresh p \<le> bp_fresh q"
  shows "snapshots_ok js q B"
  using assms snapshot_complete_owner [OF _ assms(3-6)] unfolding snapshots_ok_def by blast

lemma snapshots_ok_add:
  assumes "snapshots_ok js p A" "published js (bp_limits p) (bp_publisher p) data" "add_revision data p = (s, q)"
  shows "snapshots_ok js q (insert s A)"
proof -
  have s: "s = snapshot_of p (bp_fresh p) data" and q: "q = p\<lparr>bp_pins := bp_pins p @ [bp_fresh p], bp_fresh := Suc (bp_fresh p)\<rparr>"
    using assms(3) by (simp_all add: add_revision_def)
  have complete: "snapshot_complete js q s"
    using assms(2) unfolding snapshot_complete_def by (auto simp: s q snapshot_of_def)
  have ok: "snapshots_ok js q A" by (rule snapshots_ok_owner [OF assms(1)]) (simp_all add: q)
  have fresh: "map_option fst (sn_data t) \<noteq> map_option fst (sn_data s)" if "t \<in> A" for t
    using assms(1) that by (auto simp: snapshots_ok_def snapshot_complete_def s snapshot_of_def)
  have "t = u" if "t \<in> insert s A" "u \<in> insert s A" "map_option fst (sn_data t) = map_option fst (sn_data u)" for t u
    using that ok fresh [of t] fresh [of u] by (cases "t = s"; cases "u = s") (simp_all add: snapshots_ok_def)
  with ok complete show ?thesis by (simp add: snapshots_ok_def)
qed

lemma snapshots_ok_same:
  assumes "bp_limits q = bp_limits p" "bp_publisher q = bp_publisher p" "bp_domain q = bp_domain p" "bp_fresh q = bp_fresh p"
  shows "snapshots_ok js q A = snapshots_ok js p A"
  using snapshots_ok_owner [of js p A A q] snapshots_ok_owner [of js q A A p] assms by auto

lemma pins_same:
  assumes "bp_limits q = bp_limits p" "bp_current q = bp_current p" "bp_pins q = bp_pins p" "bp_held q = bp_held p"
    "bp_fresh q = bp_fresh p"
  shows "live q = live p" "pins_ok q = pins_ok p" "pins_full q = pins_full p"
proof -
  have count: "current_revision q = current_revision p" "strong_count q = strong_count p"
    using assms by (simp_all add: fun_eq_iff strong_count_def current_revision_def)
  show "live q = live p" "pins_ok q = pins_ok p" "pins_full q = pins_full p"
    using assms by (simp_all add: live_def pins_ok_def pins_full_def releases_current_def count cong: option.case_cong)
qed

lemma retain_pins_fields [simp]:
  "bp_limits (retain_pins p) = bp_limits p" "bp_publisher (retain_pins p) = bp_publisher p"
  "bp_domain (retain_pins p) = bp_domain p" "bp_storage (retain_pins p) = bp_storage p"
  "bp_poisoned (retain_pins p) = bp_poisoned p" "bp_uncertain (retain_pins p) = bp_uncertain p"
  "bp_current (retain_pins p) = bp_current p" "bp_held (retain_pins p) = bp_held p" "bp_fresh (retain_pins p) = bp_fresh p"
  by (simp_all add: retain_pins_def)

lemma provider_inv_retain:
  "provider_inv stored sound js p issued \<Longrightarrow> provider_inv stored sound js (retain_pins p) issued"
  using retain_pins_ok [of p] by (simp add: provider_inv_def snapshots_ok_same [of "retain_pins p" p])

text \<open>Changes of the storage and of the certainty about it.\<close>

lemma provider_inv_storage:
  assumes "provider_inv stored sound js p issued"
    "\<not> bp_poisoned p \<Longrightarrow> sound s \<and> (\<not> u \<longrightarrow> stored s = Option.bind (bp_current p) snapshot_record)"
  shows "provider_inv stored sound js (p\<lparr>bp_storage := s, bp_uncertain := u\<rparr>) issued"
  using assms
  by (simp add: provider_inv_def snapshots_ok_same [of "p\<lparr>bp_storage := s, bp_uncertain := u\<rparr>" p]
      pins_same [of "p\<lparr>bp_storage := s, bp_uncertain := u\<rparr>" p])

text \<open>Installing a new revision that agrees with the storage.\<close>

lemma provider_inv_install:
  assumes inv: "provider_inv stored sound js p issued" and room: "\<not> pins_full (retain_pins p)"
    and data: "published js (bp_limits p) (bp_publisher p) data"
    and p2: "p2 = (retain_pins p)\<lparr>bp_storage := st\<rparr>"
    and stored: "\<not> bp_poisoned p \<Longrightarrow> sound st \<and> stored st = Some (record_from_prepared data)"
    and q: "add_revision data p2 = (s, q)"
  shows "provider_inv stored sound js (q\<lparr>bp_current := Some s, bp_uncertain := False\<rparr>) issued"
    "provider_inv stored sound js (hold s (q\<lparr>bp_current := Some s\<rparr>)) (issued \<union> {s})"
proof -
  have pins: "pins_ok p2" "\<not> pins_full p2" "set (bp_pins p2) = live p2"
    using inv room retain_pins_ok [of p] retain_pins_live [of p] pins_same [of p2 "retain_pins p"]
    by (simp_all add: provider_inv_def p2)
  note ok = install_pins_ok [OF pins q]
  have snaps: "snapshots_ok js p2 (issued \<union> set_option (bp_current p))"
    using inv snapshots_ok_same [of p2 p] by (simp add: provider_inv_def p2)
  have "snapshots_ok js q (insert s (issued \<union> set_option (bp_current p)))"
    by (rule snapshots_ok_add [OF snaps _ q]) (use data in \<open>simp add: p2\<close>)
  then have all: "snapshots_ok js r (issued \<union> {s})"
    if "bp_limits r = bp_limits q" "bp_publisher r = bp_publisher q" "bp_domain r = bp_domain q" "bp_fresh r = bp_fresh q"
    for r :: "'a BoardProvider"
    using snapshots_ok_owner [of js q _ "issued \<union> {s}" r] that by auto
  have s: "snapshot_record s = Some (record_from_prepared data)"
    and q': "bp_storage q = st" "bp_poisoned q = bp_poisoned p" "bp_publisher q = bp_publisher p"
    using q by (auto simp: add_revision_def snapshot_record_def snapshot_of_def p2)
  have "pins_ok (q\<lparr>bp_current := Some s, bp_uncertain := False\<rparr>)"
    using ok(1) pins_same(2) [of "q\<lparr>bp_current := Some s, bp_uncertain := False\<rparr>" "q\<lparr>bp_current := Some s\<rparr>"] by simp
  then show "provider_inv stored sound js (q\<lparr>bp_current := Some s, bp_uncertain := False\<rparr>) issued"
    using inv stored s all [of "q\<lparr>bp_current := Some s, bp_uncertain := False\<rparr>"] by (simp add: provider_inv_def q')
  show "provider_inv stored sound js (hold s (q\<lparr>bp_current := Some s\<rparr>)) (issued \<union> {s})"
    using inv stored s ok(2) all [of "hold s (q\<lparr>bp_current := Some s\<rparr>)"]
    by (simp add: provider_inv_def q' hold_def split: option.splits prod.splits)
qed

text \<open>Dropping the current revision, and a weak reference to one that was dropped again.\<close>

lemma provider_inv_clear:
  assumes "provider_inv stored sound js p issued" "stored (bp_storage p) = None"
  shows "provider_inv stored sound js (p\<lparr>bp_current := None, bp_uncertain := False\<rparr>) issued"
proof -
  let ?q = "p\<lparr>bp_current := None, bp_uncertain := False\<rparr>"
  have sub: "live ?q \<subseteq> live p" by (auto simp: live_def strong_count_def current_revision_def)
  have "finite (live p)" using assms(1) by (auto simp: provider_inv_def pins_ok_def intro: finite_subset)
  then have "card (live ?q) \<le> card (live p)" using sub by (rule card_mono)
  then have "pins_ok ?q" using sub assms(1) by (auto simp: provider_inv_def pins_ok_def)
  moreover have "snapshots_ok js ?q issued"
    using assms(1) snapshots_ok_owner [of js p _ issued ?q] by (auto simp: provider_inv_def)
  ultimately show ?thesis using assms by (simp add: provider_inv_def)
qed

lemma provider_inv_pin:
  assumes "provider_inv stored sound js p issued" "add_revision data p = (s, q)"
  shows "provider_inv stored sound js q issued"
proof -
  have q: "q = p\<lparr>bp_pins := bp_pins p @ [bp_fresh p], bp_fresh := Suc (bp_fresh p)\<rparr>"
    using assms(2) by (simp add: add_revision_def)
  have "live q = live p" by (simp add: live_def strong_count_def current_revision_def q)
  moreover have "snapshots_ok js q (issued \<union> set_option (bp_current p))"
    using assms(1) snapshots_ok_owner [of js p _ _ q] by (auto simp: provider_inv_def q)
  ultimately show ?thesis using assms(1) by (auto simp: provider_inv_def pins_ok_def q)
qed

context persistence
begin

lemma commit_inv:
  assumes inv: "provider_inv stored sound js p issued" and p: "\<not> bp_poisoned p" "\<not> bp_uncertain p" "record_typed r"
    and q: "provider_commit ps r p = (res, q)"
  shows "\<not> is_ok res \<Longrightarrow> provider_inv stored sound js q issued"
    "is_ok res \<Longrightarrow> \<exists>s. q = p\<lparr>bp_storage := s\<rparr> \<and> sound s \<and> stored s = Some r"
proof -
  obtain out s where c: "ps_commit ps r (bp_storage p) = (out, s)" by (cases "ps_commit ps r (bp_storage p)")
  have sound: "sound (bp_storage p)" and old: "stored (bp_storage p) = Option.bind (bp_current p) snapshot_record"
    using inv p by (simp_all add: provider_inv_def)
  note s = commit_sound [OF sound p(3) c]
  show "\<not> is_ok res \<Longrightarrow> provider_inv stored sound js q issued"
  proof -
    assume "\<not> is_ok res"
    then obtain e where out: "out = Inl e" and q': "q = p\<lparr>bp_storage := s, bp_uncertain := e = Be_Unknown\<rparr>"
      using q c p(2) by (cases out) (auto simp: provider_commit_def)
    show "provider_inv stored sound js q issued"
      unfolding q' by (rule provider_inv_storage [OF inv]) (use commit_error [OF sound p(3) c [unfolded out]] s old in auto)
  qed
  show "is_ok res \<Longrightarrow> \<exists>s. q = p\<lparr>bp_storage := s\<rparr> \<and> sound s \<and> stored s = Some r"
    using q c s commit_ok [OF sound p(3)] by (cases out) (auto simp: provider_commit_def)
qed

lemma publish_locked_inv:
  assumes inv: "provider_inv stored sound js p issued" and p: "\<not> bp_poisoned p"
    and data: "published js (bp_limits p) (bp_publisher p) candidate"
    and q: "publish_locked ps c env candidate p = (res, q)"
  shows "provider_inv stored sound js q (issued \<union> handed_out res)"
proof -
  let ?p = "retain_pins p" and ?r = "record_from_prepared candidate"
  have typed: "record_typed ?r" using data by (simp add: published_def)
  note inv' = provider_inv_retain [OF inv]
  obtain out p2 where commit: "provider_commit ps ?r ?p = (out, p2)" by (cases "provider_commit ps ?r ?p")
  consider (kept) e where "res = Inl e" "q = p" | (retained) e where "res = Inl e" "q = ?p"
    | (refused) e where "\<not> bp_uncertain p" "out = Inl e" "res = Inl e" "q = p2"
    | (installed) s q2 where "\<not> bp_uncertain p" "\<not> pins_full ?p" "out = Inr ()" "add_revision candidate p2 = (s, q2)"
        "res = Inr s" "q = hold s (q2\<lparr>bp_current := Some s\<rparr>)"
    using q commit unfolding publish_locked_def
    by (auto simp: Let_def split: if_splits prod.splits elim!: and_thread_cases)
  then show ?thesis
  proof cases
    case kept
    then show ?thesis using inv by (simp add: handed_out_def)
  next
    case retained
    then show ?thesis using inv' by (simp add: handed_out_def)
  next
    case refused
    then show ?thesis using commit_inv(1) [OF inv' _ _ typed commit] p by (simp add: handed_out_def)
  next
    case (installed s q2)
    then obtain st where st: "p2 = ?p\<lparr>bp_storage := st\<rparr>" "sound st" "stored st = Some ?r"
      using commit_inv(2) [OF inv' _ _ typed commit] p by auto
    show ?thesis
      using provider_inv_install(2) [OF inv installed(2) data st(1) _ installed(4)] st(2,3) by (simp add: installed(5,6) handed_out_def)
  qed
qed

lemma publish_inv:
  assumes inv: "provider_inv stored sound js p issued" and typed: "record_typed (record_from_prepared candidate)"
    and q: "provider_publish ps js c env candidate p = (res, q)"
  shows "provider_inv stored sound js q (issued \<union> handed_out res)"
proof -
  let ?b = "dc_source (bd_document (pp_board candidate))"
  let ?d = "map (\<lambda>(i, d). (i, dc_source (df_document d))) (pp_definitions candidate)"
  consider (kept) e where "res = Inl e" "q = p"
    | (locked) new where "pp_publisher candidate = bp_publisher p"
        "prepared_new js (bp_publisher p) ?b ?d (bp_limits p) (mo_caps (env 1)) = Inr new"
        "\<not> bp_poisoned p" "publish_locked ps c env new p = (res, q)"
    using q unfolding provider_publish_def
    by (auto simp: Let_def split: if_splits elim!: and_thread_cases)
  then show ?thesis
  proof cases
    case kept
    then show ?thesis using inv by (simp add: handed_out_def)
  next
    case (locked new)
    have "record_typed \<lparr>br_publisher = bp_publisher p, br_board = ?b, br_definitions = ?d\<rparr>"
      using typed locked(1) by (simp add: record_from_prepared_def)
    from publish_locked_inv [OF inv locked(3) published_new(1) [OF locked(2) this] locked(4)] show ?thesis .
  qed
qed

lemma load_inv:
  assumes inv: "provider_inv stored sound js p issued" and p: "\<not> bp_poisoned p" and q: "provider_load ps p = (res, q)"
  shows "provider_inv stored sound js q issued \<and> (\<exists>s. q = p\<lparr>bp_storage := s\<rparr> \<and> sound s) \<and>
    (\<forall>r. res = Inr r \<longrightarrow> stored (bp_storage q) = r)"
proof -
  obtain s where l: "ps_load ps (bp_storage p) = (res, s)" and q': "q = p\<lparr>bp_storage := s\<rparr>"
    using q by (auto simp: provider_load_def split: prod.splits)
  have sound: "sound (bp_storage p)" using inv p by (simp add: provider_inv_def)
  note s = load_sound [OF sound l]
  have "provider_inv stored sound js (p\<lparr>bp_storage := s, bp_uncertain := bp_uncertain p\<rparr>) issued"
    by (rule provider_inv_storage [OF inv]) (use inv p s in \<open>auto simp: provider_inv_def\<close>)
  then show ?thesis using s l load_result [OF sound] by (auto simp: q')
qed

lemma recovered_inv:
  assumes inv: "provider_inv stored sound js p issued" and p: "\<not> bp_poisoned p" and r: "stored (bp_storage p) = r"
    and q: "recovered js m r p = (res, q)"
  shows "provider_inv stored sound js q issued"
    "res = Inr current \<Longrightarrow> provider_inv stored sound js (q\<lparr>bp_current := current, bp_uncertain := False\<rparr>) issued"
proof -
  have sound: "sound (bp_storage p)" using inv p by (simp add: provider_inv_def)
  consider (empty) "r = None" "q = p" "res = Inr None"
    | (refused) e where "res = Inl e" "q = p \<or> q = retain_pins p"
    | (prepared) rec data s where "r = Some rec" "br_publisher rec = bp_publisher p"
        "record_prepare js rec (bp_limits p) (mo_caps m) = Inr data"
        "\<not> pins_full (retain_pins p)" "add_revision data (retain_pins p) = (s, q)" "res = Inr (Some s)"
    using q unfolding recovered_def
    by (auto simp: Let_def split: option.splits if_splits prod.splits elim!: and_thread_cases)
  note cases = this
  from cases have "provider_inv stored sound js q issued \<and> (\<forall>current. res = Inr current \<longrightarrow>
      provider_inv stored sound js (q\<lparr>bp_current := current, bp_uncertain := False\<rparr>) issued)"
  proof cases
    case empty
    then show ?thesis using inv sound r provider_inv_clear [of stored sound js p issued] by simp
  next
    case refused
    then show ?thesis using inv provider_inv_retain [OF inv] by auto
  next
    case (prepared rec data s)
    have "record_typed rec" by (rule stored_typed [OF sound]) (simp add: r prepared(1))
    note pub = published_record [OF prepared(3) this]
    have data: "published js (bp_limits p) (bp_publisher p) data" "stored (bp_storage p) = Some (record_from_prepared data)"
      using pub prepared(1,2) r by simp_all
    have "provider_inv stored sound js (q\<lparr>bp_current := Some s, bp_uncertain := False\<rparr>) issued"
      by (rule provider_inv_install(1) [OF inv prepared(4) data(1) _ _ prepared(5), of "bp_storage p"])
         (use sound data(2) in \<open>simp_all add: retain_pins_def\<close>)
    moreover have "provider_inv stored sound js q issued"
      using provider_inv_pin [OF provider_inv_retain [OF inv] prepared(5)] .
    ultimately show ?thesis by (simp add: prepared(6))
  qed
  then show "provider_inv stored sound js q issued"
    "res = Inr current \<Longrightarrow> provider_inv stored sound js (q\<lparr>bp_current := current, bp_uncertain := False\<rparr>) issued"
    by auto
qed

lemma recover_inv:
  assumes inv: "provider_inv stored sound js p issued" and q: "provider_recover ps js c env p = (res, q)"
  shows "provider_inv stored sound js q issued"
proof (cases "bp_poisoned p")
  case True
  then show ?thesis using q inv unfolding provider_recover_def by (auto elim!: and_thread_cases)
next
  case False
  obtain out p1 where load: "provider_load ps p = (out, p1)" by (cases "provider_load ps p")
  note l = load_inv [OF inv False load]
  then have inv1: "provider_inv stored sound js p1 issued" and p1: "\<not> bp_poisoned p1" using False by auto
  show ?thesis
  proof (cases out)
    case (Inl e)
    then show ?thesis using q inv inv1 load False unfolding provider_recover_def by (auto elim!: and_thread_cases)
  next
    case (Inr r)
    obtain out2 p2 where rec: "recovered js (env 1) r p1 = (out2, p2)" by (cases "recovered js (env 1) r p1")
    note r = recovered_inv [OF inv1 p1 _ rec]
    have "q = p \<or> q = p2 \<or> (\<exists>current. out2 = Inr current \<and> q = p2\<lparr>bp_current := current, bp_uncertain := False\<rparr>)"
      using q load rec Inr False unfolding provider_recover_def by (auto elim!: and_thread_cases)
    then show ?thesis using inv r l Inr by auto
  qed
qed

lemma open_inv:
  assumes "sound s" "length (id_bytes publisher) = 32" "provider_open ps js publisher limits m domain s = Inr p"
  shows "provider_inv stored sound js p {}"
proof -
  obtain p0 where p0: "board_provider_new publisher limits domain s = Inr p0" using assms(3)
    by (auto simp: provider_open_def and_then_eq_Inr)
  then have limits: "board_limits_validate limits = Inr ()" and fields: "bp_limits p0 = limits" "bp_publisher p0 = publisher"
      "bp_storage p0 = s" "\<not> bp_poisoned p0" "\<not> bp_uncertain p0" "bp_current p0 = None" "bp_pins p0 = []" "bp_held p0 = (\<lambda>_. 0)"
      "bp_fresh p0 = 0"
    by (auto simp: board_provider_new_def and_then_eq_Inr)
  obtain out p1 where load: "provider_load ps p0 = (out, p1)" by (cases "provider_load ps p0")
  then obtain s1 where s1: "ps_load ps s = (out, s1)" and p1: "p1 = p0\<lparr>bp_storage := s1\<rparr>"
    using fields by (auto simp: provider_load_def split: prod.splits)
  note l = load_sound [OF assms(1) s1]
  have nobody: "live p1 = {}" by (simp add: live_def strong_count_def current_revision_def p1 fields)
  show ?thesis
  proof (cases "stored s")
    case None
    then have "p = p1" using assms(3) p0 load s1 load_result [OF assms(1)]
      by (auto simp: provider_open_def split: sum.splits option.splits prod.splits)
    then show ?thesis using None l assms(2) nobody
      by (simp add: provider_inv_def snapshots_ok_def pins_ok_def p1 fields)
  next
    case (Some r)
    then have out: "out = Inr (Some r)"
      using assms(3) p0 load s1 load_result [OF assms(1)] by (cases out) (auto simp: provider_open_def)
    then obtain data where r: "br_publisher r = publisher" "record_prepare js r limits (mo_caps m) = Inr data"
        "p = (snd (add_revision data p1))\<lparr>bp_current := Some (fst (add_revision data p1))\<rparr>"
      using assms(3) p0 load by (auto simp: provider_open_def and_then_eq_Inr case_prod_unfold Let_def split: if_splits)
    let ?u = "p1\<lparr>bp_uncertain := True\<rparr>"
    obtain sn q where q: "add_revision data ?u = (sn, q)" by (cases "add_revision data ?u")
    have p: "p = q\<lparr>bp_current := Some sn, bp_uncertain := False\<rparr>"
      using q r(3) by (auto simp: add_revision_def snapshot_of_def p1 fields)
    have inv: "provider_inv stored sound js ?u {}"
      using l assms(2) nobody pins_same(1) [of ?u p1]
      by (simp add: provider_inv_def snapshots_ok_def pins_ok_def p1 fields)
    have typed: "record_typed r" using assms(1) Some by (rule stored_typed)
    note pub = published_record [OF r(2) typed]
    have retain: "retain_pins ?u = ?u" using fields by (cases p0) (simp add: retain_pins_def p1)
    have room: "\<not> pins_full ?u" using limits by (simp add: pins_full_def p1 fields board_limits_validate_eq)
    show ?thesis
      unfolding p
      by (rule provider_inv_install(1) [OF inv _ _ _ _ q, of s1])
         (use pub r(1) l Some room in \<open>simp_all add: retain\<close>, simp_all add: p1 fields)
  qed
qed

lemma read_inv:
  assumes inv: "provider_inv stored sound js p issued" and q: "provider_read c env p = (res, q)"
  shows "provider_inv stored sound js q (issued \<union> handed_out res)"
proof -
  consider (kept) e where "res = Inl e" "q = p" | (held) s where "bp_current p = Some s" "res = Inr s" "q = hold s p"
    using q unfolding provider_read_def
    by (cases "check_at c (env 0) (bp_publisher p) Ac_Read 0"; cases "bp_current p";
        cases "check_at c (env 1) (bp_publisher p) Ac_Read (length (sn_board (the (bp_current p))))")
       (auto split: if_splits)
  then show ?thesis
  proof cases
    case kept
    then show ?thesis using inv by (simp add: handed_out_def)
  next
    case (held s)
    have "pins_ok (hold s p)" using inv held(1) by (simp add: provider_inv_def hold_pins_ok)
    moreover have "snapshots_ok js (hold s p) A = snapshots_ok js p A" for A
      by (rule snapshots_ok_same) (simp_all add: hold_def split: option.split)
    moreover have "bp_current (hold s p) = bp_current p" "bp_publisher (hold s p) = bp_publisher p"
        "bp_poisoned (hold s p) = bp_poisoned p" "bp_uncertain (hold s p) = bp_uncertain p" "bp_storage (hold s p) = bp_storage p"
      by (simp_all add: hold_def split: option.split)
    ultimately show ?thesis using inv held by (simp add: provider_inv_def handed_out_def)
  qed
qed

lemma copies_inv:
  assumes "provider_inv stored sound js p issued" "0 < bp_held p revision"
  shows "provider_inv stored sound js (p\<lparr>bp_held := (bp_held p)(revision := n)\<rparr>) issued"
proof -
  let ?q = "p\<lparr>bp_held := (bp_held p)(revision := n)\<rparr>"
  have sub: "live ?q \<subseteq> live p" using assms(2) by (auto simp: live_def strong_count_def current_revision_def split: if_splits)
  have "finite (live p)" using assms(1) by (auto simp: provider_inv_def pins_ok_def intro: finite_subset)
  then have "card (live ?q) \<le> card (live p)" using sub by (rule card_mono)
  then have "pins_ok ?q" using sub assms(1) by (auto simp: provider_inv_def pins_ok_def)
  then show ?thesis using assms(1) snapshots_ok_same [of ?q p] by (simp add: provider_inv_def)
qed

lemma run_inv: "provider_run ps sound js p issued \<Longrightarrow> provider_inv stored sound js p issued"
proof (induction rule: provider_run.induct)
  case (panics p issued s)
  let ?q = "p\<lparr>bp_poisoned := True, bp_storage := s\<rparr>"
  from panics snapshots_ok_same [of ?q p] pins_same(2) [of ?q p] show ?case by (simp add: provider_inv_def)
qed (blast intro: open_inv publish_inv recover_inv read_inv copies_inv)+

end

end
