(* ===== verification/Board_Selection.thy ===== *)
theory Board_Selection
  imports Board_State
begin

text \<open>
  Selection of exact terms from the local publication (\<open>src/src/modules/board/selection.rs\<close> and
  \<open>current_selection\<close> of \<open>state.rs\<close>), and the properties of the owner of the publication.
\<close>

section \<open>Selection\<close>

record SelectionRequest =
  rq_id :: bytes
  rq_service :: bytes
  rq_version :: u32
  rq_description :: bytes
  rq_other :: Identity_Id
  rq_authenticated :: bool

record Selection =
  sl_offering :: Offering
  sl_definition :: Definition
  sl_publisher :: Identity_Id
  sl_requester :: Identity_Id
  sl_provider :: Identity_Id

definition selection_roles :: "Selection \<Rightarrow> Identity_Id \<times> Identity_Id \<times> Identity_Id" where
  "selection_roles s = (sl_requester s, sl_provider s, of_issuer (sl_offering s))"

definition contract_matches :: "Selection \<Rightarrow> Selection \<Rightarrow> bool" where
  "contract_matches s other = same_contract (sl_definition s) (sl_definition other)"

definition select :: "Offering \<Rightarrow> Definition \<Rightarrow> Identity_Id \<Rightarrow> SelectionRequest \<Rightarrow> Capabilities \<Rightarrow> (BoardError, Selection) result" where
  "select o' d publisher r caps =
     (if of_service o' \<noteq> rq_service r \<or> of_version o' \<noteq> rq_version r \<or> of_description o' \<noteq> rq_description r
      then Inl Be_Stale else
      and_then (assess caps o' d (rq_authenticated r) False) (\<lambda>_.
      let (requester, provider) =
            (case of_direction o' of Dn_Provided \<Rightarrow> (rq_other r, publisher) | Dn_Wanted \<Rightarrow> (publisher, rq_other r))
      in Inr \<lparr>sl_offering = o', sl_definition = d, sl_publisher = publisher, sl_requester = requester, sl_provider = provider\<rparr>))"

text \<open>The printer of the JSON library is the argument \<open>to_string\<close>; only the length of its result is used.\<close>

definition current_selection ::
    "(Json \<Rightarrow> bytes) \<Rightarrow> CallContext \<Rightarrow> Moment \<Rightarrow> Selection \<Rightarrow> 's BoardProvider \<Rightarrow> (BoardError, unit) result" where
  "current_selection to_string c m selected p =
     and_then (check_at c m (bp_publisher p) Ac_Select (length (to_string (of_source (sl_offering selected))))) (\<lambda>_.
     if sl_publisher selected \<noteq> bp_publisher p then Inl Be_Denied else
     if bp_poisoned p then Inl Be_Unknown else
     if bp_uncertain p then Inl Be_Unknown else
     and_then (ok_or Be_Stale (Option.bind (bp_current p) sn_data)) (\<lambda>(_, data).
     let i = of_id (sl_offering selected) in
     if (case bt_get i (bd_offerings (pp_board data)) of None \<Rightarrow> True
           | Some o' \<Rightarrow> of_source o' \<noteq> of_source (sl_offering selected))
       \<or> (case bt_get i (pp_definitions data) of None \<Rightarrow> True
           | Some d \<Rightarrow> dc_value (df_document d) \<noteq> dc_value (df_document (sl_definition selected)))
     then Inl Be_Stale else Inr ()))"

definition provider_select ::
    "(Json \<Rightarrow> bytes) \<Rightarrow> CallContext \<Rightarrow> (nat \<Rightarrow> Moment) \<Rightarrow> Snapshot \<Rightarrow> SelectionRequest \<Rightarrow> 's BoardProvider
      \<Rightarrow> (BoardError, Selection) result" where
  "provider_select to_string c env snapshot r p =
     and_then (check_snapshot p snapshot) (\<lambda>_.
     and_then (check_at c (env 0) (bp_publisher p) Ac_Select (length (sn_board snapshot))) (\<lambda>_.
     and_then (ok_or Be_Missing (sn_data snapshot)) (\<lambda>(_, data).
     and_then (ok_or Be_Missing (bt_get (rq_id r) (bd_offerings (pp_board data)))) (\<lambda>o'.
     and_then (ok_or Be_Missing (bt_get (rq_id r) (pp_definitions data))) (\<lambda>d.
     and_then (select o' d (bp_publisher p) r (mo_caps (env 1))) (\<lambda>selected.
     and_then (current_selection to_string c (env 2) selected p) (\<lambda>_. Inr selected)))))))"

section \<open>What a selection rests on\<close>

text \<open>An offering is determined by its source and the list it stands in.\<close>

lemma offering_parse_source:
  assumes "offering_parse dir v = Inr o'"
  shows "of_source o' = v" "of_direction o' = dir" "offering_parse dir' v = Inr (o'\<lparr>of_direction := dir'\<rparr>)"
  using assms by (auto simp: offering_parse_def and_then_eq_Inr map_err_eq_Inr ok_or_eq_Inr)

lemma board_offerings_parsed:
  "board_offerings l dir vs m = Inr m' \<Longrightarrow> bt_sorted m \<Longrightarrow>
   \<forall>o' \<in> snd ` set m. offering_parse (of_direction o') (of_source o') = Inr o' \<Longrightarrow>
   \<forall>o' \<in> snd ` set m'. offering_parse (of_direction o') (of_source o') = Inr o'"
proof (induction vs arbitrary: m)
  case (Cons v vs)
  then obtain o' where o': "offering_parse dir v = Inr o'" "board_offerings l dir vs (bt_insert (of_id o') o' m) = Inr m'"
    by (auto simp: and_then_eq_Inr Let_def split: if_splits)
  have "\<forall>x \<in> snd ` set (bt_insert (of_id o') o' m). offering_parse (of_direction x) (of_source x) = Inr x"
    using Cons.prems(3) set_bt_insert [of "of_id o'" o' m] offering_parse_source [OF o'(1)] o'(1) by auto
  from Cons.IH [OF o'(2) bt_sorted_insert [OF Cons.prems(2)] this] show ?case .
qed simp

lemma board_parse_parsed:
  assumes "board_parse js bs l = Inr b" "(i, o') \<in> set (bd_offerings b)"
  shows "offering_parse (of_direction o') (of_source o') = Inr o'"
proof -
  from assms obtain m root vs ws where m: "board_offerings l Dn_Provided vs [] = Inr m" "board_offerings l Dn_Wanted ws m = Inr (bd_offerings b)"
    by (auto simp: board_parse_def board_field_def and_then_eq_Inr split: if_splits)
  have sorted: "bt_sorted m" using board_offerings_valid [OF m(1)] by (simp add: offerings_valid_def)
  have "\<forall>o' \<in> snd ` set m. offering_parse (of_direction o') (of_source o') = Inr o'"
    by (rule board_offerings_parsed [OF m(1)]) (simp_all add: bt_sorted_def)
  note all = board_offerings_parsed [OF m(2) sorted this]
  have "o' \<in> snd ` set (bd_offerings b)" using assms(2) by force
  with all show ?thesis by (rule bspec)
qed

lemma published_offering:
  assumes "published js l publisher data" "bt_get i (bd_offerings (pp_board data)) = Some o'"
  shows "of_id o' = i" "offering_parse (of_direction o') (of_source o') = Inr o'"
    "\<And>d. bt_get i (pp_definitions data) = Some d \<Longrightarrow> definition_bound d o'"
proof -
  obtain caps bs definitions where new: "prepared_new js publisher bs definitions l caps = Inr data"
    using assms(1) by (auto simp: published_def)
  obtain contracts where part: "prepared_part js l definitions (bd_offerings (pp_board data)) contracts (pp_definitions data)"
      "offerings_valid (bd_offerings (pp_board data))"
    using new by (rule prepared_sound_part)
  have mem: "(i, o') \<in> set (bd_offerings (pp_board data))"
    using assms(2) part(2) by (simp add: offerings_valid_def bt_get_iff)
  have valid: "\<forall>(i, o') \<in> set (bd_offerings (pp_board data)). of_id o' = i"
    using part(2) unfolding offerings_valid_def by blast
  from bspec [OF valid mem] show "of_id o' = i" by simp
  show "offering_parse (of_direction o') (of_source o') = Inr o'"
    using new mem by (auto simp: prepared_new_eq_Inr intro: board_parse_parsed)
  show "definition_bound d o'" if "bt_get i (pp_definitions data) = Some d" for d
  proof -
    obtain bs d' k e where "bt_get i (pp_definitions data) = Some d'" "definition_parse js bs o' l = Inr d'"
      using part(1) mem by (rule prepared_partD)
    with that definition_parse_bound(1) [of js bs o' l d'] show ?thesis by simp
  qed
qed

lemma context_checkD:
  "context_check c now a publisher action n = Inr () \<Longrightarrow>
   \<not> cx_cancelled c \<and> now < cx_deadline c \<and> ba_live a \<and> gr_domain (cx_grant c) = ba_domain a \<and>
   gr_publisher (cx_grant c) = publisher \<and> gr_action (cx_grant c) = action \<and> n \<le> gr_bytes (cx_grant c)"
  by (auto simp: context_check_def board_check_def split: if_splits)

lemma selectD:
  assumes "select o' d publisher r caps = Inr selected"
  shows "sl_offering selected = o'" "sl_definition selected = d" "sl_publisher selected = publisher"
    "of_service o' = rq_service r \<and> of_version o' = rq_version r \<and> of_description o' = rq_description r"
    "assess caps o' d (rq_authenticated r) False = Inr ()"
    "(sl_requester selected, sl_provider selected) =
       (if of_direction o' = Dn_Provided then (rq_other r, publisher) else (publisher, rq_other r))"
  using assms by (auto simp: select_def and_then_eq_Inr Let_def split: if_splits Direction.splits)

lemma current_selectionD:
  assumes "current_selection to_string c m selected p = Inr ()"
  obtains revision data o' d where "Option.bind (bp_current p) sn_data = Some (revision, data)"
    "\<not> bp_poisoned p" "\<not> bp_uncertain p" "sl_publisher selected = bp_publisher p"
    "bt_get (of_id (sl_offering selected)) (bd_offerings (pp_board data)) = Some o'" "of_source o' = of_source (sl_offering selected)"
    "bt_get (of_id (sl_offering selected)) (pp_definitions data) = Some d"
    "dc_value (df_document d) = dc_value (df_document (sl_definition selected))"
    "check_at c m (bp_publisher p) Ac_Select (length (to_string (of_source (sl_offering selected)))) = Inr ()"
proof -
  have checked: "check_at c m (bp_publisher p) Ac_Select (length (to_string (of_source (sl_offering selected)))) = Inr ()"
      "sl_publisher selected = bp_publisher p" "\<not> bp_poisoned p" "\<not> bp_uncertain p"
    using assms by (auto simp: current_selection_def and_then_eq_Inr split: if_splits)
  obtain revision data where data: "Option.bind (bp_current p) sn_data = Some (revision, data)"
    using assms by (auto simp: current_selection_def and_then_eq_Inr ok_or_eq_Inr split: if_splits)
  let ?i = "of_id (sl_offering selected)"
  have "\<not> (case bt_get ?i (bd_offerings (pp_board data)) of None \<Rightarrow> True | Some o' \<Rightarrow> of_source o' \<noteq> of_source (sl_offering selected))"
      "\<not> (case bt_get ?i (pp_definitions data) of None \<Rightarrow> True
           | Some d \<Rightarrow> dc_value (df_document d) \<noteq> dc_value (df_document (sl_definition selected)))"
    using assms data checked by (simp_all add: current_selection_def Let_def split: if_splits)
  then obtain o' d where "bt_get ?i (bd_offerings (pp_board data)) = Some o'" "of_source o' = of_source (sl_offering selected)"
      "bt_get ?i (pp_definitions data) = Some d" "dc_value (df_document d) = dc_value (df_document (sl_definition selected))"
    by (auto split: option.splits)
  with data checked show thesis by (intro that)
qed

text \<open>The check of a selection against the current board compares sources, in which the list they stand in does not show.\<close>

lemma current_selection_direction:
  "current_selection to_string c m (selected\<lparr>sl_offering := (sl_offering selected)\<lparr>of_direction := dir\<rparr>\<rparr>) p
     = current_selection to_string c m selected p"
  by (simp add: current_selection_def Let_def cong: option.case_cong)

lemma inv_published:
  assumes "provider_inv stored sound js p issued" "s \<in> issued \<union> set_option (bp_current p)"
  obtains revision data where "s = snapshot_of p revision data" "published js (bp_limits p) (bp_publisher p) data"
  using assms unfolding provider_inv_def snapshots_ok_def snapshot_complete_def by blast

section \<open>Properties\<close>

text \<open>
  C31: The owner of a publication is consistent, with the file store and whatever fails, is revoked or
  panics: every snapshot handed out, and the current one, is a publication of this owner that the
  preparation accepted as a whole, and a revision never changes; no more revisions are in use than the
  limit allows; the current publication is the stored one unless a write is unresolved; and a read
  hands out the current publication, never one of an unresolved write.
\<close>

theorem board_publication_consistent:
  assumes "provider_run board_file_store (\<lambda>st. honest (bf_directory st)) js p issued"
  shows "(\<forall>s \<in> issued \<union> set_option (bp_current p). \<exists>revision data caps.
      s = \<lparr>sn_publisher = bp_publisher p, sn_board = dc_source (bd_document (pp_board data)),
        sn_data = Some (revision, data), sn_domain = bp_domain p\<rparr> \<and>
      prepared_new js (bp_publisher p) (sn_board s)
        (map (\<lambda>(i, d). (i, dc_source (df_document d))) (pp_definitions data)) (bp_limits p) caps = Inr data) \<and>
    (\<forall>s \<in> issued \<union> set_option (bp_current p). \<forall>t \<in> issued \<union> set_option (bp_current p).
      map_option fst (sn_data s) = map_option fst (sn_data t) \<longrightarrow> s = t) \<and>
    finite {revision. strong_count p revision > 0} \<and>
    card {revision. strong_count p revision > 0} \<le> bl_snapshots (bp_limits p) \<and>
    (\<not> bp_poisoned p \<and> \<not> bp_uncertain p \<longrightarrow>
      board_stored (bp_storage p) = map_option (\<lambda>s. record_from_prepared (snd (the (sn_data s)))) (bp_current p)) \<and>
    (\<forall>s q. provider_read c env p = (Inr s, q) \<longrightarrow> bp_current p = Some s \<and> \<not> bp_uncertain p)"
proof (intro conjI ballI allI impI)
  have inv: "provider_inv board_stored (\<lambda>st. honest (bf_directory st)) js p issued"
    using assms by (rule board_file.run_inv)
  let ?all = "issued \<union> set_option (bp_current p)"
  have snaps: "snapshots_ok js p ?all" and pins: "pins_ok p" using inv by (simp_all add: provider_inv_def)
  show "\<exists>revision data caps.
      s = \<lparr>sn_publisher = bp_publisher p, sn_board = dc_source (bd_document (pp_board data)),
        sn_data = Some (revision, data), sn_domain = bp_domain p\<rparr> \<and>
      prepared_new js (bp_publisher p) (sn_board s)
        (map (\<lambda>(i, d). (i, dc_source (df_document d))) (pp_definitions data)) (bp_limits p) caps = Inr data"
    if "s \<in> ?all" for s
    using inv that by (rule inv_published) (auto simp: snapshot_of_def published_def record_from_prepared_def)
  show "s = t" if "s \<in> ?all" "t \<in> ?all" "map_option fst (sn_data s) = map_option fst (sn_data t)" for s t
    using snaps that unfolding snapshots_ok_def by blast
  show "finite {revision. strong_count p revision > 0}"
    "card {revision. strong_count p revision > 0} \<le> bl_snapshots (bp_limits p)"
    using pins finite_subset [of "live p" "set (bp_pins p)"] by (auto simp: pins_ok_def live_def)
  show "board_stored (bp_storage p) = map_option (\<lambda>s. record_from_prepared (snd (the (sn_data s)))) (bp_current p)"
    if "\<not> bp_poisoned p \<and> \<not> bp_uncertain p"
  proof (cases "bp_current p")
    case (Some s)
    obtain revision data where "s = snapshot_of p revision data" by (rule inv_published [OF inv, of s]) (simp add: Some)
    with inv that Some show ?thesis by (simp add: provider_inv_def snapshot_record_def snapshot_of_def)
  qed (use inv that in \<open>simp add: provider_inv_def\<close>)
  show "bp_current p = Some s" "\<not> bp_uncertain p" if "provider_read c env p = (Inr s, q)" for s q
    using that by (auto simp: provider_read_def and_thread_eq_Inr ok_or_eq_Inr split: if_splits)
qed

text \<open>
  C32: A selection rests on explicit, published and current terms: it holds the offering and the
  definition that the given snapshot has under the requested number, with the requested service,
  version and description; they belong together and the node can serve them; the roles follow from
  the direction of the offering; and the current publication still has the same definition and the
  same offering, up to the direction, under that number, with a live grant to select.
\<close>

theorem board_selection_current:
  assumes "provider_run board_file_store (\<lambda>st. honest (bf_directory st)) js p issued" "snapshot \<in> issued"
    "provider_select to_string c env snapshot r p = Inr selected"
  shows "\<exists>revision data revision' data' o' d.
    sn_data snapshot = Some (revision, data) \<and>
    bt_get (rq_id r) (bd_offerings (pp_board data)) = Some (sl_offering selected) \<and>
    bt_get (rq_id r) (pp_definitions data) = Some (sl_definition selected) \<and>
    of_id (sl_offering selected) = rq_id r \<and> of_service (sl_offering selected) = rq_service r \<and>
    of_version (sl_offering selected) = rq_version r \<and> of_description (sl_offering selected) = rq_description r \<and>
    definition_bound (sl_definition selected) (sl_offering selected) \<and>
    assess (mo_caps (env 1)) (sl_offering selected) (sl_definition selected) (rq_authenticated r) False = Inr () \<and>
    selection_roles selected =
      (if of_direction (sl_offering selected) = Dn_Provided
       then (rq_other r, bp_publisher p, of_issuer (sl_offering selected))
       else (bp_publisher p, rq_other r, of_issuer (sl_offering selected))) \<and>
    Option.bind (bp_current p) sn_data = Some (revision', data') \<and> \<not> bp_uncertain p \<and>
    bt_get (rq_id r) (bd_offerings (pp_board data')) = Some o' \<and>
    o'\<lparr>of_direction := of_direction (sl_offering selected)\<rparr> = sl_offering selected \<and>
    bt_get (rq_id r) (pp_definitions data') = Some d \<and>
    dc_value (df_document d) = dc_value (df_document (sl_definition selected)) \<and>
    ba_live (mo_authority (env 2)) \<and> mo_now (env 2) < cx_deadline c \<and> gr_publisher (cx_grant c) = bp_publisher p \<and>
    gr_action (cx_grant c) = Ac_Select"
proof -
  have inv: "provider_inv board_stored (\<lambda>st. honest (bf_directory st)) js p issued"
    using assms(1) by (rule board_file.run_inv)
  obtain revision data where data: "sn_data snapshot = Some (revision, data)"
      "published js (bp_limits p) (bp_publisher p) data"
    by (rule inv_published [OF inv, of snapshot]) (simp_all add: snapshot_of_def assms(2))
  obtain o1 d1 where found: "bt_get (rq_id r) (bd_offerings (pp_board data)) = Some o1"
      "bt_get (rq_id r) (pp_definitions data) = Some d1"
      and sel: "select o1 d1 (bp_publisher p) r (mo_caps (env 1)) = Inr selected"
      and current: "current_selection to_string c (env 2) selected p = Inr ()"
    using assms(3) data(1) by (auto simp: provider_select_def and_then_eq_Inr ok_or_eq_Inr)
  note parts = selectD [OF sel]
  note offer = published_offering [OF data(2) found(1)]
  from current obtain revision' data' o' d where now: "Option.bind (bp_current p) sn_data = Some (revision', data')"
      "\<not> bp_poisoned p" "\<not> bp_uncertain p" "sl_publisher selected = bp_publisher p"
      "bt_get (of_id (sl_offering selected)) (bd_offerings (pp_board data')) = Some o'" "of_source o' = of_source (sl_offering selected)"
      "bt_get (of_id (sl_offering selected)) (pp_definitions data') = Some d"
      "dc_value (df_document d) = dc_value (df_document (sl_definition selected))"
      and checked: "check_at c (env 2) (bp_publisher p) Ac_Select (length (to_string (of_source (sl_offering selected)))) = Inr ()"
    by (rule current_selectionD)
  have data': "published js (bp_limits p) (bp_publisher p) data'"
  proof -
    from now(1) obtain s where s: "bp_current p = Some s" "sn_data s = Some (revision', data')"
      by (cases "bp_current p") auto
    obtain i t where "s = snapshot_of p i t" "published js (bp_limits p) (bp_publisher p) t"
      by (rule inv_published [OF inv, of s]) (simp add: s)
    with s(2) show ?thesis by (simp add: snapshot_of_def)
  qed
  have "o'\<lparr>of_direction := of_direction (sl_offering selected)\<rparr> = sl_offering selected"
    using offering_parse_source(3) [OF published_offering(2) [OF data' now(5)], of "of_direction o1"] offer(2) now(6)
    by (simp add: parts(1))
  moreover note context_checkD [OF checked] parts(4-6) offer(1) offer(3) [OF found(2)]
  ultimately show ?thesis
    using data(1) found now(1,3,5,7,8)
    by (intro exI [of _ revision] exI [of _ data] exI [of _ revision'] exI [of _ data'] exI [of _ o'] exI [of _ d])
       (auto simp: parts(1,2) selection_roles_def split: if_splits)
qed

section \<open>An example owner\<close>

definition sample_shelf :: BoardStore where
  "sample_shelf = \<lparr>bf_directory = sample_directory\<lparr>fs_faults := []\<rparr>, bf_limits = board_limits_default\<rparr>"

definition sample_moment :: Moment where
  "sample_moment = \<lparr>mo_now = 0, mo_authority = board_authority_new 4, mo_caps = sample_capabilities\<rparr>"

definition sample_call :: "Action \<Rightarrow> CallContext" where
  "sample_call action =
     \<lparr>cx_grant = \<lparr>gr_domain = 4, gr_publisher = sample_publisher, gr_action = action, gr_bytes = 16777216\<rparr>,
      cx_deadline = 9, cx_cancelled = False\<rparr>"

definition sample_owner :: "BoardStore BoardProvider" where
  "sample_owner = \<lparr>bp_limits = board_limits_default, bp_publisher = sample_publisher, bp_domain = 3,
     bp_storage = sample_shelf, bp_poisoned = False, bp_uncertain = False, bp_current = None, bp_pins = [],
     bp_held = (\<lambda>_. 0), bp_fresh = 0\<rparr>"

lemma sample_owner_open:
  "provider_open board_file_store sample_serde sample_publisher board_limits_default sample_moment 3 sample_shelf
     = Inr sample_owner"
  by (simp add: provider_open_def board_provider_new_def board_limits_default_valid provider_load_def board_file_store_def
      on_directory_def load_file_def sample_shelf_def sample_directory_def sample_calls sample_owner_def)

lemma sample_allowed: "n \<le> 16777216 \<Longrightarrow> check_at (sample_call action) sample_moment sample_publisher action n = Inr ()"
  by (simp add: context_check_def board_check_def sample_call_def sample_moment_def board_authority_new_def)

lemma sample_record_encodes:
  "\<exists>bs. board_record_encode (record_from_prepared sample_prepared) board_limits_default = Inr bs"
proof -
  have put: "put_field bs m = Inr (be_bytes 4 (length bs) @ bs)" if "length bs \<le> m" "length bs < 2 ^ 32" for bs m
    using that by (simp add: put_field_eq_Inr)
  show ?thesis
    using board_limits_default_valid
    by (simp add: board_record_encode_eq_Inr record_from_prepared_def sample_prepared_def sample_validated_def
        sample_lengths sample_limits sample_publisher_def put data_size_def ascii_def)
       (simp add: put sample_lengths board_limits_default_def)
qed

lemma sample_committed:
  obtains shelf where "ps_commit board_file_store (record_from_prepared sample_prepared) sample_shelf = (Inr (), shelf)"
    "honest (bf_directory shelf)"
  using sample_record_encodes
  by (auto simp: board_file_store_def on_directory_def commit_file_def publish_board_def stage_board_def sample_shelf_def
      sample_directory_def sample_calls honest_def)

lemma sample_publishes:
  obtains shelf where
    "provider_publish board_file_store sample_serde (sample_call Ac_Publish) (\<lambda>_. sample_moment) sample_prepared sample_owner
      = (Inr (snapshot_of sample_owner 0 sample_prepared),
         sample_owner\<lparr>bp_storage := shelf, bp_current := Some (snapshot_of sample_owner 0 sample_prepared),
           bp_pins := [0], bp_fresh := 1, bp_held := (\<lambda>_. 0)(0 := 1)\<rparr>)"
proof -
  obtain shelf where commit: "ps_commit board_file_store (record_from_prepared sample_prepared) sample_shelf = (Inr (), shelf)"
    by (rule sample_committed)
  have parts: "pp_publisher sample_prepared = sample_publisher" "pp_bytes sample_prepared = 815"
      "dc_source (bd_document (pp_board sample_prepared)) = json_print sample_tree"
      "map (\<lambda>(i, d). (i, dc_source (df_document d))) (pp_definitions sample_prepared) = sample_definitions"
    by (simp_all add: sample_prepared_def sample_definitions_def sample_validated_def)
  have assessed: "prepared_assess sample_prepared sample_capabilities = Inr ()"
    using sample_prepared_new by (auto simp: prepared_new_eq_Inr)
  have owner: "bp_publisher sample_owner = sample_publisher" "bp_limits sample_owner = board_limits_default"
      "\<not> bp_poisoned sample_owner" "mo_caps sample_moment = sample_capabilities"
    by (simp_all add: sample_owner_def sample_moment_def)
  have "publish_locked board_file_store (sample_call Ac_Publish) (\<lambda>_. sample_moment) sample_prepared sample_owner
      = (Inr (snapshot_of sample_owner 0 sample_prepared),
         sample_owner\<lparr>bp_storage := shelf, bp_current := Some (snapshot_of sample_owner 0 sample_prepared),
           bp_pins := [0], bp_fresh := 1, bp_held := (\<lambda>_. 0)(0 := 1)\<rparr>)"
    unfolding publish_locked_def owner parts
    by (simp add: sample_allowed assessed owner)
       (simp add: sample_owner_def retain_pins_def pins_full_def releases_current_def current_revision_def provider_commit_def
        commit add_revision_def hold_def snapshot_of_def board_limits_default_def sample_allowed assessed)
  then have "provider_publish board_file_store sample_serde (sample_call Ac_Publish) (\<lambda>_. sample_moment) sample_prepared sample_owner
      = (Inr (snapshot_of sample_owner 0 sample_prepared),
         sample_owner\<lparr>bp_storage := shelf, bp_current := Some (snapshot_of sample_owner 0 sample_prepared),
           bp_pins := [0], bp_fresh := 1, bp_held := (\<lambda>_. 0)(0 := 1)\<rparr>)"
    unfolding provider_publish_def owner parts Let_def
    by (simp add: sample_allowed sample_limits owner sample_prepared_new)
  then show thesis by (rule that)
qed

lemma sample_owner_run:
  obtains p where
    "provider_run board_file_store (\<lambda>st. honest (bf_directory st)) sample_serde p
      {snapshot_of sample_owner 0 sample_prepared}"
    "bp_current p = Some (snapshot_of sample_owner 0 sample_prepared)" "\<not> bp_poisoned p" "\<not> bp_uncertain p"
    "bp_publisher p = sample_publisher" "bp_domain p = 3" "bp_limits p = board_limits_default"
    "strong_count p 0 > 0"
proof -
  have "provider_run board_file_store (\<lambda>st. honest (bf_directory st)) sample_serde sample_owner {}"
    by (rule provider_run.opens [OF _ _ sample_owner_open])
       (simp_all add: sample_shelf_def honest_def sample_publisher_def)
  moreover have "record_typed (record_from_prepared sample_prepared)"
    using sample_definitions_sorted
    by (auto simp: record_typed_def record_from_prepared_def sample_prepared_def sample_definitions_def sample_validated_def
        sample_publisher_def ascii_def in_range_def)
  ultimately obtain shelf where run: "provider_run board_file_store (\<lambda>st. honest (bf_directory st)) sample_serde
      (sample_owner\<lparr>bp_storage := shelf, bp_current := Some (snapshot_of sample_owner 0 sample_prepared),
         bp_pins := [0], bp_fresh := 1, bp_held := (\<lambda>_. 0)(0 := 1)\<rparr>)
      ({} \<union> handed_out (Inr (snapshot_of sample_owner 0 sample_prepared) :: (BoardError, Snapshot) result))"
    using sample_publishes provider_run.publishes by metis
  show thesis
    by (rule that [OF run [unfolded handed_out_def sum.case Un_empty_left]])
       (simp_all add: sample_owner_def strong_count_def)
qed

theorem board_publication_consistent_witness:
  "\<exists>p s. provider_run board_file_store (\<lambda>st. honest (bf_directory st)) sample_serde p {s} \<and>
     bp_current p = Some s \<and> board_stored (bp_storage p) = Some (record_from_prepared sample_prepared) \<and>
     card {revision. strong_count p revision > 0} \<le> 128"
proof -
  obtain p where p: "provider_run board_file_store (\<lambda>st. honest (bf_directory st)) sample_serde p
      {snapshot_of sample_owner 0 sample_prepared}"
    "bp_current p = Some (snapshot_of sample_owner 0 sample_prepared)" "\<not> bp_poisoned p" "\<not> bp_uncertain p"
    "bp_limits p = board_limits_default" by (rule sample_owner_run)
  from board_publication_consistent [OF p(1)] p
  have "board_stored (bp_storage p) = Some (record_from_prepared sample_prepared)"
    "card {revision. strong_count p revision > 0} \<le> 128"
    by (simp_all add: snapshot_of_def board_limits_default_def)
  with p show ?thesis by blast
qed

definition sample_request :: SelectionRequest where
  "sample_request = \<lparr>rq_id = ascii ''a'', rq_service = ascii ''org.example.echo'', rq_version = 1,
     rq_description = ascii ''Echo.'', rq_other = Identity_Id (replicate 32 2), rq_authenticated = True\<rparr>"

definition sample_terms :: Selection where
  "sample_terms = \<lparr>sl_offering = sample_entry Dn_Provided ''a'', sl_definition = sample_validated ''a'',
     sl_publisher = sample_publisher, sl_requester = Identity_Id (replicate 32 2), sl_provider = sample_publisher\<rparr>"

lemma sample_selects:
  assumes "bp_current p = Some (snapshot_of sample_owner 0 sample_prepared)" "\<not> bp_poisoned p" "\<not> bp_uncertain p"
    "bp_publisher p = sample_publisher" "bp_domain p = 3"
  shows "provider_select (\<lambda>_. []) (sample_call Ac_Select) (\<lambda>_. sample_moment)
    (snapshot_of sample_owner 0 sample_prepared) sample_request p = Inr sample_terms"
proof -
  let ?s = "snapshot_of sample_owner 0 sample_prepared"
  have s: "sn_data ?s = Some (0, sample_prepared)" "sn_publisher ?s = sample_publisher" "sn_domain ?s = 3"
      "length (sn_board ?s) = 387"
    by (simp_all add: snapshot_of_def sample_owner_def sample_prepared_def sample_lengths)
  have found: "bt_get (ascii ''a'') (bd_offerings (pp_board sample_prepared)) = Some (sample_entry Dn_Provided ''a'')"
      "bt_get (ascii ''a'') (pp_definitions sample_prepared) = Some (sample_validated ''a'')"
    by (simp_all add: sample_prepared_def bt_get_def)
  have "select (sample_entry Dn_Provided ''a'') (sample_validated ''a'') sample_publisher sample_request
      (mo_caps sample_moment) = Inr sample_terms"
    by (simp add: select_def sample_request_def sample_terms_def sample_moment_def assess_def sample_capabilities_def
        check_present_def sample_entry_def sample_offering_def sample_validated_def json_get_def bt_get_def ascii_inject)
  moreover have "current_selection (\<lambda>_. []) (sample_call Ac_Select) sample_moment sample_terms p = Inr ()"
    using found assms s(1)
    by (simp add: current_selection_def sample_allowed sample_terms_def sample_entry_def)
  ultimately show ?thesis
    using found assms s by (simp add: provider_select_def check_snapshot_def sample_allowed sample_request_def)
qed

theorem board_selection_current_witness:
  "\<exists>p s. provider_run board_file_store (\<lambda>st. honest (bf_directory st)) sample_serde p {s} \<and>
     provider_select (\<lambda>_. []) (sample_call Ac_Select) (\<lambda>_. sample_moment) s sample_request p = Inr sample_terms \<and>
     definition_bound (sl_definition sample_terms) (sl_offering sample_terms) \<and>
     selection_roles sample_terms = (Identity_Id (replicate 32 2), sample_publisher, Identity_Id (replicate 32 0))"
proof -
  obtain p where p: "provider_run board_file_store (\<lambda>st. honest (bf_directory st)) sample_serde p
      {snapshot_of sample_owner 0 sample_prepared}"
    "bp_current p = Some (snapshot_of sample_owner 0 sample_prepared)" "\<not> bp_poisoned p" "\<not> bp_uncertain p"
    "bp_publisher p = sample_publisher" "bp_domain p = 3" by (rule sample_owner_run)
  note selects = sample_selects [OF p(2-6)]
  from board_selection_current [OF p(1) _ selects]
  have "definition_bound (sl_definition sample_terms) (sl_offering sample_terms)" by auto
  moreover have "selection_roles sample_terms = (Identity_Id (replicate 32 2), sample_publisher, Identity_Id (replicate 32 0))"
    by (simp add: selection_roles_def sample_terms_def sample_entry_def)
  ultimately show ?thesis using p(1) selects by blast
qed

end
