(* ===== verification/Spec2Isabelle.thy ===== *)
theory Spec2Isabelle
  imports Driver_Run Transport_Identity Board_Selection
begin

text \<open>
  TalkSphere verification library.

  TalkSphere (\<open>src/src/\<close>) is a peer-to-peer node in Rust. Its modules are \<open>transport\<close> (authenticated
  connections that carry multiplexed streams), \<open>cryptography\<close> (bounded use of external algorithms and
  the encryption of objects for an identity), \<open>identity\<close> (the node's keys, their protected storage and
  scoped authority over them), \<open>board\<close> (publication of offered and wanted services as bounded JSON
  documents), \<open>services/schema\<close> and \<open>ledger\<close> (contracts only). \<open>composition\<close> joins them into a node.
  The library models the first six and the adapters that give the transport its cryptography and its
  identity, and proves what each promises. This theory imports all others; every theory opens with a
  description of its own, and the properties stand at the end of the theory of their component.

  \<^bold>\<open>Conventions.\<close> A Rust struct is a record, an enum a datatype; the fields and constructors carry a short
  prefix, since HOL records and constructors share one name space. \<open>u8\<close> to \<open>u64\<close> are words, \<open>usize\<close> is a
  natural number whose checked operations fail beyond \<open>usize_max\<close>, byte strings and \<open>String\<close> are lists
  of bytes (UTF-8 validity is \<open>utf8_valid\<close>), \<open>BTreeMap\<close> is a sorted association list (\<open>Btree_Map\<close>).
  \<open>Result\<close> is a sum with the error on the left, \<open>?\<close> is \<open>and_then\<close>, or \<open>and_thread\<close> where the state is
  kept on errors. A method on \<open>&mut self\<close> returns the new state. Logging, wakers and the wiping of freed
  memory have no effect in the model. The identity of an \<open>Arc\<close> is a number.

  \<^bold>\<open>Shared theories.\<close> \<open>Prelude\<close>: integers, big-endian bytes, UTF-8, results. \<open>Wire_Codec\<close>: the locales
  \<open>wire_codec\<close> and \<open>fixed_codec\<close>, a decoder that accepts exactly the encodings of valid values, interpreted
  for every wire format. \<open>Btree_Map\<close>: the locale \<open>ordered_map\<close>, interpreted on sorted lists.

  \<^bold>\<open>Transport\<close> (\<open>src/src/modules/transport/\<close>).
  \<^item> \<open>Frame_Codec\<close>, \<open>Control_Codec\<close>, \<open>Open_Codec\<close>, \<open>Handshake_Codec\<close> model \<open>codec/\<close>. Every decoder is
    exact: it accepts the canonical encodings of valid values and nothing else.
  \<^item> \<open>Transport_Api\<close> (\<open>api.rs\<close>, \<open>handles.rs\<close>, \<open>error.rs\<close>, \<open>config.rs\<close>) and \<open>Resources\<close> (\<open>resources.rs\<close>):
    the vocabulary, and shared budgets whose use is the sum of the live leases in every execution.
  \<^item> \<open>Framing\<close> (\<open>framing/\<close>): the reader and the writer over an arbitrary nonblocking socket. The reader
    agrees with a reference parser for every fragmentation, and both finish within 1025 polls: a poll
    makes at most 64 calls, each moves at least one byte, and a frame has less than 64 * 1025 bytes.
  \<^item> \<open>Crypto_Ports\<close>, \<open>Session_Keys\<close>, \<open>Handshake\<close> (\<open>ports/\<close>, \<open>handshake/\<close>): transcript, key derivation and
    the handshake. A connection is established only with a verified signature of the reported peer over
    this conversation, two honest ends agree or fail with the same error, and an error is final.
  \<^item> \<open>Integrity\<close> (\<open>integrity/mod.rs\<close>): no two frames are sealed, or accepted, under one nonce, the two
    ends stay in step, and a frame that fails its check closes the connection.
  \<^item> \<open>Stream_Ids\<close>, \<open>Registry\<close>, \<open>Session\<close>, \<open>Session_Invariant\<close>, \<open>Scheduler\<close>, \<open>Session_Run\<close> (\<open>stream/\<close>): the
    stream state machine with every operation, its invariant, its output scheduler, and the properties
    of all executions: life cycle of streams, bounds, GOAWAY, order and absence of starvation.
  \<^item> \<open>Disposition\<close> (\<open>failure.rs\<close>), \<open>Connection\<close>, \<open>Connection_Invariant\<close>, \<open>Connection_Run\<close>,
    \<open>Connection_Frame\<close> (\<open>connection/\<close>): one connection over an arbitrary socket and peer. A poll makes at
    most 32 rounds, as in the code. Its end is announced once, nothing is reported before the handshake
    begun by this connection is complete, whose keys then protect its frames, and deadlines and budgets
    are honoured. The record \<open>Origin\<close> holds what tells that handshake from others.
  \<^item> \<open>Driver\<close>, \<open>Driver_Invariant\<close>, \<open>Driver_Run\<close> (\<open>driver/\<close>): all connections, attempts and listeners of a
    node. A poll gives each connection one turn. Events are well formed for every connection and the
    shared budgets account for exactly what is held.

  \<^bold>\<open>Cryptography\<close> (\<open>src/src/modules/cryptography/\<close>). \<open>Primitives\<close>, \<open>Envelope\<close>, \<open>Provider\<close>: bounded
  primitives, recipient credentials, object encryption and the provider. Decryption inverts encryption,
  and an accepted object is exactly a sealing for this identity.

  \<^bold>\<open>Identity\<close> (\<open>src/src/modules/identity/\<close>). \<open>Identity_Api\<close> (textual identities are canonical up to
  letter case), \<open>Identity_Authority\<close> (capabilities, proofs, the stored record), \<open>Identity_Store\<close> (the
  locale \<open>key_store\<close> and the file store that meets it), \<open>Identity_Provider\<close> (creation, loading, signing,
  decryption, backup, restoration). A stored identity is never replaced, wherever the file system fails.

  \<^bold>\<open>Composition\<close> (\<open>src/src/composition/cryptography.rs\<close>, \<open>identity.rs\<close>). \<open>Transport_Crypto\<close> and
  \<open>Transport_Identity\<close>: the adapters behind the ports of the transport. Two ready nodes complete the
  handshake with each other's identities.

  \<^bold>\<open>Board, services and ledger\<close> (\<open>src/src/modules/board/\<close>, \<open>services/schema/\<close>, \<open>ledger/\<close>).
  \<^item> \<open>Json_Document\<close> (\<open>config.rs\<close>, \<open>document.rs\<close>): the preflight of JSON texts, with a grammar it
    decides. Its recursion has the fuel \<open>scan_fuel\<close>, twice the number of bytes and one, which is enough
    because each value and each member consumes a byte.
  \<^item> \<open>Board_Offering\<close> (\<open>offering.rs\<close>, \<open>terms.rs\<close>, \<open>definition.rs\<close>, \<open>semantics.rs\<close>, \<open>response.rs\<close>,
    \<open>services/schema/mod.rs\<close>): exact integers, offerings, definitions, schemas and their assessment.
  \<^item> \<open>Board_Authority\<close> (\<open>board/authority.rs\<close>, \<open>contract.rs\<close>, \<open>ledger/\<close>): scoped, revocable grants; the
    locale \<open>grants\<close> is interpreted for the board and for the ledger.
  \<^item> \<open>Board_Prepared\<close> (\<open>prepared.rs\<close>, \<open>persistence.rs\<close>, \<open>record_codec.rs\<close>): a prepared publication is
    complete and consistent; its record survives encoding. \<open>Board_Sample\<close> is a concrete publication.
  \<^item> \<open>Board_Store\<close> (\<open>linux.rs\<close>): the locale \<open>persistence\<close>, met by the volatile and by the file store, which
    is an atomic register across errors and restarts.
  \<^item> \<open>Board_State\<close> (\<open>state.rs\<close>, \<open>Snapshot\<close> of \<open>contract.rs\<close>): the owner of the publication over any store
    of the locale \<open>persistence\<close>; what it hands out is complete and never mixes revisions.
    \<open>Board_Selection\<close> (\<open>current_selection\<close>, \<open>selection.rs\<close>): selections rest on current terms.

  \<^bold>\<open>Outside code.\<close> What the program calls but does not contain is an argument of the definitions: the
  algorithms are the record \<open>Backend\<close>, the system's entropy a function, sockets, attempts, listeners and
  clock the fields of \<open>Ports\<close>, the JSON library the record \<open>Serde\<close>, what a node can serve the record
  \<open>Capabilities\<close>. Their documented behaviour appears as named hypotheses only where a property rests on
  it: \<open>sized_backend\<close>, \<open>exact_sealing\<close>, \<open>commuting\<close>, \<open>verifying\<close>, \<open>deriving\<close>, \<open>sized_entropy\<close>,
  \<open>deterministic_derivation\<close>, \<open>agreement\<close>, \<open>derives\<close>. Witnesses instantiate them with concrete functions. A directory
  is a map from names to files; each system call may fail, as a list of faults says, and a failing write
  leaves a prefix. Loss of data that was written but not synchronized is not represented, so the two
  stores are shown atomic with respect to errors and the end of the process, not to loss of power.

  \<^bold>\<open>Not modelled.\<close> The cache of remote boards (\<open>board/cache.rs\<close>, \<open>cache_definitions.rs\<close>, the
  selections of \<open>Cache\<close> in \<open>board/selection.rs\<close>) and the contact directory (\<open>identity/contact.rs\<close>,
  \<open>contacts.rs\<close>, \<open>selection.rs\<close>, \<open>storage/contacts.rs\<close>): not covered yet. The walk from a path to the
  directory of a store (\<open>open_directory\<close>, \<open>directory\<close>): it concerns the file tree above the store. The
  socket and clock adapters (\<open>transport/adapters/\<close>): operating system calls through an event library,
  whose contract the port records express. The server loop (\<open>composition/server/\<close>), logging, command
  line (\<open>cli/\<close>) and \<open>main.rs\<close>: input and output around the driver modelled here. \<open>test_support\<close> and test
  modules: not part of the program.
\<close>

end
